(* ===== verification/Prelude.thy ===== *)
theory Prelude
  imports Main "HOL-Library.Word" "HOL-Library.Multiset"
begin

text \<open>
  Shared vocabulary of the development.  The kernel's fixed-width integers are words of
  \<open>HOL-Library.Word\<close>; a function of the source that returns zero or a negative errno
  returns here a value of \<open>errno + 'a\<close> (\<open>Inl e\<close> for \<^verbatim>\<open>-e\<close>).  A pointer argument copied
  from user space is a value of \<open>'a uarg\<close>: null, faulting, or carrying the copied data.
  The theory also holds the generic facts on lists and words that several components use,
  collected in \<open>kernel_simps\<close>, and the environment of the sleeping primitives
  (kernel/include/proc/park.h).
\<close>

unbundle bit_operations_syntax

named_theorems kernel_simps \<open>rewriting facts shared by the component theories\<close>

subsection \<open>Machine types and errors\<close>

type_synonym u8 = "8 word"
type_synonym u16 = "16 word"
type_synonym u32 = "32 word"
type_synonym u64 = "64 word"
type_synonym pid = int

text \<open>The error numbers of kernel/include/core/errno.h that the modelled functions return.\<close>

datatype errno =
    EPERM | ENOENT | EINTR | EBADF | EAGAIN | ENOMEM | EACCES | EFAULT | EBUSY | EEXIST
  | EINVAL | EMFILE | EFBIG | ENOSPC | EPIPE | EDEADLK | ENOLCK | ERESTARTSYS

datatype 'a uarg = UNull | UFault | UOk 'a

text \<open>The ways a sleeping task is woken (\<^verbatim>\<open>proc_wake_reason_t\<close>).\<close>

datatype wake_reason =
    PROC_WAKE_NONE | PROC_WAKE_EVENT | PROC_WAKE_TIMEOUT | PROC_WAKE_TIMEOUT_CAPACITY
  | PROC_WAKE_SIGNAL | PROC_WAKE_FATAL_SIGNAL | PROC_WAKE_TASK_EXIT | PROC_WAKE_EXIT
  | PROC_WAKE_CANCEL

definition proc_wake_reason_is_task_interrupt :: "wake_reason \<Rightarrow> bool" where
  "proc_wake_reason_is_task_interrupt r \<longleftrightarrow>
     r = PROC_WAKE_SIGNAL \<or> r = PROC_WAKE_FATAL_SIGNAL \<or> r = PROC_WAKE_TASK_EXIT"

text \<open>Signed 64-bit arithmetic: the value kept of an unbounded integer result.\<close>

definition wrap64 :: "int \<Rightarrow> int" where
  "wrap64 x = signed_take_bit 63 x"

definition INT64_MAX :: int where
  "INT64_MAX = 0x7FFFFFFFFFFFFFFF"

lemma wrap64_id [simp]: "- 0x8000000000000000 \<le> x \<Longrightarrow> x \<le> INT64_MAX \<Longrightarrow> wrap64 x = x"
  by (simp add: wrap64_def INT64_MAX_def signed_take_bit_int_eq_self)

lemma wrap64_le: "wrap64 x \<le> INT64_MAX"
  using signed_take_bit_int_less_exp [of 63 x] by (simp add: wrap64_def INT64_MAX_def)

lemma wrap64_ge: "- 0x8000000000000000 \<le> wrap64 x"
  using signed_take_bit_int_greater_eq_minus_exp [of 63 x] by (simp add: wrap64_def)

lemma wrap64_overflow [simp]: "wrap64 (INT64_MAX + 1) = - 0x8000000000000000"
  by (simp add: wrap64_def INT64_MAX_def signed_take_bit_def concat_bit_def take_bit_int_def
      mask_eq_exp_minus_1 not_int_def)

subsection \<open>Bits\<close>

text \<open>\<^verbatim>\<open>mask & (1u << n)\<close> as a test.\<close>

definition has_bit :: "'a::len word \<Rightarrow> nat \<Rightarrow> bool" where
  "has_bit m n \<longleftrightarrow> m AND push_bit n 1 \<noteq> 0"

lemma has_bit_iff: "has_bit m n \<longleftrightarrow> bit m n"
proof
  assume "has_bit m n"
  then obtain k where "bit (m AND push_bit n 1) k"
    unfolding has_bit_def using bit_word_eqI [of "m AND push_bit n 1" 0] by auto
  then show "bit m n" by (auto simp: bit_simps)
next
  assume "bit m n"
  then have "bit (m AND push_bit n 1) n"
    by (auto simp: bit_simps dest: bit_imp_le_length)
  then show "has_bit m n"
    unfolding has_bit_def by auto
qed

text \<open>\<^verbatim>\<open>(a & ~b) == 0\<close>: every bit of \<open>a\<close> is a bit of \<open>b\<close>.\<close>

definition bits_within :: "'a::len word \<Rightarrow> 'a word \<Rightarrow> bool" where
  "bits_within a b \<longleftrightarrow> a AND NOT b = 0"

lemma bits_within_and [simp, kernel_simps]: "bits_within (a AND b) b"
  unfolding bits_within_def by (rule bit_word_eqI) (auto simp: bit_simps)

lemma bits_within_id: "bits_within a b \<Longrightarrow> a AND b = a"
  unfolding bits_within_def
  by (metis (no_types, lifting) and.right_neutral bit.conj_disj_distrib
      bit.disj_cancel_right or.right_neutral)

subsection \<open>Words and lists\<close>

lemma unat_dec [kernel_simps]: "(w::'a::len word) \<noteq> 0 \<Longrightarrow> unat (w - 1) = unat w - 1"
  by (simp add: unat_minus_one)

lemma unat_sub_le [kernel_simps]: "(b::'a::len word) \<le> a \<Longrightarrow> unat (a - b) = unat a - unat b"
  by (rule unat_sub)

lemma set_update_cases:
  "x \<in> set (xs[i := v]) \<Longrightarrow> x = v \<or> x \<in> set xs"
  using set_update_subset_insert [of xs i v] by auto

lemma list_all_update:
  "list_all P xs \<Longrightarrow> P v \<Longrightarrow> list_all P (xs[i := v])"
  by (auto simp: list_all_iff dest: set_update_cases)

lemma set_fill_slot:
  assumes "i < length rs" "rs ! i = None"
  shows "Some q \<in> set (rs[i := Some a]) \<longleftrightarrow> q = a \<or> Some q \<in> set rs"
proof
  assume "Some q \<in> set (rs[i := Some a])"
  then show "q = a \<or> Some q \<in> set rs"
    using set_update_subset_insert by fastforce
next
  assume "q = a \<or> Some q \<in> set rs"
  then show "Some q \<in> set (rs[i := Some a])"
  proof
    assume "Some q \<in> set rs"
    then obtain j where "j < length rs" "rs ! j = Some q" by (auto simp: in_set_conv_nth)
    then have "j < length (rs[i := Some a])" "rs[i := Some a] ! j = Some q"
      using assms by (auto simp: nth_list_update)
    then show ?thesis using nth_mem by metis
  qed (use assms in \<open>simp add: set_update_memI\<close>)
qed

end
