(* ===== verification/Envelope.thy ===== *)
theory Envelope
  imports Prelude
begin

text \<open>
  The capability-envelope mediator (kernel/ipc/envelope.c, kernel/include/ipc/envelope.h).
  An envelope attaches a budgeted capability policy to tasks: every acquisition and every
  use of a descriptor is checked against the policy and charged to its budgets.

  The kernel's objects are a heap of envelopes addressed by numbers, the instance registry
  is an array of pointers into it, and each task carries an envelope pointer.  Every entry
  point is one definition from the state (and the ticks it reads) to its result and the new
  state; each runs as one step.  Where the code takes the envelope's lock more than once
  (\<^verbatim>\<open>env_check_expired\<close> drops it before the decision takes it again) or drops the lock of the task
  list between two batches of the kill, the step is the call with nobody in between: a call in
  flight while another task revokes its envelope, and tasks that appear or leave between two
  batches, are outside the model.  The allocator, \<^verbatim>\<open>copy_from_user\<close>, the socket table probe and the clock are arguments.
\<close>

unbundle bit_operations_syntax

subsection \<open>Data\<close>

record a20_env_policy =
  allowed_types :: u32
  rights_by_class :: "u64 list"
  time_budget_ns :: u64
  op_budget :: u64
  data_budget :: u64
  propagation_types :: u32
  pol_flags :: u32

record a20_env_stats =
  acquire_ok :: u64
  acquire_deny_type :: u64
  acquire_deny_rights :: u64
  use_ok :: u64
  use_deny_ops :: u64
  use_deny_data :: u64
  use_deny_rights :: u64
  use_deny_expired :: u64
  bytes_charged :: u64
  st_expired :: bool
  st_n_shadows :: nat

record a20_env_audit =
  n_envelopes :: u32
  n_attached_tasks :: u32
  n_shadows :: u32
  violations :: u32
  v_type_allowed :: u32
  v_rights_sub_cap :: u32
  v_budget_nonneg :: u32
  v_task_dangling :: u32

record env_shadow =
  sh_gfd :: int
  sh_obj_type :: u8
  sh_rights :: u64

record a20_envelope =
  refs :: int
  policy :: a20_env_policy
  expire_tick :: u64
  remaining_ops :: u64
  remaining_data :: u64
  expired :: bool
  kill_sent :: bool
  owner_pid :: pid
  shadows :: "env_shadow list"
  stats :: a20_env_stats

text \<open>
  The state the mediator works on: the envelopes in memory, the registry, the kernel's task
  list with each task's envelope pointer and user id, the global fd-kind table, and the
  signals sent so far (the effect of \<^verbatim>\<open>signal_send\<close>).
\<close>

record env_state =
  env_heap :: "nat \<Rightarrow> a20_envelope option"
  env_registry :: "nat option list"
  tasklist :: "pid list"
  task_envelope :: "pid \<Rightarrow> nat option"
  task_uid :: "pid \<Rightarrow> nat"
  env_gfd_kind :: "u8 list"
  signals_sent :: "(pid \<times> nat) list"

definition A20_ENV_MAX_INSTANCES :: nat where "A20_ENV_MAX_INSTANCES = 1024"
definition A20_ENV_MAX_SHADOWS :: nat where "A20_ENV_MAX_SHADOWS = 128"
definition MAX_FILES :: nat where "MAX_FILES = 4096"
definition A20_ENV_F_KILL_ON_EXPIRE :: nat where "A20_ENV_F_KILL_ON_EXPIRE = 0"
definition SIGKILL :: nat where "SIGKILL = 9"
definition ENV_NS_PER_SEC :: u64 where "ENV_NS_PER_SEC = 1000000000"
definition KILL_BATCH :: nat where "KILL_BATCH = 32"

definition A20_OBJ_FILE :: u8 where "A20_OBJ_FILE = 3"
definition A20_OBJ_SOCKET :: u8 where "A20_OBJ_SOCKET = 5"
definition A20_RIGHT_READ :: u64 where "A20_RIGHT_READ = push_bit 0 1"
definition A20_RIGHT_WRITE :: u64 where "A20_RIGHT_WRITE = push_bit 1 1"
definition A20_RIGHT_STAT :: u64 where "A20_RIGHT_STAT = push_bit 3 1"
definition A20_RIGHT_SEEK :: u64 where "A20_RIGHT_SEEK = push_bit 4 1"
definition A20_RIGHT_CONNECT :: u64 where "A20_RIGHT_CONNECT = push_bit 9 1"
definition A20_RIGHT_ACCEPT :: u64 where "A20_RIGHT_ACCEPT = push_bit 10 1"

text \<open>\<^verbatim>\<open>allowed_types & (1u << obj_type)\<close> and \<^verbatim>\<open>rights_by_class[obj_type]\<close>; the array has
  32 entries, and an index past it is read as the empty right set.\<close>

definition env_type_allowed :: "a20_env_policy \<Rightarrow> u8 \<Rightarrow> bool" where
  "env_type_allowed p ty \<longleftrightarrow> has_bit (allowed_types p) (unat ty)"

definition env_class_cap :: "a20_env_policy \<Rightarrow> u8 \<Rightarrow> u64" where
  "env_class_cap p ty =
     (if unat ty < length (rights_by_class p) then rights_by_class p ! unat ty else 0)"

definition env_put :: "nat \<Rightarrow> a20_envelope \<Rightarrow> env_state \<Rightarrow> env_state" where
  "env_put p e s = s\<lparr>env_heap := (env_heap s)(p \<mapsto> e)\<rparr>"

subsection \<open>Reference counts and the registry\<close>

text \<open>\<^verbatim>\<open>env_ns_to_ticks\<close> returns \<^verbatim>\<open>int\<close>: the 64-bit quotient is cut to 32 bits and read as
  a signed value.  \<open>tps\<close> is \<^verbatim>\<open>TICKS_PER_SEC\<close>.\<close>

definition env_ns_to_ticks :: "u64 \<Rightarrow> u64 \<Rightarrow> 32 word" where
  "env_ns_to_ticks tps ns =
     (if ns = 0 then 0 else ucast (ns div (ENV_NS_PER_SEC div tps) + 1))"

definition env_destroy :: "nat \<Rightarrow> env_state \<Rightarrow> env_state" where
  "env_destroy p s =
     s\<lparr>env_registry := map (\<lambda>r. if r = Some p then None else r) (env_registry s),
       env_heap := (env_heap s)(p := None)\<rparr>"

definition env_get_ref :: "nat \<Rightarrow> env_state \<Rightarrow> env_state" where
  "env_get_ref p s = (case env_heap s p of None \<Rightarrow> s
     | Some e \<Rightarrow> env_put p (e\<lparr>refs := refs e + 1\<rparr>) s)"

definition env_put_ref :: "nat \<Rightarrow> env_state \<Rightarrow> env_state" where
  "env_put_ref p s = (case env_heap s p of None \<Rightarrow> s
     | Some e \<Rightarrow>
         let s' = env_put p (e\<lparr>refs := refs e - 1\<rparr>) s
         in if refs e - 1 = 0 then env_destroy p s' else s')"

subsection \<open>Expiry\<close>

definition env_mark_expired_locked :: "a20_envelope \<Rightarrow> a20_envelope" where
  "env_mark_expired_locked e = (if expired e then e else e\<lparr>expired := True\<rparr>)"

text \<open>
  \<^verbatim>\<open>env_kill_tasks\<close>: one pass over the task list keeps, in ascending order, the
  \<^verbatim>\<open>KILL_BATCH\<close> smallest pids above the cursor that carry the envelope.  The inner loop
  shifts larger entries right from the end of the array, so it runs over the reversed batch.
\<close>

fun kill_shift :: "pid \<Rightarrow> pid list \<Rightarrow> pid list" where
  "kill_shift p [] = [p]"
| "kill_shift p (x # xs) = (if x > p then x # kill_shift p xs else p # x # xs)"

definition kill_insert :: "nat \<Rightarrow> pid list \<Rightarrow> pid \<Rightarrow> pid list" where
  "kill_insert cap b p =
     (if length b = cap \<and> b \<noteq> [] \<and> p \<ge> last b then b
      else let b' = (if length b < cap then b else butlast b)
           in rev (kill_shift p (rev b')))"

fun kill_collect :: "nat \<Rightarrow> (pid \<Rightarrow> bool) \<Rightarrow> pid \<Rightarrow> pid list \<Rightarrow> pid list \<Rightarrow> pid list" where
  "kill_collect cap att cursor [] b = b"
| "kill_collect cap att cursor (t # ts) b =
     (if \<not> att t \<or> t \<le> cursor then kill_collect cap att cursor ts b
      else kill_collect cap att cursor ts (kill_insert cap b t))"

lemma set_kill_shift [simp]: "set (kill_shift p xs) = insert p (set xs)"
  by (induction xs) auto

lemma set_kill_insert: "set (kill_insert cap b p) \<subseteq> insert p (set b)"
  by (auto simp: kill_insert_def Let_def dest: in_set_butlastD)

lemma set_kill_collect:
  "set (kill_collect cap att cursor ts b) \<subseteq> set b \<union> {t \<in> set ts. att t \<and> cursor < t}"
proof (induction ts arbitrary: b)
  case (Cons t ts)
  have "set (kill_collect cap att cursor ts (kill_insert cap b t))
      \<subseteq> insert t (set b) \<union> {t \<in> set ts. att t \<and> cursor < t}"
    using Cons.IH [of "kill_insert cap b t"] set_kill_insert [of cap b t] by blast
  moreover have "set (kill_collect cap att cursor ts b)
      \<subseteq> set b \<union> {t \<in> set ts. att t \<and> cursor < t}"
    by (rule Cons.IH)
  ultimately show ?case
    by (auto dest: subsetD)
qed simp

text \<open>The batches, over one task list: no task appears, leaves or changes its envelope between them.\<close>

function env_kill_loop :: "nat \<Rightarrow> (pid \<Rightarrow> bool) \<Rightarrow> pid list \<Rightarrow> pid \<Rightarrow> pid list" where
  "env_kill_loop cap att ts cursor =
     (let b = kill_collect cap att cursor ts []
      in if b = [] then [] else b @ env_kill_loop cap att ts (last b))"
  by pat_completeness auto
termination
proof (relation "measure (\<lambda>(cap, att, ts, cursor). card {t \<in> set ts. att t \<and> cursor < t})")
  fix cap att ts cursor b
  assume b: "b = kill_collect cap att cursor ts []" and ne: "b \<noteq> []"
  have "last b \<in> {t \<in> set ts. att t \<and> cursor < t}"
    using set_kill_collect [of cap att cursor ts "[]"] last_in_set [OF ne] b by auto
  then have "{t \<in> set ts. att t \<and> last b < t} \<subset> {t \<in> set ts. att t \<and> cursor < t}"
    by auto
  then show "((cap, att, ts, last b), cap, att, ts, cursor)
      \<in> measure (\<lambda>(cap, att, ts, cursor). card {t \<in> set ts. att t \<and> cursor < t})"
    by (simp add: psubset_card_mono)
qed simp

declare env_kill_loop.simps [simp del]

definition env_kill_tasks :: "nat \<Rightarrow> env_state \<Rightarrow> env_state" where
  "env_kill_tasks p s =
     s\<lparr>signals_sent := signals_sent s @
         map (\<lambda>t. (t, SIGKILL))
           (env_kill_loop KILL_BATCH (\<lambda>t. task_envelope s t = Some p) (tasklist s) (-1))\<rparr>"

text \<open>The \<^verbatim>\<open>kill_sent\<close> exchange followed by the kill, shared by expiry and revocation.\<close>

definition env_kill_once :: "nat \<Rightarrow> env_state \<Rightarrow> env_state" where
  "env_kill_once p s = (case env_heap s p of None \<Rightarrow> s
     | Some e \<Rightarrow>
         if has_bit (pol_flags (policy e)) A20_ENV_F_KILL_ON_EXPIRE \<and> \<not> kill_sent e
         then env_kill_tasks p (env_put p (e\<lparr>kill_sent := True\<rparr>) s) else s)"

definition env_check_expired :: "u64 \<Rightarrow> nat \<Rightarrow> env_state \<Rightarrow> (errno + unit) \<times> env_state" where
  "env_check_expired now p s = (case env_heap s p of None \<Rightarrow> (Inr (), s)
     | Some e \<Rightarrow>
         let e' = (if \<not> expired e \<and> expire_tick e \<noteq> 0 \<and> now \<ge> expire_tick e
                   then env_mark_expired_locked e else e);
             s' = env_put p e' s
         in if expired e' then (Inl EACCES, env_kill_once p s') else (Inr (), s'))"

subsection \<open>Acquisition mediation\<close>

text \<open>The slot scan of \<^verbatim>\<open>env_acquire_charge_install_locked\<close>: the slot that already names
  the descriptor ends the scan, otherwise the first free slot (negative gfd) is taken.\<close>

fun env_find_slot :: "int \<Rightarrow> nat \<Rightarrow> nat option \<Rightarrow> env_shadow list \<Rightarrow> nat option" where
  "env_find_slot gfd i slot [] = slot"
| "env_find_slot gfd i slot (sh # rest) =
     (if sh_gfd sh = gfd then Some i
      else env_find_slot gfd (Suc i)
             (if slot = None \<and> sh_gfd sh < 0 then Some i else slot) rest)"

definition env_acquire_charge_install_locked ::
  "a20_envelope \<Rightarrow> u8 \<Rightarrow> u64 \<Rightarrow> int \<Rightarrow> (errno + unit) \<times> a20_envelope" where
  "env_acquire_charge_install_locked e ty rights gfd =
     (if remaining_ops e = 0
      then (Inl EACCES, e\<lparr>stats := (stats e)\<lparr>use_deny_ops := use_deny_ops (stats e) + 1\<rparr>\<rparr>)
      else
        let e1 = e\<lparr>remaining_ops := remaining_ops e - 1\<rparr>
        in case env_find_slot gfd 0 None (shadows e1) of
             None \<Rightarrow> (Inl EMFILE, e1)
           | Some i \<Rightarrow>
               (Inr (), e1\<lparr>shadows := (shadows e1)
                             [i := \<lparr>sh_gfd = gfd, sh_obj_type = ty, sh_rights = rights\<rparr>],
                           stats := (stats e1)\<lparr>acquire_ok := acquire_ok (stats e1) + 1\<rparr>\<rparr>))"

text \<open>The part of \<^verbatim>\<open>env_mediate_acquire\<close> that runs under the envelope's lock.\<close>

definition env_acquire_locked ::
  "a20_envelope \<Rightarrow> u8 \<Rightarrow> u64 \<Rightarrow> int \<Rightarrow> (errno + unit) \<times> a20_envelope" where
  "env_acquire_locked e ty rights gfd =
     (if \<not> env_type_allowed (policy e) ty
      then (Inl EPERM,
            e\<lparr>stats := (stats e)\<lparr>acquire_deny_type := acquire_deny_type (stats e) + 1\<rparr>\<rparr>)
      else
        let cap = env_class_cap (policy e) ty
        in if \<not> bits_within rights cap
           then (Inl EACCES,
                 e\<lparr>stats := (stats e)\<lparr>acquire_deny_rights := acquire_deny_rights (stats e) + 1\<rparr>\<rparr>)
           else env_acquire_charge_install_locked e ty (rights AND cap) gfd)"

definition env_acquire_gfd_locked ::
  "a20_envelope \<Rightarrow> u8 \<Rightarrow> int \<Rightarrow> (errno + unit) \<times> a20_envelope" where
  "env_acquire_gfd_locked e kind gfd =
     (let want = A20_RIGHT_READ OR A20_RIGHT_WRITE OR A20_RIGHT_STAT OR A20_RIGHT_SEEK;
          want' = (if kind = A20_OBJ_SOCKET
                   then want OR (A20_RIGHT_CONNECT OR A20_RIGHT_ACCEPT) else want)
      in if \<not> env_type_allowed (policy e) kind
         then (Inl EPERM,
               e\<lparr>stats := (stats e)\<lparr>acquire_deny_type := acquire_deny_type (stats e) + 1\<rparr>\<rparr>)
         else
           let granted = want' AND env_class_cap (policy e) kind
           in if granted = 0
              then (Inl EACCES,
                    e\<lparr>stats := (stats e)\<lparr>acquire_deny_rights := acquire_deny_rights (stats e) + 1\<rparr>\<rparr>)
              else env_acquire_charge_install_locked e kind granted gfd)"

text \<open>One operation charged without a shadow, as in the send and class checks.\<close>

definition env_charge_op :: "a20_envelope \<Rightarrow> (errno + unit) \<times> a20_envelope" where
  "env_charge_op e =
     (if remaining_ops e = 0
      then (Inl EACCES, e\<lparr>stats := (stats e)\<lparr>use_deny_ops := use_deny_ops (stats e) + 1\<rparr>\<rparr>)
      else (Inr (), e\<lparr>remaining_ops := remaining_ops e - 1\<rparr>))"

definition env_send_fd_locked :: "a20_envelope \<Rightarrow> u8 \<Rightarrow> (errno + unit) \<times> a20_envelope" where
  "env_send_fd_locked e kind =
     (if \<not> has_bit (propagation_types (policy e)) (unat kind) then (Inl EPERM, e)
      else env_charge_op e)"

definition env_class_locked :: "a20_envelope \<Rightarrow> u8 \<Rightarrow> (errno + unit) \<times> a20_envelope" where
  "env_class_locked e ty =
     (if \<not> env_type_allowed (policy e) ty
      then (Inl EPERM,
            e\<lparr>stats := (stats e)\<lparr>acquire_deny_type := acquire_deny_type (stats e) + 1\<rparr>\<rparr>)
      else env_charge_op e)"

subsection \<open>Use mediation\<close>

text \<open>The first shadow that names the descriptor, as the scan loops find it.\<close>

definition env_shadow_of :: "a20_envelope \<Rightarrow> int \<Rightarrow> env_shadow option" where
  "env_shadow_of e gfd = find (\<lambda>sh. sh_gfd sh = gfd) (shadows e)"

definition env_use_dir_locked ::
  "a20_envelope \<Rightarrow> int \<Rightarrow> u64 \<Rightarrow> int \<Rightarrow> (errno + unit) \<times> a20_envelope" where
  "env_use_dir_locked e gfd bytes want_write =
     (let sh = env_shadow_of e gfd;
          need = (if want_write = 1 then A20_RIGHT_WRITE else A20_RIGHT_READ)
      in if sh \<noteq> None \<and> want_write \<ge> 0 \<and> sh_rights (the sh) AND need = 0
         then (Inl EACCES,
               e\<lparr>stats := (stats e)\<lparr>use_deny_rights := use_deny_rights (stats e) + 1\<rparr>\<rparr>)
         else if remaining_ops e = 0
         then (Inl EACCES, e\<lparr>stats := (stats e)\<lparr>use_deny_ops := use_deny_ops (stats e) + 1\<rparr>\<rparr>)
         else
           let e1 = e\<lparr>remaining_ops := remaining_ops e - 1\<rparr>
           in if bytes > 0 \<and> remaining_data e1 < bytes
              then (Inl EACCES,
                    e1\<lparr>stats := (stats e1)\<lparr>use_deny_data := use_deny_data (stats e1) + 1\<rparr>\<rparr>)
              else
                let e2 = (if bytes > 0
                          then e1\<lparr>remaining_data := remaining_data e1 - bytes,
                                  stats := (stats e1)\<lparr>bytes_charged := bytes_charged (stats e1) + bytes\<rparr>\<rparr>
                          else e1)
                in (Inr (), e2\<lparr>stats := (stats e2)\<lparr>use_ok := use_ok (stats e2) + 1\<rparr>\<rparr>))"

subsection \<open>The fd-kind registry\<close>

definition env_kind_register :: "int \<Rightarrow> u8 \<Rightarrow> env_state \<Rightarrow> env_state" where
  "env_kind_register gfd ty s =
     (if gfd \<ge> 0 \<and> gfd < int (length (env_gfd_kind s))
      then s\<lparr>env_gfd_kind := (env_gfd_kind s)[nat gfd := ty]\<rparr> else s)"

definition env_kind_unregister :: "int \<Rightarrow> env_state \<Rightarrow> env_state" where
  "env_kind_unregister gfd s =
     (if gfd \<ge> 0 \<and> gfd < int (length (env_gfd_kind s))
      then s\<lparr>env_gfd_kind := (env_gfd_kind s)[nat gfd := 0]\<rparr> else s)"

text \<open>\<open>sock\<close> is \<^verbatim>\<open>net_socket_from_file\<close>, the socket table's lookup.\<close>

definition env_kind_of :: "(int \<Rightarrow> bool) \<Rightarrow> int \<Rightarrow> env_state \<Rightarrow> u8" where
  "env_kind_of sock gfd s =
     (if gfd \<ge> 0 \<and> gfd < int (length (env_gfd_kind s)) \<and> env_gfd_kind s ! nat gfd \<noteq> 0
      then env_gfd_kind s ! nat gfd
      else if gfd \<ge> 0 \<and> sock gfd then A20_OBJ_SOCKET else A20_OBJ_FILE)"

subsection \<open>The mediation entry points\<close>

text \<open>
  Every entry point has the same frame: a task with no envelope passes, an expired envelope
  denies, and otherwise the locked part decides and updates the envelope.  In the source the
  check for expiry and the locked part are two critical sections, and the second does not look
  at \<^verbatim>\<open>expired\<close> again; here nothing happens between them.
\<close>

definition env_mediate ::
  "(a20_envelope \<Rightarrow> (errno + unit) \<times> a20_envelope) \<Rightarrow> u64 \<Rightarrow> pid \<Rightarrow> env_state
     \<Rightarrow> (errno + unit) \<times> env_state" where
  "env_mediate locked now cur s = (case task_envelope s cur of
       None \<Rightarrow> (Inr (), s)
     | Some p \<Rightarrow>
         (case env_check_expired now p s of
            (Inl err, s1) \<Rightarrow> (Inl err, s1)
          | (Inr _, s1) \<Rightarrow>
              (case env_heap s1 p of
                 None \<Rightarrow> (Inr (), s1)
               | Some e \<Rightarrow> (case locked e of (r, e') \<Rightarrow> (r, env_put p e' s1)))))"

definition env_mediate_acquire ::
  "u8 \<Rightarrow> u64 \<Rightarrow> int \<Rightarrow> u64 \<Rightarrow> pid \<Rightarrow> env_state \<Rightarrow> (errno + unit) \<times> env_state" where
  "env_mediate_acquire ty rights gfd = env_mediate (\<lambda>e. env_acquire_locked e ty rights gfd)"

definition env_mediate_acquire_gfd ::
  "(int \<Rightarrow> bool) \<Rightarrow> int \<Rightarrow> u64 \<Rightarrow> pid \<Rightarrow> env_state \<Rightarrow> (errno + unit) \<times> env_state" where
  "env_mediate_acquire_gfd sock gfd now cur s =
     env_mediate (\<lambda>e. env_acquire_gfd_locked e (env_kind_of sock gfd s) gfd) now cur s"

definition env_mediate_acquire_socket ::
  "u64 \<Rightarrow> int \<Rightarrow> u64 \<Rightarrow> pid \<Rightarrow> env_state \<Rightarrow> (errno + unit) \<times> env_state" where
  "env_mediate_acquire_socket = env_mediate_acquire A20_OBJ_SOCKET"

definition env_mediate_send_fd ::
  "(int \<Rightarrow> bool) \<Rightarrow> int \<Rightarrow> u64 \<Rightarrow> pid \<Rightarrow> env_state \<Rightarrow> (errno + unit) \<times> env_state" where
  "env_mediate_send_fd sock gfd now cur s =
     env_mediate (\<lambda>e. env_send_fd_locked e (env_kind_of sock gfd s)) now cur s"

definition env_mediate_class ::
  "u8 \<Rightarrow> u64 \<Rightarrow> pid \<Rightarrow> env_state \<Rightarrow> (errno + unit) \<times> env_state" where
  "env_mediate_class ty = env_mediate (\<lambda>e. env_class_locked e ty)"

definition env_mediate_use_dir ::
  "int \<Rightarrow> u64 \<Rightarrow> int \<Rightarrow> u64 \<Rightarrow> pid \<Rightarrow> env_state \<Rightarrow> (errno + unit) \<times> env_state" where
  "env_mediate_use_dir gfd bytes want_write =
     env_mediate (\<lambda>e. env_use_dir_locked e gfd bytes want_write)"

definition env_mediate_use ::
  "int \<Rightarrow> u64 \<Rightarrow> u64 \<Rightarrow> pid \<Rightarrow> env_state \<Rightarrow> (errno + unit) \<times> env_state" where
  "env_mediate_use gfd bytes = env_mediate_use_dir gfd bytes (-1)"

text \<open>The rights of the shadow for a descriptor, \<open>None\<close> when \<^verbatim>\<open>*tracked\<close> stays clear.\<close>

definition env_shadow_rights_of_gfd :: "int \<Rightarrow> pid \<Rightarrow> env_state \<Rightarrow> u64 option" where
  "env_shadow_rights_of_gfd gfd cur s =
     (case task_envelope s cur of None \<Rightarrow> None
      | Some p \<Rightarrow> (case env_heap s p of None \<Rightarrow> None
          | Some e \<Rightarrow> map_option sh_rights (env_shadow_of e gfd)))"

subsection \<open>Lifetime\<close>

definition env_active :: "pid \<Rightarrow> env_state \<Rightarrow> bool" where
  "env_active t s \<longleftrightarrow> task_envelope s t \<noteq> None"

definition env_inherit_task :: "pid \<Rightarrow> pid \<Rightarrow> env_state \<Rightarrow> env_state" where
  "env_inherit_task child parent s = (case task_envelope s parent of
       None \<Rightarrow> s
     | Some p \<Rightarrow>
         let s' = env_get_ref p s
         in s'\<lparr>task_envelope := (task_envelope s')(child := Some p)\<rparr>)"

definition env_release_task :: "pid \<Rightarrow> env_state \<Rightarrow> env_state" where
  "env_release_task t s =
     (let s' = s\<lparr>task_envelope := (task_envelope s)(t := None)\<rparr>
      in case task_envelope s t of None \<Rightarrow> s' | Some p \<Rightarrow> env_put_ref p s')"

subsection \<open>The control plane\<close>

definition env_stats_zero :: a20_env_stats where
  "env_stats_zero = \<lparr>acquire_ok = 0, acquire_deny_type = 0, acquire_deny_rights = 0, use_ok = 0,
     use_deny_ops = 0, use_deny_data = 0, use_deny_rights = 0, use_deny_expired = 0,
     bytes_charged = 0, st_expired = False, st_n_shadows = 0\<rparr>"

definition env_new :: "u64 \<Rightarrow> u64 \<Rightarrow> pid \<Rightarrow> a20_env_policy \<Rightarrow> a20_envelope" where
  "env_new tps now cur p =
     \<lparr>refs = 1, policy = p,
      expire_tick = (if env_ns_to_ticks tps (time_budget_ns p) \<noteq> 0
                     then now + scast (env_ns_to_ticks tps (time_budget_ns p)) else 0),
      remaining_ops = op_budget p, remaining_data = data_budget p,
      expired = False, kill_sent = False, owner_pid = cur,
      shadows = replicate A20_ENV_MAX_SHADOWS \<lparr>sh_gfd = -1, sh_obj_type = 0, sh_rights = 0\<rparr>,
      stats = env_stats_zero\<rparr>"

fun env_free_slot :: "nat \<Rightarrow> nat option list \<Rightarrow> nat option" where
  "env_free_slot i [] = None"
| "env_free_slot i (r # rs) = (if r = None then Some i else env_free_slot (Suc i) rs)"

text \<open>\<open>addr\<close> is what \<^verbatim>\<open>kmalloc\<close> returned (\<open>None\<close> for a failed allocation); the id of the new
  envelope is its registry slot.\<close>

definition env_create ::
  "u64 \<Rightarrow> u64 \<Rightarrow> pid \<Rightarrow> a20_env_policy uarg \<Rightarrow> nat option \<Rightarrow> env_state
     \<Rightarrow> (errno + nat) \<times> env_state" where
  "env_create tps now cur arg addr s = (case arg of
       UNull \<Rightarrow> (Inl EFAULT, s)
     | UFault \<Rightarrow> (Inl EFAULT, s)
     | UOk p \<Rightarrow>
         if drop_bit 17 (ucast (allowed_types p) :: u64) \<noteq> 0 then (Inl EINVAL, s)
         else (case addr of
             None \<Rightarrow> (Inl ENOMEM, s)
           | Some a \<Rightarrow>
               (case env_free_slot 0 (env_registry s) of
                  None \<Rightarrow> (Inl EBUSY, s)
                | Some slot \<Rightarrow>
                    (Inr slot, (env_put a (env_new tps now cur p) s)
                       \<lparr>env_registry := (env_registry s)[slot := Some a]\<rparr>))))"

definition env_lookup_id :: "int \<Rightarrow> env_state \<Rightarrow> errno + nat" where
  "env_lookup_id env_id s =
     (if env_id < 0 \<or> env_id \<ge> int (length (env_registry s)) then Inl EINVAL
      else case env_registry s ! nat env_id of None \<Rightarrow> Inl ENOENT | Some p \<Rightarrow> Inr p)"

text \<open>\<open>now1\<close> and \<open>now2\<close> are the ticks read by the two expiry checks.\<close>

definition env_enter :: "int \<Rightarrow> u64 \<Rightarrow> u64 \<Rightarrow> pid \<Rightarrow> env_state \<Rightarrow> (errno + unit) \<times> env_state" where
  "env_enter env_id now1 now2 cur s = (case env_lookup_id env_id s of
       Inl err \<Rightarrow> (Inl err, s)
     | Inr p \<Rightarrow>
         (case env_check_expired now1 p (env_get_ref p s) of
            (Inl _, s1) \<Rightarrow> (Inl EACCES, env_put_ref p s1)
          | (Inr _, s1) \<Rightarrow>
              if task_envelope s1 cur \<noteq> None then (Inl EINVAL, env_put_ref p s1)
              else
                (case env_check_expired now2 p
                        (s1\<lparr>task_envelope := (task_envelope s1)(cur := Some p)\<rparr>) of
                   (Inl _, s2) \<Rightarrow>
                     (Inl EACCES,
                      env_put_ref p (s2\<lparr>task_envelope := (task_envelope s2)(cur := None)\<rparr>))
                 | (Inr _, s2) \<Rightarrow> (Inr (), s2))))"

definition env_may_control :: "pid \<Rightarrow> a20_envelope \<Rightarrow> env_state \<Rightarrow> bool" where
  "env_may_control cur e s \<longleftrightarrow> owner_pid e = cur \<or> task_uid s cur = 0"

definition env_revoke :: "int \<Rightarrow> pid \<Rightarrow> env_state \<Rightarrow> (errno + unit) \<times> env_state" where
  "env_revoke env_id cur s = (case env_lookup_id env_id s of
       Inl err \<Rightarrow> (Inl err, s)
     | Inr p \<Rightarrow>
         (case env_heap s p of
            None \<Rightarrow> (Inl ENOENT, s)
          | Some e \<Rightarrow>
              if \<not> env_may_control cur e s then (Inl EPERM, s)
              else (Inr (), env_kill_once p (env_put p (env_mark_expired_locked e) s))))"

text \<open>\<open>out_ok\<close> tells whether the copy to user space succeeds; \<open>out_null\<close> a null pointer.\<close>

definition env_stats :: "int \<Rightarrow> bool \<Rightarrow> bool \<Rightarrow> pid \<Rightarrow> env_state \<Rightarrow> errno + a20_env_stats" where
  "env_stats env_id out_null out_ok cur s =
     (if env_id < 0 \<or> env_id \<ge> int (length (env_registry s)) then Inl EINVAL
      else if out_null then Inl EFAULT
      else case env_lookup_id env_id s of
             Inl err \<Rightarrow> Inl err
           | Inr p \<Rightarrow>
               (case env_heap s p of
                  None \<Rightarrow> Inl ENOENT
                | Some e \<Rightarrow>
                    if \<not> env_may_control cur e s then Inl EPERM
                    else if \<not> out_ok then Inl EFAULT
                    else Inr ((stats e)\<lparr>st_expired := expired e,
                                st_n_shadows := length (filter (\<lambda>sh. sh_gfd sh \<ge> 0) (shadows e))\<rparr>)))"

subsection \<open>The runtime audit\<close>

definition audit_zero :: a20_env_audit where
  "audit_zero = \<lparr>n_envelopes = 0, n_attached_tasks = 0, n_shadows = 0, violations = 0,
     v_type_allowed = 0, v_rights_sub_cap = 0, v_budget_nonneg = 0, v_task_dangling = 0\<rparr>"

definition audit_shadow :: "a20_env_policy \<Rightarrow> env_shadow \<Rightarrow> a20_env_audit \<Rightarrow> a20_env_audit" where
  "audit_shadow p sh r =
     (if sh_gfd sh < 0 then r
      else let r1 = r\<lparr>n_shadows := n_shadows r + 1\<rparr>
           in if \<not> env_type_allowed p (sh_obj_type sh)
              then r1\<lparr>v_type_allowed := v_type_allowed r1 + 1\<rparr>
              else if \<not> bits_within (sh_rights sh) (env_class_cap p (sh_obj_type sh))
              then r1\<lparr>v_rights_sub_cap := v_rights_sub_cap r1 + 1\<rparr>
              else r1)"

definition audit_envelope :: "a20_envelope \<Rightarrow> a20_env_audit \<Rightarrow> a20_env_audit" where
  "audit_envelope e r =
     (let r1 = r\<lparr>n_envelopes := n_envelopes r + 1\<rparr>;
          r2 = (if op_budget (policy e) \<noteq> 0 \<and> remaining_ops e > op_budget (policy e)
                then r1\<lparr>v_budget_nonneg := v_budget_nonneg r1 + 1\<rparr> else r1);
          r3 = (if data_budget (policy e) \<noteq> 0 \<and> remaining_data e > data_budget (policy e)
                then r2\<lparr>v_budget_nonneg := v_budget_nonneg r2 + 1\<rparr> else r2)
      in fold (audit_shadow (policy e)) (shadows e) r3)"

definition audit_slot :: "env_state \<Rightarrow> nat option \<Rightarrow> a20_env_audit \<Rightarrow> a20_env_audit" where
  "audit_slot s slot r = (case slot of None \<Rightarrow> r
     | Some p \<Rightarrow> (case env_heap s p of None \<Rightarrow> r | Some e \<Rightarrow> audit_envelope e r))"

definition env_registry_contains :: "nat \<Rightarrow> env_state \<Rightarrow> bool" where
  "env_registry_contains p s \<longleftrightarrow> list_ex (\<lambda>r. r = Some p) (env_registry s)"

definition audit_task :: "env_state \<Rightarrow> pid \<Rightarrow> a20_env_audit \<Rightarrow> a20_env_audit" where
  "audit_task s t r = (case task_envelope s t of None \<Rightarrow> r
     | Some p \<Rightarrow>
         let r1 = r\<lparr>n_attached_tasks := n_attached_tasks r + 1\<rparr>
         in if env_registry_contains p s then r1
            else r1\<lparr>v_task_dangling := v_task_dangling r1 + 1\<rparr>)"

text \<open>The report \<^verbatim>\<open>env_audit\<close> builds, and the call itself with its copy to user space.\<close>

definition env_audit_report :: "env_state \<Rightarrow> a20_env_audit" where
  "env_audit_report s =
     (let r = fold (audit_task s) (tasklist s) (fold (audit_slot s) (env_registry s) audit_zero)
      in r\<lparr>violations := v_type_allowed r + v_rights_sub_cap r + v_budget_nonneg r
                            + v_task_dangling r\<rparr>)"

definition env_audit :: "bool \<Rightarrow> bool \<Rightarrow> env_state \<Rightarrow> errno + a20_env_audit" where
  "env_audit out_null out_ok s =
     (if \<not> out_null \<and> \<not> out_ok then Inl EFAULT else Inr (env_audit_report s))"

subsection \<open>The mediator as a transition system\<close>

text \<open>
  One rule per entry point of the mediator, called by any task with any arguments, and the
  two points where the process code calls it: a fork gives the child the parent's envelope
  (kernel/proc/fork.c), the end of a task drops its reference (kernel/proc/task.c).
  \<^verbatim>\<open>kmalloc\<close> returns memory that holds no live envelope.
\<close>

text \<open>The label of a step: the envelope that granted a mediated call and the bytes charged.\<close>

type_synonym env_grant = "(nat \<times> u64) option"

definition env_grant_of :: "pid \<Rightarrow> u64 \<Rightarrow> errno + unit \<Rightarrow> env_state \<Rightarrow> env_grant" where
  "env_grant_of cur bytes r s =
     (case r of Inl _ \<Rightarrow> None | Inr _ \<Rightarrow> map_option (\<lambda>p. (p, bytes)) (task_envelope s cur))"

inductive env_step :: "env_state \<Rightarrow> env_grant \<Rightarrow> env_state \<Rightarrow> bool" where
  create: "env_create tps now cur arg addr s = (r, t) \<Longrightarrow>
     (case addr of None \<Rightarrow> True | Some a \<Rightarrow> env_heap s a = None) \<Longrightarrow> env_step s None t"
| enter: "env_enter env_id now1 now2 cur s = (r, t) \<Longrightarrow> cur \<in> set (tasklist s) \<Longrightarrow>
     env_step s None t"
| revoke: "env_revoke env_id cur s = (r, t) \<Longrightarrow> env_step s None t"
| acquire: "env_mediate_acquire ty rights gfd now cur s = (r, t) \<Longrightarrow>
     env_step s (env_grant_of cur 0 r s) t"
| acquire_gfd: "env_mediate_acquire_gfd sock gfd now cur s = (r, t) \<Longrightarrow>
     env_step s (env_grant_of cur 0 r s) t"
| send_fd: "env_mediate_send_fd sock gfd now cur s = (r, t) \<Longrightarrow>
     env_step s (env_grant_of cur 0 r s) t"
| mediate_class: "env_mediate_class ty now cur s = (r, t) \<Longrightarrow>
     env_step s (env_grant_of cur 0 r s) t"
| use_dir: "env_mediate_use_dir gfd bytes want_write now cur s = (r, t) \<Longrightarrow>
     env_step s (env_grant_of cur bytes r s) t"
| kind_register: "env_step s None (env_kind_register gfd ty s)"
| kind_unregister: "env_step s None (env_kind_unregister gfd s)"
| fork: "child \<notin> set (tasklist s) \<Longrightarrow>
     env_step s None (env_inherit_task child parent (s\<lparr>tasklist := child # tasklist s\<rparr>))"
| exit: "env_step s None ((env_release_task t s)\<lparr>tasklist := filter (\<lambda>u. u \<noteq> t) (tasklist s)\<rparr>)"

text \<open>A run of the mediator with the grants it made.\<close>

inductive env_run :: "env_state \<Rightarrow> env_grant list \<Rightarrow> env_state \<Rightarrow> bool" where
  run_nil: "env_run s [] s"
| run_step: "env_run s ls t \<Longrightarrow> env_step t l u \<Longrightarrow> env_run s (ls @ [l]) u"

definition env_boot :: "(pid \<Rightarrow> nat) \<Rightarrow> pid list \<Rightarrow> env_state" where
  "env_boot uids ts = \<lparr>env_heap = Map.empty, env_registry = replicate A20_ENV_MAX_INSTANCES None,
     tasklist = ts, task_envelope = Map.empty, task_uid = uids,
     env_gfd_kind = replicate MAX_FILES 0, signals_sent = []\<rparr>"

definition env_reachable :: "env_state \<Rightarrow> bool" where
  "env_reachable s \<longleftrightarrow> (\<exists>uids ts ls. env_run (env_boot uids ts) ls s)"

end
