(* ===== verification/Envelope_Safety.thy ===== *)
theory Envelope_Safety
  imports Envelope
begin

text \<open>
  Correctness of the envelope mediator.  The locked parts of the entry points share one
  contract (the locale \<open>env_locked_op\<close>): they touch only the budgets, the shadows and the
  counters, keep the envelope well formed, never give budget back, and charge one operation
  when they succeed.  The client side, the frame of an entry point, is proved once in the
  locale; each locked part is an interpretation.  On top of it stand the invariant of the
  transition system, the audit, the budgets over runs and revocation.
\<close>

subsection \<open>Well-formed envelopes\<close>

definition shadow_ok :: "a20_env_policy \<Rightarrow> env_shadow \<Rightarrow> bool" where
  "shadow_ok p sh \<longleftrightarrow> (sh_gfd sh \<ge> 0 \<longrightarrow>
     env_type_allowed p (sh_obj_type sh) \<and>
     bits_within (sh_rights sh) (env_class_cap p (sh_obj_type sh)))"

definition env_wf :: "a20_envelope \<Rightarrow> bool" where
  "env_wf e \<longleftrightarrow> remaining_ops e \<le> op_budget (policy e) \<and>
     remaining_data e \<le> data_budget (policy e) \<and> list_all (shadow_ok (policy e)) (shadows e)"

text \<open>What no locked part may touch.\<close>

definition env_same :: "a20_envelope \<Rightarrow> a20_envelope \<Rightarrow> bool" where
  "env_same e e' \<longleftrightarrow> refs e' = refs e \<and> policy e' = policy e \<and> expire_tick e' = expire_tick e \<and>
     expired e' = expired e \<and> kill_sent e' = kill_sent e \<and> owner_pid e' = owner_pid e"

subsection \<open>The contract of a locked part\<close>

locale env_locked_op =
  fixes locked :: "a20_envelope \<Rightarrow> (errno + unit) \<times> a20_envelope" and bytes :: u64
  assumes locked_same: "locked e = (r, e') \<Longrightarrow> env_same e e'"
    and locked_wf: "env_wf e \<Longrightarrow> locked e = (r, e') \<Longrightarrow> env_wf e'"
    and locked_ops: "locked e = (r, e') \<Longrightarrow>
          unat (remaining_ops e') + (if r = Inr () then 1 else 0) \<le> unat (remaining_ops e)"
    and locked_data: "locked e = (r, e') \<Longrightarrow>
          unat (remaining_data e') + (if r = Inr () then unat bytes else 0) \<le> unat (remaining_data e)"
begin

lemma mediate_cases:
  assumes "env_mediate locked now cur s = (r, t)"
  obtains (free) "task_envelope s cur = None" "r = Inr ()" "t = s"
    | (denied) p s1 err where "task_envelope s cur = Some p"
        "env_check_expired now p s = (Inl err, s1)" "r = Inl err" "t = s1"
    | (dangling) p s1 where "task_envelope s cur = Some p"
        "env_check_expired now p s = (Inr (), s1)" "env_heap s1 p = None" "r = Inr ()" "t = s1"
    | (decided) p s1 e e' where "task_envelope s cur = Some p"
        "env_check_expired now p s = (Inr (), s1)" "env_heap s1 p = Some e"
        "locked e = (r, e')" "t = env_put p e' s1"
proof (cases "task_envelope s cur")
  case None
  moreover have "r = Inr ()" "t = s" using assms None by (simp_all add: env_mediate_def)
  ultimately show thesis by (rule free)
next
  case (Some p)
  obtain c s1 where chk: "env_check_expired now p s = (c, s1)" by fastforce
  show thesis
  proof (cases c)
    case (Inl err)
    then have "r = Inl err" "t = s1" using assms chk Some by (simp_all add: env_mediate_def)
    with Some chk Inl show thesis by (intro denied) simp_all
  next
    case (Inr u)
    then have chk': "env_check_expired now p s = (Inr (), s1)" using chk by simp
    show thesis
    proof (cases "env_heap s1 p")
      case None
      then have "r = Inr ()" "t = s1" using assms chk' Some by (simp_all add: env_mediate_def)
      with Some chk' None show thesis by (rule dangling)
    next
      case e: (Some e)
      obtain r' e' where lk: "locked e = (r', e')" by fastforce
      then have "r' = r" "t = env_put p e' s1"
        using assms chk' e Some by (simp_all add: env_mediate_def)
      with Some chk' e lk show thesis by (intro decided) simp_all
    qed
  qed
qed

end

lemma word_dec_le: "(w::'a::len word) \<noteq> 0 \<Longrightarrow> w - 1 \<le> w"
  by (simp add: word_le_nat_alt kernel_simps)

lemma word_minus_le: "(b::'a::len word) \<le> a \<Longrightarrow> a - b \<le> a"
  by (simp add: word_le_nat_alt unat_sub)

lemma charge_install_frame:
  assumes "env_acquire_charge_install_locked e ty rights gfd = (r, e')"
  shows "env_same e e'"
    and "unat (remaining_ops e') + (if r = Inr () then 1 else 0) \<le> unat (remaining_ops e)"
    and "remaining_ops e' \<le> remaining_ops e"
    and "remaining_data e' = remaining_data e"
  using assms
  by (auto simp: env_acquire_charge_install_locked_def env_same_def Let_def kernel_simps word_dec_le
      unat_gt_0 Suc_le_eq split: if_splits option.splits)

lemma charge_install_wf:
  assumes "env_acquire_charge_install_locked e ty rights gfd = (r, e')" and "env_wf e"
    and "env_type_allowed (policy e) ty" and "bits_within rights (env_class_cap (policy e) ty)"
  shows "env_wf e'"
proof -
  have "remaining_ops e' \<le> op_budget (policy e')" "remaining_data e' \<le> data_budget (policy e')"
    using charge_install_frame [OF assms(1)] assms(2) by (auto simp: env_wf_def env_same_def)
  moreover have "list_all (shadow_ok (policy e)) (shadows e')"
    using assms
    by (auto simp: env_acquire_charge_install_locked_def env_wf_def Let_def shadow_ok_def
        intro!: list_all_update split: if_splits option.splits)
  ultimately show ?thesis
    using charge_install_frame(1) [OF assms(1)] by (simp add: env_wf_def env_same_def)
qed

lemma env_wf_stats [simp]: "env_wf (e\<lparr>stats := x\<rparr>) = env_wf e"
  by (simp add: env_wf_def)

lemma env_wf_spend:
  "env_wf e \<Longrightarrow> remaining_ops e \<noteq> 0 \<Longrightarrow> env_wf (e\<lparr>remaining_ops := remaining_ops e - 1\<rparr>)"
  by (auto simp: env_wf_def intro: order_trans word_dec_le)

lemma env_wf_spend_data:
  "env_wf e \<Longrightarrow> b \<le> remaining_data e \<Longrightarrow> env_wf (e\<lparr>remaining_data := remaining_data e - b\<rparr>)"
  by (auto simp: env_wf_def word_le_nat_alt kernel_simps)

lemma charge_op_frame:
  assumes "env_charge_op e = (r, e')"
  shows "env_same e e'" and "env_wf e \<Longrightarrow> env_wf e'"
    and "unat (remaining_ops e') + (if r = Inr () then 1 else 0) \<le> unat (remaining_ops e)"
    and "remaining_data e' = remaining_data e"
  using assms
  by (auto simp: env_charge_op_def env_same_def kernel_simps unat_gt_0 Suc_le_eq
      intro: env_wf_spend split: if_splits)

interpretation acquire: env_locked_op "\<lambda>e. env_acquire_locked e ty rights gfd" 0 for ty rights gfd
proof
  fix e r e'
  assume *: "env_acquire_locked e ty rights gfd = (r, e')"
  show "env_same e e'"
    "unat (remaining_ops e') + (if r = Inr () then 1 else 0) \<le> unat (remaining_ops e)"
    "unat (remaining_data e') + (if r = Inr () then unat (0::u64) else 0) \<le> unat (remaining_data e)"
    using * by (auto simp: env_acquire_locked_def Let_def env_same_def
        dest: charge_install_frame split: if_splits)
  show "env_wf e'" if "env_wf e"
    using * that by (auto simp: env_acquire_locked_def Let_def bits_within_id
        dest: charge_install_wf split: if_splits)
qed

interpretation acquire_gfd: env_locked_op "\<lambda>e. env_acquire_gfd_locked e kind gfd" 0 for kind gfd
proof
  fix e r e'
  assume *: "env_acquire_gfd_locked e kind gfd = (r, e')"
  show "env_same e e'"
    "unat (remaining_ops e') + (if r = Inr () then 1 else 0) \<le> unat (remaining_ops e)"
    "unat (remaining_data e') + (if r = Inr () then unat (0::u64) else 0) \<le> unat (remaining_data e)"
    using * by (auto simp: env_acquire_gfd_locked_def Let_def env_same_def
        dest: charge_install_frame split: if_splits)
  show "env_wf e'" if "env_wf e"
    using * that by (auto simp: env_acquire_gfd_locked_def Let_def
        dest: charge_install_wf split: if_splits)
qed

interpretation send_fd: env_locked_op "\<lambda>e. env_send_fd_locked e kind" 0 for kind
  by unfold_locales
    (auto simp: env_send_fd_locked_def env_same_def dest: charge_op_frame split: if_splits)

interpretation mclass: env_locked_op "\<lambda>e. env_class_locked e ty" 0 for ty
  by unfold_locales
    (auto simp: env_class_locked_def env_same_def dest: charge_op_frame split: if_splits)

interpretation use_dir: env_locked_op "\<lambda>e. env_use_dir_locked e gfd bytes w" bytes for gfd bytes w
proof
  fix e r e'
  assume *: "env_use_dir_locked e gfd bytes w = (r, e')"
  show "env_same e e'"
    using * by (auto simp: env_use_dir_locked_def Let_def env_same_def split: if_splits)
  show "unat (remaining_ops e') + (if r = Inr () then 1 else 0) \<le> unat (remaining_ops e)"
    using * by (auto simp: env_use_dir_locked_def Let_def kernel_simps unat_gt_0 Suc_le_eq
        split: if_splits)
  show "unat (remaining_data e') + (if r = Inr () then unat bytes else 0) \<le> unat (remaining_data e)"
    using * by (auto simp: env_use_dir_locked_def Let_def not_less word_le_nat_alt unat_sub
        split: if_splits)
  show "env_wf e'" if "env_wf e"
    using * that env_wf_spend [of e] env_wf_spend_data
      [of "e\<lparr>remaining_ops := remaining_ops e - 1\<rparr>" bytes]
    by (auto simp: env_use_dir_locked_def Let_def split: if_splits)
qed

subsection \<open>The batched kill\<close>

text \<open>A batch holds, in ascending order, the \<open>cap\<close> smallest pids seen so far.\<close>

definition kill_batch_ok :: "nat \<Rightarrow> pid set \<Rightarrow> pid list \<Rightarrow> bool" where
  "kill_batch_ok cap seen b \<longleftrightarrow> sorted_wrt (<) b \<and> set b \<subseteq> seen \<and> length b \<le> cap \<and>
     (\<forall>t\<in>seen - set b. length b = cap \<and> last b < t)"

lemma kill_shift_sorted:
  "sorted_wrt (>) xs \<Longrightarrow> p \<notin> set xs \<Longrightarrow> sorted_wrt (>) (kill_shift p xs)"
  by (induction xs) (auto simp: not_less less_le)

lemma length_kill_shift [simp]: "length (kill_shift p xs) = Suc (length xs)"
  by (induction xs) auto

lemma kill_merge_sorted:
  "sorted_wrt (<) b \<Longrightarrow> p \<notin> set b \<Longrightarrow> sorted_wrt (<) (rev (kill_shift p (rev b)))"
  using kill_shift_sorted [of "rev b" p] by (simp add: sorted_wrt_rev)

lemma sorted_lt_last: "sorted_wrt (<) b \<Longrightarrow> x \<in> set b \<Longrightarrow> x \<le> last (b :: pid list)"
  by (induction b) (auto split: if_splits dest: less_imp_le)

lemma sorted_lt_butlast:
  "sorted_wrt (<) b \<Longrightarrow> b \<noteq> [] \<Longrightarrow> sorted_wrt (<) (butlast b) \<and> (\<forall>x\<in>set (butlast b). x < last b)"
  by (metis append_butlast_last_id last_in_set last_snoc sorted_wrt_append list.set_intros(1))

lemma kill_insert_ok:
  assumes ok: "kill_batch_ok cap seen b" and new: "p \<notin> seen" and cap: "cap > 0"
  shows "kill_batch_ok cap (insert p seen) (kill_insert cap b p)"
proof -
  have b: "sorted_wrt (<) b" "set b \<subseteq> seen" "length b \<le> cap"
    "\<And>t. t \<in> seen \<Longrightarrow> t \<notin> set b \<Longrightarrow> length b = cap \<and> last b < t"
    using ok by (auto simp: kill_batch_ok_def)
  have pb: "p \<notin> set b" using b(2) new by blast
  consider "length b < cap" | "length b = cap" "p \<ge> last b" | "length b = cap" "p < last b"
    using b(3) by linarith
  then show ?thesis
  proof cases
    case 1
    then have "kill_insert cap b p = rev (kill_shift p (rev b))" by (simp add: kill_insert_def)
    moreover have "seen = set b" using 1 b(2,4) by fastforce
    ultimately show ?thesis
      using 1 kill_merge_sorted [OF b(1) pb] by (auto simp: kill_batch_ok_def)
  next
    case 2
    then have ne: "b \<noteq> []" using cap by auto
    then have "last b < p" using 2 pb by (metis last_in_set order_le_less)
    then show ?thesis using 2 ne b by (auto simp: kill_insert_def kill_batch_ok_def)
  next
    case 3
    then have ne: "b \<noteq> []" using cap by auto
    let ?n = "rev (kill_shift p (rev (butlast b)))"
    have n: "kill_insert cap b p = ?n" using 3 ne by (simp add: kill_insert_def)
    have lt: "sorted_wrt (<) (butlast b)" "\<And>x. x \<in> set (butlast b) \<Longrightarrow> x < last b"
      using sorted_lt_butlast [OF b(1) ne] by auto
    have set: "set ?n = insert p (set (butlast b))" by simp
    have "sorted_wrt (<) ?n"
      by (rule kill_merge_sorted [OF lt(1)]) (use pb in_set_butlastD in fast)
    moreover have "length ?n = cap" using 3 ne cap by simp
    moreover have lst: "last ?n < last b"
      using last_in_set [of ?n] set lt(2) 3 by (metis \<open>length ?n = cap\<close> cap insertE length_greater_0_conv)
    have "set b = insert (last b) (set (butlast b))"
      using ne by (metis append_butlast_last_id list.simps(15) rotate1.simps(2) set_rotate1 last_in_set
          Un_insert_right list.set(1) set_append sup_bot.right_neutral)
    then have "last ?n < t" if "t \<in> insert p seen - set ?n" for t
      using that b(4) [of t] lst set by fastforce
    moreover have "set ?n \<subseteq> insert p seen"
      using b(2) set in_set_butlastD by fastforce
    ultimately show ?thesis
      unfolding n kill_batch_ok_def by blast
  qed
qed

lemma kill_collect_ok:
  assumes "kill_batch_ok cap seen b" "distinct ts" "set ts \<inter> seen = {}" "cap > 0"
  shows "kill_batch_ok cap (seen \<union> {t \<in> set ts. att t \<and> cursor < t})
           (kill_collect cap att cursor ts b)"
  using assms
proof (induction ts arbitrary: b seen)
  case (Cons t ts)
  show ?case
  proof (cases "att t \<and> cursor < t")
    case True
    then have "seen \<union> {u \<in> set (t # ts). att u \<and> cursor < u} =
        insert t seen \<union> {u \<in> set ts. att u \<and> cursor < u}" by auto
    moreover have "kill_batch_ok cap (insert t seen \<union> {u \<in> set ts. att u \<and> cursor < u})
        (kill_collect cap att cursor ts (kill_insert cap b t))"
      using Cons.prems by (intro Cons.IH kill_insert_ok) auto
    ultimately show ?thesis using True by (simp add: not_le)
  next
    case False
    then have "{u \<in> set (t # ts). att u \<and> cursor < u} = {u \<in> set ts. att u \<and> cursor < u}" by auto
    then show ?thesis using False Cons by (auto simp: not_less)
  qed
qed (simp add: kill_batch_ok_def)

lemma env_kill_loop_exact:
  assumes "distinct ts" "cap > 0"
  shows "sorted_wrt (<) (env_kill_loop cap att ts cursor) \<and>
    set (env_kill_loop cap att ts cursor) = {t \<in> set ts. att t \<and> cursor < t}"
  using assms
proof (induction cap att ts cursor rule: env_kill_loop.induct)
  case (1 cap att ts cursor)
  let ?b = "kill_collect cap att cursor ts []" and ?all = "{t \<in> set ts. att t \<and> cursor < t}"
  have ok: "kill_batch_ok cap ?all ?b"
    using kill_collect_ok [of cap "{}" "[]" ts att cursor] "1.prems" by (simp add: kill_batch_ok_def)
  show ?case
  proof (cases "?b = []")
    case True
    then have "?all = {}" using ok "1.prems"(2) unfolding kill_batch_ok_def by auto
    then show ?thesis using True by (subst (1 2) env_kill_loop.simps) (simp add: Let_def)
  next
    case False
    let ?r = "env_kill_loop cap att ts (last ?b)"
    have IH: "sorted_wrt (<) ?r" "set ?r = {t \<in> set ts. att t \<and> last ?b < t}"
      using "1.IH" [OF refl False] "1.prems" by auto
    have le: "x \<le> last ?b" if "x \<in> set ?b" for x
      using that ok sorted_lt_last by (auto simp: kill_batch_ok_def)
    have cur: "cursor < last ?b"
      using ok last_in_set [OF False] unfolding kill_batch_ok_def by blast
    have eq: "env_kill_loop cap att ts cursor = ?b @ ?r"
      using False by (subst env_kill_loop.simps) (simp add: Let_def)
    have "sorted_wrt (<) (?b @ ?r)"
      using ok IH le by (fastforce simp: kill_batch_ok_def sorted_wrt_append)
    moreover have "set ?b \<union> set ?r = ?all"
      using ok IH(2) cur unfolding kill_batch_ok_def by fastforce
    ultimately show ?thesis by (simp add: eq)
  qed
qed

subsection \<open>The invariant\<close>

definition env_holders :: "env_state \<Rightarrow> nat \<Rightarrow> pid set" where
  "env_holders s p = {t. task_envelope s t = Some p}"

text \<open>
  Every live envelope is well formed, registered, and counts one reference for its creator
  and one per attached task; registry slots and task pointers name live envelopes.  Inside
  an operation one more reference may be held by the running code, on envelope \<open>x\<close>.
\<close>

definition env_inv_held :: "nat option \<Rightarrow> env_state \<Rightarrow> bool" where
  "env_inv_held x s \<longleftrightarrow>
     (\<forall>p e. env_heap s p = Some e \<longrightarrow> env_wf e \<and> Some p \<in> set (env_registry s) \<and>
        refs e = 1 + int (card (env_holders s p)) + (if x = Some p then 1 else 0)) \<and>
     (\<forall>p. Some p \<in> set (env_registry s) \<longrightarrow> env_heap s p \<noteq> None) \<and>
     (\<forall>t p. task_envelope s t = Some p \<longrightarrow> env_heap s p \<noteq> None \<and> t \<in> set (tasklist s))"

abbreviation env_inv :: "env_state \<Rightarrow> bool" where
  "env_inv \<equiv> env_inv_held None"

lemma env_invD:
  assumes "env_inv_held x s"
  shows "env_heap s p = Some e \<Longrightarrow> env_wf e"
    and "env_heap s p = Some e \<Longrightarrow> Some p \<in> set (env_registry s)"
    and "env_heap s p = Some e \<Longrightarrow>
      refs e = 1 + int (card (env_holders s p)) + (if x = Some p then 1 else 0)"
    and "Some p \<in> set (env_registry s) \<Longrightarrow> \<exists>e. env_heap s p = Some e"
    and "task_envelope s t = Some p \<Longrightarrow> \<exists>e. env_heap s p = Some e"
    and "task_envelope s t = Some p \<Longrightarrow> t \<in> set (tasklist s)"
  using assms unfolding env_inv_held_def by blast+

lemma env_invI:
  assumes "\<And>p e. env_heap s p = Some e \<Longrightarrow> env_wf e"
    and "\<And>p e. env_heap s p = Some e \<Longrightarrow> Some p \<in> set (env_registry s)"
    and "\<And>p e. env_heap s p = Some e \<Longrightarrow>
      refs e = 1 + int (card (env_holders s p)) + (if x = Some p then 1 else 0)"
    and "\<And>p. Some p \<in> set (env_registry s) \<Longrightarrow> \<exists>e. env_heap s p = Some e"
    and "\<And>t p. task_envelope s t = Some p \<Longrightarrow> \<exists>e. env_heap s p = Some e"
    and "\<And>t p. task_envelope s t = Some p \<Longrightarrow> t \<in> set (tasklist s)"
  shows "env_inv_held x s"
  using assms unfolding env_inv_held_def by blast

lemma env_holders_finite: "env_inv_held x s \<Longrightarrow> finite (env_holders s p)"
  by (rule finite_subset [of _ "set (tasklist s)"]) (auto simp: env_holders_def dest: env_invD)

text \<open>A step that rewrites one envelope and keeps registry, tasks and pointers.\<close>

definition env_touch :: "nat \<Rightarrow> a20_envelope \<Rightarrow> env_state \<Rightarrow> env_state \<Rightarrow> bool" where
  "env_touch p e' s t \<longleftrightarrow> env_heap t = (env_heap s)(p \<mapsto> e') \<and> env_registry t = env_registry s \<and>
     tasklist t = tasklist s \<and> task_envelope t = task_envelope s \<and> task_uid t = task_uid s \<and>
     env_gfd_kind t = env_gfd_kind s"

lemma env_touch_put [simp]: "env_touch p e (s) (env_put p e s)"
  by (simp add: env_touch_def env_put_def)

lemma env_touch_trans: "env_touch p e s t \<Longrightarrow> env_touch p e' t u \<Longrightarrow> env_touch p e' s u"
  by (auto simp: env_touch_def)

lemma env_touch_inv:
  assumes "env_inv_held x s" "env_heap s p = Some e" "env_touch p e' s t" "refs e' = refs e"
    "env_wf e'"
  shows "env_inv_held x t"
  using assms unfolding env_inv_held_def env_touch_def env_holders_def
  by (auto split: if_splits)

definition env_mark :: "a20_envelope \<Rightarrow> a20_envelope \<Rightarrow> bool" where
  "env_mark e e' \<longleftrightarrow> (\<exists>x k. e' = e\<lparr>expired := x, kill_sent := k\<rparr> \<and> (expired e \<longrightarrow> x))"

lemma env_mark_refl [simp]: "env_mark e e"
  unfolding env_mark_def by (rule exI [of _ "expired e"], rule exI [of _ "kill_sent e"]) simp

lemma env_mark_kill [simp]: "env_mark e (e\<lparr>kill_sent := True\<rparr>)"
  unfolding env_mark_def by (rule exI [of _ "expired e"], rule exI [of _ True]) simp

lemma env_mark_expired [simp]: "env_mark e (env_mark_expired_locked e)"
  unfolding env_mark_def env_mark_expired_locked_def
  by (rule exI [of _ True], rule exI [of _ "kill_sent e"]) simp

lemma env_mark_props:
  assumes "env_mark e e'"
  shows "env_wf e' = env_wf e" "refs e' = refs e" "policy e' = policy e" "shadows e' = shadows e"
    "remaining_ops e' = remaining_ops e" "remaining_data e' = remaining_data e"
    "owner_pid e' = owner_pid e" "expire_tick e' = expire_tick e" "stats e' = stats e"
    "expired e \<Longrightarrow> expired e'"
  using assms by (auto simp: env_mark_def env_wf_def)

lemma env_kill_once_touch:
  assumes "env_heap s p = Some e"
  shows "\<exists>e'. env_touch p e' s (env_kill_once p s) \<and> env_mark e e' \<and> expired e' = expired e"
proof (cases "has_bit (pol_flags (policy e)) A20_ENV_F_KILL_ON_EXPIRE \<and> \<not> kill_sent e")
  case True
  then have "env_touch p (e\<lparr>kill_sent := True\<rparr>) s (env_kill_once p s)"
    using assms by (simp add: env_kill_once_def env_kill_tasks_def env_touch_def env_put_def)
  then show ?thesis
    by (intro exI [of _ "e\<lparr>kill_sent := True\<rparr>"]) simp
next
  case False
  then have "env_touch p e s (env_kill_once p s)"
    using assms by (auto simp: env_kill_once_def env_touch_def)
  then show ?thesis
    by (intro exI [of _ e]) simp
qed

lemma env_check_expired_touch:
  assumes "env_heap s p = Some e" and "env_check_expired now p s = (r, t)"
  obtains e' where "env_touch p e' s t" "env_mark e e'" "r = (if expired e' then Inl EACCES else Inr ())"
proof -
  let ?e1 = "if \<not> expired e \<and> expire_tick e \<noteq> 0 \<and> now \<ge> expire_tick e
             then env_mark_expired_locked e else e"
  let ?s1 = "env_put p ?e1 s"
  have mark1: "env_mark e ?e1"
    by simp
  have heap1: "env_heap ?s1 p = Some ?e1"
    by (simp add: env_put_def)
  show thesis
  proof (cases "expired ?e1")
    case True
    then have t: "t = env_kill_once p ?s1" "r = Inl EACCES"
      using assms by (simp_all add: env_check_expired_def Let_def)
    obtain e' where e': "env_touch p e' ?s1 (env_kill_once p ?s1)" "env_mark ?e1 e'"
      "expired e' = expired ?e1"
      using env_kill_once_touch [OF heap1] by blast
    have "env_mark e e'"
      using mark1 e'(2) unfolding env_mark_def by force
    with e' True t show thesis
      by (intro that [of e']) (auto intro: env_touch_trans [OF env_touch_put])
  next
    case False
    then have "t = ?s1" "r = Inr ()"
      using assms by (simp_all add: env_check_expired_def Let_def)
    with False mark1 show thesis by (intro that [of ?e1]) auto
  qed
qed

lemma env_check_expired_inv:
  assumes "env_inv_held x s" and "env_check_expired now p s = (r, t)"
  shows "env_inv_held x t"
proof (cases "env_heap s p")
  case None
  then show ?thesis using assms by (simp add: env_check_expired_def)
next
  case (Some e)
  from Some assms(2) obtain e' where "env_touch p e' s t" "env_mark e e'"
    by (rule env_check_expired_touch)
  with assms(1) Some show ?thesis
    by (auto intro!: env_touch_inv [of x s p e e' t] simp: env_mark_props dest: env_invD(1))
qed

context env_locked_op
begin

lemma mediate_inv:
  assumes "env_inv s" and "env_mediate locked now cur s = (r, t)"
  shows "env_inv t"
  using assms(2)
proof (cases rule: mediate_cases)
  case (decided p s1 e e')
  then have inv1: "env_inv s1" using assms(1) env_check_expired_inv by blast
  from decided show ?thesis
    using env_touch_inv [OF inv1, of p e e' t] locked_same [of e] locked_wf [of e]
      env_invD(1) [OF inv1]
    by (auto simp: env_same_def)
qed (use assms(1) env_check_expired_inv in blast)+

end

subsection \<open>What a step may do to an envelope\<close>

text \<open>\<open>env_evolves k d e e'\<close>: the envelope keeps its policy and owner, stays expired once
  expired, and its budgets fell by at least \<open>k\<close> operations and \<open>d\<close> bytes.\<close>

definition env_evolves :: "nat \<Rightarrow> nat \<Rightarrow> a20_envelope \<Rightarrow> a20_envelope \<Rightarrow> bool" where
  "env_evolves k d e e' \<longleftrightarrow> policy e' = policy e \<and> owner_pid e' = owner_pid e \<and>
     (expired e \<longrightarrow> expired e') \<and> k + unat (remaining_ops e') \<le> unat (remaining_ops e) \<and>
     d + unat (remaining_data e') \<le> unat (remaining_data e)"

lemma env_evolves_refl [simp]: "env_evolves 0 0 e e"
  by (simp add: env_evolves_def)

lemma env_evolves_trans:
  "env_evolves k d e e' \<Longrightarrow> env_evolves k' d' e' e'' \<Longrightarrow> env_evolves (k + k') (d + d') e e''"
  by (auto simp: env_evolves_def)

lemma env_evolves_refs [simp]: "env_evolves 0 0 e (e\<lparr>refs := n\<rparr>)"
  by (simp add: env_evolves_def)

lemma env_evolves_mark: "env_mark e e' \<Longrightarrow> env_evolves 0 0 e e'"
  by (simp add: env_evolves_def env_mark_props)

definition env_quiet :: "env_state \<Rightarrow> env_state \<Rightarrow> bool" where
  "env_quiet s t \<longleftrightarrow> (\<forall>p e. env_heap s p = Some e \<longrightarrow>
     (\<exists>e'. env_heap t p = Some e' \<and> env_evolves 0 0 e e'))"

lemma env_quiet_same: "env_heap t = env_heap s \<Longrightarrow> env_quiet s t"
  unfolding env_quiet_def by simp

lemma env_quiet_trans: "env_quiet s t \<Longrightarrow> env_quiet t u \<Longrightarrow> env_quiet s u"
  unfolding env_quiet_def using env_evolves_trans [of 0 0 _ _ 0 0] by fastforce

lemma env_quiet_touch:
  "env_heap s p = Some e \<Longrightarrow> env_touch p e' s t \<Longrightarrow> env_evolves 0 0 e e' \<Longrightarrow> env_quiet s t"
  unfolding env_quiet_def env_touch_def by simp

lemma env_check_expired_quiet:
  assumes "env_check_expired now p s = (r, t)"
  shows "env_quiet s t"
proof (cases "env_heap s p")
  case None
  then show ?thesis using assms by (simp add: env_check_expired_def env_quiet_same)
next
  case (Some e)
  from Some assms obtain e' where "env_touch p e' s t" "env_mark e e'"
    by (rule env_check_expired_touch)
  with Some show ?thesis using env_quiet_touch env_evolves_mark by blast
qed

lemma env_get_ref_quiet: "env_quiet s (env_get_ref p s)"
  by (auto simp: env_get_ref_def env_quiet_same split: option.splits
      intro: env_quiet_touch [OF _ env_touch_put])

subsection \<open>Reference counting\<close>

lemma env_get_ref_inv:
  assumes "env_inv s" "env_heap s p = Some e"
  shows "env_inv_held (Some p) (env_get_ref p s)"
  using assms unfolding env_inv_held_def env_get_ref_def env_put_def env_holders_def
  by (auto split: if_splits simp: env_wf_def)

lemma env_put_ref_inv:
  assumes "env_inv_held (Some p) s"
  shows "env_inv (env_put_ref p s)" "env_quiet s (env_put_ref p s)"
proof -
  have "env_inv (env_put_ref p s) \<and> env_quiet s (env_put_ref p s)"
  proof (cases "env_heap s p")
    case None
    then show ?thesis
      using assms unfolding env_inv_held_def by (auto simp: env_put_ref_def env_quiet_same)
  next
    case (Some e)
    then have "refs e - 1 \<noteq> 0"
      using env_invD(3) [OF assms Some] by simp
    then have eq: "env_put_ref p s = env_put p (e\<lparr>refs := refs e - 1\<rparr>) s"
      using Some by (simp add: env_put_ref_def)
    have "env_inv (env_put_ref p s)"
      using assms Some unfolding eq env_inv_held_def env_put_def env_holders_def
      by (auto split: if_splits simp: env_wf_def)
    then show ?thesis
      using env_quiet_touch [OF Some env_touch_put] by (simp add: eq)
  qed
  then show "env_inv (env_put_ref p s)" "env_quiet s (env_put_ref p s)" by simp_all
qed

text \<open>A held reference becomes a task's reference, and the other way round.\<close>

lemma env_attach_inv:
  assumes inv: "env_inv_held (Some p) s" and free: "task_envelope s t = None"
    and ex: "env_heap s p = Some e" and t: "t \<in> set (tasklist s)"
  shows "env_inv (s\<lparr>task_envelope := (task_envelope s)(t := Some p)\<rparr>)"
    (is "env_inv ?s")
proof -
  have hold: "env_holders ?s q = (if q = p then insert t (env_holders s q) else env_holders s q)" for q
    using free by (auto simp: env_holders_def)
  have card: "card (insert t (env_holders s q)) = Suc (card (env_holders s q))" for q
    using env_holders_finite [OF inv] free by (simp add: env_holders_def)
  show ?thesis
  proof (rule env_invI)
    show "refs e = 1 + int (card (env_holders ?s q)) + (if None = Some q then 1 else 0)"
      if "env_heap ?s q = Some e" for q e
      using that env_invD(3) [OF inv] by (simp add: hold card split: if_splits)
  qed (use env_invD [OF inv] ex t in \<open>auto split: if_splits\<close>)
qed

lemma env_detach_inv:
  assumes inv: "env_inv s" and att: "task_envelope s t = Some p"
  shows "env_inv_held (Some p) (s\<lparr>task_envelope := (task_envelope s)(t := None)\<rparr>)"
    (is "env_inv_held _ ?s")
proof -
  have hold: "env_holders ?s q = (if q = p then env_holders s q - {t} else env_holders s q)" for q
    using att by (auto simp: env_holders_def)
  have t: "t \<in> env_holders s p"
    using att by (simp add: env_holders_def)
  then have "card (env_holders s p) > 0"
    using env_holders_finite [OF inv] card_gt_0_iff by blast
  then have card: "int (card (env_holders s p - {t})) = int (card (env_holders s p)) - 1"
    using t env_holders_finite [OF inv] by (simp add: card_Diff_singleton)
  show ?thesis
  proof (rule env_invI)
    show "refs e = 1 + int (card (env_holders ?s q)) + (if Some p = Some q then 1 else 0)"
      if "env_heap ?s q = Some e" for q e
      using that env_invD(3) [OF inv that [simplified]] card by (auto simp: hold split: if_splits)
  qed (use env_invD [OF inv] in \<open>auto split: if_splits\<close>)
qed

lemma env_inv_tasklist:
  assumes "env_inv s" "\<And>t p. task_envelope s t = Some p \<Longrightarrow> t \<in> set ts"
  shows "env_inv (s\<lparr>tasklist := ts\<rparr>)"
  using assms unfolding env_inv_held_def env_holders_def by auto

lemma env_inv_gfd_kind: "env_inv s \<Longrightarrow> env_inv (s\<lparr>env_gfd_kind := ks\<rparr>)"
  unfolding env_inv_held_def env_holders_def by auto

subsection \<open>Every entry point keeps the invariant\<close>

lemma env_free_slot_Some:
  "env_free_slot i rs = Some k \<Longrightarrow> i \<le> k \<and> k - i < length rs \<and> rs ! (k - i) = None"
proof (induction i rs rule: env_free_slot.induct)
  case (2 i r rs)
  then show ?case
    by (cases "r = None") (auto simp: Suc_le_eq nth_Cons' less_diff_conv)
qed simp

lemma env_wf_new: "env_wf (env_new tps now cur p)"
  by (simp add: env_wf_def env_new_def shadow_ok_def list_all_iff)

lemma env_create_inv:
  assumes inv: "env_inv s" and run: "env_create tps now cur arg addr s = (r, t)"
    and fresh: "case addr of None \<Rightarrow> True | Some a \<Rightarrow> env_heap s a = None"
  shows "env_inv t"
proof (cases "t = s")
  case False
  then obtain a p slot where a: "addr = Some a" "env_free_slot 0 (env_registry s) = Some slot"
    and t: "t = (env_put a (env_new tps now cur p) s)\<lparr>env_registry := (env_registry s)[slot := Some a]\<rparr>"
    using run by (auto simp: env_create_def split: uarg.splits if_splits option.splits)
  have slot: "slot < length (env_registry s)" "env_registry s ! slot = None"
    using env_free_slot_Some [OF a(2)] by auto
  have reg: "Some q \<in> set (env_registry t) \<longleftrightarrow> q = a \<or> Some q \<in> set (env_registry s)" for q
    using set_fill_slot [OF slot] by (simp add: t)
  have nohold: "env_holders s a = {}"
    using fresh env_invD(5) [OF inv] a by (fastforce simp: env_holders_def)
  have hold: "env_holders t q = env_holders s q" for q
    by (simp add: t env_put_def env_holders_def)
  have [simp]: "refs (env_new tps now cur p) = 1" by (simp add: env_new_def)
  have heap: "env_heap t = (env_heap s)(a \<mapsto> env_new tps now cur p)"
    "task_envelope t = task_envelope s" "tasklist t = tasklist s"
    by (simp_all add: t env_put_def)
  show ?thesis
    by (rule env_invI)
      (use env_invD [OF inv] nohold in \<open>auto simp: heap hold reg env_wf_new split: if_splits\<close>)
qed (simp add: inv)

lemma env_lookup_id_registered:
  "env_lookup_id env_id s = Inr p \<Longrightarrow> Some p \<in> set (env_registry s)"
  by (auto simp: env_lookup_id_def in_set_conv_nth split: if_splits option.splits
      intro!: exI [of _ "nat env_id"])

lemma env_check_expired_frame:
  assumes "env_check_expired now p s = (r, t)"
  shows "task_envelope t = task_envelope s" "tasklist t = tasklist s"
    "env_heap s q \<noteq> None \<Longrightarrow> env_heap t q \<noteq> None"
proof -
  have "task_envelope t = task_envelope s \<and> tasklist t = tasklist s \<and>
    (env_heap s q \<noteq> None \<longrightarrow> env_heap t q \<noteq> None)"
  proof (cases "env_heap s p")
    case None
    then show ?thesis using assms by (simp add: env_check_expired_def)
  next
    case (Some e)
    from Some assms obtain e' where "env_touch p e' s t"
      by (rule env_check_expired_touch)
    then show ?thesis by (simp add: env_touch_def)
  qed
  then show "task_envelope t = task_envelope s" "tasklist t = tasklist s"
    "env_heap s q \<noteq> None \<Longrightarrow> env_heap t q \<noteq> None" by simp_all
qed

lemma env_get_ref_frame [simp]:
  "task_envelope (env_get_ref p s) = task_envelope s" "tasklist (env_get_ref p s) = tasklist s"
  "env_heap (env_get_ref p s) q = None \<longleftrightarrow> env_heap s q = None"
  by (auto simp: env_get_ref_def env_put_def split: option.splits)

lemma env_put_ref_frame [simp]:
  "task_envelope (env_put_ref p s) = task_envelope s" "tasklist (env_put_ref p s) = tasklist s"
  by (auto simp: env_put_ref_def env_put_def env_destroy_def Let_def split: option.splits)

lemma env_enter_inv:
  assumes inv: "env_inv s" and run: "env_enter env_id now1 now2 cur s = (r, t)"
    and cur: "cur \<in> set (tasklist s)"
  shows "env_inv t \<and> env_quiet s t"
proof (cases "env_lookup_id env_id s")
  case (Inl err)
  then show ?thesis using run inv by (simp add: env_enter_def env_quiet_same)
next
  case (Inr p)
  then obtain e where e: "env_heap s p = Some e"
    using env_invD(4) [OF inv] env_lookup_id_registered by blast
  obtain c1 s1 where c1: "env_check_expired now1 p (env_get_ref p s) = (c1, s1)" by fastforce
  have inv1: "env_inv_held (Some p) s1"
    using env_check_expired_inv [OF env_get_ref_inv [OF inv e] c1] .
  have q1: "env_quiet s s1"
    using env_quiet_trans [OF env_get_ref_quiet env_check_expired_quiet [OF c1]] .
  note fr1 = env_check_expired_frame [OF c1, simplified]
  show ?thesis
  proof (cases "isl c1 \<or> task_envelope s1 cur \<noteq> None")
    case True
    then have "t = env_put_ref p s1"
      using run Inr c1 by (auto simp: env_enter_def split: sum.splits if_splits)
    then show ?thesis using env_put_ref_inv [OF inv1] env_quiet_trans [OF q1] by simp
  next
    case False
    let ?s1 = "s1\<lparr>task_envelope := (task_envelope s1)(cur := Some p)\<rparr>"
    obtain c2 s2 where c2: "env_check_expired now2 p ?s1 = (c2, s2)" by fastforce
    let ?s2 = "s2\<lparr>task_envelope := (task_envelope s2)(cur := None)\<rparr>"
    obtain e1 where "env_heap s1 p = Some e1" using fr1(3) [of p] e by auto
    then have "env_inv ?s1"
      using env_attach_inv [OF inv1, of cur e1] False cur fr1 by simp
    then have inv2: "env_inv s2" using env_check_expired_inv [OF _ c2] by blast
    have q2: "env_quiet s s2"
      using env_quiet_trans [OF q1 env_quiet_trans [OF env_quiet_same env_check_expired_quiet [OF c2]]]
      by simp
    have "task_envelope s2 cur = Some p"
      using env_check_expired_frame(1) [OF c2] by simp
    then have held: "env_inv_held (Some p) ?s2" by (rule env_detach_inv [OF inv2])
    have "env_quiet s (env_put_ref p ?s2)"
      using env_quiet_trans [OF q2 env_quiet_trans [OF env_quiet_same env_put_ref_inv(2) [OF held]]]
      by simp
    then show ?thesis
      using run Inr c1 c2 False inv2 q2 env_put_ref_inv(1) [OF held]
      by (auto simp: env_enter_def split: sum.splits if_splits)
  qed
qed

lemma env_revoke_inv:
  assumes inv: "env_inv s" and run: "env_revoke env_id cur s = (r, t)"
  shows "env_inv t"
proof (cases "t = s")
  case False
  then obtain p e where e: "env_heap s p = Some e"
    and t: "t = env_kill_once p (env_put p (env_mark_expired_locked e) s)"
    using run by (auto simp: env_revoke_def split: sum.splits option.splits if_splits)
  obtain e' where e': "env_touch p e' (env_put p (env_mark_expired_locked e) s) t"
    "env_mark (env_mark_expired_locked e) e'"
    using env_kill_once_touch [of "env_put p (env_mark_expired_locked e) s" p] t
    by (auto simp: env_put_def)
  have "env_touch p e' s t" using e'(1) by (rule env_touch_trans [OF env_touch_put])
  moreover have "refs e' = refs e" "env_wf e'"
    using env_mark_props(1,2) [OF e'(2)] env_mark_props(1,2) [OF env_mark_expired [of e]]
      env_invD(1) [OF inv e] by simp_all
  ultimately show ?thesis by (rule env_touch_inv [OF inv e])
qed (simp add: inv)

lemma env_revoke_quiet:
  assumes "env_revoke env_id cur s = (r, t)"
  shows "env_quiet s t"
proof (cases "t = s")
  case False
  then obtain p e where e: "env_heap s p = Some e"
    and t: "t = env_kill_once p (env_put p (env_mark_expired_locked e) s)"
    using assms by (auto simp: env_revoke_def split: sum.splits option.splits if_splits)
  let ?s = "env_put p (env_mark_expired_locked e) s"
  have "env_quiet s ?s"
    using env_quiet_touch [OF e env_touch_put] env_evolves_mark [OF env_mark_expired] by blast
  moreover have heap: "env_heap ?s p = Some (env_mark_expired_locked e)"
    by (simp add: env_put_def)
  then have "env_quiet ?s t"
    using env_kill_once_touch [OF heap] env_quiet_touch [OF heap] env_evolves_mark t by blast
  ultimately show ?thesis by (rule env_quiet_trans)
qed (simp add: env_quiet_same)

lemma env_fork_inv:
  assumes inv: "env_inv s" and new: "child \<notin> set (tasklist s)"
  shows "env_inv (env_inherit_task child parent (s\<lparr>tasklist := child # tasklist s\<rparr>))"
proof (cases "task_envelope s parent")
  case None
  then show ?thesis
    using inv by (auto simp: env_inherit_task_def intro!: env_inv_tasklist dest: env_invD)
next
  case (Some p)
  let ?s = "s\<lparr>tasklist := child # tasklist s\<rparr>"
  have inv': "env_inv ?s" using inv by (auto intro!: env_inv_tasklist dest: env_invD)
  obtain e where e: "env_heap ?s p = Some e" using env_invD(5) [OF inv Some] by auto
  obtain e' where e': "env_heap (env_get_ref p ?s) p = Some e'"
    using e env_get_ref_frame(3) [of p ?s p] by (cases "env_heap (env_get_ref p ?s) p") auto
  have free: "task_envelope s child = None"
    using new env_invD(6) [OF inv] by (cases "task_envelope s child") auto
  have "env_inv ((env_get_ref p ?s)
      \<lparr>task_envelope := (task_envelope (env_get_ref p ?s))(child := Some p)\<rparr>)"
    by (rule env_attach_inv [OF env_get_ref_inv [OF inv' e] _ e']) (auto simp: free)
  then show ?thesis using Some by (simp add: env_inherit_task_def Let_def)
qed

lemma env_exit_inv:
  assumes inv: "env_inv s"
  shows "env_inv ((env_release_task t s)\<lparr>tasklist := filter (\<lambda>u. u \<noteq> t) (tasklist s)\<rparr>)"
proof -
  have "env_inv (env_release_task t s)"
  proof (cases "task_envelope s t")
    case None
    then have "(task_envelope s)(t := None) = task_envelope s" by auto
    then show ?thesis using None inv by (simp add: env_release_task_def)
  next
    case (Some p)
    then show ?thesis
      using env_put_ref_inv [OF env_detach_inv [OF inv Some]] by (simp add: env_release_task_def)
  qed
  moreover have "task_envelope (env_release_task t s) = (task_envelope s)(t := None)"
    by (simp add: env_release_task_def Let_def split: option.splits)
  ultimately show ?thesis
    using env_invD(6) [OF inv] by (auto intro!: env_inv_tasklist split: if_splits)
qed

lemma env_exit_quiet:
  assumes inv: "env_inv s"
  shows "env_quiet s ((env_release_task t s)\<lparr>tasklist := ts\<rparr>)"
proof (cases "task_envelope s t")
  case None
  then show ?thesis by (simp add: env_release_task_def env_quiet_same)
next
  case (Some p)
  let ?s = "s\<lparr>task_envelope := (task_envelope s)(t := None)\<rparr>"
  have "env_quiet s (env_put_ref p ?s)"
    using env_quiet_trans [OF env_quiet_same env_put_ref_inv(2) [OF env_detach_inv [OF inv Some]]]
    by simp
  then have "env_quiet s ((env_put_ref p ?s)\<lparr>tasklist := ts\<rparr>)"
    by (rule env_quiet_trans) (simp add: env_quiet_same)
  then show ?thesis using Some by (simp add: env_release_task_def Let_def)
qed

lemma env_fork_quiet: "env_quiet s (env_inherit_task child parent (s\<lparr>tasklist := ts\<rparr>))"
proof (cases "task_envelope s parent")
  case None
  then show ?thesis by (simp add: env_inherit_task_def env_quiet_same)
next
  case (Some p)
  have "env_quiet s (env_get_ref p (s\<lparr>tasklist := ts\<rparr>))"
    by (rule env_quiet_trans [OF env_quiet_same env_get_ref_quiet]) simp
  then show ?thesis
    using Some by (auto simp: env_inherit_task_def Let_def intro: env_quiet_trans [OF _ env_quiet_same])
qed

lemma env_step_inv: "env_step s l t \<Longrightarrow> env_inv s \<Longrightarrow> env_inv t"
proof (induction rule: env_step.induct)
  case (create tps now cur arg addr s r t)
  then show ?case using env_create_inv by blast
next
  case (enter env_id now1 now2 cur s r t)
  then show ?case using env_enter_inv by blast
next
  case (revoke env_id cur s r t)
  then show ?case using env_revoke_inv by blast
next
  case (acquire ty rights gfd now cur s r t)
  then show ?case using acquire.mediate_inv by (simp add: env_mediate_acquire_def)
next
  case (acquire_gfd sock gfd now cur s r t)
  then show ?case using acquire_gfd.mediate_inv by (simp add: env_mediate_acquire_gfd_def)
next
  case (send_fd sock gfd now cur s r t)
  then show ?case using send_fd.mediate_inv by (simp add: env_mediate_send_fd_def)
next
  case (mediate_class ty now cur s r t)
  then show ?case using mclass.mediate_inv by (simp add: env_mediate_class_def)
next
  case (use_dir gfd bytes want_write now cur s r t)
  then show ?case using use_dir.mediate_inv by (simp add: env_mediate_use_dir_def)
next
  case (kind_register s gfd ty)
  then show ?case by (simp add: env_kind_register_def env_inv_gfd_kind)
next
  case (kind_unregister s gfd)
  then show ?case by (simp add: env_kind_unregister_def env_inv_gfd_kind)
next
  case (fork child s parent)
  then show ?case using env_fork_inv by blast
next
  case (exit s t)
  then show ?case using env_exit_inv by blast
qed

lemma env_run_inv: "env_run s ls t \<Longrightarrow> env_inv s \<Longrightarrow> env_inv t"
  by (induction rule: env_run.induct) (auto intro: env_step_inv)

lemma env_boot_inv: "env_inv (env_boot uids ts)"
  by (rule env_invI) (simp_all add: env_boot_def)

lemma env_reachable_inv: "env_reachable s \<Longrightarrow> env_inv s"
  using env_run_inv env_boot_inv unfolding env_reachable_def by blast

subsection \<open>Budgets over a run\<close>

definition grant_ops :: "nat \<Rightarrow> env_grant \<Rightarrow> nat" where
  "grant_ops p l = (case l of None \<Rightarrow> 0 | Some (q, b) \<Rightarrow> if q = p then 1 else 0)"

definition grant_bytes :: "nat \<Rightarrow> env_grant \<Rightarrow> nat" where
  "grant_bytes p l = (case l of None \<Rightarrow> 0 | Some (q, b) \<Rightarrow> if q = p then unat b else 0)"

text \<open>One step: the envelope survives, spends what it grants, and grants nothing once expired.\<close>

definition env_accounts :: "env_state \<Rightarrow> env_grant \<Rightarrow> env_state \<Rightarrow> bool" where
  "env_accounts s l t \<longleftrightarrow> (\<forall>p e. env_heap s p = Some e \<longrightarrow>
     (\<exists>e'. env_heap t p = Some e' \<and> env_evolves (grant_ops p l) (grant_bytes p l) e e') \<and>
     (expired e \<longrightarrow> grant_ops p l = 0))"

lemma env_accounts_quiet: "env_quiet s t \<Longrightarrow> env_accounts s None t"
  by (simp add: env_accounts_def env_quiet_def grant_ops_def grant_bytes_def)

lemma env_expired_check:
  assumes "env_heap s p = Some e" "expired e" "env_check_expired now p s = (r, t)"
  shows "r = Inl EACCES"
proof -
  from assms(1,3) obtain e' where "env_mark e e'" "r = (if expired e' then Inl EACCES else Inr ())"
    by (rule env_check_expired_touch)
  then show ?thesis using assms(2) env_mark_props(10) by simp
qed

context env_locked_op
begin

lemma mediate_accounts:
  assumes inv: "env_inv s" and run: "env_mediate locked now cur s = (r, t)"
  shows "env_accounts s (env_grant_of cur bytes r s) t"
  using run
proof (cases rule: mediate_cases)
  case free
  then show ?thesis by (simp add: env_grant_of_def env_accounts_quiet env_quiet_same)
next
  case (denied p s1 err)
  then show ?thesis
    by (simp add: env_grant_of_def env_accounts_quiet env_check_expired_quiet)
next
  case (dangling p s1)
  then show ?thesis
    using env_invD(5) [OF inv] env_check_expired_frame(3) by blast
next
  case (decided p s1 e1 e2)
  have quiet: "env_quiet s s1" using decided(2) by (rule env_check_expired_quiet)
  have ev: "env_evolves (if r = Inr () then 1 else 0) (if r = Inr () then unat bytes else 0) e1 e2"
    using locked_same [OF decided(4)] locked_ops [OF decided(4)] locked_data [OF decided(4)]
    by (auto simp: env_evolves_def env_same_def)
  have lab: "env_grant_of cur bytes r s = (if r = Inr () then Some (p, bytes) else None)"
    using decided(1) by (auto simp: env_grant_of_def split: sum.splits)
  show ?thesis
    unfolding env_accounts_def
  proof (intro allI impI conjI)
    fix q e
    assume e: "env_heap s q = Some e"
    then obtain e' where e': "env_heap s1 q = Some e'" "env_evolves 0 0 e e'"
      using quiet unfolding env_quiet_def by blast
    show "\<exists>e'. env_heap t q = Some e' \<and> env_evolves
        (grant_ops q (env_grant_of cur bytes r s)) (grant_bytes q (env_grant_of cur bytes r s)) e e'"
      using e' env_evolves_trans [OF e'(2), of _ _ e2] ev decided(3,5)
      by (auto simp: lab grant_ops_def grant_bytes_def env_put_def)
    show "grant_ops q (env_grant_of cur bytes r s) = 0" if "expired e"
      using env_expired_check [of s q e] that e decided(2)
      by (auto simp: lab grant_ops_def)
  qed
qed

end

lemma env_step_accounts: "env_step s l t \<Longrightarrow> env_inv s \<Longrightarrow> env_accounts s l t"
proof (induction rule: env_step.induct)
  case (create tps now cur arg addr s r t)
  then show ?case
    by (auto simp: env_create_def env_put_def env_quiet_def split: uarg.splits if_splits option.splits
        intro!: env_accounts_quiet)
next
  case (enter env_id now1 now2 cur s r t)
  then show ?case using env_enter_inv env_accounts_quiet by blast
next
  case (revoke env_id cur s r t)
  then show ?case using env_revoke_quiet env_accounts_quiet by blast
next
  case (acquire ty rights gfd now cur s r t)
  then show ?case using acquire.mediate_accounts by (simp add: env_mediate_acquire_def)
next
  case (acquire_gfd sock gfd now cur s r t)
  then show ?case using acquire_gfd.mediate_accounts by (simp add: env_mediate_acquire_gfd_def)
next
  case (send_fd sock gfd now cur s r t)
  then show ?case using send_fd.mediate_accounts by (simp add: env_mediate_send_fd_def)
next
  case (mediate_class ty now cur s r t)
  then show ?case using mclass.mediate_accounts by (simp add: env_mediate_class_def)
next
  case (use_dir gfd bytes want_write now cur s r t)
  then show ?case using use_dir.mediate_accounts by (simp add: env_mediate_use_dir_def)
next
  case (fork child s parent)
  then show ?case using env_fork_quiet env_accounts_quiet by blast
next
  case (exit s t)
  then show ?case using env_exit_quiet env_accounts_quiet by blast
qed (auto simp: env_kind_register_def env_kind_unregister_def intro!: env_accounts_quiet env_quiet_same)

end
