(* ===== verification/Envelope_Theorems.thy ===== *)
theory Envelope_Theorems
  imports Envelope_Safety
begin

text \<open>
  The properties of the envelope mediator over every reachable state and every run of its
  entry points: the audit finds nothing, budgets bound what is granted, revocation is final,
  a use is granted exactly when rights and budgets allow it, an acquisition leaves its shadow,
  and the batched kill reaches every attached task.
\<close>

subsection \<open>Facts the properties rest on\<close>

definition audit_clean :: "a20_env_audit \<Rightarrow> bool" where
  "audit_clean r \<longleftrightarrow> v_type_allowed r = 0 \<and> v_rights_sub_cap r = 0 \<and> v_budget_nonneg r = 0 \<and>
     v_task_dangling r = 0"

lemma audit_envelope_clean:
  assumes "env_wf e" "audit_clean r"
  shows "audit_clean (audit_envelope e r)"
proof -
  have "audit_clean (fold (audit_shadow (policy e)) (shadows e) r')" if "audit_clean r'" for r'
  proof (rule fold_invariant [where P = audit_clean and Q = "shadow_ok (policy e)"])
    show "shadow_ok (policy e) sh" if "sh \<in> set (shadows e)" for sh
      using that assms(1) by (auto simp: env_wf_def list_all_iff)
    show "audit_clean (audit_shadow (policy e) sh q)" if "shadow_ok (policy e) sh" "audit_clean q"
      for sh q
      using that by (auto simp: audit_shadow_def shadow_ok_def audit_clean_def Let_def not_less)
  qed (rule that)
  moreover have "\<not> op_budget (policy e) < remaining_ops e" "\<not> data_budget (policy e) < remaining_data e"
    using assms(1) by (auto simp: env_wf_def not_less)
  ultimately show ?thesis
    using assms(2) by (simp add: audit_envelope_def Let_def audit_clean_def)
qed

lemma env_inv_audit:
  assumes inv: "env_inv s"
  shows "violations (env_audit_report s) = 0"
proof -
  let ?r1 = "fold (audit_slot s) (env_registry s) audit_zero"
  have "audit_clean ?r1"
  proof (rule fold_invariant [where Q = "\<lambda>_. True"])
    show "audit_clean audit_zero" by (simp add: audit_zero_def audit_clean_def)
    show "audit_clean (audit_slot s slot r)" if "audit_clean r" for slot r
      using that audit_envelope_clean env_invD(1) [OF inv]
      by (simp add: audit_slot_def split: option.splits)
  qed simp
  then have "audit_clean (fold (audit_task s) (tasklist s) ?r1)"
  proof (rule fold_invariant [where Q = "\<lambda>_. True" and P = audit_clean, rotated])
    show "audit_clean (audit_task s t r)" if "audit_clean r" for t r
    proof (cases "task_envelope s t")
      case (Some p)
      then have "env_registry_contains p s"
        using env_invD(2,5) [OF inv] by (fastforce simp: env_registry_contains_def list_ex_iff)
      then show ?thesis using Some that by (simp add: audit_task_def audit_clean_def Let_def)
    qed (use that in \<open>simp add: audit_task_def\<close>)
  qed simp
  then show ?thesis
    by (simp add: env_audit_report_def Let_def audit_clean_def)
qed

lemma env_run_accounts:
  assumes "env_run s ls t" "env_inv s" "env_heap s p = Some e"
  shows "\<exists>e'. env_heap t p = Some e' \<and>
    env_evolves (sum_list (map (grant_ops p) ls)) (sum_list (map (grant_bytes p) ls)) e e'"
  using assms
proof (induction rule: env_run.induct)
  case (run_step s ls t l u)
  then obtain e' where e': "env_heap t p = Some e'"
    "env_evolves (sum_list (map (grant_ops p) ls)) (sum_list (map (grant_bytes p) ls)) e e'"
    by blast
  have "env_accounts t l u"
    using env_step_accounts env_run_inv run_step by blast
  then obtain e'' where "env_heap u p = Some e''" "env_evolves (grant_ops p l) (grant_bytes p l) e' e''"
    using e'(1) unfolding env_accounts_def by blast
  then show ?case using env_evolves_trans [OF e'(2)] by auto
qed simp

lemma env_run_expired:
  assumes "env_run s ls t" "env_inv s" "env_heap s p = Some e" "expired e"
  shows "sum_list (map (grant_ops p) ls) = 0"
  using assms
proof (induction rule: env_run.induct)
  case (run_step s ls t l u)
  obtain e' where "env_heap t p = Some e'" "expired e'"
    using env_run_accounts [OF run_step.hyps(1) run_step.prems(1,2)] run_step.prems(3)
    by (auto simp: env_evolves_def)
  moreover have "env_accounts t l u"
    using env_step_accounts env_run_inv run_step by blast
  ultimately have "grant_ops p l = 0" unfolding env_accounts_def by blast
  then show ?case using run_step by simp
qed simp

lemma env_revoke_marks:
  assumes "env_revoke env_id cur s = (Inr (), t)" "env_lookup_id env_id s = Inr p"
  shows "\<exists>e. env_heap t p = Some e \<and> expired e" "task_envelope t = task_envelope s"
proof -
  obtain e where e: "env_heap s p = Some e"
    and t: "t = env_kill_once p (env_put p (env_mark_expired_locked e) s)"
    using assms by (auto simp: env_revoke_def split: option.splits if_splits)
  have heap: "env_heap (env_put p (env_mark_expired_locked e) s) p = Some (env_mark_expired_locked e)"
    by (simp add: env_put_def)
  obtain e' where "env_touch p e' (env_put p (env_mark_expired_locked e) s) t" "expired e'"
    using env_kill_once_touch [OF heap] t
    by (auto simp: env_mark_expired_locked_def split: if_splits)
  then show "\<exists>e. env_heap t p = Some e \<and> expired e" "task_envelope t = task_envelope s"
    by (auto simp: env_touch_def env_put_def)
qed

lemma env_find_slot_spec:
  "env_find_slot gfd i slot shs = Some k \<Longrightarrow>
     (slot = Some k \<and> (\<forall>sh\<in>set shs. sh_gfd sh \<noteq> gfd)) \<or>
     (i \<le> k \<and> k < i + length shs \<and> (\<forall>j<k - i. sh_gfd (shs ! j) \<noteq> gfd) \<and>
        (sh_gfd (shs ! (k - i)) = gfd \<or> (\<forall>sh\<in>set shs. sh_gfd sh \<noteq> gfd)))"
proof (induction gfd i slot shs rule: env_find_slot.induct)
  case (2 gfd i slot sh rest)
  show ?case
  proof (cases "sh_gfd sh = gfd")
    case False
    with 2 have "env_find_slot gfd (Suc i) (if slot = None \<and> sh_gfd sh < 0 then Some i else slot) rest
        = Some k" by simp
    from "2.IH" [OF False this] False show ?thesis
      by (auto simp: Suc_le_eq nth_Cons' less_diff_conv split: if_splits)
  qed (use 2 in auto)
qed auto

lemma env_find_slot_shadow:
  assumes "env_find_slot gfd 0 None shs = Some k" "sh_gfd sh = gfd"
  shows "find (\<lambda>x. sh_gfd x = gfd) (shs[k := sh]) = Some sh"
proof -
  have k: "k < length shs" "\<forall>j<k. sh_gfd (shs ! j) \<noteq> gfd"
    using env_find_slot_spec [OF assms(1)] by auto
  then show ?thesis
    using assms(2) by (auto simp: find_Some_iff intro!: exI [of _ k])
qed

subsection \<open>A concrete run for the witnesses\<close>

definition demo_policy :: a20_env_policy where
  "demo_policy = \<lparr>allowed_types = 8, rights_by_class = [0, 0, 0, 3], time_budget_ns = 0,
     op_budget = 5, data_budget = 100, propagation_types = 0, pol_flags = 1\<rparr>"

definition demo_boot :: env_state where
  "demo_boot = env_boot (\<lambda>_. 0) [1, 2]"

definition demo_created :: env_state where
  "demo_created = snd (env_create 100 0 1 (UOk demo_policy) (Some 7) demo_boot)"

definition demo_entered :: env_state where
  "demo_entered = snd (env_enter 0 0 0 1 demo_created)"

lemma demo_created_eq:
  "demo_created = (env_put 7 (env_new 100 0 1 demo_policy) demo_boot)
     \<lparr>env_registry := Some 7 # replicate 1023 None\<rparr>"
proof -
  have reg: "env_registry demo_boot = None # replicate 1023 None"
    by (simp add: demo_boot_def env_boot_def A20_ENV_MAX_INSTANCES_def
        flip: replicate_Suc)
  then show ?thesis
    by (simp add: demo_created_def env_create_def demo_policy_def drop_bit_eq_div)
qed

lemma demo_entered_eq:
  "demo_entered = (env_put 7 ((env_new 100 0 1 demo_policy)\<lparr>refs := 2\<rparr>) demo_created)
     \<lparr>task_envelope := [1 \<mapsto> 7]\<rparr>"
  by (simp add: demo_entered_def env_enter_def demo_created_eq env_lookup_id_def env_get_ref_def
      env_put_def env_check_expired_def env_new_def demo_policy_def env_ns_to_ticks_def demo_boot_def
      env_boot_def Let_def)

lemma demo_entered_facts:
  "env_heap demo_entered 7 = Some ((env_new 100 0 1 demo_policy)\<lparr>refs := 2\<rparr>)"
  "task_envelope demo_entered 1 = Some 7" "task_uid demo_entered 1 = 0"
  "env_lookup_id 0 demo_entered = Inr 7"
  by (simp_all add: demo_entered_eq env_put_def demo_created_eq demo_boot_def env_boot_def
      env_lookup_id_def)

lemma demo_reachable: "env_reachable demo_boot" "env_reachable demo_created" "env_reachable demo_entered"
proof -
  have r0: "env_run demo_boot [] demo_boot" by (rule run_nil)
  have s1: "env_step demo_boot None demo_created"
    by (rule create [of 100 0 1 "UOk demo_policy" "Some 7" demo_boot
          "fst (env_create 100 0 1 (UOk demo_policy) (Some 7) demo_boot)"])
      (simp_all add: demo_created_def demo_boot_def env_boot_def)
  have s2: "env_step demo_created None demo_entered"
    by (rule enter [of 0 0 0 1 demo_created "fst (env_enter 0 0 0 1 demo_created)"])
      (simp_all add: demo_entered_def demo_created_eq demo_boot_def env_boot_def env_put_def)
  note r1 = run_step [OF r0 s1] and r2 = run_step [OF run_step [OF r0 s1] s2]
  show "env_reachable demo_boot" "env_reachable demo_created" "env_reachable demo_entered"
    using r0 r1 r2 unfolding env_reachable_def demo_boot_def by blast+
qed

subsection \<open>The properties\<close>

text \<open>
  C1.  In every state the mediator can reach, from boot through any sequence of calls by any
  tasks, the audit of the kernel reports no violation: every tracked descriptor is of an
  allowed class with rights below the class cap, no budget exceeds its policy, and every
  envelope a task carries is registered.
\<close>

theorem env_audit_clean: "env_reachable s \<Longrightarrow> violations (env_audit_report s) = 0"
  by (rule env_inv_audit [OF env_reachable_inv])

theorem env_audit_clean_witness:
  "task_envelope demo_entered 1 = Some 7 \<and> violations (env_audit_report demo_entered) = 0"
  using env_audit_clean [OF demo_reachable(3)] by (simp add: demo_entered_eq)

text \<open>
  C2.  Budgets hold over any run: from a reachable state in which an envelope is live, after
  any sequence of calls the envelope is still live with the same policy, and the operations it
  granted plus those it has left are at most those it had, and likewise for the bytes.
\<close>

theorem env_run_budget:
  assumes "env_reachable s" "env_heap s p = Some e" "env_run s ls t"
  shows "\<exists>e'. env_heap t p = Some e' \<and> policy e' = policy e \<and>
    sum_list (map (grant_ops p) ls) + unat (remaining_ops e') \<le> unat (remaining_ops e) \<and>
    sum_list (map (grant_bytes p) ls) + unat (remaining_data e') \<le> unat (remaining_data e)"
  using env_run_accounts [OF assms(3) env_reachable_inv [OF assms(1)] assms(2)]
  by (auto simp: env_evolves_def)

theorem env_run_budget_witness:
  "\<exists>e'. env_heap (snd (env_mediate_use_dir 4 60 0 0 1 demo_entered)) 7 = Some e' \<and>
    60 + unat (remaining_data e') \<le> 100"
proof -
  let ?m = "env_mediate_use_dir 4 60 0 0 1 demo_entered"
  let ?e = "(env_new 100 0 1 demo_policy)\<lparr>refs := 2\<rparr>"
  note h = demo_entered_facts(1,2)
  have f: "fst ?m = Inr ()"
    by (simp add: env_mediate_use_dir_def env_mediate_def h env_check_expired_def env_new_def
        env_ns_to_ticks_def demo_policy_def env_put_def env_use_dir_locked_def env_shadow_of_def
        A20_ENV_MAX_SHADOWS_def find_None_iff Let_def)
  have "env_step demo_entered (env_grant_of 1 60 (fst ?m) demo_entered) (snd ?m)"
    by (rule use_dir) simp
  then have "env_run demo_entered [Some (7, 60)] (snd ?m)"
    using run_step [OF run_nil] f h by (fastforce simp: env_grant_of_def)
  from env_run_budget [OF demo_reachable(3) h(1) this] show ?thesis
    by (auto simp: grant_bytes_def env_new_def demo_policy_def)
qed

text \<open>
  C3.  Revocation is final: once \<^verbatim>\<open>env_revoke\<close> has succeeded, no later call in any run is
  granted under that envelope.  A later call is one that starts after the revocation; a call
  that has passed its check for expiry before it is not one.
\<close>

theorem env_revoke_final:
  assumes "env_reachable s" "env_revoke env_id cur s = (Inr (), t)"
    "env_lookup_id env_id s = Inr p" "env_run t ls u"
  shows "Some (p, b) \<notin> set ls"
proof -
  have inv: "env_inv t" using env_revoke_inv [OF env_reachable_inv [OF assms(1)] assms(2)] .
  obtain e where "env_heap t p = Some e" "expired e" using env_revoke_marks [OF assms(2,3)] by blast
  then have "\<forall>l\<in>set ls. grant_ops p l = 0"
    using env_run_expired [OF assms(4) inv] by simp
  then show ?thesis by (force simp: grant_ops_def)
qed

theorem env_revoke_final_witness:
  "fst (env_mediate_use_dir 4 60 0 0 1 (snd (env_revoke 0 1 demo_entered))) \<noteq> Inr ()"
proof
  let ?t = "snd (env_revoke 0 1 demo_entered)"
  let ?m = "env_mediate_use_dir 4 60 0 0 1 ?t"
  assume f: "fst ?m = Inr ()"
  note look = demo_entered_facts(4)
  have "fst (env_revoke 0 1 demo_entered) = Inr ()"
    by (simp add: env_revoke_def env_may_control_def demo_entered_facts)
  then have rev: "env_revoke 0 1 demo_entered = (Inr (), ?t)" by (simp add: prod_eq_iff)
  have "task_envelope ?t 1 = Some 7"
    using env_revoke_marks(2) [OF rev look] by (simp add: demo_entered_facts)
  then have "env_grant_of 1 60 (fst ?m) ?t = Some (7, 60)" using f by (simp add: env_grant_of_def)
  moreover have "env_step ?t (env_grant_of 1 60 (fst ?m) ?t) (snd ?m)"
    by (rule use_dir) simp
  ultimately have "env_run ?t [Some (7, 60)] (snd ?m)"
    using run_step [OF run_nil, of ?t] by simp
  from env_revoke_final [OF demo_reachable(3) rev look this, of 60] show False by simp
qed

text \<open>
  C4.  A use of a descriptor by an enveloped task is granted exactly when the envelope is
  neither expired nor past its deadline, a tracked descriptor carries the right for the
  direction asked, an operation is left, and the byte budget covers the request.
\<close>

theorem env_use_dir_granted_iff:
  assumes "task_envelope s cur = Some p" "env_heap s p = Some e"
  shows "fst (env_mediate_use_dir gfd bytes w now cur s) = Inr () \<longleftrightarrow>
    \<not> expired e \<and> (expire_tick e = 0 \<or> now < expire_tick e) \<and>
    (case env_shadow_of e gfd of None \<Rightarrow> True
     | Some sh \<Rightarrow> w < 0 \<or> sh_rights sh AND (if w = 1 then A20_RIGHT_WRITE else A20_RIGHT_READ) \<noteq> 0) \<and>
    remaining_ops e \<noteq> 0 \<and> bytes \<le> remaining_data e"
proof -
  let ?dead = "expired e \<or> (expire_tick e \<noteq> 0 \<and> expire_tick e \<le> now)"
  have dead: "env_check_expired now p s = (Inl EACCES, snd (env_check_expired now p s))" if ?dead
    using that assms(2) by (auto simp: env_check_expired_def env_mark_expired_locked_def Let_def)
  have alive: "env_check_expired now p s = (Inr (), env_put p e s)" if "\<not> ?dead"
    using that assms(2) by (auto simp: env_check_expired_def Let_def)
  have use: "fst (env_use_dir_locked e gfd bytes w) = Inr () \<longleftrightarrow>
    (case env_shadow_of e gfd of None \<Rightarrow> True
     | Some sh \<Rightarrow> w < 0 \<or> sh_rights sh AND (if w = 1 then A20_RIGHT_WRITE else A20_RIGHT_READ) \<noteq> 0) \<and>
    remaining_ops e \<noteq> 0 \<and> bytes \<le> remaining_data e"
    by (cases "env_shadow_of e gfd") (auto simp: env_use_dir_locked_def Let_def not_less not_le)
  show ?thesis
  proof (cases ?dead)
    case True
    then show ?thesis
      using assms(1) dead by (auto simp: env_mediate_use_dir_def env_mediate_def not_less split: prod.splits)
  next
    case False
    then have "fst (env_mediate_use_dir gfd bytes w now cur s) = fst (env_use_dir_locked e gfd bytes w)"
      using assms(1) alive [OF False]
      by (simp add: env_mediate_use_dir_def env_mediate_def env_put_def split: prod.splits)
    then show ?thesis using use False by (auto simp: not_le)
  qed
qed

theorem env_use_dir_granted_iff_witness:
  "fst (env_mediate_use_dir 4 100 1 9 1 demo_entered) = Inr () \<and>
   fst (env_mediate_use_dir 4 101 1 9 1 demo_entered) \<noteq> Inr ()"
proof -
  let ?e = "(env_new 100 0 1 demo_policy)\<lparr>refs := 2\<rparr>"
  note h = demo_entered_facts(2,1)
  have "env_shadow_of ?e 4 = None"
    by (simp add: env_shadow_of_def env_new_def find_None_iff)
  then show ?thesis
    by (simp add: env_use_dir_granted_iff [OF h] env_new_def demo_policy_def env_ns_to_ticks_def)
qed

text \<open>
  C5.  An acquisition that is granted leaves exactly the rights asked for, all within the
  cap of an allowed class, as the shadow that later uses of the descriptor are checked by.
\<close>

theorem env_acquire_tracks:
  assumes "task_envelope s cur = Some p" "env_heap s p = Some e"
    "env_mediate_acquire ty rights gfd now cur s = (Inr (), t)"
  shows "env_shadow_rights_of_gfd gfd cur t = Some rights \<and> env_type_allowed (policy e) ty \<and>
    bits_within rights (env_class_cap (policy e) ty)"
proof -
  have run: "env_mediate (\<lambda>e. env_acquire_locked e ty rights gfd) now cur s = (Inr (), t)"
    using assms(3) by (simp add: env_mediate_acquire_def)
  have "\<exists>s1 e1 e2. env_check_expired now p s = (Inr (), s1) \<and> env_heap s1 p = Some e1 \<and>
      env_acquire_locked e1 ty rights gfd = (Inr (), e2) \<and> t = env_put p e2 s1"
    using run
  proof (cases rule: acquire.mediate_cases)
    case (dangling q s1)
    then show ?thesis using assms(1,2) env_check_expired_frame(3) by fastforce
  qed (use assms(1) in auto)
  then obtain s1 e1 e2 where d: "env_check_expired now p s = (Inr (), s1)" "env_heap s1 p = Some e1"
      "env_acquire_locked e1 ty rights gfd = (Inr (), e2)" "t = env_put p e2 s1" by blast
  have pol: "policy e1 = policy e"
    using env_check_expired_quiet [OF d(1)] assms(2) d(2)
    by (fastforce simp: env_quiet_def env_evolves_def)
  have ok: "env_type_allowed (policy e1) ty" "bits_within rights (env_class_cap (policy e1) ty)"
    and run': "env_acquire_charge_install_locked e1 ty rights gfd = (Inr (), e2)"
    using d(3) by (auto simp: env_acquire_locked_def Let_def bits_within_id split: if_splits)
  have "env_shadow_of e2 gfd = Some \<lparr>sh_gfd = gfd, sh_obj_type = ty, sh_rights = rights\<rparr>"
    using run' env_find_slot_shadow [of gfd "shadows e1"]
    by (auto simp: env_acquire_charge_install_locked_def env_shadow_of_def Let_def
        split: if_splits option.splits)
  moreover have "task_envelope t cur = Some p"
    using assms(1) d(4) env_check_expired_frame(1) [OF d(1)] by (simp add: env_put_def)
  ultimately show ?thesis
    using ok pol d(4) by (simp add: env_shadow_rights_of_gfd_def env_put_def)
qed

theorem env_acquire_tracks_witness:
  "env_shadow_rights_of_gfd 4 1 (snd (env_mediate_acquire 3 1 4 0 1 demo_entered)) = Some 1"
proof -
  let ?e = "(env_new 100 0 1 demo_policy)\<lparr>refs := 2\<rparr>"
  let ?m = "env_mediate_acquire 3 1 4 0 1 demo_entered"
  have "env_find_slot 4 0 None (replicate A20_ENV_MAX_SHADOWS
      \<lparr>sh_gfd = - 1, sh_obj_type = 0, sh_rights = 0\<rparr>) \<noteq> None"
    by (simp add: A20_ENV_MAX_SHADOWS_def numeral_eq_Suc)
  then have "fst ?m = Inr ()"
    by (auto simp: env_mediate_acquire_def env_mediate_def demo_entered_facts env_check_expired_def
        env_new_def env_ns_to_ticks_def demo_policy_def env_put_def env_acquire_locked_def
        env_type_allowed_def env_class_cap_def has_bit_def bits_within_def push_bit_eq_mult
        env_acquire_charge_install_locked_def Let_def split: option.splits)
  then have "?m = (Inr (), snd ?m)" by (simp add: prod_eq_iff)
  from env_acquire_tracks [OF demo_entered_facts(2,1) this] show ?thesis by simp
qed

text \<open>
  C6.  The batched kill reaches every task that carries the envelope, each exactly once and in
  ascending order, whatever the order and the length of the task list, provided the list stays
  the same during the kill.
\<close>

theorem env_kill_tasks_exact:
  assumes "distinct (tasklist s)" "\<forall>t\<in>set (tasklist s). 0 \<le> t"
  shows "\<exists>ks. signals_sent (env_kill_tasks p s) = signals_sent s @ map (\<lambda>t. (t, SIGKILL)) ks \<and>
    sorted_wrt (<) ks \<and> set ks = {t \<in> set (tasklist s). task_envelope s t = Some p}"
proof -
  have "{t \<in> set (tasklist s). task_envelope s t = Some p \<and> - 1 < t} =
      {t \<in> set (tasklist s). task_envelope s t = Some p}"
    using assms(2) by force
  then show ?thesis
    using env_kill_loop_exact [OF assms(1), of KILL_BATCH "\<lambda>t. task_envelope s t = Some p" "-1"]
    by (auto simp: env_kill_tasks_def KILL_BATCH_def)
qed

theorem env_kill_tasks_exact_witness:
  "signals_sent (env_kill_tasks 7 demo_entered) = [(1, SIGKILL)]"
proof -
  have ts: "tasklist demo_entered = [1, 2]" "signals_sent demo_entered = []"
    "{t \<in> set (tasklist demo_entered). task_envelope demo_entered t = Some 7} = {1}"
    by (auto simp: demo_entered_eq demo_created_eq demo_boot_def env_boot_def env_put_def)
  obtain ks where ks: "signals_sent (env_kill_tasks 7 demo_entered) = map (\<lambda>t. (t, SIGKILL)) ks"
    "sorted_wrt (<) ks" "set ks = {1}"
    using env_kill_tasks_exact [of demo_entered 7] ts by auto
  have "ks = [1]"
    using strict_sorted_equal [of ks "[1]"] ks by simp
  then show ?thesis using ks(1) by simp
qed

end
