(* ===== verification/Bit_Scan.thy ===== *)
theory Bit_Scan
  imports Prelude
begin

text \<open>
  The software count of trailing zeros that the kernel uses in place of the compiler builtin:
  one halving step, and the fact that the six steps find the lowest set bit of a 64-bit word.
\<close>

unbundle bit_operations_syntax

text \<open>One halving step of \<^verbatim>\<open>ctz64\<close> (and of \<^verbatim>\<open>a20_ctz64\<close>): skip the low \<open>k\<close> bits when they are all clear.\<close>

definition ctz_step :: "nat \<Rightarrow> nat \<times> u64 \<Rightarrow> nat \<times> u64" where
  "ctz_step k = (\<lambda>(n, v). if v AND mask k = 0 then (n + k, drop_bit k v) else (n, v))"

definition ctz_steps :: "u64 \<Rightarrow> nat" where
  "ctz_steps v = fst (ctz_step 1 (ctz_step 2 (ctz_step 4 (ctz_step 8 (ctz_step 16 (ctz_step 32 (0, v)))))))"

definition ctz_ok :: "u64 \<Rightarrow> nat \<Rightarrow> nat \<times> u64 \<Rightarrow> bool" where
  "ctz_ok v0 k = (\<lambda>(n, v). v = drop_bit n v0 \<and> (\<forall>j<n. \<not> bit v0 j) \<and> (\<exists>j<k. bit v j))"

lemma and_mask_zero_iff: "(v::u64) AND mask k = 0 \<longleftrightarrow> (\<forall>j<k. \<not> bit v j)"
proof
  assume z: "v AND mask k = 0"
  have "\<not> bit v j" if "j < k" for j
  proof
    assume "bit v j"
    then have "bit (v AND mask k) j"
      using that bit_imp_le_length [of v j] by (simp add: bit_simps)
    then show False by (simp add: z)
  qed
  then show "\<forall>j<k. \<not> bit v j" by simp
next
  assume "\<forall>j<k. \<not> bit v j"
  then show "v AND mask k = 0"
    by (intro bit_word_eqI) (auto simp: bit_simps)
qed

lemma ctz_step_ok:
  assumes "ctz_ok v0 m p" and "m = k + k"
  shows "ctz_ok v0 k (ctz_step k p)"
proof -
  obtain n v where p: "p = (n, v)" by force
  then have v: "v = drop_bit n v0" "\<forall>j<n. \<not> bit v0 j" "\<exists>j<k + k. bit v j"
    using assms by (auto simp: ctz_ok_def)
  show ?thesis
  proof (cases "v AND mask k = 0")
    case True
    then have low: "\<forall>j<k. \<not> bit v j" by (simp add: and_mask_zero_iff)
    then have "\<not> bit v0 j" if "j < n + k" for j
      using v(1,2) that by (cases "j < n") (auto simp: bit_drop_bit_eq dest: spec [of _ "j - n"])
    moreover obtain j where "j < k + k" "bit v j" using v(3) by blast
    then have "j - k < k" "bit (drop_bit k v) (j - k)"
      using low by (auto simp: bit_drop_bit_eq) (metis le_add_diff_inverse not_le)
    ultimately show ?thesis
      using True p v(1) by (auto simp: ctz_step_def ctz_ok_def add.commute)
  next
    case False
    then show ?thesis using v p by (auto simp: ctz_step_def ctz_ok_def and_mask_zero_iff)
  qed
qed

lemma ctz_steps_lowest:
  assumes "v \<noteq> 0"
  shows "bit v (ctz_steps v)" "j < ctz_steps v \<Longrightarrow> \<not> bit v j" "ctz_steps v < 64"
proof -
  have "\<exists>j<64. bit v j"
    using assms bit_word_eqI [of v 0] by auto
  then have "ctz_ok v 64 (0, v)"
    by (simp add: ctz_ok_def)
  then have "ctz_ok v 1 (ctz_step 1 (ctz_step 2 (ctz_step 4 (ctz_step 8 (ctz_step 16 (ctz_step 32 (0, v)))))))"
    by (intro ctz_step_ok [of v 2 _ 1] ctz_step_ok [of v 4 _ 2] ctz_step_ok [of v 8 _ 4]
        ctz_step_ok [of v 16 _ 8] ctz_step_ok [of v 32 _ 16] ctz_step_ok [of v 64 _ 32]) simp_all
  then obtain n where n: "ctz_steps v = n" "bit (drop_bit n v) 0" "\<forall>j<n. \<not> bit v j"
    by (auto simp: ctz_steps_def ctz_ok_def split: prod.splits)
  then show "bit v (ctz_steps v)" "j < ctz_steps v \<Longrightarrow> \<not> bit v j" by (auto simp: bit_drop_bit_eq)
  then show "ctz_steps v < 64" using bit_imp_le_length by force
qed

end
