(* ===== verification/Pid.thy ===== *)
theory Pid
  imports Bit_Scan
begin

text \<open>
  Process identifiers (kernel/proc/pid.c): the bitmap allocator with its rotating cursor and
  the hash table from pids to tasks.  A hash chain is the list of the task addresses its
  \<^verbatim>\<open>pid_hash_next\<close> links thread together.  Every operation runs under \<^verbatim>\<open>pid_lock\<close> and is one
  step of the model.  The lifetime counters are not part of the state.
\<close>

unbundle bit_operations_syntax

subsection \<open>State\<close>

definition PID_MAX_LIMIT :: int where "PID_MAX_LIMIT = 4194304"
definition PID_HASH_BITS :: nat where "PID_HASH_BITS = 10"
definition PID_HASH_SIZE :: nat where "PID_HASH_SIZE = 1024"
definition PID_BITMAP_SIZE :: nat where "PID_BITMAP_SIZE = 65536"

record ptask =
  t_pid :: int
  t_refs :: int
  t_unused :: bool

record pid_state =
  next_pid :: int
  pid_max :: int
  pid_hash :: "nat list list"
  pid_bitmap :: "u64 list"
  ptasks :: "nat \<Rightarrow> ptask"

definition pid_hash_index :: "int \<Rightarrow> nat" where
  "pid_hash_index p =
     unat (drop_bit (32 - PID_HASH_BITS) ((word_of_int p :: 32 word) * 2654435761))"

subsection \<open>The bitmap\<close>

definition pid_bitmap_set :: "int \<Rightarrow> pid_state \<Rightarrow> pid_state" where
  "pid_bitmap_set p s =
     (if p < 1 \<or> p > pid_max s then s
      else let idx = nat (p - 1) div 64; b = nat (p - 1) mod 64
           in s\<lparr>pid_bitmap := (pid_bitmap s)[idx := pid_bitmap s ! idx OR push_bit b 1]\<rparr>)"

definition pid_bitmap_clear :: "int \<Rightarrow> pid_state \<Rightarrow> pid_state" where
  "pid_bitmap_clear p s =
     (if p < 1 \<or> p > PID_MAX_LIMIT then s
      else let idx = nat (p - 1) div 64; b = nat (p - 1) mod 64
           in s\<lparr>pid_bitmap := (pid_bitmap s)[idx := pid_bitmap s ! idx AND NOT (push_bit b 1)]\<rparr>)"

definition ctz64 :: "u64 \<Rightarrow> nat" where
  "ctz64 v = (if v = 0 then 64
     else fst (ctz_step 1 (ctz_step 2 (ctz_step 4 (ctz_step 8 (ctz_step 16 (ctz_step 32 (0, v))))))))"

text \<open>The body of the scan of \<^verbatim>\<open>pid_bitmap_find_free\<close> for one bitmap word, and the loop over
  the words, \<open>w\<close> counting up with \<open>n\<close> words left.\<close>

definition pid_scan_word :: "u64 list \<Rightarrow> int \<Rightarrow> int \<Rightarrow> nat \<Rightarrow> int option" where
  "pid_scan_word bm limit start wi =
     (if bm ! wi = - 1 then None
      else
        let inv0 = NOT (bm ! wi);
            start_bit = nat (start - 1) mod 64;
            inv = (if wi = nat (start - 1) div 64 \<and> start_bit > 0
                   then inv0 AND NOT (push_bit start_bit 1 - 1) else inv0);
            first_bit = ctz64 inv
        in if first_bit = 64 then None
           else let candidate = int (wi * 64) + int first_bit + 1
                in if candidate \<ge> 1 \<and> candidate \<le> limit then Some candidate else None)"

fun pid_scan :: "u64 list \<Rightarrow> int \<Rightarrow> int \<Rightarrow> nat \<Rightarrow> nat \<Rightarrow> int" where
  "pid_scan bm limit start w 0 = - 1"
| "pid_scan bm limit start w (Suc n) =
     (case pid_scan_word bm limit start ((nat (start - 1) div 64 + w) mod PID_BITMAP_SIZE) of
        Some c \<Rightarrow> c
      | None \<Rightarrow> pid_scan bm limit start (Suc w) n)"

definition pid_limit :: "pid_state \<Rightarrow> int" where
  "pid_limit s = (if pid_max s > 0 then pid_max s else 1)"

definition pid_bitmap_find_free :: "int \<Rightarrow> pid_state \<Rightarrow> int" where
  "pid_bitmap_find_free start s = pid_scan (pid_bitmap s) (pid_limit s) start 0 PID_BITMAP_SIZE"

subsection \<open>Operations\<close>

definition proc_pid_init :: "pid_state \<Rightarrow> pid_state" where
  "proc_pid_init s = s\<lparr>pid_hash := replicate PID_HASH_SIZE [],
     pid_bitmap := replicate PID_BITMAP_SIZE 0, next_pid := 1,
     pid_max := (if PID_MAX_LIMIT < 32768 then PID_MAX_LIMIT else 32768)\<rparr>"

definition proc_pid_alloc :: "pid_state \<Rightarrow> (errno + int) \<times> pid_state" where
  "proc_pid_alloc s =
     (let p0 = pid_bitmap_find_free (next_pid s) s;
          p = (if p0 < 0 \<and> next_pid s > 1 then pid_bitmap_find_free 1 s else p0)
      in if p \<ge> 1 \<and> p \<le> pid_limit s
         then let s1 = pid_bitmap_set p s
              in (Inr p, s1\<lparr>next_pid := (if p + 1 > pid_limit s then 1 else p + 1)\<rparr>)
         else (Inl EAGAIN, s))"

text \<open>\<^verbatim>\<open>proc_get\<close> takes a reference unless the count is already zero; \<^verbatim>\<open>proc_put\<close> drops one.
  The panics on an underflow and the release of the task's resources at the last put are outside
  this component.\<close>

definition proc_get :: "nat \<Rightarrow> pid_state \<Rightarrow> bool \<times> pid_state" where
  "proc_get t s =
     (if t_refs (ptasks s t) = 0 then (False, s)
      else (True, s\<lparr>ptasks := (ptasks s)(t := (ptasks s t)\<lparr>t_refs := t_refs (ptasks s t) + 1\<rparr>)\<rparr>))"

definition proc_put :: "nat \<Rightarrow> pid_state \<Rightarrow> pid_state" where
  "proc_put t s =
     s\<lparr>ptasks := (ptasks s)(t := (ptasks s t)\<lparr>t_refs := t_refs (ptasks s t) - 1\<rparr>)\<rparr>"

definition proc_pid_register :: "nat \<Rightarrow> pid_state \<Rightarrow> pid_state" where
  "proc_pid_register t s = (case proc_get t s of
       (False, s1) \<Rightarrow> s1
     | (True, s1) \<Rightarrow>
         let h = pid_hash_index (t_pid (ptasks s1 t))
         in s1\<lparr>pid_hash := (pid_hash s1)[h := t # pid_hash s1 ! h]\<rparr>)"

text \<open>The unlink loop removes the first occurrence of the task from its chain.\<close>

definition proc_pid_unregister :: "nat \<Rightarrow> pid_state \<Rightarrow> pid_state" where
  "proc_pid_unregister t s =
     (let h = pid_hash_index (t_pid (ptasks s t));
          s1 = s\<lparr>pid_hash := (pid_hash s)[h := remove1 t (pid_hash s ! h)]\<rparr>
      in if t \<in> set (pid_hash s ! h) then proc_put t (pid_bitmap_clear (t_pid (ptasks s t)) s1)
         else s1)"

definition proc_find_get :: "int \<Rightarrow> pid_state \<Rightarrow> nat option \<times> pid_state" where
  "proc_find_get p s =
     (case find (\<lambda>t. t_pid (ptasks s t) = p \<and> \<not> t_unused (ptasks s t))
             (pid_hash s ! pid_hash_index p) of
        None \<Rightarrow> (None, s)
      | Some t \<Rightarrow> (case proc_get t s of (ok, s1) \<Rightarrow> (if ok then Some t else None, s1)))"

definition proc_set_pid_max :: "int \<Rightarrow> pid_state \<Rightarrow> (errno + unit) \<times> pid_state" where
  "proc_set_pid_max v s =
     (if v < 1 \<or> v > PID_MAX_LIMIT then (Inl EINVAL, s)
      else (Inr (), s\<lparr>pid_max := v,
                     next_pid := (if next_pid s < 1 \<or> next_pid s > v then 1 else next_pid s)\<rparr>))"

subsection \<open>The life of a pid as a transition system\<close>

text \<open>
  A new task takes a pid (proc_alloc, proc_alloc_user_image, fork), later enters the hash
  table, and leaves it when it is destroyed; \<open>pending\<close> lists the tasks that have a pid and are
  not yet registered.  A task's memory is reused only when it is neither pending nor registered.
  The boot idle task has pid 0, which the allocator never gives out, and enters the table by
  itself (proc_init).  A task becomes UNUSED before it leaves the table and outside
  \<^verbatim>\<open>pid_lock\<close> (proc_destroy_task, proc_reap_detach_list_locked, the reaper of sched.c), so there
  are states in which a task of the table is UNUSED: the \<open>detach\<close> step, open to every task at
  every moment.  A reference taken by a lookup is dropped by its holder; the guard of \<open>put\<close>
  says that it is not the table's reference, nor the creator's before registration.
\<close>

definition pid_registered :: "pid_state \<Rightarrow> nat \<Rightarrow> bool" where
  "pid_registered s t \<longleftrightarrow> (\<exists>c\<in>set (pid_hash s). t \<in> set c)"

inductive pid_step :: "pid_state \<times> nat list \<Rightarrow> pid_state \<times> nat list \<Rightarrow> bool" where
  spawn: "proc_pid_alloc s = (Inr p, s1) \<Longrightarrow> \<not> pid_registered s t \<Longrightarrow> t \<notin> set pending \<Longrightarrow>
    pid_step (s, pending)
      (s1\<lparr>ptasks := (ptasks s1)(t := \<lparr>t_pid = p, t_refs = 1, t_unused = False\<rparr>)\<rparr>, t # pending)"
| spawn_fail: "proc_pid_alloc s = (Inl err, s1) \<Longrightarrow> pid_step (s, pending) (s1, pending)"
| register: "t \<in> set pending \<Longrightarrow>
    pid_step (s, pending) (proc_pid_register t s, filter (\<lambda>u. u \<noteq> t) pending)"
| idle: "\<not> pid_registered s t \<Longrightarrow> t \<notin> set pending \<Longrightarrow>
    \<forall>u. pid_registered s u \<longrightarrow> t_pid (ptasks s u) \<noteq> 0 \<Longrightarrow>
    pid_step (s, pending) (proc_pid_register t
      (s\<lparr>ptasks := (ptasks s)(t := \<lparr>t_pid = 0, t_refs = 1, t_unused = False\<rparr>)\<rparr>), pending)"
| detach: "pid_step (s, pending)
    (s\<lparr>ptasks := (ptasks s)(t := (ptasks s t)\<lparr>t_unused := True\<rparr>)\<rparr>, pending)"
| put: "(pid_registered s t \<or> t \<in> set pending \<longrightarrow> 2 \<le> t_refs (ptasks s t)) \<Longrightarrow>
    pid_step (s, pending) (proc_put t s, pending)"
| unregister: "t \<notin> set pending \<Longrightarrow> pid_step (s, pending) (proc_pid_unregister t s, pending)"
| find_get: "proc_find_get p s = (r, s1) \<Longrightarrow> pid_step (s, pending) (s1, pending)"
| set_max: "proc_set_pid_max v s = (r, s1) \<Longrightarrow> pid_step (s, pending) (s1, pending)"

inductive pid_reachable :: "pid_state \<times> nat list \<Rightarrow> bool" where
  init: "pid_reachable (proc_pid_init s, [])"
| step: "pid_reachable c \<Longrightarrow> pid_step c c' \<Longrightarrow> pid_reachable c'"

end
