(* ===== verification/Pid_Theorems.thy ===== *)
theory Pid_Theorems
  imports Pid
begin

text \<open>
  Correctness of the pid allocator and the pid hash: the count-trailing-zeros routine finds
  the lowest set bit, the scan is a next-fit search, and in every reachable state the pids in
  use are marked and distinct, so that a lookup finds the one task with the pid.
\<close>

unbundle bit_operations_syntax

subsection \<open>Counting trailing zeros\<close>

lemma ctz64_lowest:
  assumes "v \<noteq> 0"
  shows "bit v (ctz64 v)" "j < ctz64 v \<Longrightarrow> \<not> bit v j" "ctz64 v < 64"
  using ctz_steps_lowest [OF assms] assms by (simp_all add: ctz64_def ctz_steps_def)

subsection \<open>The scan\<close>

definition pid_used :: "u64 list \<Rightarrow> int \<Rightarrow> bool" where
  "pid_used bm p \<longleftrightarrow> bit (bm ! (nat (p - 1) div 64)) (nat (p - 1) mod 64)"

text \<open>The candidates of one word: free pids of that word up to the limit, and from \<open>start\<close>
  on in the word where the scan starts.\<close>

definition word_free :: "u64 list \<Rightarrow> int \<Rightarrow> int \<Rightarrow> nat \<Rightarrow> int \<Rightarrow> bool" where
  "word_free bm limit start wi p \<longleftrightarrow> 1 \<le> p \<and> p \<le> limit \<and> nat (p - 1) div 64 = wi \<and>
     \<not> pid_used bm p \<and> (wi = nat (start - 1) div 64 \<longrightarrow> start \<le> p)"

lemma pid_of_word_bit:
  "k < 64 \<Longrightarrow> nat (int (wi * 64) + int k + 1 - 1) div 64 = wi \<and>
     nat (int (wi * 64) + int k + 1 - 1) mod 64 = k"
  by (simp add: nat_add_distrib nat_mult_distrib flip: of_nat_mult)

lemma pid_in_word:
  assumes "1 \<le> p" "nat (p - 1) div 64 = wi"
  shows "p = int (wi * 64) + int (nat (p - 1) mod 64) + 1"
  using assms div_mult_mod_eq [of "nat (p - 1)" 64] by linarith

lemma start_le_iff:
  assumes "1 \<le> p" "1 \<le> start" "nat (p - 1) div 64 = nat (start - 1) div 64"
  shows "start \<le> p \<longleftrightarrow> nat (start - 1) mod 64 \<le> nat (p - 1) mod 64"
  using assms div_mult_mod_eq [of "nat (p - 1)" 64] div_mult_mod_eq [of "nat (start - 1)" 64]
  by linarith

definition scan_mask :: "u64 list \<Rightarrow> int \<Rightarrow> nat \<Rightarrow> u64" where
  "scan_mask bm start wi =
     (if wi = nat (start - 1) div 64 \<and> nat (start - 1) mod 64 > 0
      then NOT (bm ! wi) AND NOT (push_bit (nat (start - 1) mod 64) 1 - 1) else NOT (bm ! wi))"

lemma bit_scan_mask:
  assumes "1 \<le> start" "k < 64"
  shows "bit (scan_mask bm start wi) k \<longleftrightarrow>
    \<not> pid_used bm (int (wi * 64) + int k + 1) \<and>
    (wi = nat (start - 1) div 64 \<longrightarrow> start \<le> int (wi * 64) + int k + 1)"
proof -
  let ?p = "int (wi * 64) + int k + 1" and ?b = "nat (start - 1) mod 64"
  have "push_bit ?b 1 - 1 = (mask ?b :: u64)"
    by (simp add: mask_eq_exp_minus_1 push_bit_eq_mult)
  then have "bit (scan_mask bm start wi) k \<longleftrightarrow> \<not> bit (bm ! wi) k \<and>
      (wi = nat (start - 1) div 64 \<longrightarrow> ?b \<le> k)"
    using assms(2) by (auto simp: scan_mask_def bit_simps)
  moreover have "wi = nat (start - 1) div 64 \<Longrightarrow> start \<le> ?p \<longleftrightarrow> ?b \<le> k"
    using start_le_iff [of ?p start] pid_of_word_bit [OF assms(2)] assms(1) by simp
  ultimately show ?thesis
    using pid_of_word_bit [OF assms(2)] by (simp add: pid_used_def)
qed

lemma pid_scan_word_alt:
  "pid_scan_word bm limit start wi =
     (if scan_mask bm start wi = 0 then None
      else let c = int (wi * 64) + int (ctz64 (scan_mask bm start wi)) + 1
           in if c \<le> limit then Some c else None)"
proof -
  have "scan_mask bm start wi = 0" if "bm ! wi = - 1"
    using that unfolding scan_mask_def by (cases "wi = nat (start - 1) div 64") simp_all
  moreover have "ctz64 m = 64 \<longleftrightarrow> m = 0" for m
    using ctz64_lowest(3) [of m] by (auto simp: ctz64_def)
  ultimately show ?thesis
    by (auto simp: pid_scan_word_def Let_def simp flip: scan_mask_def)
qed

lemma word_free_bit:
  assumes "word_free bm limit start wi p" "1 \<le> start"
  shows "p = int (wi * 64) + int (nat (p - 1) mod 64) + 1"
    "bit (scan_mask bm start wi) (nat (p - 1) mod 64)"
proof -
  show p: "p = int (wi * 64) + int (nat (p - 1) mod 64) + 1"
    using assms(1) pid_in_word [of p wi] by (simp add: word_free_def)
  have "bit (scan_mask bm start wi) (nat (p - 1) mod 64) \<longleftrightarrow> \<not> pid_used bm p \<and>
      (wi = nat (start - 1) div 64 \<longrightarrow> start \<le> p)"
    using bit_scan_mask [OF assms(2), of "nat (p - 1) mod 64" bm wi] unfolding p [symmetric] by simp
  then show "bit (scan_mask bm start wi) (nat (p - 1) mod 64)"
    using assms(1) by (simp add: word_free_def)
qed

lemma pid_scan_word_Some:
  assumes "pid_scan_word bm limit start wi = Some c" "1 \<le> start"
  shows "word_free bm limit start wi c" "word_free bm limit start wi p \<Longrightarrow> c \<le> p"
proof -
  let ?m = "scan_mask bm start wi"
  have nz: "?m \<noteq> 0" and c: "c = int (wi * 64) + int (ctz64 ?m) + 1" "c \<le> limit"
    using assms by (auto simp: pid_scan_word_alt Let_def split: if_splits)
  note low = ctz64_lowest [OF nz]
  show "word_free bm limit start wi c"
    using bit_scan_mask [OF assms(2) low(3)] low(1) c pid_of_word_bit [OF low(3), of wi]
    by (auto simp: word_free_def)
  show "c \<le> p" if "word_free bm limit start wi p"
  proof -
    let ?k = "nat (p - 1) mod 64"
    have "ctz64 ?m \<le> ?k" using low(2) word_free_bit(2) [OF that assms(2)] not_le by blast
    then show ?thesis using c(1) word_free_bit(1) [OF that assms(2)] by linarith
  qed
qed

lemma pid_scan_word_None:
  assumes "pid_scan_word bm limit start wi = None" "1 \<le> start"
  shows "\<not> word_free bm limit start wi p"
proof
  assume wf: "word_free bm limit start wi p"
  let ?k = "nat (p - 1) mod 64" and ?m = "scan_mask bm start wi"
  note p = word_free_bit(1) [OF wf assms(2)] and b = word_free_bit(2) [OF wf assms(2)]
  then have nz: "?m \<noteq> 0" by auto
  then have "ctz64 ?m \<le> ?k" using b ctz64_lowest(2) [OF nz] not_le by blast
  moreover have "p \<le> limit" using wf by (simp add: word_free_def)
  ultimately have "int (wi * 64) + int (ctz64 ?m) + 1 \<le> limit" using p by linarith
  then show False using assms(1) nz by (simp add: pid_scan_word_alt Let_def)
qed

abbreviation scan_index :: "int \<Rightarrow> nat \<Rightarrow> nat" where
  "scan_index start w \<equiv> (nat (start - 1) div 64 + w) mod PID_BITMAP_SIZE"

lemma pid_scan_cases:
  "(pid_scan bm limit start w n = - 1 \<and>
      (\<forall>v\<in>{w..<w + n}. pid_scan_word bm limit start (scan_index start v) = None)) \<or>
   (\<exists>v\<in>{w..<w + n}. pid_scan_word bm limit start (scan_index start v) =
        Some (pid_scan bm limit start w n) \<and>
      (\<forall>u\<in>{w..<v}. pid_scan_word bm limit start (scan_index start u) = None))"
proof (induction n arbitrary: w)
  case (Suc n)
  show ?case
  proof (cases "pid_scan_word bm limit start (scan_index start w)")
    case None
    have split: "{w..<w + Suc n} = insert w {Suc w..<Suc w + n}" by auto
    have split': "{w..<v} = insert w {Suc w..<v}" if "v \<in> {Suc w..<Suc w + n}" for v using that by auto
    from Suc [of "Suc w"] show ?thesis
      unfolding split using None split' by (auto simp del: atLeastLessThan_iff)
  qed (auto intro!: bexI [of _ w])
qed simp

definition pid_free :: "pid_state \<Rightarrow> int \<Rightarrow> bool" where
  "pid_free s p \<longleftrightarrow> 1 \<le> p \<and> p \<le> pid_limit s \<and> \<not> pid_used (pid_bitmap s) p"

abbreviation pid_word :: "int \<Rightarrow> nat" where
  "pid_word p \<equiv> nat (p - 1) div 64"

lemma pid_word_less: "pid_word p < pid_word q \<Longrightarrow> p < q"
  by (metis div_le_mono linorder_not_less nat_mono diff_right_mono)

lemma pid_word_mono: "p \<le> q \<Longrightarrow> pid_word p \<le> pid_word q"
  by (intro div_le_mono nat_mono) simp

lemma pid_word_bound: "p \<le> PID_MAX_LIMIT \<Longrightarrow> pid_word p < PID_BITMAP_SIZE"
  by (simp add: PID_MAX_LIMIT_def PID_BITMAP_SIZE_def div_less_iff_less_mult nat_less_iff)

text \<open>When a free pid of word \<open>wp\<close> is met: the scan reaches that word after this many steps.\<close>

definition scan_pos :: "int \<Rightarrow> nat \<Rightarrow> nat" where
  "scan_pos start wp =
     (if pid_word start \<le> wp then wp - pid_word start else wp + PID_BITMAP_SIZE - pid_word start)"

lemma scan_pos_index:
  assumes "start \<le> PID_MAX_LIMIT" "wp < PID_BITMAP_SIZE"
  shows "scan_index start (scan_pos start wp) = wp" "scan_pos start wp < PID_BITMAP_SIZE"
  using assms pid_word_bound [of start] by (auto simp: scan_pos_def)

lemma find_free_none:
  assumes "pid_bitmap_find_free start s = - 1" "1 \<le> start" "start \<le> PID_MAX_LIMIT"
    "pid_limit s \<le> PID_MAX_LIMIT" "pid_free s p"
  shows "p < start \<and> pid_word p = pid_word start"
proof (rule ccontr)
  assume no: "\<not> (p < start \<and> pid_word p = pid_word start)"
  have wp: "pid_word p < PID_BITMAP_SIZE"
    using assms(4,5) pid_word_bound by (auto simp: pid_free_def)
  have wf: "word_free (pid_bitmap s) (pid_limit s) start (pid_word p) p"
    using no assms(5) by (auto simp: word_free_def pid_free_def)
  have "pid_scan_word (pid_bitmap s) (pid_limit s) start (pid_word p) = None"
  proof -
    from pid_scan_cases [of "pid_bitmap s" "pid_limit s" start 0 PID_BITMAP_SIZE]
    have "\<forall>v\<in>{0..<PID_BITMAP_SIZE}. pid_scan_word (pid_bitmap s) (pid_limit s) start (scan_index start v) = None"
      using assms(1,2) pid_scan_word_Some(1)
      by (fastforce simp: pid_bitmap_find_free_def word_free_def)
    then show ?thesis using scan_pos_index [OF assms(3) wp] by (metis atLeastLessThan_iff le0)
  qed
  then show False using pid_scan_word_None [OF _ assms(2)] wf by blast
qed

text \<open>A found pid is free, and no free pid is met earlier in scan order.\<close>

lemma find_free_found:
  assumes r: "pid_bitmap_find_free start s = r" "r \<noteq> - 1" and start: "1 \<le> start" "start \<le> PID_MAX_LIMIT"
    and lim: "pid_limit s \<le> PID_MAX_LIMIT"
  shows "pid_free s r" "pid_word r = pid_word start \<longrightarrow> start \<le> r"
    "pid_free s p \<Longrightarrow> pid_word p = pid_word start \<longrightarrow> start \<le> p \<Longrightarrow>
       scan_pos start (pid_word r) \<le> scan_pos start (pid_word p) \<and>
       (pid_word r \<le> pid_word p \<longrightarrow> r \<le> p)"
proof -
  let ?N = PID_BITMAP_SIZE and ?word = "pid_scan_word (pid_bitmap s) (pid_limit s) start"
  obtain v where v: "v < ?N" "?word (scan_index start v) = Some r"
    "\<And>u. u < v \<Longrightarrow> ?word (scan_index start u) = None"
    using pid_scan_cases [of "pid_bitmap s" "pid_limit s" start 0 ?N] r
    by (auto simp: pid_bitmap_find_free_def)
  note wr = pid_scan_word_Some [OF v(2) start(1)]
  from wr(1) have rw: "pid_word r = scan_index start v" by (simp add: word_free_def)
  show "pid_free s r" "pid_word r = pid_word start \<longrightarrow> start \<le> r"
    using wr(1) by (auto simp: word_free_def pid_free_def)
  have pos: "scan_pos start (pid_word r) = v"
    using v(1) pid_word_bound [OF start(2)] by (auto simp: rw scan_pos_def mod_if)
  assume p: "pid_free s p" "pid_word p = pid_word start \<longrightarrow> start \<le> p"
  then have wfp: "word_free (pid_bitmap s) (pid_limit s) start (pid_word p) p"
    by (auto simp: word_free_def pid_free_def)
  have wp: "pid_word p < ?N"
    using p lim pid_word_bound by (auto simp: pid_free_def)
  have "v \<le> scan_pos start (pid_word p)"
  proof (rule ccontr)
    assume "\<not> ?thesis"
    then have "?word (pid_word p) = None"
      using v(3) [of "scan_pos start (pid_word p)"] scan_pos_index [OF start(2) wp] by simp
    then show False using pid_scan_word_None [OF _ start(1)] wfp by blast
  qed
  moreover have "r \<le> p" if "pid_word r \<le> pid_word p"
    using wr(2) [of p] rw wfp pid_word_less [of r p] that by (cases "pid_word r = pid_word p") auto
  ultimately show "scan_pos start (pid_word r) \<le> scan_pos start (pid_word p) \<and>
      (pid_word r \<le> pid_word p \<longrightarrow> r \<le> p)" by (simp add: pos)
qed

lemma find_free_ahead:
  assumes "pid_bitmap_find_free start s = r" "r \<noteq> - 1" "1 \<le> start" "start \<le> PID_MAX_LIMIT"
    "pid_limit s \<le> PID_MAX_LIMIT" and "start \<le> r" "pid_free s p" "start \<le> p"
  shows "r \<le> p"
proof -
  have "pid_word start \<le> pid_word r" "pid_word start \<le> pid_word p"
    using assms(6,8) pid_word_mono by auto
  moreover have "scan_pos start (pid_word r) \<le> scan_pos start (pid_word p)"
    "pid_word r \<le> pid_word p \<longrightarrow> r \<le> p"
    using find_free_found(3) [OF assms(1-5,7)] assms(8) by auto
  ultimately show ?thesis by (auto simp: scan_pos_def le_diff_iff)
qed

lemma scan_arith: "a \<le> c \<Longrightarrow> b + n - a \<le> c - a \<Longrightarrow> c < n \<Longrightarrow> False" for a b c n :: nat
  by linarith

lemma scan_arith': "b + n - a \<le> c + n - a \<Longrightarrow> a < n \<Longrightarrow> b \<le> c" for a b c n :: nat
  by linarith

lemma find_free_wrapped:
  assumes "pid_bitmap_find_free start s = r" "r \<noteq> - 1" "1 \<le> start" "start \<le> PID_MAX_LIMIT"
    "pid_limit s \<le> PID_MAX_LIMIT" and "r < start" "pid_free s p"
  shows "p < start \<and> r \<le> p"
proof -
  note found = find_free_found [OF assms(1-5)]
  have wp: "pid_word p < PID_BITMAP_SIZE"
    using assms(5,7) pid_word_bound by (auto simp: pid_free_def)
  have rs: "pid_word r < pid_word start"
    using found(2) assms(6) pid_word_mono [of r start] by fastforce
  have ps: "p < start"
  proof (rule ccontr)
    assume "\<not> p < start"
    then have "pid_word start \<le> pid_word p" "scan_pos start (pid_word r) \<le> scan_pos start (pid_word p)"
      using pid_word_mono found(3) assms(7) by auto
    then show False
      using rs wp scan_arith [of "pid_word start" "pid_word p" "pid_word r" PID_BITMAP_SIZE]
      by (simp add: scan_pos_def)
  qed
  moreover have "r \<le> p"
  proof (cases "pid_word p = pid_word start")
    case True
    then show ?thesis using rs pid_word_less [of r p] by simp
  next
    case False
    then have "pid_word p < pid_word start" using pid_word_mono [of p start] ps by simp
    then have "pid_word r \<le> pid_word p"
      using found(3) [OF assms(7)] False rs pid_word_bound [OF assms(4)]
        scan_arith' [of "pid_word r" PID_BITMAP_SIZE "pid_word start" "pid_word p"]
      by (simp add: scan_pos_def)
    then show ?thesis using found(3) [OF assms(7)] False by blast
  qed
  ultimately show ?thesis ..
qed

subsection \<open>Allocation\<close>

definition pid_wf :: "pid_state \<Rightarrow> bool" where
  "pid_wf s \<longleftrightarrow> length (pid_bitmap s) = PID_BITMAP_SIZE \<and> length (pid_hash s) = PID_HASH_SIZE \<and>
     1 \<le> pid_max s \<and> pid_max s \<le> PID_MAX_LIMIT \<and> 1 \<le> next_pid s \<and> next_pid s \<le> pid_max s"

lemma pid_used_set:
  assumes "pid_wf s" "1 \<le> p" "p \<le> pid_max s" "1 \<le> q"
  shows "pid_used (pid_bitmap (pid_bitmap_set p s)) q \<longleftrightarrow> q = p \<or> pid_used (pid_bitmap s) q"
proof -
  have "pid_word p < length (pid_bitmap s)"
    using assms pid_word_bound [of p] by (simp add: pid_wf_def)
  moreover have "q = p \<longleftrightarrow> pid_word q = pid_word p \<and> nat (q - 1) mod 64 = nat (p - 1) mod 64"
    using assms(2,4) pid_in_word [of p "pid_word p"] pid_in_word [of q "pid_word q"] by auto
  ultimately show ?thesis
    using assms by (auto simp: pid_bitmap_set_def pid_used_def Let_def nth_list_update bit_simps)
qed

lemma pid_used_clear:
  assumes "length (pid_bitmap s) = PID_BITMAP_SIZE" "1 \<le> p" "p \<le> PID_MAX_LIMIT" "1 \<le> q"
  shows "pid_used (pid_bitmap (pid_bitmap_clear p s)) q \<longleftrightarrow> q \<noteq> p \<and> pid_used (pid_bitmap s) q"
proof -
  have "pid_word p < length (pid_bitmap s)"
    using assms pid_word_bound [of p] by simp
  moreover have "q = p \<longleftrightarrow> pid_word q = pid_word p \<and> nat (q - 1) mod 64 = nat (p - 1) mod 64"
    using assms(2,4) pid_in_word [of p "pid_word p"] pid_in_word [of q "pid_word q"] by auto
  ultimately show ?thesis
    using assms by (auto simp: pid_bitmap_clear_def pid_used_def Let_def nth_list_update bit_simps)
qed

lemma pid_limit_wf: "pid_wf s \<Longrightarrow> pid_limit s = pid_max s \<and> pid_limit s \<le> PID_MAX_LIMIT"
  by (simp add: pid_wf_def pid_limit_def)

text \<open>The pid the allocator chooses, before it is marked.\<close>

definition pid_choice :: "pid_state \<Rightarrow> int" where
  "pid_choice s = (let p0 = pid_bitmap_find_free (next_pid s) s
     in if p0 < 0 \<and> next_pid s > 1 then pid_bitmap_find_free 1 s else p0)"

lemma find_free_neg: "1 \<le> start \<Longrightarrow> start \<le> PID_MAX_LIMIT \<Longrightarrow> pid_limit s \<le> PID_MAX_LIMIT \<Longrightarrow>
    pid_bitmap_find_free start s < 0 \<longleftrightarrow> pid_bitmap_find_free start s = - 1"
  by (cases "pid_bitmap_find_free start s = - 1")
    (use find_free_found(1) [of start s "pid_bitmap_find_free start s"] in \<open>auto simp: pid_free_def\<close>)

lemma pid_choice_spec:
  assumes "pid_wf s"
  shows "pid_choice s < 0 \<Longrightarrow> \<not> pid_free s p"
    "pid_choice s \<ge> 0 \<Longrightarrow> pid_free s (pid_choice s)"
    "pid_choice s \<ge> 0 \<Longrightarrow> pid_free s p \<Longrightarrow>
       if \<exists>q. pid_free s q \<and> next_pid s \<le> q then next_pid s \<le> pid_choice s \<and> (next_pid s \<le> p \<longrightarrow> pid_choice s \<le> p)
       else pid_choice s \<le> p"
proof -
  let ?n = "next_pid s" and ?p0 = "pid_bitmap_find_free (next_pid s) s"
  have n: "1 \<le> ?n" "?n \<le> PID_MAX_LIMIT" "pid_limit s \<le> PID_MAX_LIMIT" "(1::int) \<le> 1" "1 \<le> PID_MAX_LIMIT"
    using assms by (auto simp: pid_wf_def pid_limit_def PID_MAX_LIMIT_def)
  note none = find_free_none [OF _ n(1-3)] and none1 = find_free_none [OF _ n(4,5,3)]
  note some = find_free_found(1) [OF refl _ n(1-3)] and some1 = find_free_found(1) [OF refl _ n(4,5,3)]
  have one: "pid_free s q \<Longrightarrow> 1 \<le> q" for q by (simp add: pid_free_def)
  show "\<not> pid_free s p" if "pid_choice s < 0"
    using that none [of p] none1 [of p] one [of p] find_free_neg [OF n(1-3)] find_free_neg [OF n(4,5,3)]
    by (auto simp: pid_choice_def Let_def split: if_splits)
  show "pid_free s (pid_choice s)" if "pid_choice s \<ge> 0"
    using that some some1 by (auto simp: pid_choice_def Let_def split: if_splits)
  show "if \<exists>q. pid_free s q \<and> ?n \<le> q then ?n \<le> pid_choice s \<and> (?n \<le> p \<longrightarrow> pid_choice s \<le> p)
      else pid_choice s \<le> p" if "pid_choice s \<ge> 0" "pid_free s p"
  proof (cases "?p0 < 0")
    case True
    then have m1: "?p0 = - 1" using find_free_neg [OF n(1-3)] by simp
    have "\<not> (\<exists>q. pid_free s q \<and> ?n \<le> q)" using none [OF m1] by force
    moreover have "pid_choice s = pid_bitmap_find_free 1 s"
      using that True by (auto simp: pid_choice_def Let_def split: if_splits)
    ultimately show ?thesis
      using find_free_ahead [OF refl _ n(4,5,3), of p] that one some1 by (auto simp: pid_free_def)
  next
    case False
    then have c: "pid_choice s = ?p0" by (simp add: pid_choice_def Let_def)
    have ne: "?p0 \<noteq> - 1" using False by auto
    show ?thesis
    proof (cases "?n \<le> ?p0")
      case True
      then have "\<exists>q. pid_free s q \<and> ?n \<le> q" using some [OF ne] by blast
      then show ?thesis using True find_free_ahead [OF refl ne n(1-3) True that(2)] by (simp add: c)
    next
      case False
      then have "q < ?n \<and> ?p0 \<le> q" if "pid_free s q" for q
        using find_free_wrapped [OF refl ne n(1-3) _ that] by simp
      then show ?thesis using that(2) by (force simp: c)
    qed
  qed
qed

lemma proc_pid_alloc_alt:
  "proc_pid_alloc s = (if pid_choice s \<ge> 1 \<and> pid_choice s \<le> pid_limit s
     then (Inr (pid_choice s), (pid_bitmap_set (pid_choice s) s)
             \<lparr>next_pid := (if pid_choice s + 1 > pid_limit s then 1 else pid_choice s + 1)\<rparr>)
     else (Inl EAGAIN, s))"
  by (simp add: proc_pid_alloc_def pid_choice_def Let_def)

lemma pid_choice_ok:
  "pid_wf s \<Longrightarrow> pid_choice s \<ge> 1 \<and> pid_choice s \<le> pid_limit s \<longleftrightarrow> pid_choice s \<ge> 0"
  using pid_choice_spec(2) [of s] by (auto simp: pid_free_def)

lemma pid_bitmap_set_frame [simp]:
  "next_pid (pid_bitmap_set p s) = next_pid s" "pid_max (pid_bitmap_set p s) = pid_max s"
  "pid_hash (pid_bitmap_set p s) = pid_hash s" "ptasks (pid_bitmap_set p s) = ptasks s"
  "length (pid_bitmap (pid_bitmap_set p s)) = length (pid_bitmap s)"
  by (simp_all add: pid_bitmap_set_def Let_def)

lemma pid_bitmap_clear_frame [simp]:
  "next_pid (pid_bitmap_clear p s) = next_pid s" "pid_max (pid_bitmap_clear p s) = pid_max s"
  "pid_hash (pid_bitmap_clear p s) = pid_hash s" "ptasks (pid_bitmap_clear p s) = ptasks s"
  "length (pid_bitmap (pid_bitmap_clear p s)) = length (pid_bitmap s)"
  by (simp_all add: pid_bitmap_clear_def Let_def)

lemma proc_pid_alloc_wf:
  assumes "pid_wf s" "proc_pid_alloc s = (r, t)"
  shows "pid_wf t" "pid_hash t = pid_hash s" "ptasks t = ptasks s"
  using assms pid_limit_wf [OF assms(1)]
  by (auto simp: proc_pid_alloc_alt pid_wf_def split: if_splits)

lemma proc_pid_alloc_used:
  assumes "pid_wf s" "proc_pid_alloc s = (Inr p, t)"
  shows "pid_free s p" "1 \<le> q \<Longrightarrow> pid_used (pid_bitmap t) q \<longleftrightarrow> q = p \<or> pid_used (pid_bitmap s) q"
proof -
  have p: "p = pid_choice s" "pid_choice s \<ge> 1" "pid_choice s \<le> pid_limit s"
    and t: "pid_bitmap t = pid_bitmap (pid_bitmap_set p s)"
    using assms(2) by (auto simp: proc_pid_alloc_alt split: if_splits)
  show "pid_free s p" using pid_choice_spec(2) [OF assms(1)] p by simp
  show "pid_used (pid_bitmap t) q \<longleftrightarrow> q = p \<or> pid_used (pid_bitmap s) q" if "1 \<le> q"
    using pid_used_set [OF assms(1) _ _ that, of p] p pid_limit_wf [OF assms(1)] by (simp add: t)
qed

subsection \<open>The pid hash\<close>

definition pid_held :: "pid_state \<Rightarrow> nat list \<Rightarrow> nat set" where
  "pid_held s pending = {t. pid_registered s t} \<union> set pending"

definition pid_hash_wf :: "pid_state \<Rightarrow> bool" where
  "pid_hash_wf s \<longleftrightarrow> (\<forall>h<PID_HASH_SIZE. distinct (pid_hash s ! h) \<and>
     (\<forall>t\<in>set (pid_hash s ! h). pid_hash_index (t_pid (ptasks s t)) = h))"

definition pid_inv :: "pid_state \<times> nat list \<Rightarrow> bool" where
  "pid_inv = (\<lambda>(s, pending). pid_wf s \<and> pid_hash_wf s \<and>
     (\<forall>t\<in>pid_held s pending. let p = t_pid (ptasks s t) in
        0 \<le> p \<and> p \<le> PID_MAX_LIMIT \<and> (1 \<le> p \<longrightarrow> pid_used (pid_bitmap s) p) \<and>
        1 \<le> t_refs (ptasks s t)) \<and>
     inj_on (\<lambda>t. t_pid (ptasks s t)) (pid_held s pending) \<and>
     (\<forall>t\<in>set pending. \<not> pid_registered s t \<and> 1 \<le> t_pid (ptasks s t)))"

lemma pid_hash_index_bound: "pid_hash_index p < PID_HASH_SIZE"
proof -
  have "unat (w :: 32 word) div 2 ^ 22 < 1024" for w
    using unsigned_less [of w] by (simp add: div_less_iff_less_mult)
  then show ?thesis
    by (simp add: pid_hash_index_def PID_HASH_SIZE_def PID_HASH_BITS_def drop_bit_eq_div unat_div)
qed

lemma pid_registered_bucket:
  assumes "pid_wf s" "pid_hash_wf s"
  shows "pid_registered s t \<longleftrightarrow> t \<in> set (pid_hash s ! pid_hash_index (t_pid (ptasks s t)))"
proof -
  have len: "length (pid_hash s) = PID_HASH_SIZE" using assms(1) by (simp add: pid_wf_def)
  show ?thesis
    using assms(2) len pid_hash_index_bound unfolding pid_registered_def pid_hash_wf_def
    by (metis in_set_conv_nth)
qed

lemma pid_registered_nth:
  "pid_registered s t \<longleftrightarrow> (\<exists>h<length (pid_hash s). t \<in> set (pid_hash s ! h))"
  unfolding pid_registered_def by (metis in_set_conv_nth)

lemma pid_invD:
  assumes "pid_inv (s, pending)"
  shows "pid_wf s" "pid_hash_wf s"
    "t \<in> set pending \<Longrightarrow> \<not> pid_registered s t \<and> 1 \<le> t_pid (ptasks s t)"
    "t \<in> pid_held s pending \<Longrightarrow> 0 \<le> t_pid (ptasks s t) \<and> t_pid (ptasks s t) \<le> PID_MAX_LIMIT"
    "t \<in> pid_held s pending \<Longrightarrow> 1 \<le> t_pid (ptasks s t) \<Longrightarrow>
       pid_used (pid_bitmap s) (t_pid (ptasks s t))"
    "t \<in> pid_held s pending \<Longrightarrow> 1 \<le> t_refs (ptasks s t)"
    "t \<in> pid_held s pending \<Longrightarrow> u \<in> pid_held s pending \<Longrightarrow>
       t_pid (ptasks s t) = t_pid (ptasks s u) \<Longrightarrow> t = u"
  using assms by (auto simp: pid_inv_def Let_def inj_on_def)

lemma pid_invI:
  assumes "pid_wf s" "pid_hash_wf s"
    "\<And>t. t \<in> set pending \<Longrightarrow> \<not> pid_registered s t \<and> 1 \<le> t_pid (ptasks s t)"
    "\<And>t. t \<in> pid_held s pending \<Longrightarrow> 0 \<le> t_pid (ptasks s t) \<and> t_pid (ptasks s t) \<le> PID_MAX_LIMIT"
    "\<And>t. t \<in> pid_held s pending \<Longrightarrow> 1 \<le> t_pid (ptasks s t) \<Longrightarrow>
       pid_used (pid_bitmap s) (t_pid (ptasks s t))"
    "\<And>t. t \<in> pid_held s pending \<Longrightarrow> 1 \<le> t_refs (ptasks s t)"
    "\<And>t u. t \<in> pid_held s pending \<Longrightarrow> u \<in> pid_held s pending \<Longrightarrow>
       t_pid (ptasks s t) = t_pid (ptasks s u) \<Longrightarrow> t = u"
  shows "pid_inv (s, pending)"
  using assms by (auto simp: pid_inv_def Let_def inj_on_def)

text \<open>The invariant depends on the tasks through their pids and on their counts being positive.\<close>

lemma pid_inv_task_update:
  assumes inv: "pid_inv (s, pending)"
    and refs: "\<And>u. u \<in> pid_held s pending \<Longrightarrow> 1 \<le> t_refs (ts u)"
    and pid: "\<And>u. u \<in> pid_held s pending \<Longrightarrow> t_pid (ts u) = t_pid (ptasks s u)"
  shows "pid_inv (s\<lparr>ptasks := ts\<rparr>, pending)"
proof -
  have reg: "pid_registered (s\<lparr>ptasks := ts\<rparr>) = pid_registered s"
    "pid_held (s\<lparr>ptasks := ts\<rparr>) pending = pid_held s pending"
    by (auto simp: pid_registered_def pid_held_def)
  have h: "u \<in> pid_held s pending" if "h < PID_HASH_SIZE" "u \<in> set (pid_hash s ! h)" for h u
    using that pid_invD(1) [OF inv] by (auto simp: pid_held_def pid_registered_nth pid_wf_def)
  have p: "u \<in> pid_held s pending" if "u \<in> set pending" for u using that by (simp add: pid_held_def)
  show ?thesis
  proof (rule pid_invI)
    show "pid_wf (s\<lparr>ptasks := ts\<rparr>)" using pid_invD(1) [OF inv] by (simp add: pid_wf_def)
    show "pid_hash_wf (s\<lparr>ptasks := ts\<rparr>)" using pid_invD(2) [OF inv] h pid by (simp add: pid_hash_wf_def)
    show "u = v" if "u \<in> pid_held (s\<lparr>ptasks := ts\<rparr>) pending" "v \<in> pid_held (s\<lparr>ptasks := ts\<rparr>) pending"
      "t_pid (ptasks (s\<lparr>ptasks := ts\<rparr>) u) = t_pid (ptasks (s\<lparr>ptasks := ts\<rparr>) v)" for u v
      using that pid_invD(7) [OF inv, of u v] by (simp add: reg pid)
  qed (use pid_invD(3-5) [OF inv] in \<open>simp_all add: reg pid p refs\<close>)
qed

text \<open>A new task with a pid no held task has.\<close>

lemma pid_new_inv:
  assumes inv: "pid_inv (s, pending)" and new: "\<not> pid_registered s t" "t \<notin> set pending"
    and p: "1 \<le> p" "p \<le> PID_MAX_LIMIT" "pid_used (pid_bitmap s) p"
    and other: "\<And>u. u \<in> pid_held s pending \<Longrightarrow> t_pid (ptasks s u) \<noteq> p"
  shows "pid_inv (s\<lparr>ptasks := (ptasks s)(t := \<lparr>t_pid = p, t_refs = 1, t_unused = False\<rparr>)\<rparr>, t # pending)"
proof -
  define s2 where "s2 = s\<lparr>ptasks := (ptasks s)(t := \<lparr>t_pid = p, t_refs = 1, t_unused = False\<rparr>)\<rparr>"
  have "t \<notin> pid_held s pending" using new by (simp add: pid_held_def)
  then have old: "u \<noteq> t" if "u \<in> pid_held s pending" for u using that by blast
  have i2: "pid_inv (s2, pending)"
    unfolding s2_def by (rule pid_inv_task_update [OF inv]) (use pid_invD(6) [OF inv] old in auto)
  have reg: "pid_registered s2 = pid_registered s" by (auto simp: pid_registered_def s2_def)
  have held: "u \<in> pid_held s2 (t # pending) \<longleftrightarrow> u = t \<or> u \<in> pid_held s2 pending"
    "pid_held s2 pending = pid_held s pending" for u
    by (auto simp: pid_held_def reg)
  have oth: "t_pid (ptasks s2 u) \<noteq> p" if "u \<in> pid_held s2 pending" for u
    using other [of u] old [of u] that unfolding held(2) by (simp add: s2_def)
  have t: "ptasks s2 t = \<lparr>t_pid = p, t_refs = 1, t_unused = False\<rparr>" "pid_bitmap s2 = pid_bitmap s"
    by (simp_all add: s2_def)
  show ?thesis
    unfolding s2_def [symmetric]
  proof (rule pid_invI)
    show "u = v" if "u \<in> pid_held s2 (t # pending)" "v \<in> pid_held s2 (t # pending)"
      "t_pid (ptasks s2 u) = t_pid (ptasks s2 v)" for u v
      using that oth t pid_invD(7) [OF i2] unfolding held(1) by (metis ptask.select_convs(1))
  qed (use pid_invD(1-6) [OF i2] p t new reg in \<open>auto simp: held(1)\<close>)
qed

lemma pid_alloc_inv:
  assumes inv: "pid_inv (s, pending)" and alloc: "proc_pid_alloc s = (Inr p, s1)"
  shows "pid_inv (s1, pending)" "1 \<le> p" "p \<le> PID_MAX_LIMIT" "pid_used (pid_bitmap s1) p"
    "pid_registered s1 = pid_registered s" "u \<in> pid_held s1 pending \<Longrightarrow> t_pid (ptasks s1 u) \<noteq> p"
proof -
  note fr = proc_pid_alloc_wf [OF pid_invD(1) [OF inv] alloc]
    and used = proc_pid_alloc_used [OF pid_invD(1) [OF inv] alloc]
  show p: "1 \<le> p" "p \<le> PID_MAX_LIMIT" "pid_used (pid_bitmap s1) p"
    using used pid_limit_wf [OF pid_invD(1) [OF inv]] by (auto simp: pid_free_def)
  show reg: "pid_registered s1 = pid_registered s" by (auto simp: pid_registered_def fr)
  have held: "pid_held s1 pending = pid_held s pending" by (simp add: pid_held_def reg)
  show "t_pid (ptasks s1 u) \<noteq> p" if "u \<in> pid_held s1 pending"
    using that pid_invD(5) [OF inv, of u] used(1) p(1) by (auto simp: pid_free_def fr held)
  show "pid_inv (s1, pending)"
    by (rule pid_invI)
      (use fr(1) pid_invD [OF inv] used(2) in \<open>auto simp: held reg fr(2,3) pid_hash_wf_def\<close>)
qed

lemma proc_get_inv:
  assumes inv: "pid_inv (s, pending)" and get: "proc_get t s = (b, s1)"
    and t: "t \<in> pid_held s pending"
  shows "b" "pid_inv (s1, pending)" "pid_hash s1 = pid_hash s" "t_pid (ptasks s1 u) = t_pid (ptasks s u)"
proof -
  have refs: "1 \<le> t_refs (ptasks s t)" using pid_invD(6) [OF inv t] by simp
  then have s1: "b" "s1 = s\<lparr>ptasks := (ptasks s)(t := (ptasks s t)\<lparr>t_refs := t_refs (ptasks s t) + 1\<rparr>)\<rparr>"
    using get by (auto simp: proc_get_def)
  then have f: "t_pid (ptasks s1 u) = t_pid (ptasks s u)" "t_unused (ptasks s1 u) = t_unused (ptasks s u)"
    "t_refs (ptasks s u) \<le> t_refs (ptasks s1 u)" "pid_hash s1 = pid_hash s" for u
    by auto
  then show "b" "pid_hash s1 = pid_hash s" "t_pid (ptasks s1 u) = t_pid (ptasks s u)" using s1 by blast+
  have reg: "pid_registered s1 u = pid_registered s u" "pid_held s1 pending = pid_held s pending" for u
    by (simp_all add: pid_registered_def pid_held_def f)
  show "pid_inv (s1, pending)"
  proof (rule pid_invI)
    show "pid_wf s1" "pid_hash_wf s1"
      using pid_invD(1,2) [OF inv] by (simp_all add: pid_wf_def pid_hash_wf_def f s1(2))
    show "1 \<le> t_refs (ptasks s1 u)" if "u \<in> pid_held s1 pending" for u
      using pid_invD(6) [OF inv] that f(3) [of u] by (fastforce simp: reg)
  qed (use pid_invD [OF inv] in \<open>auto simp: reg f(1)\<close>, simp add: s1(2))
qed

lemma pid_register_inv:
  assumes inv: "pid_inv (s, pending)" and t: "t \<in> set pending"
  shows "pid_inv (proc_pid_register t s, filter (\<lambda>u. u \<noteq> t) pending)"
proof -
  obtain b s1 where get: "proc_get t s = (b, s1)" by fastforce
  have th: "t \<in> pid_held s pending" using t by (simp add: pid_held_def)
  note g = proc_get_inv [OF inv get th]
  define h where "h = pid_hash_index (t_pid (ptasks s t))"
  define s2 where "s2 = s1\<lparr>pid_hash := (pid_hash s1)[h := t # pid_hash s1 ! h]\<rparr>"
  have eq: "proc_pid_register t s = s2"
    using g(1) by (simp add: proc_pid_register_def get Let_def s2_def h_def g(4))
  have h: "h < length (pid_hash s1)" "length (pid_hash s1) = PID_HASH_SIZE"
    using pid_invD(1) [OF g(2)] pid_hash_index_bound by (simp_all add: pid_wf_def h_def)
  have s2: "ptasks s2 = ptasks s1" "pid_bitmap s2 = pid_bitmap s1" by (simp_all add: s2_def)
  have reg: "pid_registered s2 u \<longleftrightarrow> u = t \<or> pid_registered s1 u" for u
    using h(1) by (auto simp: pid_registered_nth s2_def nth_list_update)
  have tr: "\<not> pid_registered s1 t" using pid_invD(3) [OF g(2) t] by simp
  have held: "pid_held s2 (filter (\<lambda>u. u \<noteq> t) pending) = pid_held s1 pending"
    using t by (auto simp: pid_held_def reg)
  show ?thesis
    unfolding eq
  proof (rule pid_invI)
    show "pid_hash_wf s2"
      using pid_invD(2) [OF g(2)] h tr g(4) [of t]
      by (auto simp: pid_hash_wf_def nth_list_update pid_registered_nth s2_def h_def)
    show "pid_wf s2" using pid_invD(1) [OF g(2)] by (simp add: pid_wf_def s2_def)
  qed (use pid_invD [OF g(2)] in \<open>auto simp: held reg s2\<close>)
qed

lemma pid_unregister_inv:
  assumes inv: "pid_inv (s, pending)" and np: "t \<notin> set pending"
  shows "pid_inv (proc_pid_unregister t s, pending)"
proof -
  define h where "h = pid_hash_index (t_pid (ptasks s t))"
  define s2 where "s2 = proc_pid_unregister t s"
  have h: "h < length (pid_hash s)" "length (pid_hash s) = PID_HASH_SIZE"
    using pid_invD(1) [OF inv] pid_hash_index_bound by (simp_all add: pid_wf_def h_def)
  have bucket: "t \<in> set (pid_hash s ! h) \<longleftrightarrow> pid_registered s t"
    using pid_registered_bucket [OF pid_invD(1,2) [OF inv]] by (simp add: h_def)
  show ?thesis
  proof (cases "pid_registered s t")
    case False
    then have "remove1 t (pid_hash s ! h) = pid_hash s ! h" using bucket by (simp add: remove1_idem)
    then have "proc_pid_unregister t s = s"
      using False bucket h by (simp add: proc_pid_unregister_def Let_def flip: h_def)
    then show ?thesis using inv by simp
  next
    case True
    have th: "t \<in> pid_held s pending" using True by (simp add: pid_held_def)
    note pt = pid_invD(4) [OF inv th]
    have eq: "pid_hash s2 = (pid_hash s)[h := remove1 t (pid_hash s ! h)]"
      "t_pid (ptasks s2 u) = t_pid (ptasks s u)" "u \<noteq> t \<Longrightarrow> ptasks s2 u = ptasks s u"
      "pid_bitmap s2 = pid_bitmap (pid_bitmap_clear (t_pid (ptasks s t))
         (s\<lparr>pid_hash := (pid_hash s)[h := remove1 t (pid_hash s ! h)]\<rparr>))"
      "next_pid s2 = next_pid s" "pid_max s2 = pid_max s" for u
      using True bucket by (auto simp: s2_def proc_pid_unregister_def Let_def proc_put_def simp flip: h_def)
    have used: "pid_used (pid_bitmap s2) q \<longleftrightarrow> q \<noteq> t_pid (ptasks s t) \<and> pid_used (pid_bitmap s) q"
      if "1 \<le> q" for q
    proof (cases "1 \<le> t_pid (ptasks s t)")
      case True
      then show ?thesis
        using pid_used_clear [of "s\<lparr>pid_hash := (pid_hash s)[h := remove1 t (pid_hash s ! h)]\<rparr>"
          "t_pid (ptasks s t)" q] pt that pid_invD(1) [OF inv] by (simp add: eq(4) pid_wf_def)
    next
      case False
      then show ?thesis using that by (auto simp: eq(4) pid_bitmap_clear_def)
    qed
    have reg: "pid_registered s2 u \<longleftrightarrow> u \<noteq> t \<and> pid_registered s u" for u
    proof -
      have "set (remove1 t (pid_hash s ! h)) = set (pid_hash s ! h) - {t}"
        using pid_invD(2) [OF inv] h by (simp add: pid_hash_wf_def set_remove1_eq)
      moreover have "t \<notin> set (pid_hash s ! k)" if "k < length (pid_hash s)" "k \<noteq> h" for k
        using pid_invD(2) [OF inv] h(2) that by (auto simp: pid_hash_wf_def h_def)
      ultimately show ?thesis
        using h(1) by (auto simp: pid_registered_nth eq(1) nth_list_update split: if_splits)
    qed
    have held: "u \<in> pid_held s2 pending \<longleftrightarrow> u \<noteq> t \<and> u \<in> pid_held s pending" for u
      using np by (auto simp: pid_held_def reg)
    have "pid_inv (s2, pending)"
    proof (rule pid_invI)
      show "pid_wf s2" using pid_invD(1) [OF inv] by (simp add: pid_wf_def eq)
      show "pid_hash_wf s2"
        using pid_invD(2) [OF inv] h
        by (auto simp: pid_hash_wf_def eq nth_list_update distinct_remove1
            dest: subsetD [OF set_remove1_subset])
      show "pid_used (pid_bitmap s2) (t_pid (ptasks s2 u))"
        if "u \<in> pid_held s2 pending" "1 \<le> t_pid (ptasks s2 u)" for u
        using that pid_invD(4,5,7) [OF inv] th by (auto simp: held eq(2) used)
      show "1 \<le> t_refs (ptasks s2 u)" if "u \<in> pid_held s2 pending" for u
        using that pid_invD(6) [OF inv] by (auto simp: held eq(3))
    qed (use pid_invD(3,4,7) [OF inv] in \<open>auto simp: held reg eq(2)\<close>)
    then show ?thesis by (simp add: s2_def)
  qed
qed

lemma pid_find_get_inv:
  assumes inv: "pid_inv (s, pending)" and run: "proc_find_get p s = (r, s1)"
  shows "pid_inv (s1, pending)"
proof (cases "find (\<lambda>t. t_pid (ptasks s t) = p \<and> \<not> t_unused (ptasks s t)) (pid_hash s ! pid_hash_index p)")
  case None
  then show ?thesis using run inv by (simp add: proc_find_get_def)
next
  case (Some t)
  then have "t \<in> set (pid_hash s ! pid_hash_index p)" by (auto simp: find_Some_iff)
  then have t: "t \<in> pid_held s pending"
    using pid_invD(1) [OF inv] pid_hash_index_bound [of p]
    by (auto simp: pid_held_def pid_registered_nth pid_wf_def)
  obtain b s2 where get: "proc_get t s = (b, s2)" by fastforce
  then have "s1 = s2" using run Some by (simp add: proc_find_get_def)
  then show ?thesis using proc_get_inv(2) [OF inv get t] by simp
qed

lemma pid_idle_inv:
  assumes inv: "pid_inv (s, pending)" and new: "\<not> pid_registered s t" "t \<notin> set pending"
    and zero: "\<forall>u. pid_registered s u \<longrightarrow> t_pid (ptasks s u) \<noteq> 0"
  shows "pid_inv (proc_pid_register t
    (s\<lparr>ptasks := (ptasks s)(t := \<lparr>t_pid = 0, t_refs = 1, t_unused = False\<rparr>)\<rparr>), pending)"
proof -
  let ?k = "\<lparr>t_pid = 0, t_refs = 1, t_unused = False\<rparr>" and ?h = "pid_hash_index 0"
  define s1 where "s1 = s\<lparr>ptasks := (ptasks s)(t := ?k)\<rparr>"
  define s2 where "s2 = proc_pid_register t s1"
  have "t \<notin> pid_held s pending" using new by (simp add: pid_held_def)
  then have old: "u \<noteq> t" if "u \<in> pid_held s pending" for u using that by blast
  have i1: "pid_inv (s1, pending)"
    unfolding s1_def by (rule pid_inv_task_update [OF inv]) (use pid_invD(6) [OF inv] old in auto)
  have s2: "pid_hash s2 = (pid_hash s1)[?h := t # pid_hash s1 ! ?h]" "pid_bitmap s2 = pid_bitmap s1"
    "u \<noteq> t \<Longrightarrow> ptasks s2 u = ptasks s1 u" "ptasks s2 t = ?k\<lparr>t_refs := 2\<rparr>"
    "next_pid s2 = next_pid s1" "pid_max s2 = pid_max s1" for u
    by (auto simp: s2_def proc_pid_register_def proc_get_def s1_def Let_def)
  have h: "?h < length (pid_hash s1)" "length (pid_hash s1) = PID_HASH_SIZE"
    using pid_invD(1) [OF i1] pid_hash_index_bound by (simp_all add: pid_wf_def)
  have reg1: "pid_registered s1 = pid_registered s" by (auto simp: pid_registered_def s1_def)
  have reg: "pid_registered s2 u \<longleftrightarrow> u = t \<or> pid_registered s1 u" for u
    using h(1) by (auto simp: pid_registered_nth s2(1) nth_list_update)
  have held: "u \<in> pid_held s2 pending \<longleftrightarrow> u = t \<or> u \<in> pid_held s1 pending" for u
    by (auto simp: pid_held_def reg)
  have ne: "u \<noteq> t" if "u \<in> pid_held s1 pending" for u using that new reg1 by (auto simp: pid_held_def)
  have nz: "t_pid (ptasks s2 u) \<noteq> 0" if "u \<in> pid_held s1 pending" for u
    using that ne [OF that] zero pid_invD(3) [OF i1, of u] by (auto simp: pid_held_def reg1 s2(3)) (simp add: s1_def)
  have inh: "u \<noteq> t" if "h < PID_HASH_SIZE" "u \<in> set (pid_hash s1 ! h)" for h u
    using that new(1) h(2) by (auto simp: reg1 [symmetric] pid_registered_nth)
  have "pid_inv (s2, pending)"
  proof (rule pid_invI)
    show "pid_wf s2" using pid_invD(1) [OF i1] by (simp add: pid_wf_def s2)
    show "pid_hash_wf s2"
      using pid_invD(2) [OF i1] h inh by (auto simp: pid_hash_wf_def s2 nth_list_update)
    show "u = v" if "u \<in> pid_held s2 pending" "v \<in> pid_held s2 pending"
      "t_pid (ptasks s2 u) = t_pid (ptasks s2 v)" for u v
      using that pid_invD(7) [OF i1, of u v] nz ne s2(3,4) unfolding held by fastforce
    show "0 \<le> t_pid (ptasks s2 u) \<and> t_pid (ptasks s2 u) \<le> PID_MAX_LIMIT" if "u \<in> pid_held s2 pending" for u
      using that pid_invD(4) [OF i1, of u] ne s2(3,4) unfolding held by (auto simp: PID_MAX_LIMIT_def)
    show "pid_used (pid_bitmap s2) (t_pid (ptasks s2 u))"
      if "u \<in> pid_held s2 pending" "1 \<le> t_pid (ptasks s2 u)" for u
      using that pid_invD(5) [OF i1, of u] ne s2(2-4) unfolding held by auto
    show "1 \<le> t_refs (ptasks s2 u)" if "u \<in> pid_held s2 pending" for u
      using that pid_invD(6) [OF i1, of u] ne s2(3,4) unfolding held by auto
    show "\<not> pid_registered s2 u \<and> 1 \<le> t_pid (ptasks s2 u)" if "u \<in> set pending" for u
      using that pid_invD(3) [OF i1 that] new(2) s2(3) [of u] by (cases "u = t") (auto simp: reg)
  qed
  then show ?thesis by (simp add: s2_def s1_def)
qed

lemma pid_set_max_inv:
  assumes inv: "pid_inv (s, pending)" and run: "proc_set_pid_max v s = (r, s1)"
  shows "pid_inv (s1, pending)"
proof -
  have eq: "pid_hash s1 = pid_hash s" "ptasks s1 = ptasks s" "pid_bitmap s1 = pid_bitmap s"
    using run by (auto simp: proc_set_pid_max_def split: if_splits)
  have reg: "pid_registered s1 = pid_registered s" "pid_held s1 pending = pid_held s pending"
    by (auto simp: pid_registered_def pid_held_def eq)
  have "pid_wf s1"
    using pid_invD(1) [OF inv] run by (auto simp: pid_wf_def proc_set_pid_max_def split: if_splits)
  then show ?thesis
    by (rule pid_invI) (use pid_invD [OF inv] in \<open>simp_all add: reg eq pid_hash_wf_def\<close>)
qed

lemma pid_step_inv: "pid_step c c' \<Longrightarrow> pid_inv c \<Longrightarrow> pid_inv c'"
proof (induction rule: pid_step.induct)
  case (spawn s p s1 t pending)
  then show ?case
    using pid_new_inv [OF pid_alloc_inv(1) [of s pending p s1], of t p] pid_alloc_inv [of s pending p s1] by auto
next
  case (spawn_fail s err s1 pending)
  then have "s1 = s" by (auto simp: proc_pid_alloc_alt split: if_splits)
  then show ?case using spawn_fail by simp
next
  case (register t pending s)
  then show ?case using pid_register_inv by blast
next
  case (idle s t pending)
  then show ?case using pid_idle_inv by blast
next
  case (detach s pending t)
  then show ?case by (rule pid_inv_task_update) (use pid_invD(6) [OF detach] in auto)
next
  case (put s t pending)
  show ?case
    unfolding proc_put_def
    by (rule pid_inv_task_update [OF put(2)])
      (use put(1) pid_invD(6) [OF put(2)] in \<open>auto simp: pid_held_def\<close>)
next
  case (unregister t pending s)
  then show ?case using pid_unregister_inv by blast
next
  case (find_get p s r s1 pending)
  then show ?case using pid_find_get_inv by blast
next
  case (set_max v s r s1 pending)
  then show ?case using pid_set_max_inv by blast
qed

lemma pid_init_inv: "pid_inv (proc_pid_init s, [])"
  by (rule pid_invI)
    (auto simp: proc_pid_init_def pid_wf_def pid_hash_wf_def pid_held_def pid_registered_def
      PID_MAX_LIMIT_def)

lemma pid_reachable_inv: "pid_reachable c \<Longrightarrow> pid_inv c"
  by (induction rule: pid_reachable.induct) (auto intro: pid_init_inv pid_step_inv)

subsection \<open>A concrete run for the witnesses\<close>

definition demo_pid0 :: pid_state where
  "demo_pid0 = proc_pid_init \<lparr>next_pid = 0, pid_max = 0, pid_hash = [], pid_bitmap = [],
     ptasks = (\<lambda>_. \<lparr>t_pid = 0, t_refs = 0, t_unused = True\<rparr>)\<rparr>"

lemma demo_pid0_fields: "next_pid demo_pid0 = 1" "pid_limit demo_pid0 = 32768"
  by (simp_all add: demo_pid0_def proc_pid_init_def pid_limit_def PID_MAX_LIMIT_def)

lemma demo_scan: "pid_bitmap_find_free 1 demo_pid0 = 1"
proof -
  have "pid_scan bm l 1 0 PID_BITMAP_SIZE = c" if "pid_scan_word bm l 1 0 = Some c" for bm l c
    using that pid_scan.simps(2) [of bm l 1 0 65535] by (simp add: PID_BITMAP_SIZE_def)
  moreover have "pid_scan_word (pid_bitmap demo_pid0) (pid_limit demo_pid0) 1 0 = Some 1"
    by (simp add: pid_scan_word_def demo_pid0_def proc_pid_init_def pid_limit_def PID_MAX_LIMIT_def
        PID_BITMAP_SIZE_def ctz64_def ctz_step_def mask_eq_exp_minus_1 Let_def)
  ultimately show ?thesis by (simp add: pid_bitmap_find_free_def)
qed

definition demo_pid1 :: pid_state where
  "demo_pid1 = snd (proc_pid_alloc demo_pid0)"

lemma demo_alloc: "proc_pid_alloc demo_pid0 = (Inr 1, demo_pid1)"
proof -
  have "fst (proc_pid_alloc demo_pid0) = Inr 1"
    using demo_pid0_fields by (simp add: proc_pid_alloc_def demo_scan Let_def)
  then show ?thesis by (simp add: demo_pid1_def prod_eq_iff)
qed

definition demo_pid2 :: pid_state where
  "demo_pid2 = proc_pid_register 5
     (demo_pid1\<lparr>ptasks := (ptasks demo_pid1)(5 := \<lparr>t_pid = 1, t_refs = 1, t_unused = False\<rparr>)\<rparr>)"

definition demo_pid3 :: pid_state where
  "demo_pid3 = demo_pid2\<lparr>ptasks := (ptasks demo_pid2)(5 := (ptasks demo_pid2 5)\<lparr>t_unused := True\<rparr>)\<rparr>"

lemma demo_pid_reachable:
  "pid_reachable (demo_pid0, [])" "pid_reachable (demo_pid2, [])" "pid_reachable (demo_pid3, [])"
proof -
  show r0: "pid_reachable (demo_pid0, [])" unfolding demo_pid0_def by (rule init)
  have "\<not> pid_registered demo_pid0 5"
    by (simp add: pid_registered_def demo_pid0_def proc_pid_init_def)
  then have "pid_step (demo_pid0, []) (demo_pid1\<lparr>ptasks := (ptasks demo_pid1)
      (5 := \<lparr>t_pid = 1, t_refs = 1, t_unused = False\<rparr>)\<rparr>, [5])"
    using spawn [OF demo_alloc, of 5 "[]"] by simp
  from step [OF step [OF r0 this] register [of 5 "[5]"]]
  show r2: "pid_reachable (demo_pid2, [])" by (simp add: demo_pid2_def)
  show "pid_reachable (demo_pid3, [])" unfolding demo_pid3_def by (rule step [OF r2 detach])
qed

lemma demo_registered:
  "pid_registered demo_pid2 5" "ptasks demo_pid2 5 = \<lparr>t_pid = 1, t_refs = 2, t_unused = False\<rparr>"
  "pid_registered demo_pid3 5" "ptasks demo_pid3 5 = \<lparr>t_pid = 1, t_refs = 2, t_unused = True\<rparr>"
proof -
  have h: "pid_hash_index 1 < length (pid_hash demo_pid1)"
    using pid_hash_index_bound proc_pid_alloc_wf(2) [OF pid_invD(1) [OF pid_reachable_inv
          [OF demo_pid_reachable(1)]] demo_alloc] pid_invD(1) [OF pid_reachable_inv [OF demo_pid_reachable(1)]]
    by (simp add: pid_wf_def)
  show r: "pid_registered demo_pid2 5"
    and t: "ptasks demo_pid2 5 = \<lparr>t_pid = 1, t_refs = 2, t_unused = False\<rparr>"
    using h by (auto simp: demo_pid2_def proc_pid_register_def proc_get_def Let_def pid_registered_nth
        intro!: exI [of _ "pid_hash_index 1"])
  show "pid_registered demo_pid3 5" using r by (simp add: demo_pid3_def pid_registered_def)
  show "ptasks demo_pid3 5 = \<lparr>t_pid = 1, t_refs = 2, t_unused = True\<rparr>" using t by (simp add: demo_pid3_def)
qed

subsection \<open>The properties\<close>

text \<open>
  C7.  Allocation is next-fit: the pid returned was free, it is the least free pid at or after
  the cursor, or, when there is none, every free pid is below the cursor and it is the least of
  them; afterwards exactly that pid has become used.
\<close>

theorem proc_pid_alloc_next_fit:
  assumes "pid_reachable (s, pending)" "proc_pid_alloc s = (Inr p, t)"
  shows "pid_free s p \<and>
    (\<forall>q. pid_free s q \<longrightarrow>
       (if next_pid s \<le> p then next_pid s \<le> q \<longrightarrow> p \<le> q else q < next_pid s \<and> p \<le> q)) \<and>
    (\<forall>q\<ge>1. pid_used (pid_bitmap t) q \<longleftrightarrow> q = p \<or> pid_used (pid_bitmap s) q)"
proof -
  have wf: "pid_wf s" using pid_invD(1) [OF pid_reachable_inv [OF assms(1)]] .
  have p: "p = pid_choice s" "pid_choice s \<ge> 0"
    using assms(2) by (auto simp: proc_pid_alloc_alt split: if_splits)
  have "if next_pid s \<le> p then next_pid s \<le> q \<longrightarrow> p \<le> q else q < next_pid s \<and> p \<le> q"
    if "pid_free s q" for q
    using pid_choice_spec(3) [OF wf p(2) that] pid_choice_spec(2) [OF wf p(2)] that
    by (auto simp: p(1) not_le split: if_splits)
  then show ?thesis using proc_pid_alloc_used [OF wf assms(2)] by blast
qed

theorem proc_pid_alloc_next_fit_witness:
  "proc_pid_alloc demo_pid0 = (Inr 1, demo_pid1) \<and> pid_free demo_pid0 1 \<and>
   pid_used (pid_bitmap demo_pid1) 1"
  using proc_pid_alloc_next_fit [OF demo_pid_reachable(1) demo_alloc] demo_alloc by auto

text \<open>
  C8.  Allocation fails with EAGAIN exactly when every pid up to the limit is in use, and then
  changes nothing.
\<close>

theorem proc_pid_alloc_fails_iff:
  assumes "pid_reachable (s, pending)"
  shows "proc_pid_alloc s = (Inl EAGAIN, s) \<longleftrightarrow> (\<forall>p. \<not> pid_free s p)"
proof -
  have wf: "pid_wf s" using pid_invD(1) [OF pid_reachable_inv [OF assms(1)]] .
  show ?thesis
    using pid_choice_spec(1,2) [OF wf] pid_choice_ok [OF wf] by (auto simp: proc_pid_alloc_alt not_le)
qed

theorem proc_pid_alloc_fails_iff_witness: "\<exists>p. pid_free demo_pid0 p"
  using proc_pid_alloc_fails_iff [OF demo_pid_reachable(1)] demo_alloc by simp

text \<open>
  C9.  In every reachable state a lookup by pid returns a task exactly when that task is in the
  hash table, has the pid and is not UNUSED, whatever tasks have been detached while still in
  the table; and two tasks of the table never share a pid, UNUSED or not.
\<close>

theorem proc_find_get_registered:
  assumes "pid_reachable (s, pending)"
  shows "(fst (proc_find_get p s) = Some t \<longleftrightarrow>
      pid_registered s t \<and> t_pid (ptasks s t) = p \<and> \<not> t_unused (ptasks s t)) \<and>
    (pid_registered s t \<and> pid_registered s u \<and> t_pid (ptasks s t) = t_pid (ptasks s u) \<longrightarrow> t = u)"
proof -
  have inv: "pid_inv (s, pending)" using pid_reachable_inv [OF assms(1)] .
  have held: "v \<in> pid_held s pending" if "pid_registered s v" for v using that by (simp add: pid_held_def)
  have uniq: "v = w" if "pid_registered s v" "pid_registered s w" "t_pid (ptasks s v) = t_pid (ptasks s w)" for v w
    using pid_invD(7) [OF inv held held] that by blast
  let ?b = "pid_hash s ! pid_hash_index p" and ?P = "\<lambda>v. t_pid (ptasks s v) = p \<and> \<not> t_unused (ptasks s v)"
  have inb: "pid_registered s v" if "v \<in> set ?b" for v
    using that pid_invD(1) [OF inv] pid_hash_index_bound [of p] by (auto simp: pid_registered_nth pid_wf_def)
  have toh: "v \<in> set ?b" if "pid_registered s v" "t_pid (ptasks s v) = p" for v
    using pid_registered_bucket [OF pid_invD(1,2) [OF inv], of v] that by simp
  have get: "fst (proc_find_get p s) = find ?P ?b"
  proof (cases "find ?P ?b")
    case (Some v)
    then have "t_refs (ptasks s v) \<noteq> 0"
      using pid_invD(6) [OF inv held [OF inb], of v] by (auto simp: find_Some_iff)
    then show ?thesis using Some by (simp add: proc_find_get_def proc_get_def)
  qed (simp add: proc_find_get_def)
  have "find ?P ?b = Some t \<longleftrightarrow> pid_registered s t \<and> ?P t"
  proof
    assume "find ?P ?b = Some t"
    then show "pid_registered s t \<and> ?P t" using inb by (auto simp: find_Some_iff)
  next
    assume t: "pid_registered s t \<and> ?P t"
    then have "find ?P ?b \<noteq> None" using toh by (auto simp: find_None_iff)
    then obtain v where v: "find ?P ?b = Some v" by blast
    then have "pid_registered s v" "t_pid (ptasks s v) = p" using inb by (auto simp: find_Some_iff)
    then show "find ?P ?b = Some t" using v uniq t by metis
  qed
  then show ?thesis using uniq [of t u] unfolding get by blast
qed

theorem proc_find_get_registered_witness:
  "fst (proc_find_get 1 demo_pid2) = Some 5 \<and> pid_registered demo_pid3 5 \<and>
   t_pid (ptasks demo_pid3 5) = 1 \<and> fst (proc_find_get 1 demo_pid3) \<noteq> Some 5"
  using proc_find_get_registered [OF demo_pid_reachable(2), of 1 5]
    proc_find_get_registered [OF demo_pid_reachable(3), of 1 5] demo_registered by simp

end
