(* ===== verification/Timers.thy ===== *)
theory Timers
  imports Prelude
begin

text \<open>
  The deadline heaps of the scheduler (kernel/proc/timer_heap.c): one min-heap of wait
  timers and one of per-task alarms.  The array prefix in use is a list, whose length is the
  counter of the code, and every task records the position of its entry.  The two heaps run
  the same code over entries with and without a wait sequence number; entries are records
  that extend one another, and the shared code is one definition on \<^typ>\<open>nat \<Rightarrow> int\<close> positions.
\<close>

subsection \<open>Entries and tasks\<close>

record alarm_timer =
  deadline :: u64
  etask :: nat

record wait_timer = alarm_timer +
  eseq :: u64

datatype proc_state = PROC_UNUSED | PROC_READY | PROC_RUNNING | PROC_BLOCKED | PROC_STOPPED | PROC_ZOMBIE

datatype park_state = PROC_PARK_IDLE | PROC_PARK_PREPARING | PROC_PARK_PARKED | PROC_PARK_WOKEN

datatype wait_mode = PROC_WAIT_UNINTERRUPTIBLE | PROC_WAIT_INTERRUPTIBLE | PROC_WAIT_KILLABLE

text \<open>The fields of \<^verbatim>\<open>task_t\<close> that the park protocol and the timers use.  The two signal flags
  are what \<^verbatim>\<open>signal_task_has_fatal\<close> and \<^verbatim>\<open>signal_task_has_unblocked\<close> answer.\<close>

record ktask =
  tstate :: proc_state
  pstate :: park_state
  wait_seq :: u64
  wait_mode :: wait_mode
  wake_reason :: wake_reason
  wait_deadline :: u64
  wake_time :: u64
  wait_timer_index :: int
  alarm_timer_index :: int
  alarm_expire :: u64
  itimer_real_interval :: u64
  krefs :: int
  exit_pending :: bool
  has_fatal_signal :: bool
  has_unblocked_signal :: bool
  on_cpu :: bool
  on_rq :: bool
  dispatching :: bool
  cpu_id :: nat
  owner_cpu :: nat
  exec_start :: u64
  eevdf_last_account :: u64

text \<open>Effects on other parts of the kernel, in the order they happen.\<close>

datatype sched_event =
    SEnqueue nat
  | SSched
  | SSwitchTo nat
  | SRearm
  | SSignal nat nat
  | SPosixTick
  | SPsiTick
  | SA20TimerTick
  | SMonitorTick

record kstate =
  ktasks :: "nat \<Rightarrow> ktask"
  wait_timer_heap :: "wait_timer list"
  alarm_timer_heap :: "alarm_timer list"
  next_wake_scan :: u64
  next_alarm_scan :: u64
  next_posix_scan :: u64
  wt_full_failures :: nat
  wt_duplicate_rejections :: nat
  wt_stale_expirations :: nat
  sched_log :: "sched_event list"

definition SCHED_NO_DEADLINE :: u64 where "SCHED_NO_DEADLINE = - 1"
definition WAIT_TIMER_HEAP_MAX :: nat where "WAIT_TIMER_HEAP_MAX = 8192"
definition ALARM_TIMER_HEAP_MAX :: nat where "ALARM_TIMER_HEAP_MAX = 8192"
definition SCHED_SIGNAL_BATCH :: nat where "SCHED_SIGNAL_BATCH = 128"
definition WAIT_EXPIRE_BATCH :: nat where "WAIT_EXPIRE_BATCH = 128"
definition SIGALRM :: nat where "SIGALRM = 14"

definition upd_task :: "nat \<Rightarrow> (ktask \<Rightarrow> ktask) \<Rightarrow> kstate \<Rightarrow> kstate" where
  "upd_task t f s = s\<lparr>ktasks := (ktasks s)(t := f (ktasks s t))\<rparr>"

text \<open>\<^verbatim>\<open>proc_get\<close> and \<^verbatim>\<open>proc_put\<close> as far as the reference count of a live task goes; the panics
  on an underflow and the release of the task at the last put are outside this component.\<close>

definition task_get :: "nat \<Rightarrow> kstate \<Rightarrow> bool \<times> kstate" where
  "task_get t s = (if krefs (ktasks s t) = 0 then (False, s)
     else (True, upd_task t (\<lambda>k. k\<lparr>krefs := krefs k + 1\<rparr>) s))"

definition task_put :: "nat \<Rightarrow> kstate \<Rightarrow> kstate" where
  "task_put t = upd_task t (\<lambda>k. k\<lparr>krefs := krefs k - 1\<rparr>)"

subsection \<open>The heap\<close>

type_synonym 'e theap = "'e list \<times> (nat \<Rightarrow> int)"

definition heap_swap :: "nat \<Rightarrow> nat \<Rightarrow> ('a alarm_timer_scheme) theap \<Rightarrow> ('a alarm_timer_scheme) theap" where
  "heap_swap a b = (\<lambda>(h, ix).
     let h' = h[a := h ! b, b := h ! a]
     in (h', (ix(etask (h' ! a) := int a))(etask (h' ! b) := int b)))"

function heap_sift_up :: "nat \<Rightarrow> ('a alarm_timer_scheme) theap \<Rightarrow> ('a alarm_timer_scheme) theap" where
  "heap_sift_up index q =
     (if index = 0 then q
      else let parent = (index - 1) div 2
           in if deadline (fst q ! parent) \<le> deadline (fst q ! index) then q
              else heap_sift_up parent (heap_swap parent index q))"
  by pat_completeness auto
termination
  by (relation "measure fst") auto

declare heap_sift_up.simps [simp del]

definition heap_smallest :: "nat \<Rightarrow> ('a alarm_timer_scheme) list \<Rightarrow> nat" where
  "heap_smallest index h =
     (let left = index * 2 + 1; right = left + 1;
          s1 = (if left < length h \<and> deadline (h ! left) < deadline (h ! index) then left else index)
      in if right < length h \<and> deadline (h ! right) < deadline (h ! s1) then right else s1)"

lemma length_heap_swap [simp]: "length (fst (heap_swap a b q)) = length (fst q)"
  by (simp add: heap_swap_def split_beta Let_def)

lemma heap_smallest_bound: "heap_smallest i h \<noteq> i \<Longrightarrow> i < heap_smallest i h \<and> heap_smallest i h < length h"
  by (auto simp: heap_smallest_def Let_def split: if_splits)

function heap_sift_down :: "nat \<Rightarrow> ('a alarm_timer_scheme) theap \<Rightarrow> ('a alarm_timer_scheme) theap" where
  "heap_sift_down index q =
     (let smallest = heap_smallest index (fst q)
      in if smallest = index then q
         else heap_sift_down smallest (heap_swap index smallest q))"
  by pat_completeness auto
termination
proof (relation "measure (\<lambda>(i, q). length (fst q) - i)")
  fix index :: nat and q :: "('a alarm_timer_scheme) theap" and smallest
  assume "smallest = heap_smallest index (fst q)" "smallest \<noteq> index"
  then show "((smallest, heap_swap index smallest q), index, q)
      \<in> measure (\<lambda>(i, q). length (fst q) - i)"
    using heap_smallest_bound [of index "fst q"] by auto
qed simp

declare heap_sift_down.simps [simp del]

text \<open>\<^verbatim>\<open>*_remove_index_locked\<close>: \<open>None\<close> is the zeroed entry returned for an index out of range.\<close>

definition heap_remove_index ::
  "nat \<Rightarrow> ('a alarm_timer_scheme) theap \<Rightarrow> ('a alarm_timer_scheme) option \<times> ('a alarm_timer_scheme) theap" where
  "heap_remove_index index = (\<lambda>(h, ix).
     if index \<ge> length h then (None, (h, ix))
     else
       let removed = h ! index;
           ix1 = ix(etask removed := - 1);
           count = length h - 1
       in if index \<noteq> count
          then let h1 = (h[index := h ! count]);
                   h2 = take count h1;
                   q = (h2, ix1(etask (h2 ! index) := int index))
               in (Some removed,
                   if index > 0 \<and> deadline (h2 ! index) < deadline (h2 ! ((index - 1) div 2))
                   then heap_sift_up index q else heap_sift_down index q)
          else (Some removed, (take count h, ix1)))"

definition heap_push :: "('a alarm_timer_scheme) \<Rightarrow> ('a alarm_timer_scheme) theap \<Rightarrow> ('a alarm_timer_scheme) theap" where
  "heap_push e = (\<lambda>(h, ix).
     heap_sift_up (length h) (h @ [e], ix(etask e := int (length h))))"

lemma length_heap_sift_up [simp]: "length (fst (heap_sift_up i q)) = length (fst q)"
  by (induction i q rule: heap_sift_up.induct) (subst heap_sift_up.simps, simp add: Let_def)

lemma length_heap_sift_down [simp]: "length (fst (heap_sift_down i q)) = length (fst q)"
  by (induction i q rule: heap_sift_down.induct) (subst heap_sift_down.simps, simp add: Let_def)

lemma length_heap_remove:
  "length (fst (snd (heap_remove_index i q))) = length (fst q) - (if i < length (fst q) then 1 else 0)"
  by (auto simp: heap_remove_index_def split_beta Let_def)

subsection \<open>The two heaps in the kernel state\<close>

definition wait_heap :: "kstate \<Rightarrow> wait_timer theap" where
  "wait_heap s = (wait_timer_heap s, \<lambda>t. wait_timer_index (ktasks s t))"

definition set_wait_heap :: "wait_timer theap \<Rightarrow> kstate \<Rightarrow> kstate" where
  "set_wait_heap q s = s\<lparr>wait_timer_heap := fst q,
     ktasks := (\<lambda>t. (ktasks s t)\<lparr>wait_timer_index := snd q t\<rparr>)\<rparr>"

definition alarm_heap :: "kstate \<Rightarrow> alarm_timer theap" where
  "alarm_heap s = (alarm_timer_heap s, \<lambda>t. alarm_timer_index (ktasks s t))"

definition set_alarm_heap :: "alarm_timer theap \<Rightarrow> kstate \<Rightarrow> kstate" where
  "set_alarm_heap q s = s\<lparr>alarm_timer_heap := fst q,
     ktasks := (\<lambda>t. (ktasks s t)\<lparr>alarm_timer_index := snd q t\<rparr>)\<rparr>"

text \<open>The instances the code writes out twice.\<close>

definition wait_timer_heap_swap :: "nat \<Rightarrow> nat \<Rightarrow> wait_timer theap \<Rightarrow> wait_timer theap" where
  "wait_timer_heap_swap = heap_swap"

definition wait_timer_sift_up :: "nat \<Rightarrow> wait_timer theap \<Rightarrow> wait_timer theap" where
  "wait_timer_sift_up = heap_sift_up"

definition wait_timer_sift_down :: "nat \<Rightarrow> wait_timer theap \<Rightarrow> wait_timer theap" where
  "wait_timer_sift_down = heap_sift_down"

definition alarm_timer_remove_index_locked :: "nat \<Rightarrow> kstate \<Rightarrow> alarm_timer option \<times> kstate" where
  "alarm_timer_remove_index_locked index s =
     (case heap_remove_index index (alarm_heap s) of (r, q) \<Rightarrow> (r, set_alarm_heap q s))"

definition wait_timer_remove_index_locked :: "nat \<Rightarrow> kstate \<Rightarrow> wait_timer option \<times> kstate" where
  "wait_timer_remove_index_locked index s =
     (case heap_remove_index index (wait_heap s) of
        (None, q) \<Rightarrow> (None, s)
      | (Some e, q) \<Rightarrow>
          let s1 = set_wait_heap q s
          in (Some e, s1\<lparr>next_wake_scan :=
                (if wait_timer_heap s1 \<noteq> [] then deadline (wait_timer_heap s1 ! 0)
                 else SCHED_NO_DEADLINE)\<rparr>))"

lemma wait_timer_remove_length:
  "wait_timer_remove_index_locked i s = (r, s') \<Longrightarrow>
     length (wait_timer_heap s') = length (wait_timer_heap s) - (if i < length (wait_timer_heap s) then 1 else 0)"
  using length_heap_remove [of i "wait_heap s"]
  by (auto simp: wait_timer_remove_index_locked_def set_wait_heap_def wait_heap_def heap_remove_index_def
      Let_def split: prod.splits option.splits if_splits)

lemma alarm_timer_remove_length:
  "alarm_timer_remove_index_locked i s = (r, s') \<Longrightarrow>
     length (alarm_timer_heap s') = length (alarm_timer_heap s) - (if i < length (alarm_timer_heap s) then 1 else 0)"
  using length_heap_remove [of i "alarm_heap s"]
  by (auto simp: alarm_timer_remove_index_locked_def set_alarm_heap_def alarm_heap_def
      split: prod.splits)

lemma upd_task_heaps [simp]:
  "wait_timer_heap (upd_task t f s) = wait_timer_heap s"
  "alarm_timer_heap (upd_task t f s) = alarm_timer_heap s"
  by (simp_all add: upd_task_def)

lemma task_put_heaps [simp]:
  "wait_timer_heap (task_put t s) = wait_timer_heap s"
  "alarm_timer_heap (task_put t s) = alarm_timer_heap s"
  by (simp_all add: task_put_def)

subsection \<open>Timer deadlines of the scheduler\<close>

definition sched_note_deadline :: "u64 \<Rightarrow> u64 \<Rightarrow> bool \<times> u64" where
  "sched_note_deadline slot v =
     (if v = 0 then (False, slot) else if v < slot then (True, v) else (False, slot))"

definition sched_rearm_timer :: "kstate \<Rightarrow> kstate" where
  "sched_rearm_timer s = s\<lparr>sched_log := sched_log s @ [SRearm]\<rparr>"

text \<open>\<open>tps\<close> is \<^verbatim>\<open>TICKS_PER_SEC\<close>.\<close>

definition SCHED_TICK_INTERVAL :: "u64 \<Rightarrow> u64" where
  "SCHED_TICK_INTERVAL tps = tps div 100"

definition SCHED_MIN_TIMER_INTERVAL :: "u64 \<Rightarrow> u64" where
  "SCHED_MIN_TIMER_INTERVAL tps = (if tps div 10000 \<noteq> 0 then tps div 10000 else 1)"

definition proc_next_timer_interval :: "u64 \<Rightarrow> u64 \<Rightarrow> kstate \<Rightarrow> u64" where
  "proc_next_timer_interval tps now s =
     (let n0 = now + SCHED_TICK_INTERVAL tps;
          n1 = (if next_wake_scan s < n0 then next_wake_scan s else n0);
          n2 = (if next_alarm_scan s < n1 then next_alarm_scan s else n1);
          n3 = (if next_posix_scan s < n2 then next_posix_scan s else n2)
      in if n3 \<le> now then SCHED_MIN_TIMER_INTERVAL tps
         else let delta = n3 - now
              in if delta < SCHED_MIN_TIMER_INTERVAL tps then SCHED_MIN_TIMER_INTERVAL tps else delta)"

definition sched_note_timer_deadline :: "u64 \<Rightarrow> kstate \<Rightarrow> kstate" where
  "sched_note_timer_deadline d s =
     (if d = 0 then s
      else case sched_note_deadline (next_alarm_scan s) d of
             (changed, v) \<Rightarrow>
               let s1 = s\<lparr>next_alarm_scan := v\<rparr>
               in if changed then sched_rearm_timer s1 else s1)"

definition sched_set_posix_deadline :: "u64 \<Rightarrow> kstate \<Rightarrow> kstate" where
  "sched_set_posix_deadline d s =
     sched_rearm_timer (s\<lparr>next_posix_scan := (if d \<noteq> 0 then d else SCHED_NO_DEADLINE)\<rparr>)"

definition proc_timer_heap_init :: "kstate \<Rightarrow> kstate" where
  "proc_timer_heap_init s = s\<lparr>wait_timer_heap := [], wt_full_failures := 0,
     wt_duplicate_rejections := 0, wt_stale_expirations := 0,
     next_wake_scan := SCHED_NO_DEADLINE, next_alarm_scan := SCHED_NO_DEADLINE,
     next_posix_scan := SCHED_NO_DEADLINE\<rparr>"

definition proc_sched_timers_due :: "u64 \<Rightarrow> kstate \<Rightarrow> bool" where
  "proc_sched_timers_due now s \<longleftrightarrow>
     now \<ge> next_wake_scan s \<or> now \<ge> next_alarm_scan s \<or> now \<ge> next_posix_scan s"

subsection \<open>Wait timers\<close>

datatype prepare_error =
    PROC_PARK_PREPARE_OK
  | PROC_PARK_PREPARE_INVALID
  | PROC_PARK_PREPARE_TIMEOUT_CAPACITY
  | PROC_PARK_PREPARE_TIMEOUT_DUPLICATE
  | PROC_PARK_PREPARE_TIMEOUT_REF

definition proc_wait_timer_register :: "nat \<Rightarrow> u64 \<Rightarrow> u64 \<Rightarrow> kstate \<Rightarrow> prepare_error \<times> kstate" where
  "proc_wait_timer_register t d sq s =
     (if d = 0 \<or> sq = 0 then (PROC_PARK_PREPARE_INVALID, s)
      else if wait_timer_index (ktasks s t) \<ge> 0
      then (PROC_PARK_PREPARE_TIMEOUT_DUPLICATE,
            s\<lparr>wt_duplicate_rejections := wt_duplicate_rejections s + 1\<rparr>)
      else if length (wait_timer_heap s) \<ge> WAIT_TIMER_HEAP_MAX
      then (PROC_PARK_PREPARE_TIMEOUT_CAPACITY, s\<lparr>wt_full_failures := wt_full_failures s + 1\<rparr>)
      else
        let old_first = (if wait_timer_heap s \<noteq> [] then deadline (wait_timer_heap s ! 0)
                         else SCHED_NO_DEADLINE)
        in case task_get t s of
             (False, s1) \<Rightarrow> (PROC_PARK_PREPARE_TIMEOUT_REF, s1)
           | (True, s1) \<Rightarrow>
               let s2 = set_wait_heap
                          (heap_push \<lparr>deadline = d, etask = t, eseq = sq\<rparr> (wait_heap s1)) s1;
                   s3 = upd_task t (\<lambda>k. k\<lparr>wake_time := d\<rparr>) s2;
                   s4 = s3\<lparr>next_wake_scan := deadline (wait_timer_heap s3 ! 0)\<rparr>
               in (PROC_PARK_PREPARE_OK,
                   if deadline (wait_timer_heap s4 ! 0) < old_first then sched_rearm_timer s4 else s4))"

definition proc_wait_timer_cancel :: "nat \<Rightarrow> u64 \<Rightarrow> kstate \<Rightarrow> kstate" where
  "proc_wait_timer_cancel t sq s =
     (let i = wait_timer_index (ktasks s t); index = nat i
      in if i < 0 then s
         else if index \<ge> length (wait_timer_heap s) \<or> etask (wait_timer_heap s ! index) \<noteq> t \<or>
                 eseq (wait_timer_heap s ! index) \<noteq> sq then s
         else case wait_timer_remove_index_locked index s of
                (None, s1) \<Rightarrow> s1
              | (Some e, s1) \<Rightarrow> task_put (etask e) (upd_task t (\<lambda>k. k\<lparr>wake_time := 0\<rparr>) s1))"

text \<open>The consistency check of the heap that the kernel can run on itself.\<close>

definition wt_entry_violations :: "kstate \<Rightarrow> nat \<Rightarrow> nat" where
  "wt_entry_violations s i =
     (let e = wait_timer_heap s ! i; k = ktasks s (etask e)
      in (if deadline e = 0 \<or> eseq e = 0 then 1 else 0) +
         (if wait_timer_index k \<noteq> int i \<or> wait_seq k \<noteq> eseq e \<or> wait_deadline k \<noteq> deadline e
          then 1 else 0) +
         (if i > 0 \<and> deadline (wait_timer_heap s ! ((i - 1) div 2)) > deadline e then 1 else 0))"

definition proc_wait_timer_violations_locked :: "kstate \<Rightarrow> nat" where
  "proc_wait_timer_violations_locked s =
     (if length (wait_timer_heap s) > WAIT_TIMER_HEAP_MAX then 1 else 0) +
     sum_list (map (wt_entry_violations s) [0..<length (wait_timer_heap s)])"

subsection \<open>Alarms\<close>

definition alarm_timer_cancel_locked :: "nat \<Rightarrow> kstate \<Rightarrow> kstate" where
  "alarm_timer_cancel_locked t s =
     (let i = alarm_timer_index (ktasks s t); index = nat i
      in if i < 0 then s
         else if index \<ge> length (alarm_timer_heap s) \<or> etask (alarm_timer_heap s ! index) \<noteq> t then s
         else case alarm_timer_remove_index_locked index s of
                (None, s1) \<Rightarrow> s1
              | (Some e, s1) \<Rightarrow> task_put (etask e) s1)"

definition proc_alarm_cancel :: "nat \<Rightarrow> kstate \<Rightarrow> kstate" where
  "proc_alarm_cancel = alarm_timer_cancel_locked"

definition proc_set_alarm_expire :: "nat \<Rightarrow> u64 \<Rightarrow> kstate \<Rightarrow> kstate" where
  "proc_set_alarm_expire t expire s =
     (let s1 = alarm_timer_cancel_locked t s;
          a1 = (if expire \<noteq> 0 \<and> length (alarm_timer_heap s1) \<ge> ALARM_TIMER_HEAP_MAX then 0 else expire);
          (a2, s2) =
            (if a1 = 0 then (a1, s1)
             else case task_get t s1 of
                    (True, s') \<Rightarrow>
                      (a1, set_alarm_heap (heap_push \<lparr>deadline = a1, etask = t\<rparr> (alarm_heap s')) s')
                  | (False, s') \<Rightarrow> (0, s'));
          s3 = upd_task t (\<lambda>k. k\<lparr>alarm_expire := a2\<rparr>) s2
      in case sched_note_deadline (next_alarm_scan s3) a2 of
           (changed, v) \<Rightarrow>
             let s4 = s3\<lparr>next_alarm_scan := v\<rparr>
             in if changed then sched_rearm_timer s4 else s4)"

end
