(* ===== verification/Park.thy ===== *)
theory Park
  imports Timers
begin

text \<open>
  The park protocol (kernel/proc/park.c, kernel/include/proc/park.h): a task that is about to
  sleep takes a token with a fresh sequence number, commits, and is woken exactly by a wake
  that carries the same number.  The expiry of wait timers and alarms
  (kernel/proc/timer_heap.c) is built on it.  Each function runs under the task's
  \<^verbatim>\<open>park_lock\<close>.  Putting a task on a run queue, calling the scheduler and sending a signal are
  entries of the log of effects; the requests to reschedule another processor after an enqueue
  (remote and priority processor masks) are left out.
\<close>

subsection \<open>Waking\<close>

definition proc_try_wake_locked_common :: "nat \<Rightarrow> u64 \<Rightarrow> wake_reason \<Rightarrow> kstate \<Rightarrow> bool \<times> kstate" where
  "proc_try_wake_locked_common t sq reason s =
     (let k = ktasks s t
      in if sq = 0 \<or> wait_seq k \<noteq> sq \<or> tstate k = PROC_UNUSED \<or> tstate k = PROC_ZOMBIE then (False, s)
         else if reason = PROC_WAKE_SIGNAL \<and> wait_mode k \<noteq> PROC_WAIT_INTERRUPTIBLE then (False, s)
         else if (reason = PROC_WAKE_FATAL_SIGNAL \<or> reason = PROC_WAKE_TASK_EXIT) \<and>
                 wait_mode k = PROC_WAIT_UNINTERRUPTIBLE then (False, s)
         else case pstate k of
                PROC_PARK_PREPARING \<Rightarrow>
                  (True, upd_task t (\<lambda>k. k\<lparr>pstate := PROC_PARK_WOKEN, wake_reason := reason,
                                            wait_deadline := 0, wake_time := 0\<rparr>)
                           (proc_wait_timer_cancel t sq s))
              | PROC_PARK_PARKED \<Rightarrow>
                  let s1 = upd_task t (\<lambda>k. k\<lparr>pstate := PROC_PARK_WOKEN, wake_reason := reason,
                                              wait_deadline := 0, wake_time := 0, tstate := PROC_READY\<rparr>)
                             (proc_wait_timer_cancel t sq s)
                  in (True, s1\<lparr>sched_log := sched_log s1 @ [SEnqueue t]\<rparr>)
              | _ \<Rightarrow> (False, s))"

definition proc_try_wake :: "nat \<Rightarrow> u64 \<Rightarrow> wake_reason \<Rightarrow> kstate \<Rightarrow> bool \<times> kstate" where
  "proc_try_wake = proc_try_wake_locked_common"

definition proc_interrupt_wait :: "nat \<Rightarrow> wake_reason \<Rightarrow> kstate \<Rightarrow> bool \<times> kstate" where
  "proc_interrupt_wait t reason s = proc_try_wake_locked_common t (wait_seq (ktasks s t)) reason s"

subsection \<open>Sleeping\<close>

record wait_token =
  tok_task :: "nat option"
  tok_seq :: u64
  tok_error :: prepare_error

definition proc_wait_token_none :: "prepare_error \<Rightarrow> wait_token" where
  "proc_wait_token_none err = \<lparr>tok_task = None, tok_seq = 0, tok_error = err\<rparr>"

text \<open>The checks that close the race with a signal or an exit that came before the prepare.\<close>

definition prepare_pending_wake :: "nat \<Rightarrow> wait_mode \<Rightarrow> u64 \<Rightarrow> kstate \<Rightarrow> kstate" where
  "prepare_pending_wake cur mode sq s =
     (let k = ktasks s cur; wake = (\<lambda>r. snd (proc_try_wake_locked_common cur sq r s))
      in if exit_pending k \<and> mode \<noteq> PROC_WAIT_UNINTERRUPTIBLE then wake PROC_WAKE_TASK_EXIT
         else if mode = PROC_WAIT_KILLABLE
         then if has_fatal_signal k then wake PROC_WAKE_FATAL_SIGNAL else s
         else if mode = PROC_WAIT_INTERRUPTIBLE
         then if has_fatal_signal k then wake PROC_WAKE_FATAL_SIGNAL
              else if has_unblocked_signal k then wake PROC_WAKE_SIGNAL else s
         else s)"

definition proc_park_prepare_locked ::
  "nat \<Rightarrow> nat \<Rightarrow> wait_mode \<Rightarrow> u64 \<Rightarrow> kstate \<Rightarrow> wait_token \<times> kstate" where
  "proc_park_prepare_locked idle cur mode d s =
     (let k = ktasks s cur
      in if cur = idle \<or> tstate k = PROC_UNUSED \<or> tstate k = PROC_ZOMBIE
         then (proc_wait_token_none PROC_PARK_PREPARE_INVALID, s)
         else if pstate k \<noteq> PROC_PARK_IDLE
         then (proc_wait_token_none PROC_PARK_PREPARE_INVALID, s)
         else
           let sq = (if wait_seq k + 1 = 0 then 1 else wait_seq k + 1);
               s1 = upd_task cur (\<lambda>k. k\<lparr>wait_seq := sq, wait_deadline := d, wait_mode := mode,
                                        wake_reason := PROC_WAKE_NONE,
                                        pstate := PROC_PARK_PREPARING\<rparr>) s;
               (res, s2) = (if d \<noteq> 0 then proc_wait_timer_register cur d sq s1
                            else (PROC_PARK_PREPARE_OK, s1))
           in if res \<noteq> PROC_PARK_PREPARE_OK
              then (proc_wait_token_none res,
                    upd_task cur (\<lambda>k. k\<lparr>wait_deadline := 0, wake_time := 0,
                                        wake_reason := PROC_WAKE_NONE,
                                        wait_mode := PROC_WAIT_UNINTERRUPTIBLE,
                                        pstate := PROC_PARK_IDLE\<rparr>) s2)
              else (\<lparr>tok_task = Some cur, tok_seq = sq, tok_error = PROC_PARK_PREPARE_OK\<rparr>,
                    prepare_pending_wake cur mode sq s2))"

definition proc_park_prepare ::
  "nat \<Rightarrow> nat \<Rightarrow> wait_mode \<Rightarrow> u64 \<Rightarrow> kstate \<Rightarrow> wait_token \<times> kstate" where
  "proc_park_prepare = proc_park_prepare_locked"

definition proc_park_cancel :: "nat \<Rightarrow> wait_token \<Rightarrow> kstate \<Rightarrow> bool \<times> kstate" where
  "proc_park_cancel cur tok s = (case tok_task tok of
       None \<Rightarrow> (False, s)
     | Some t \<Rightarrow>
         if tok_seq tok = 0 then (False, s)
         else if t = cur \<and> wait_seq (ktasks s t) = tok_seq tok \<and> pstate (ktasks s t) = PROC_PARK_PREPARING
         then (True, upd_task t (\<lambda>k. k\<lparr>wait_deadline := 0, wake_time := 0,
                                       wake_reason := PROC_WAKE_CANCEL, pstate := PROC_PARK_WOKEN\<rparr>)
                       (proc_wait_timer_cancel t (tok_seq tok) s))
         else (False, s))"

definition proc_park_wake_reason_unlocked :: "nat \<Rightarrow> u64 \<Rightarrow> kstate \<Rightarrow> wake_reason" where
  "proc_park_wake_reason_unlocked t sq s =
     (if wait_seq (ktasks s t) \<noteq> sq then PROC_WAKE_CANCEL else wake_reason (ktasks s t))"

text \<open>The part of a commit before the task gives up the CPU: \<open>Some reason\<close> is an immediate
  return, \<open>None\<close> that the task is parked.\<close>

definition park_publish :: "nat \<Rightarrow> wait_token \<Rightarrow> kstate \<Rightarrow> wake_reason option \<times> kstate" where
  "park_publish cur tok s = (case tok_task tok of
       None \<Rightarrow> (Some PROC_WAKE_CANCEL, s)
     | Some t \<Rightarrow>
         if tok_seq tok = 0 then (Some PROC_WAKE_CANCEL, s)
         else if t \<noteq> cur \<or> wait_seq (ktasks s t) \<noteq> tok_seq tok then (Some PROC_WAKE_CANCEL, s)
         else if pstate (ktasks s t) = PROC_PARK_WOKEN then (Some (wake_reason (ktasks s t)), s)
         else if pstate (ktasks s t) \<noteq> PROC_PARK_PREPARING then (Some PROC_WAKE_CANCEL, s)
         else (None, upd_task t (\<lambda>k. k\<lparr>pstate := PROC_PARK_PARKED, tstate := PROC_BLOCKED\<rparr>) s))"

text \<open>\<open>others\<close> is what the rest of the system does until the scheduler runs the task again.\<close>

definition proc_park_commit ::
  "(kstate \<Rightarrow> kstate) \<Rightarrow> nat \<Rightarrow> wait_token \<Rightarrow> kstate \<Rightarrow> wake_reason \<times> kstate" where
  "proc_park_commit others cur tok s = (case park_publish cur tok s of
       (Some r, s1) \<Rightarrow> (r, s1)
     | (None, s1) \<Rightarrow>
         let s2 = others (s1\<lparr>sched_log := sched_log s1 @ [SSched]\<rparr>)
         in (proc_park_wake_reason_unlocked cur (tok_seq tok) s2, s2))"

definition proc_park_finish :: "wait_token \<Rightarrow> kstate \<Rightarrow> kstate" where
  "proc_park_finish tok s = (case tok_task tok of
       None \<Rightarrow> s
     | Some t \<Rightarrow>
         if tok_seq tok = 0 \<or> wait_seq (ktasks s t) \<noteq> tok_seq tok \<or>
            pstate (ktasks s t) \<noteq> PROC_PARK_WOKEN then s
         else
           let s1 = (if wait_timer_index (ktasks s t) \<ge> 0 then proc_wait_timer_cancel t (tok_seq tok) s
                     else s)
           in upd_task t (\<lambda>k. k\<lparr>wait_deadline := 0, wake_time := 0,
                                wait_mode := PROC_WAIT_UNINTERRUPTIBLE,
                                wake_reason := PROC_WAKE_NONE, pstate := PROC_PARK_IDLE\<rparr>) s1)"

definition proc_park_wait ::
  "(kstate \<Rightarrow> kstate) \<Rightarrow> nat \<Rightarrow> nat \<Rightarrow> wait_mode \<Rightarrow> u64 \<Rightarrow> kstate \<Rightarrow> wake_reason \<times> kstate" where
  "proc_park_wait others idle cur mode d s =
     (let (tok, s1) = proc_park_prepare idle cur mode d s
      in if tok_task tok = None
         then (if tok_error tok = PROC_PARK_PREPARE_TIMEOUT_CAPACITY then PROC_WAKE_TIMEOUT_CAPACITY
               else PROC_WAKE_CANCEL, s1)
         else let (r, s2) = proc_park_commit others cur tok s1
              in (r, proc_park_finish tok s2))"

subsection \<open>Donation\<close>

definition donate_ready :: "nat \<Rightarrow> nat \<Rightarrow> kstate \<Rightarrow> bool" where
  "donate_ready cpu d s \<longleftrightarrow>
     (let k = ktasks s d
      in pstate k = PROC_PARK_PARKED \<and> tstate k = PROC_BLOCKED \<and> \<not> on_cpu k \<and> \<not> on_rq k \<and>
         \<not> dispatching k \<and> cpu_id k = cpu)"

definition donate_handoff :: "u64 \<Rightarrow> nat \<Rightarrow> nat \<Rightarrow> kstate \<Rightarrow> kstate" where
  "donate_handoff now cpu d s =
     (let s1 = upd_task d (\<lambda>k. k\<lparr>pstate := PROC_PARK_WOKEN, wake_reason := PROC_WAKE_EVENT,
                                 wait_deadline := 0, wake_time := 0, tstate := PROC_READY,
                                 exec_start := now, eevdf_last_account := now\<rparr>)
                 (proc_wait_timer_cancel d (wait_seq (ktasks s d)) s);
          s2 = upd_task d (\<lambda>k. k\<lparr>dispatching := True, owner_cpu := cpu\<rparr>) (snd (task_get d s1))
      in s2\<lparr>sched_log := sched_log s2 @ [SSwitchTo d]\<rparr>)"

text \<open>\<open>between\<close> is what happens between the first look at the target and the second one,
  which is taken under the target's own lock.\<close>

definition proc_park_commit_donate ::
  "(kstate \<Rightarrow> kstate) \<Rightarrow> (kstate \<Rightarrow> kstate) \<Rightarrow> u64 \<Rightarrow> nat \<Rightarrow> nat option \<Rightarrow> nat \<Rightarrow> wait_token \<Rightarrow> kstate
     \<Rightarrow> wake_reason \<times> kstate" where
  "proc_park_commit_donate between others now cpu donate_to cur tok s =
     (case park_publish cur tok s of
        (Some r, s1) \<Rightarrow> (r, s1)
      | (None, s1) \<Rightarrow>
          let sched = (\<lambda>u. others (u\<lparr>sched_log := sched_log u @ [SSched]\<rparr>));
              s2 = (case donate_to of
                      None \<Rightarrow> sched s1
                    | Some d \<Rightarrow>
                        if d \<noteq> cur \<and> donate_ready cpu d s1
                        then let s1' = between s1
                             in if donate_ready cpu d s1' then others (donate_handoff now cpu d s1')
                                else sched s1'
                        else sched s1)
          in (proc_park_wake_reason_unlocked cur (tok_seq tok) s2, s2))"

subsection \<open>Wake queues\<close>

definition PROC_WAKE_Q_CAPACITY :: nat where "PROC_WAKE_Q_CAPACITY = 64"

type_synonym wake_q = "(nat \<times> u64 \<times> wake_reason) list"

definition proc_wake_q_init :: wake_q where "proc_wake_q_init = []"

definition proc_wake_q_add :: "wake_q \<Rightarrow> nat \<Rightarrow> u64 \<Rightarrow> wake_reason \<Rightarrow> bool \<times> wake_q" where
  "proc_wake_q_add q t sq r =
     (if sq = 0 \<or> length q \<ge> PROC_WAKE_Q_CAPACITY then (False, q) else (True, q @ [(t, sq, r)]))"

fun wake_q_run :: "wake_q \<Rightarrow> kstate \<Rightarrow> nat \<times> kstate" where
  "wake_q_run [] s = (0, s)"
| "wake_q_run ((t, sq, r) # q) s =
     (let (woke, s1) = proc_try_wake_locked_common t sq r s; (n, s2) = wake_q_run q s1
      in ((if woke then 1 else 0) + n, s2))"

definition proc_wake_q_flush :: "wake_q \<Rightarrow> kstate \<Rightarrow> nat \<times> wake_q \<times> kstate" where
  "proc_wake_q_flush q s =
     (if q = [] then (0, q, s)
      else let (n, s1) = wake_q_run q s
           in (n, [], fold (\<lambda>(t, _, _). task_put t) q s1))"

subsection \<open>Expiry of wait timers\<close>

function wt_collect :: "u64 \<Rightarrow> nat \<Rightarrow> kstate \<Rightarrow> (nat \<times> u64) list \<times> kstate" where
  "wt_collect now n s =
     (if wait_timer_heap s \<noteq> [] \<and> deadline (wait_timer_heap s ! 0) \<le> now \<and> n < WAIT_EXPIRE_BATCH
      then case wait_timer_remove_index_locked 0 s of
             (None, s1) \<Rightarrow> ([], s)
           | (Some e, s1) \<Rightarrow>
               if eseq e \<noteq> 0
               then let (xs, s2) = wt_collect now (n + 1) s1 in ((etask e, eseq e) # xs, s2)
               else wt_collect now n (task_put (etask e) s1)
      else ([], s))"
  by pat_completeness auto
termination
  by (relation "measure (\<lambda>(now, n, s). length (wait_timer_heap s))")
    (auto dest!: wait_timer_remove_length [OF sym])

declare wt_collect.simps [simp del]

definition expire_one :: "nat \<times> u64 \<Rightarrow> kstate \<Rightarrow> kstate" where
  "expire_one = (\<lambda>(t, sq) s.
     let stale = wait_seq (ktasks s t) \<noteq> sq;
         (woke, s1) = proc_try_wake_locked_common t sq PROC_WAKE_TIMEOUT s;
         s2 = (if \<not> woke \<and> stale then s1\<lparr>wt_stale_expirations := wt_stale_expirations s1 + 1\<rparr> else s1)
     in task_put t s2)"

lemma wait_timer_cancel_length:
  "length (wait_timer_heap (proc_wait_timer_cancel t sq s)) \<le> length (wait_timer_heap s)"
  by (auto simp: proc_wait_timer_cancel_def Let_def split: prod.splits option.splits
      dest!: wait_timer_remove_length)

lemma try_wake_length:
  "proc_try_wake_locked_common t sq r s = (b, s') \<Longrightarrow> length (wait_timer_heap s') \<le> length (wait_timer_heap s)"
  using wait_timer_cancel_length [of t sq s]
  by (auto simp: proc_try_wake_locked_common_def Let_def split: if_splits park_state.splits)

lemma expire_one_length: "length (wait_timer_heap (expire_one x s)) \<le> length (wait_timer_heap s)"
  by (auto simp: expire_one_def Let_def split: prod.splits dest: try_wake_length)

lemma fold_expire_length: "length (wait_timer_heap (fold expire_one xs s)) \<le> length (wait_timer_heap s)"
  by (induction xs arbitrary: s) (auto intro: order_trans expire_one_length)

text \<open>One turn of the collecting loop.\<close>

lemma wt_collect_cases:
  obtains (stop) "wt_collect now n s = ([], s)"
      "wait_timer_heap s = [] \<or> now < deadline (wait_timer_heap s ! 0) \<or> WAIT_EXPIRE_BATCH \<le> n"
  | (take) e s1 xs s2 where "wait_timer_heap s \<noteq> []" "deadline (wait_timer_heap s ! 0) \<le> now"
      "n < WAIT_EXPIRE_BATCH" "wait_timer_remove_index_locked 0 s = (Some e, s1)" "eseq e \<noteq> 0"
      "wt_collect now (n + 1) s1 = (xs, s2)" "wt_collect now n s = ((etask e, eseq e) # xs, s2)"
  | (drop) e s1 where "wait_timer_heap s \<noteq> []" "deadline (wait_timer_heap s ! 0) \<le> now"
      "n < WAIT_EXPIRE_BATCH" "wait_timer_remove_index_locked 0 s = (Some e, s1)" "eseq e = 0"
      "wt_collect now n s = wt_collect now n (task_put (etask e) s1)"
proof (cases "wait_timer_heap s \<noteq> [] \<and> deadline (wait_timer_heap s ! 0) \<le> now \<and> n < WAIT_EXPIRE_BATCH")
  case due: True
  then have "fst (wait_timer_remove_index_locked 0 s) \<noteq> None"
    by (simp add: wait_timer_remove_index_locked_def heap_remove_index_def wait_heap_def Let_def
        split: prod.splits option.splits if_splits)
  then obtain e s1 where r: "wait_timer_remove_index_locked 0 s = (Some e, s1)"
    by (cases "wait_timer_remove_index_locked 0 s") auto
  obtain xs s2 where xs: "wt_collect now (n + 1) s1 = (xs, s2)" by fastforce
  have "wt_collect now n s = (if eseq e \<noteq> 0 then ((etask e, eseq e) # xs, s2)
      else wt_collect now n (task_put (etask e) s1))"
    using xs by (subst wt_collect.simps) (simp add: due r)
  then show thesis using take [OF _ _ _ r _ xs] drop [OF _ _ _ r] due by (cases "eseq e = 0") simp_all
next
  case False
  then have "wt_collect now n s = ([], s)" by (subst wt_collect.simps) auto
  then show thesis using False by (intro stop) auto
qed

lemma wt_collect_length:
  "wt_collect now n s = (xs, s') \<Longrightarrow> length xs + length (wait_timer_heap s') \<le> length (wait_timer_heap s)"
proof (induction "length (wait_timer_heap s)" arbitrary: n s xs rule: less_induct)
  case less
  show ?case
  proof (cases rule: wt_collect_cases [of now n s])
    case stop
    then show ?thesis using less.prems by simp
  next
    case (take e s1 ys s2)
    then have "length (wait_timer_heap s1) < length (wait_timer_heap s)"
      using wait_timer_remove_length [of 0 s] by simp
    then show ?thesis using less.hyps [of s1 "n + 1" ys] take less.prems by simp
  next
    case (drop e s1)
    then have "length (wait_timer_heap s1) < length (wait_timer_heap s)"
      using wait_timer_remove_length [of 0 s] by simp
    then show ?thesis using less.hyps [of "task_put (etask e) s1" n xs] drop less.prems by simp
  qed
qed

function proc_sched_expire_wait_timers :: "u64 \<Rightarrow> kstate \<Rightarrow> kstate" where
  "proc_sched_expire_wait_timers now s =
     (let (xs, s1) = wt_collect now 0 s; s2 = fold expire_one xs s1
      in if length xs = WAIT_EXPIRE_BATCH then proc_sched_expire_wait_timers now s2 else s2)"
  by pat_completeness auto
termination
proof (relation "measure (\<lambda>(now, s). length (wait_timer_heap s))")
  fix now :: u64 and s x xs s1 s2
  assume "x = wt_collect now 0 s" "(xs, s1) = x" "s2 = fold expire_one xs s1"
    "length xs = WAIT_EXPIRE_BATCH"
  then show "((now, s2), now, s) \<in> measure (\<lambda>(now, s). length (wait_timer_heap s))"
    using wt_collect_length [of now 0 s xs s1] fold_expire_length [of xs s1]
    by (simp add: WAIT_EXPIRE_BATCH_def)
qed simp

declare proc_sched_expire_wait_timers.simps [simp del]

subsection \<open>Alarms\<close>

text \<open>The collecting loop: the tasks whose alarm is due, whether more are due than one batch
  holds, and the state.\<close>

function alarm_collect :: "u64 \<Rightarrow> nat \<Rightarrow> kstate \<Rightarrow> nat list \<times> bool \<times> kstate" where
  "alarm_collect now n s =
     (if alarm_timer_heap s = [] then ([], False, s)
      else if deadline (alarm_timer_heap s ! 0) > now then ([], False, s)
      else if n \<ge> SCHED_SIGNAL_BATCH then ([], True, s)
      else case alarm_timer_remove_index_locked 0 s of
             (None, s1) \<Rightarrow> ([], False, s)
           | (Some e, s1) \<Rightarrow>
               let (ts, more_due, s2) = alarm_collect now (n + 1) s1 in (etask e # ts, more_due, s2))"
  by pat_completeness auto
termination
  by (relation "measure (\<lambda>(now, n, s). length (alarm_timer_heap s))")
    (auto dest!: alarm_timer_remove_length [OF sym])

declare alarm_collect.simps [simp del]

definition alarm_fire :: "u64 \<Rightarrow> nat \<Rightarrow> kstate \<Rightarrow> kstate" where
  "alarm_fire now t s =
     (let k = ktasks s t
      in if tstate k = PROC_UNUSED \<or> tstate k = PROC_ZOMBIE
         then task_put t (upd_task t (\<lambda>k. k\<lparr>alarm_expire := 0\<rparr>) s)
         else
           let interval = itimer_real_interval k;
               alarm = (if interval \<noteq> 0 then now + interval else 0);
               s1 = proc_set_alarm_expire t alarm s;
               s2 = s1\<lparr>sched_log := sched_log s1 @ [SSignal t SIGALRM]\<rparr>
           in task_put t s2)"

text \<open>The outer loop repeats while a full batch was taken and more alarms are due; a re-armed
  interval timer can be due again only when its new deadline wraps around.\<close>

partial_function (option) alarm_scan_loop :: "u64 \<Rightarrow> kstate \<Rightarrow> (u64 \<times> kstate) option" where
  "alarm_scan_loop now s =
     (let (ts, more_due, s1) = alarm_collect now 0 s;
          next_alarm = (if alarm_timer_heap s1 \<noteq> [] then deadline (alarm_timer_heap s1 ! 0)
                        else SCHED_NO_DEADLINE);
          s2 = fold (alarm_fire now) ts s1
      in if more_due then alarm_scan_loop now s2 else Some (next_alarm, s2))"

definition proc_sched_scan_signal_timers :: "u64 \<Rightarrow> kstate \<Rightarrow> kstate option" where
  "proc_sched_scan_signal_timers now s =
     map_option (\<lambda>s1. s1\<lparr>sched_log := sched_log s1 @ [SPosixTick]\<rparr>)
       (if now \<ge> next_alarm_scan s
        then case alarm_scan_loop now (s\<lparr>next_alarm_scan := SCHED_NO_DEADLINE\<rparr>) of
               None \<Rightarrow> None
             | Some (next_alarm, s1) \<Rightarrow>
                 (case sched_note_deadline (next_alarm_scan s1) next_alarm of
                    (changed, v) \<Rightarrow>
                      let s2 = s1\<lparr>next_alarm_scan := v\<rparr>
                      in Some (if changed then sched_rearm_timer s2 else s2))
        else Some s)"

text \<open>The pass of the scheduler over all timers; the ticks of the other subsystems are logged.\<close>

definition sched_scan_timers :: "u64 \<Rightarrow> kstate \<Rightarrow> kstate option" where
  "sched_scan_timers now s =
     map_option (\<lambda>s1. s1\<lparr>sched_log := sched_log s1 @ [SPsiTick, SA20TimerTick, SMonitorTick]\<rparr>)
       (proc_sched_scan_signal_timers now (proc_sched_expire_wait_timers now s))"

subsection \<open>Parking as a transition system\<close>

text \<open>
  The state of the kernel together with the expired entries that have left the heap and whose
  wake is not yet delivered: the timer scan drops the heap's lock between the two.  Any task
  may prepare, cancel, commit and finish its own wait; anyone may wake any task with any
  number, which covers late and duplicated wakes.  The scheduler may change the run state of
  a task that is not parked; one that prepares stays runnable.  \<open>idle\<close> is the idle task.
\<close>

inductive park_step :: "nat \<Rightarrow> kstate \<times> (nat \<times> u64) list \<Rightarrow> kstate \<times> (nat \<times> u64) list \<Rightarrow> bool"
  for idle :: nat where
  prepare: "proc_park_prepare idle cur mode d s = (tok, s') \<Longrightarrow> tstate (ktasks s cur) = PROC_RUNNING \<Longrightarrow>
    park_step idle (s, fl) (s', fl)"
| cancel: "proc_park_cancel cur tok s = (r, s') \<Longrightarrow> park_step idle (s, fl) (s', fl)"
| publish: "park_publish cur tok s = (r, s') \<Longrightarrow> park_step idle (s, fl) (s', fl)"
| finish: "park_step idle (s, fl) (proc_park_finish tok s, fl)"
| wake: "proc_try_wake t sq r s = (b, s') \<Longrightarrow> park_step idle (s, fl) (s', fl)"
| interrupt: "proc_interrupt_wait t r s = (b, s') \<Longrightarrow> park_step idle (s, fl) (s', fl)"
| donate: "donate_ready cpu d s \<Longrightarrow> park_step idle (s, fl) (donate_handoff now cpu d s, fl)"
| collect: "wt_collect now 0 s = (xs, s') \<Longrightarrow> park_step idle (s, fl) (s', fl @ xs)"
| deliver: "x \<in> set fl \<Longrightarrow> park_step idle (s, fl) (expire_one x s, remove1 x fl)"
| alarm: "park_step idle (s, fl) (proc_set_alarm_expire t a s, fl)"
| schedule: "(\<And>u. pstate (ktasks s u) = PROC_PARK_PARKED \<Longrightarrow> tstate (f u) = tstate (ktasks s u)) \<Longrightarrow>
    (\<And>u. pstate (ktasks s u) = PROC_PARK_PREPARING \<Longrightarrow> tstate (f u) \<in> {PROC_RUNNING, PROC_READY}) \<Longrightarrow>
    (\<And>u. f u = (ktasks s u)\<lparr>tstate := tstate (f u), on_cpu := on_cpu (f u), on_rq := on_rq (f u),
               dispatching := dispatching (f u), cpu_id := cpu_id (f u), owner_cpu := owner_cpu (f u),
               exit_pending := exit_pending (f u), has_fatal_signal := has_fatal_signal (f u),
               has_unblocked_signal := has_unblocked_signal (f u)\<rparr>) \<Longrightarrow>
    park_step idle (s, fl) (s\<lparr>ktasks := f\<rparr>, fl)"

text \<open>At the start no task waits and no timer is set.\<close>

definition park_boot :: "kstate \<Rightarrow> bool" where
  "park_boot s \<longleftrightarrow> wait_timer_heap s = [] \<and> next_wake_scan s = SCHED_NO_DEADLINE \<and>
     (\<forall>t. pstate (ktasks s t) = PROC_PARK_IDLE \<and> wait_timer_index (ktasks s t) = - 1 \<and>
          wait_deadline (ktasks s t) = 0)"

inductive park_reachable :: "nat \<Rightarrow> kstate \<times> (nat \<times> u64) list \<Rightarrow> bool" for idle :: nat where
  boot: "park_boot s \<Longrightarrow> park_reachable idle (s, [])"
| step: "park_reachable idle c \<Longrightarrow> park_step idle c c' \<Longrightarrow> park_reachable idle c'"

end
