(* ===== verification/Timer_Heap.thy ===== *)
theory Timer_Heap
  imports Timers
begin

text \<open>
  The heap code is correct: every operation keeps the heap order and the back pointers from
  tasks to positions, insertion adds one entry, removal at an index removes that entry, and
  the root is the earliest deadline.  The contract is a locale that the two heaps of the
  kernel interpret; the draining of due entries is proved from it.
\<close>

subsection \<open>Order and back pointers\<close>

definition par :: "nat \<Rightarrow> nat" where
  "par i = (i - 1) div 2"

lemma par_less: "0 < i \<Longrightarrow> par i < i"
  by (simp add: par_def)

lemma par_lt_length: "0 < i \<Longrightarrow> i < n \<Longrightarrow> par i < n"
  using par_less less_trans by blast

lemma par_child: "0 < j \<Longrightarrow> par j = i \<longleftrightarrow> j = 2 * i + 1 \<or> j = 2 * i + 2"
  by (auto simp: par_def)

abbreviation dl :: "('a alarm_timer_scheme) list \<Rightarrow> nat \<Rightarrow> u64" where
  "dl h i \<equiv> deadline (h ! i)"

definition heap_ord :: "('a alarm_timer_scheme) list \<Rightarrow> bool" where
  "heap_ord h \<longleftrightarrow> (\<forall>j. 0 < j \<longrightarrow> j < length h \<longrightarrow> dl h (par j) \<le> dl h j)"

definition ix_ok :: "('a alarm_timer_scheme) theap \<Rightarrow> bool" where
  "ix_ok q \<longleftrightarrow> (\<forall>i<length (fst q). snd q (etask (fst q ! i)) = int i) \<and>
     (\<forall>t. 0 \<le> snd q t \<longrightarrow> nat (snd q t) < length (fst q) \<and> etask (fst q ! nat (snd q t)) = t)"

lemma ix_ok_inj:
  assumes "ix_ok q" "i < length (fst q)" "j < length (fst q)" "etask (fst q ! i) = etask (fst q ! j)"
  shows "i = j"
  using assms unfolding ix_ok_def by (metis of_nat_eq_iff)

definition list_swap :: "nat \<Rightarrow> nat \<Rightarrow> 'a list \<Rightarrow> 'a list" where
  "list_swap a b h = h[a := h ! b, b := h ! a]"

lemma nth_list_swap:
  "a < length h \<Longrightarrow> b < length h \<Longrightarrow> k < length h \<Longrightarrow>
     list_swap a b h ! k = (if k = a then h ! b else if k = b then h ! a else h ! k)"
  by (auto simp: list_swap_def nth_list_update)

lemma length_list_swap [simp]: "length (list_swap a b h) = length h"
  by (simp add: list_swap_def)

lemma mset_list_swap: "a < length h \<Longrightarrow> b < length h \<Longrightarrow> mset (list_swap a b h) = mset h"
  by (simp add: list_swap_def mset_swap)

lemma fst_heap_swap [simp]: "fst (heap_swap a b q) = list_swap a b (fst q)"
  by (simp add: heap_swap_def list_swap_def split_beta Let_def)

lemma heap_swap_ix:
  assumes ok: "ix_ok q" and ab: "a < length (fst q)" "b < length (fst q)" "a \<noteq> b"
  shows "ix_ok (heap_swap a b q)"
proof -
  let ?h = "fst q" and ?x = "etask (fst q ! a)" and ?y = "etask (fst q ! b)"
  have xy: "?x \<noteq> ?y" using ix_ok_inj [OF ok ab(1,2)] ab(3) by blast
  have snd: "snd (heap_swap a b q) = (snd q)(?y := int a, ?x := int b)"
    using ab by (simp add: heap_swap_def split_beta Let_def nth_list_update)
  have "snd (heap_swap a b q) (etask (list_swap a b ?h ! i)) = int i" if "i < length ?h" for i
    using that ab ok xy ix_ok_inj [OF ok that, of a] ix_ok_inj [OF ok that, of b]
    by (auto simp: nth_list_swap snd ix_ok_def)
  moreover have "nat (snd (heap_swap a b q) t) < length ?h \<and>
      etask (list_swap a b ?h ! nat (snd (heap_swap a b q) t)) = t"
    if "0 \<le> snd (heap_swap a b q) t" for t
  proof (cases "t = ?x \<or> t = ?y")
    case True
    then show ?thesis using ab xy by (auto simp: snd nth_list_swap)
  next
    case False
    then have "nat (snd q t) < length ?h" "etask (?h ! nat (snd q t)) = t"
      using that ok by (auto simp: snd ix_ok_def)
    then show ?thesis using False ab by (auto simp: snd nth_list_swap)
  qed
  ultimately show ?thesis by (simp add: ix_ok_def)
qed

subsection \<open>Sifting up\<close>

text \<open>The order holds except between \<open>i\<close> and its parent, and the parent is below the children.\<close>

definition up_ok :: "nat \<Rightarrow> ('a alarm_timer_scheme) list \<Rightarrow> bool" where
  "up_ok i h \<longleftrightarrow> (\<forall>j. 0 < j \<longrightarrow> j < length h \<longrightarrow> j \<noteq> i \<longrightarrow> dl h (par j) \<le> dl h j) \<and>
     (\<forall>j. 0 < i \<longrightarrow> 0 < j \<longrightarrow> j < length h \<longrightarrow> par j = i \<longrightarrow> dl h (par i) \<le> dl h j)"

lemma up_ok_swap:
  assumes up: "up_ok i h" and i: "0 < i" "i < length h" and less: "dl h i < dl h (par i)"
  shows "up_ok (par i) (list_swap (par i) i h)"
proof -
  let ?p = "par i" and ?h = "list_swap (par i) i h"
  have p: "?p < i" "?p < length h" using i par_less par_lt_length by auto
  note nth = nth_list_swap [OF p(2) i(2)]
  have edge: "dl h (par j) \<le> dl h j" if "0 < j" "j < length h" "j \<noteq> i" for j
    using up that by (simp add: up_ok_def)
  have child: "dl h ?p \<le> dl h j" if "0 < j" "j < length h" "par j = i" for j
    using up that i by (simp add: up_ok_def)
  have "dl ?h (par j) \<le> dl ?h j" if j: "0 < j" "j < length h" "j \<noteq> ?p" for j
  proof -
    have pj: "par j < j" "par j < length h" using j par_less par_lt_length by auto
    consider "j = i" | "j \<noteq> i" "par j = i" | "j \<noteq> i" "par j = ?p" | "j \<noteq> i" "par j \<noteq> i" "par j \<noteq> ?p"
      by blast
    then show ?thesis
    proof cases
      case 1
      then show ?thesis using less p i by (simp add: nth)
    next
      case 2
      then show ?thesis using child [OF j(1,2)] j p i by (simp add: nth)
    next
      case 3
      then show ?thesis using edge [of j] less j p by (simp add: nth)
    next
      case 4
      then show ?thesis using edge [of j] j pj by (simp add: nth)
    qed
  qed
  moreover have "dl ?h (par ?p) \<le> dl ?h j" if j: "0 < ?p" "0 < j" "j < length h" "par j = ?p" for j
  proof -
    have pp: "par ?p < ?p" "par ?p < length h" using j p par_less par_lt_length by auto
    have "dl h (par ?p) \<le> dl h ?p" using edge [of ?p] j p by simp
    moreover have "dl h ?p \<le> dl h j" if "j \<noteq> i" using edge [of j] j that by simp
    moreover have "j \<noteq> ?p" using j par_less [of j] by auto
    ultimately show ?thesis using j p pp by (cases "j = i") (auto simp: nth)
  qed
  ultimately show ?thesis by (simp add: up_ok_def)
qed

lemma heap_sift_up_correct:
  assumes "ix_ok q" "up_ok i (fst q)" "i < length (fst q)"
  shows "ix_ok (heap_sift_up i q) \<and> heap_ord (fst (heap_sift_up i q)) \<and>
    mset (fst (heap_sift_up i q)) = mset (fst q)"
  using assms
proof (induction i q rule: heap_sift_up.induct)
  case (1 i q)
  show ?case
  proof (cases "i = 0 \<or> dl (fst q) (par i) \<le> dl (fst q) i")
    case True
    then have "heap_sift_up i q = q" by (subst heap_sift_up.simps) (auto simp: Let_def par_def)
    moreover have "heap_ord (fst q)"
      using "1.prems"(2) True by (auto simp: heap_ord_def up_ok_def)
    ultimately show ?thesis using "1.prems" by simp
  next
    case False
    then have eq: "heap_sift_up i q = heap_sift_up (par i) (heap_swap (par i) i q)"
      by (subst heap_sift_up.simps) (simp add: Let_def par_def)
    have i: "0 < i" "par i < length (fst q)" "par i \<noteq> i" using False "1.prems"(3) par_less [of i] by auto
    have "ix_ok (heap_swap (par i) i q)"
      using heap_swap_ix [OF "1.prems"(1) i(2) "1.prems"(3) i(3)] .
    moreover have "up_ok (par i) (fst (heap_swap (par i) i q))"
      using up_ok_swap [OF "1.prems"(2) i(1) "1.prems"(3)] False by (simp add: not_le)
    ultimately show ?thesis
      using "1.IH" [OF _ par_def [of i]] False i "1.prems"(3) by (auto simp: eq mset_list_swap)
  qed
qed

subsection \<open>Sifting down\<close>

definition down_ok :: "nat \<Rightarrow> ('a alarm_timer_scheme) list \<Rightarrow> bool" where
  "down_ok i h \<longleftrightarrow> (\<forall>j. 0 < j \<longrightarrow> j < length h \<longrightarrow> par j \<noteq> i \<longrightarrow> dl h (par j) \<le> dl h j) \<and>
     (\<forall>j. 0 < i \<longrightarrow> 0 < j \<longrightarrow> j < length h \<longrightarrow> par j = i \<longrightarrow> dl h (par i) \<le> dl h j)"

lemma heap_smallest_min:
  assumes "m = heap_smallest i h"
  shows "\<And>j. 0 < j \<Longrightarrow> j < length h \<Longrightarrow> par j = i \<Longrightarrow> dl h m \<le> dl h j"
    and "dl h m \<le> dl h i" and "m \<noteq> i \<Longrightarrow> 0 < m \<and> m < length h \<and> par m = i"
proof -
  have c: "i * 2 + 1 = 2 * i + 1" "2 * i + 1 + 1 = 2 * i + 2" by simp_all
  show "dl h m \<le> dl h j" if "0 < j" "j < length h" "par j = i" for j
  proof -
    have "j = 2 * i + 1 \<or> j = 2 * i + 2" using that par_child by blast
    then show ?thesis
      using that assms unfolding heap_smallest_def Let_def c
      by (auto simp: not_less split: if_splits)
  qed
  show "dl h m \<le> dl h i"
    using assms unfolding heap_smallest_def Let_def c by (auto split: if_splits)
  show "0 < m \<and> m < length h \<and> par m = i" if "m \<noteq> i"
    using assms that par_child [of m i] unfolding heap_smallest_def Let_def c
    by (auto split: if_splits)
qed

lemma down_ok_swap:
  assumes down: "down_ok i h" and m: "m = heap_smallest i h" "m \<noteq> i"
  shows "down_ok m (list_swap i m h)"
proof -
  let ?h = "list_swap i m h"
  note min = heap_smallest_min [OF m(1)]
  have mi: "0 < m" "m < length h" "par m = i" using min(3) [OF m(2)] by auto
  then have i: "i < m" "i < length h" using par_less [of m] by auto
  note nth = nth_list_swap [OF i(2) mi(2)]
  have edge: "dl h (par j) \<le> dl h j" if "0 < j" "j < length h" "par j \<noteq> i" for j
    using down that by (simp add: down_ok_def)
  have "dl ?h (par j) \<le> dl ?h j" if j: "0 < j" "j < length h" "par j \<noteq> m" for j
  proof -
    have pj: "par j < j" "par j < length h" using j par_less par_lt_length by auto
    consider "par j = i" "j = m" | "par j = i" "j \<noteq> m" | "par j \<noteq> i" "j = i" | "par j \<noteq> i" "j \<noteq> i" by blast
    then show ?thesis
    proof cases
      case 1
      then show ?thesis using min(2) i mi by (simp add: nth)
    next
      case 2
      then have "j \<noteq> i" using pj by auto
      then show ?thesis using 2 min(1) [OF j(1,2)] i j by (simp add: nth)
    next
      case 3
      have "dl h (par i) \<le> dl h m" using down 3 j mi by (simp add: down_ok_def)
      then show ?thesis using 3 pj i mi j by (simp add: nth)
    next
      case 4
      then have "j \<noteq> m" using mi(3) by auto
      then show ?thesis using 4 edge [OF j(1,2)] pj j by (simp add: nth)
    qed
  qed
  moreover have "dl ?h (par m) \<le> dl ?h j" if j: "0 < j" "j < length h" "par j = m" for j
  proof -
    have "j > m" using par_less [OF j(1)] j(3) by simp
    moreover have "par j \<noteq> i" using j(3) i by simp
    ultimately show ?thesis using edge [OF j(1,2)] j i mi by (simp add: nth)
  qed
  ultimately show ?thesis by (simp add: down_ok_def)
qed

lemma heap_sift_down_correct:
  assumes "ix_ok q" "down_ok i (fst q)"
  shows "ix_ok (heap_sift_down i q) \<and> heap_ord (fst (heap_sift_down i q)) \<and>
    mset (fst (heap_sift_down i q)) = mset (fst q)"
  using assms
proof (induction i q rule: heap_sift_down.induct)
  case (1 i q)
  let ?m = "heap_smallest i (fst q)"
  show ?case
  proof (cases "?m = i")
    case True
    then have "heap_sift_down i q = q" by (subst heap_sift_down.simps) (simp add: Let_def)
    moreover have "heap_ord (fst q)"
      unfolding heap_ord_def
    proof (intro allI impI)
      fix j assume j: "0 < j" "j < length (fst q)"
      show "dl (fst q) (par j) \<le> dl (fst q) j"
        using heap_smallest_min(1) [OF refl, of j "fst q" i] "1.prems"(2) True j
        by (cases "par j = i") (auto simp: down_ok_def)
    qed
    ultimately show ?thesis using "1.prems" by simp
  next
    case False
    then have eq: "heap_sift_down i q = heap_sift_down ?m (heap_swap i ?m q)"
      by (subst heap_sift_down.simps) (simp add: Let_def)
    have m: "i < ?m" "?m < length (fst q)" "i < length (fst q)"
      using heap_smallest_bound [OF False] by auto
    have "ix_ok (heap_swap i ?m q)"
      using heap_swap_ix [OF "1.prems"(1) m(3,2)] m(1) by simp
    moreover have "down_ok ?m (fst (heap_swap i ?m q))"
      using down_ok_swap [OF "1.prems"(2) refl False] by simp
    ultimately show ?thesis
      using "1.IH" [OF refl False] m by (auto simp: eq mset_list_swap)
  qed
qed

subsection \<open>Insertion and removal\<close>

definition heap_ok :: "('a alarm_timer_scheme) theap \<Rightarrow> bool" where
  "heap_ok q \<longleftrightarrow> ix_ok q \<and> heap_ord (fst q)"

lemma heap_push_correct:
  assumes ok: "heap_ok q" and free: "snd q (etask e) < 0"
  shows "heap_ok (heap_push e q) \<and> mset (fst (heap_push e q)) = add_mset e (mset (fst q))"
proof -
  obtain h ix where q: "q = (h, ix)" by force
  let ?q = "(h @ [e], ix(etask e := int (length h)))"
  have "etask (h ! i) \<noteq> etask e" if "i < length h" for i
    using ok free that by (auto simp: q heap_ok_def ix_ok_def)
  then have "ix_ok ?q"
    using ok by (auto simp: q heap_ok_def ix_ok_def nth_append less_Suc_eq split: if_splits)
  moreover have "up_ok (length h) (fst ?q)"
  proof -
    have "j < length h \<Longrightarrow> 0 < j \<Longrightarrow> par j < length h" for j using par_lt_length by blast
    moreover have "par j \<noteq> length h" if "0 < j" "j < Suc (length h)" for j
      using par_less [OF that(1)] that(2) by simp
    ultimately show ?thesis
      using ok by (auto simp: q up_ok_def heap_ok_def heap_ord_def nth_append less_Suc_eq)
  qed
  ultimately show ?thesis
    using heap_sift_up_correct [of ?q "length h"] by (auto simp: heap_push_def q heap_ok_def)
qed

lemma mset_take_last:
  assumes "h \<noteq> []"
  shows "add_mset (last h) (mset (take (length h - 1) h)) = mset h"
  using arg_cong [OF append_butlast_last_id [OF assms], of mset] by (simp add: butlast_conv_take)

text \<open>The list and the positions after the last entry has moved into the hole at \<open>i\<close>.\<close>

lemma heap_hole:
  assumes ok: "heap_ok (h, ix)" and i: "i < length h - 1"
  defines "c \<equiv> length h - 1"
  defines "g \<equiv> take c (h[i := h ! c])"
  shows "length g = c" "\<And>k. k < c \<Longrightarrow> g ! k = (if k = i then h ! c else h ! k)"
    "add_mset (h ! i) (mset g) = mset h"
    "ix_ok (g, (ix(etask (h ! i) := - 1))(etask (g ! i) := int i))"
proof -
  have c: "c < length h" "i < c" "i < length h" using i by (auto simp: c_def)
  show len: "length g = c" using c by (simp add: g_def)
  show nth: "g ! k = (if k = i then h ! c else h ! k)" if "k < c" for k
    using that c by (simp add: g_def)
  have "mset (h[i := h ! c]) = add_mset (h ! c) (mset h - {#h ! i#})"
    using c by (simp add: mset_update)
  moreover have "add_mset (h ! c) (mset g) = mset (h[i := h ! c])"
  proof -
    have ne: "h[i := h ! c] \<noteq> []" using c by auto
    then have "last (h[i := h ! c]) = h ! c"
      using c by (subst last_conv_nth) (auto simp: c_def)
    then show ?thesis using mset_take_last [OF ne] by (simp add: g_def c_def)
  qed
  ultimately show "add_mset (h ! i) (mset g) = mset h" using c by simp
  have inj: "etask (h ! a) = etask (h ! b) \<longleftrightarrow> a = b" if "a < length h" "b < length h" for a b
    using ok ix_ok_inj [of "(h, ix)" a b] that by (auto simp: heap_ok_def)
  have ix: "ix (etask (h ! a)) = int a" if "a < length h" for a
    using ok that by (simp add: heap_ok_def ix_ok_def)
  have bk: "nat (ix t) < length h \<and> etask (h ! nat (ix t)) = t" if "0 \<le> ix t" for t
    using ok that by (simp add: heap_ok_def ix_ok_def)
  let ?ix = "(ix(etask (h ! i) := - 1))(etask (g ! i) := int i)"
  have gi: "g ! i = h ! c" using nth c by simp
  have "?ix (etask (g ! k)) = int k" if "k < c" for k
    using that c inj ix by (cases "k = i") (simp_all add: nth)
  moreover have "nat (?ix t) < c \<and> etask (g ! nat (?ix t)) = t" if "0 \<le> ?ix t" for t
  proof (cases "t = etask (h ! c)")
    case False
    then have t: "0 \<le> ix t" "?ix t = ix t" "t \<noteq> etask (h ! i)"
      using that by (auto simp: gi split: if_splits)
    then have "nat (ix t) \<noteq> c" "nat (ix t) \<noteq> i" "nat (ix t) < length h" "etask (h ! nat (ix t)) = t"
      using bk [OF t(1)] False by auto
    moreover from this have "nat (ix t) < c" by (auto simp: c_def)
    ultimately show ?thesis using t by (simp add: nth)
  qed (use c gi in simp)
  ultimately show "ix_ok (g, ?ix)" by (simp add: ix_ok_def len)
qed

lemma heap_hole_order:
  assumes ord: "heap_ord h" and i: "i < length h - 1" and len: "length g = length h - 1"
    and nth: "\<And>k. k < length h - 1 \<Longrightarrow> g ! k = (if k = i then h ! (length h - 1) else h ! k)"
  shows "if 0 < i \<and> dl g i < dl g (par i) then up_ok i g else down_ok i g"
proof -
  have edge: "dl h (par j) \<le> dl h j" if "0 < j" "j < length h - 1" for j
    using ord that by (simp add: heap_ord_def)
  have keep: "dl g (par j) \<le> dl g j" if "0 < j" "j < length g" "j \<noteq> i" "par j \<noteq> i" for j
    using edge [of j] par_lt_length [of j "length h - 1"] that by (simp add: nth len)
  have child: "dl g (par i) \<le> dl g j" if "0 < i" "0 < j" "j < length g" "par j = i" for j
  proof -
    have "dl h (par i) \<le> dl h i" "dl h i \<le> dl h j"
      using edge [of i] edge [of j] that i by (auto simp: len)
    moreover have "par i \<noteq> i" "j \<noteq> i" "par i < length h - 1"
      using par_less [of i] par_less [of j] par_lt_length [of i "length h - 1"] that i by auto
    ultimately show ?thesis using that i by (simp add: nth len)
  qed
  show ?thesis
  proof (cases "0 < i \<and> dl g i < dl g (par i)")
    case True
    have "dl g (par j) \<le> dl g j" if "0 < j" "j < length g" "j \<noteq> i" for j
      using keep [OF that] child [of j] that True by (cases "par j = i") auto
    then show ?thesis using True child by (simp add: up_ok_def)
  next
    case False
    have "dl g (par j) \<le> dl g j" if "0 < j" "j < length g" "par j \<noteq> i" for j
      using keep [OF that(1,2) _ that(3)] that False by (cases "j = i") auto
    then show ?thesis using False child unfolding down_ok_def by auto
  qed
qed

lemma heap_drop_last:
  assumes ok: "heap_ok (h, ix)" and ne: "h \<noteq> []"
  shows "ix_ok (take (length h - 1) h, ix(etask (h ! (length h - 1)) := - 1))"
proof -
  let ?c = "length h - 1"
  have "etask (h ! k) \<noteq> etask (h ! ?c)" if "k < ?c" for k
  proof -
    have "k < length h" "?c < length h" using that ne by (auto simp: less_diff_conv)
    then show ?thesis using ok ix_ok_inj [of "(h, ix)" k ?c] that by (auto simp: heap_ok_def)
  qed
  moreover have "nat (ix t) < ?c" "etask (h ! nat (ix t)) = t" if "0 \<le> ix t" "t \<noteq> etask (h ! ?c)" for t
  proof -
    have *: "nat (ix t) < length h" "etask (h ! nat (ix t)) = t"
      using ok that(1) by (auto simp: heap_ok_def ix_ok_def)
    then show "etask (h ! nat (ix t)) = t" by simp
    have "nat (ix t) \<noteq> ?c" using * that(2) by auto
    then show "nat (ix t) < ?c" using * by simp
  qed
  moreover have "ix (etask (h ! k)) = int k" if "k < length h" for k
    using ok that by (simp add: heap_ok_def ix_ok_def)
  ultimately show ?thesis by (auto simp: ix_ok_def split: if_splits)
qed

lemma heap_remove_correct:
  assumes ok: "heap_ok q" and i: "i < length (fst q)"
  shows "fst (heap_remove_index i q) = Some (fst q ! i)"
    "heap_ok (snd (heap_remove_index i q))"
    "add_mset (fst q ! i) (mset (fst (snd (heap_remove_index i q)))) = mset (fst q)"
proof -
  obtain h ix where q: "q = (h, ix)" by force
  let ?c = "length h - 1"
  show "fst (heap_remove_index i q) = Some (fst q ! i)"
    using i by (simp add: q heap_remove_index_def Let_def)
  have "heap_ok (snd (heap_remove_index i q)) \<and>
    add_mset (fst q ! i) (mset (fst (snd (heap_remove_index i q)))) = mset (fst q)"
  proof (cases "i = ?c")
    case True
    then have "snd (heap_remove_index i q) = (take ?c h, ix(etask (h ! i) := - 1))"
      using i by (simp add: q heap_remove_index_def Let_def)
    moreover have "ix_ok (take ?c h, ix(etask (h ! i) := - 1))"
      using heap_drop_last [OF ok [unfolded q]] True i by (cases h) (simp_all add: q)
    moreover have "heap_ord (take ?c h)"
    proof -
      have "dl h (par j) \<le> dl h j" if "0 < j" "j < length h" for j
        using ok that by (simp add: q heap_ok_def heap_ord_def)
      then show ?thesis using par_lt_length by (simp add: heap_ord_def)
    qed
    ultimately have ok': "snd (heap_remove_index i q) = (take ?c h, ix(etask (h ! i) := - 1))"
      "heap_ok (take ?c h, ix(etask (h ! i) := - 1))" by (simp_all add: heap_ok_def)
    show ?thesis
    proof -
      have "h \<noteq> []" using i by (auto simp: q)
      then have "add_mset (h ! i) (mset (take ?c h)) = mset h"
        using mset_take_last [of h] True by (simp add: last_conv_nth)
      then show ?thesis using ok' by (simp add: q)
    qed
  next
    case False
    define g where "g = take ?c (h[i := h ! ?c])"
    define q2 where "q2 = (g, (ix(etask (h ! i) := - 1))(etask (g ! i) := int i))"
    let ?up = "0 < i \<and> dl g i < dl g (par i)"
    have i': "i < ?c" using False i by (simp add: q)
    note hole = heap_hole [OF ok [unfolded q] i', folded g_def, folded q2_def]
    have eq: "snd (heap_remove_index i q) = (if ?up then heap_sift_up i q2 else heap_sift_down i q2)"
      using i i' by (cases "i = 0") (auto simp: q q2_def g_def heap_remove_index_def Let_def par_def)
    have g: "fst q2 = g" "i < length g" using hole(1) i' by (simp_all add: q2_def)
    have "if ?up then up_ok i g else down_ok i g"
      using heap_hole_order [OF _ i' hole(1,2)] ok by (simp add: q heap_ok_def)
    then have "heap_ok (snd (heap_remove_index i q)) \<and> mset (fst (snd (heap_remove_index i q))) = mset g"
      using heap_sift_up_correct [OF hole(4), of i] heap_sift_down_correct [OF hole(4), of i] g
      by (cases ?up) (auto simp: eq heap_ok_def)
    then show ?thesis using hole(3) by (simp add: q)
  qed
  then show "heap_ok (snd (heap_remove_index i q))"
    "add_mset (fst q ! i) (mset (fst (snd (heap_remove_index i q)))) = mset (fst q)" by simp_all
qed

lemma heap_root_min:
  assumes "heap_ord h" "i < length h"
  shows "dl h 0 \<le> dl h i"
  using assms(2)
proof (induction i rule: less_induct)
  case (less i)
  show ?case
  proof (cases "i = 0")
    case False
    then have "dl h 0 \<le> dl h (par i)"
      using less par_less [of i] by simp
    also have "\<dots> \<le> dl h i"
      using assms(1) False less.prems by (simp add: heap_ord_def)
    finally show ?thesis .
  qed simp
qed

lemma heap_ok_index:
  assumes "heap_ok q"
  shows "0 \<le> snd q t \<longleftrightarrow> (\<exists>e\<in>set (fst q). etask e = t)"
    and "e \<in> set (fst q) \<Longrightarrow> etask e = t \<Longrightarrow> nat (snd q t) < length (fst q) \<and> fst q ! nat (snd q t) = e"
    and "e \<in> set (fst q) \<Longrightarrow> e' \<in> set (fst q) \<Longrightarrow> etask e = etask e' \<Longrightarrow> e = e'"
    and "distinct (fst q)"
proof -
  have ix: "\<And>i. i < length (fst q) \<Longrightarrow> snd q (etask (fst q ! i)) = int i"
    "\<And>t. 0 \<le> snd q t \<Longrightarrow> nat (snd q t) < length (fst q) \<and> etask (fst q ! nat (snd q t)) = t"
    using assms by (auto simp: heap_ok_def ix_ok_def)
  show "0 \<le> snd q t \<longleftrightarrow> (\<exists>e\<in>set (fst q). etask e = t)"
  proof
    assume "0 \<le> snd q t"
    then show "\<exists>e\<in>set (fst q). etask e = t" using ix(2) [of t] nth_mem by blast
  qed (auto simp: in_set_conv_nth ix(1))
  show *: "nat (snd q t) < length (fst q) \<and> fst q ! nat (snd q t) = e" if "e \<in> set (fst q)" "etask e = t" for e t
    using that ix(1) by (auto simp: in_set_conv_nth)
  show "e = e'" if "e \<in> set (fst q)" "e' \<in> set (fst q)" "etask e = etask e'"
    by (rule trans [OF * [OF that(1) refl, THEN conjunct2, symmetric]
          * [OF that(2) that(3) [symmetric], THEN conjunct2]])
  show "distinct (fst q)"
    unfolding distinct_conv_nth
  proof (intro allI impI notI)
    fix i j
    assume ij: "i < length (fst q)" "j < length (fst q)" "i \<noteq> j" "fst q ! i = fst q ! j"
    then show False using ix(1) [OF ij(1)] ix(1) [OF ij(2)] by simp
  qed
qed

subsection \<open>The contract of a heap in the kernel state\<close>

text \<open>
  A heap component of the state: \<open>get\<close> reads it, \<open>remove\<close> takes out an entry by position.
  The provider promises that \<open>remove\<close> is the heap removal on that component.
\<close>

locale state_heap =
  fixes get :: "kstate \<Rightarrow> ('a alarm_timer_scheme) theap"
    and remove :: "nat \<Rightarrow> kstate \<Rightarrow> ('a alarm_timer_scheme) option \<times> kstate"
  assumes remove_fst: "fst (remove i s) = fst (heap_remove_index i (get s))"
    and remove_snd: "i < length (fst (get s)) \<Longrightarrow> get (snd (remove i s)) = snd (heap_remove_index i (get s))"
begin

lemma remove_ok:
  assumes "heap_ok (get s)" "i < length (fst (get s))" "remove i s = (r, s')"
  shows "r = Some (fst (get s) ! i)" "heap_ok (get s')"
    "add_mset (fst (get s) ! i) (mset (fst (get s'))) = mset (fst (get s))"
    "length (fst (get s')) < length (fst (get s))"
proof -
  note c = heap_remove_correct [OF assms(1,2)]
  have s': "get s' = snd (heap_remove_index i (get s))" "r = fst (heap_remove_index i (get s))"
    using remove_snd [OF assms(2)] remove_fst [of i s] assms(3) by simp_all
  show "r = Some (fst (get s) ! i)" "heap_ok (get s')"
    "add_mset (fst (get s) ! i) (mset (fst (get s'))) = mset (fst (get s))"
    using c by (simp_all add: s')
  then have "Suc (length (fst (get s'))) = length (fst (get s))"
    by (metis size_add_mset size_mset)
  then show "length (fst (get s')) < length (fst (get s))" by simp
qed

lemma remove_set:
  assumes "heap_ok (get s)" "i < length (fst (get s))" "remove i s = (r, s')"
  shows "set (fst (get s')) = set (fst (get s)) - {fst (get s) ! i}"
proof -
  have m: "add_mset (fst (get s) ! i) (mset (fst (get s'))) = mset (fst (get s))"
    by (rule remove_ok(3) [OF assms])
  have "distinct (fst (get s) ! i # fst (get s'))"
    using mset_eq_imp_distinct_iff [of "fst (get s) ! i # fst (get s')"] m
      heap_ok_index(4) [OF assms(1)] by simp
  moreover have "insert (fst (get s) ! i) (set (fst (get s'))) = set (fst (get s))"
    using arg_cong [OF m, of set_mset] by simp
  ultimately show ?thesis by auto
qed

lemma root_min:
  assumes "heap_ok (get s)" "e \<in> set (fst (get s))"
  shows "deadline (fst (get s) ! 0) \<le> deadline e"
  using assms heap_root_min [of "fst (get s)"] by (auto simp: heap_ok_def in_set_conv_nth)

end

lemma wait_heap_set [simp]: "wait_heap (set_wait_heap q s) = q"
  by (simp add: wait_heap_def set_wait_heap_def)

lemma alarm_heap_set [simp]: "alarm_heap (set_alarm_heap q s) = q"
  by (simp add: alarm_heap_def set_alarm_heap_def)

lemma wait_heap_cong:
  "wait_timer_heap t = wait_timer_heap s \<Longrightarrow>
   (\<And>u. wait_timer_index (ktasks t u) = wait_timer_index (ktasks s u)) \<Longrightarrow> wait_heap t = wait_heap s"
  by (simp add: wait_heap_def)

lemma heap_remove_fst_None: "fst (heap_remove_index i q) = None \<longleftrightarrow> length (fst q) \<le> i"
  by (simp add: heap_remove_index_def split_beta Let_def)

interpretation wheap: state_heap wait_heap wait_timer_remove_index_locked
proof
  show "fst (wait_timer_remove_index_locked i s) = fst (heap_remove_index i (wait_heap s))" for i s
    by (simp add: wait_timer_remove_index_locked_def Let_def split: prod.splits option.splits)
  show "wait_heap (snd (wait_timer_remove_index_locked i s)) = snd (heap_remove_index i (wait_heap s))"
    if "i < length (fst (wait_heap s))" for i s
  proof -
    have "fst (heap_remove_index i (wait_heap s)) \<noteq> None"
      using that by (simp add: heap_remove_fst_None)
    then show ?thesis
      by (auto simp: wait_timer_remove_index_locked_def Let_def split: prod.splits option.splits
          intro!: trans [OF wait_heap_cong wait_heap_set])
  qed
qed

interpretation aheap: state_heap alarm_heap alarm_timer_remove_index_locked
  by unfold_locales (simp_all add: alarm_timer_remove_index_locked_def split: prod.splits)

end
