(* ===== verification/Park_Safety.thy ===== *)
theory Park_Safety
  imports Park Timer_Heap
begin

text \<open>
  The invariant of the park protocol: the wait-timer heap holds exactly the deadlines of
  waiting tasks, under their current sequence numbers, and a task that waits with a deadline
  has its entry in the heap or among the expired entries whose wake is on its way.
\<close>

subsection \<open>What the timer operations leave alone\<close>

definition kcore :: "ktask \<Rightarrow> ktask" where
  "kcore k = k\<lparr>wait_timer_index := 0, wake_time := 0, krefs := 0, alarm_timer_index := 0,
     alarm_expire := 0\<rparr>"

definition same_core :: "kstate \<Rightarrow> kstate \<Rightarrow> bool" where
  "same_core s s' \<longleftrightarrow> (\<forall>u. kcore (ktasks s' u) = kcore (ktasks s u))"

lemma kcore_fields:
  assumes "kcore a = kcore b"
  shows "pstate a = pstate b" "tstate a = tstate b" "wait_seq a = wait_seq b"
    "wait_deadline a = wait_deadline b" "wake_reason a = wake_reason b" "wait_mode a = wait_mode b"
  using assms [THEN arg_cong, of pstate] assms [THEN arg_cong, of tstate]
    assms [THEN arg_cong, of wait_seq] assms [THEN arg_cong, of wait_deadline]
    assms [THEN arg_cong, of wake_reason] assms [THEN arg_cong, of wait_mode]
  by (simp_all add: kcore_def)

lemma same_core_fields:
  assumes "same_core s s'"
  shows "pstate (ktasks s' u) = pstate (ktasks s u)" "tstate (ktasks s' u) = tstate (ktasks s u)"
    "wait_seq (ktasks s' u) = wait_seq (ktasks s u)"
    "wait_deadline (ktasks s' u) = wait_deadline (ktasks s u)"
    "wake_reason (ktasks s' u) = wake_reason (ktasks s u)"
    "wait_mode (ktasks s' u) = wait_mode (ktasks s u)"
  using assms kcore_fields [of "ktasks s' u" "ktasks s u"] by (simp_all add: same_core_def)

lemma same_core_refl [simp]: "same_core s s"
  by (simp add: same_core_def)

lemma same_core_trans: "same_core s t \<Longrightarrow> same_core t u \<Longrightarrow> same_core s u"
  by (simp add: same_core_def)

lemma same_core_upd: "(\<And>k. kcore (f k) = kcore k) \<Longrightarrow> same_core s (upd_task t f s)"
  by (simp add: same_core_def upd_task_def)

lemma same_core_set_wait [simp]: "same_core s (set_wait_heap q s)"
  by (simp add: same_core_def set_wait_heap_def kcore_def)

lemma same_core_set_alarm [simp]: "same_core s (set_alarm_heap q s)"
  by (simp add: same_core_def set_alarm_heap_def kcore_def)

lemma same_core_put [simp]: "same_core s (task_put t s)"
  by (simp add: task_put_def same_core_upd kcore_def)

lemma wait_heap_upd:
  "(\<And>k. wait_timer_index (f k) = wait_timer_index k) \<Longrightarrow> wait_heap (upd_task t f s) = wait_heap s"
  by (auto simp: wait_heap_def upd_task_def)

lemma wait_heap_put [simp]: "wait_heap (task_put t s) = wait_heap s"
  by (simp add: task_put_def wait_heap_upd)

subsection \<open>The heap as a set of entries\<close>

definition nws_ok :: "kstate \<Rightarrow> bool" where
  "nws_ok s \<longleftrightarrow> next_wake_scan s =
     (if wait_timer_heap s \<noteq> [] then deadline (wait_timer_heap s ! 0) else SCHED_NO_DEADLINE)"

lemma fst_wait_heap [simp]: "fst (wait_heap s) = wait_timer_heap s"
  by (simp add: wait_heap_def)

lemma snd_wait_heap [simp]: "snd (wait_heap s) t = wait_timer_index (ktasks s t)"
  by (simp add: wait_heap_def)

lemma wait_remove_spec:
  assumes ok: "heap_ok (wait_heap s)" and i: "i < length (wait_timer_heap s)"
    and r: "wait_timer_remove_index_locked i s = (r, s')"
  shows "r = Some (wait_timer_heap s ! i)" "heap_ok (wait_heap s')"
    "set (wait_timer_heap s') = set (wait_timer_heap s) - {wait_timer_heap s ! i}"
    "nws_ok s'" "same_core s s'" "length (wait_timer_heap s') \<le> length (wait_timer_heap s)"
proof -
  note c = wheap.remove_ok [OF ok _ r]
  show rS: "r = Some (wait_timer_heap s ! i)" using c(1) i by simp
  show ok': "heap_ok (wait_heap s')" using c(2) i by simp
  show "set (wait_timer_heap s') = set (wait_timer_heap s) - {wait_timer_heap s ! i}"
    using wheap.remove_set [OF ok _ r] i by simp
  show "length (wait_timer_heap s') \<le> length (wait_timer_heap s)"
    using wait_timer_remove_length [OF r] by simp
  obtain e q where "heap_remove_index i (wait_heap s) = (Some e, q)"
    using r rS by (auto simp: wait_timer_remove_index_locked_def Let_def split: prod.splits option.splits)
  then have s': "s' = (set_wait_heap q s)\<lparr>next_wake_scan :=
      (if wait_timer_heap (set_wait_heap q s) \<noteq> [] then deadline (wait_timer_heap (set_wait_heap q s) ! 0)
       else SCHED_NO_DEADLINE)\<rparr>"
    using r by (simp add: wait_timer_remove_index_locked_def Let_def)
  show "nws_ok s'" by (simp add: s' nws_ok_def)
  have "same_core s (set_wait_heap q s)" by simp
  then show "same_core s s'" by (simp add: s' same_core_def)
qed

definition wt_ok :: "kstate \<Rightarrow> bool" where
  "wt_ok s \<longleftrightarrow> heap_ok (wait_heap s) \<and> nws_ok s \<and> length (wait_timer_heap s) \<le> WAIT_TIMER_HEAP_MAX"

lemma wt_ok_cong:
  assumes "wt_ok s" "wait_heap s' = wait_heap s" "next_wake_scan s' = next_wake_scan s"
  shows "wt_ok s'" "wait_timer_heap s' = wait_timer_heap s"
proof -
  show "wait_timer_heap s' = wait_timer_heap s" using assms(2) by (metis fst_wait_heap)
  then show "wt_ok s'" using assms by (simp add: wt_ok_def nws_ok_def)
qed

lemma wait_cancel_spec:
  assumes ok: "wt_ok s" and s'_def: "s' = proc_wait_timer_cancel t sq s"
  shows "wt_ok s'" "same_core s s'"
    "set (wait_timer_heap s') = {e \<in> set (wait_timer_heap s). \<not> (etask e = t \<and> eseq e = sq)}"
proof -
  have hok: "heap_ok (wait_heap s)" using ok by (simp add: wt_ok_def)
  note ix = heap_ok_index [OF hok, simplified]
  let ?i = "nat (wait_timer_index (ktasks s t))"
  have "wt_ok s' \<and> same_core s s' \<and>
    set (wait_timer_heap s') = {e \<in> set (wait_timer_heap s). \<not> (etask e = t \<and> eseq e = sq)}"
  proof (cases "\<exists>e\<in>set (wait_timer_heap s). etask e = t \<and> eseq e = sq")
    case False
    then have "s' = s"
      using ix(1) [of t] nth_mem [of ?i "wait_timer_heap s"]
      by (auto simp: s'_def proc_wait_timer_cancel_def Let_def)
    then show ?thesis using ok False by auto
  next
    case True
    then obtain e where e: "e \<in> set (wait_timer_heap s)" "etask e = t" "eseq e = sq" by blast
    have i: "?i < length (wait_timer_heap s)" "wait_timer_heap s ! ?i = e" "0 \<le> wait_timer_index (ktasks s t)"
      using ix(2) [OF e(1,2)] ix(1) [of t] e by auto
    obtain r s1 where r: "wait_timer_remove_index_locked ?i s = (r, s1)" by fastforce
    note rs = wait_remove_spec [OF hok i(1) r]
    have s': "s' = task_put t (upd_task t (\<lambda>k. k\<lparr>wake_time := 0\<rparr>) s1)"
      using i e rs(1) r by (simp add: s'_def proc_wait_timer_cancel_def Let_def)
    have "wait_heap s' = wait_heap s1" "next_wake_scan s' = next_wake_scan s1"
      by (simp_all add: s' wait_heap_upd) (simp add: task_put_def upd_task_def)
    moreover have "wt_ok s1" using rs(2,4,6) ok by (simp add: wt_ok_def)
    ultimately have "wt_ok s'" "wait_timer_heap s' = wait_timer_heap s1" using wt_ok_cong by blast+
    moreover have "same_core s s'"
      using same_core_trans [OF rs(5) same_core_trans [OF same_core_upd same_core_put]]
      by (simp add: s' kcore_def)
    moreover have "set (wait_timer_heap s) - {e} =
        {e \<in> set (wait_timer_heap s). \<not> (etask e = t \<and> eseq e = sq)}"
      using e ix(3) by blast
    ultimately show ?thesis using rs(3) i(2) by simp
  qed
  then show "wt_ok s'" "same_core s s'"
    "set (wait_timer_heap s') = {e \<in> set (wait_timer_heap s). \<not> (etask e = t \<and> eseq e = sq)}" by simp_all
qed

lemma wait_register_fail:
  assumes "wt_ok s" "proc_wait_timer_register t d sq s = (res, s')" "res \<noteq> PROC_PARK_PREPARE_OK"
  shows "wt_ok s'" "same_core s s'" "wait_timer_heap s' = wait_timer_heap s"
proof -
  have "wait_heap s' = wait_heap s" "next_wake_scan s' = next_wake_scan s" "same_core s s'"
    using assms(2,3)
    by (auto simp: proc_wait_timer_register_def task_get_def Let_def wait_heap_def same_core_def
        split: if_splits)
  then show "wt_ok s'" "same_core s s'" "wait_timer_heap s' = wait_timer_heap s"
    using wt_ok_cong [OF assms(1)] by blast+
qed

lemma wait_register_ok:
  assumes ok: "wt_ok s" and run: "proc_wait_timer_register t d sq s = (PROC_PARK_PREPARE_OK, s')"
  shows "wt_ok s'" "same_core s s'" "d \<noteq> 0" "sq \<noteq> 0" "\<forall>e\<in>set (wait_timer_heap s). etask e \<noteq> t"
    "set (wait_timer_heap s') = insert \<lparr>deadline = d, etask = t, eseq = sq\<rparr> (set (wait_timer_heap s))"
proof -
  have hok: "heap_ok (wait_heap s)" using ok by (simp add: wt_ok_def)
  let ?e = "\<lparr>deadline = d, etask = t, eseq = sq\<rparr>"
  define s1 where "s1 = upd_task t (\<lambda>k. k\<lparr>krefs := krefs k + 1\<rparr>) s"
  define s2 where "s2 = set_wait_heap (heap_push ?e (wait_heap s1)) s1"
  define s3 where "s3 = upd_task t (\<lambda>k. k\<lparr>wake_time := d\<rparr>) s2"
  have g: "d \<noteq> 0" "sq \<noteq> 0" "wait_timer_index (ktasks s t) < 0"
    "length (wait_timer_heap s) < WAIT_TIMER_HEAP_MAX"
    and s': "wait_heap s' = wait_heap s3" "ktasks s' = ktasks s3"
      "next_wake_scan s' = deadline (wait_timer_heap s3 ! 0)"
    using run
    by (auto simp: proc_wait_timer_register_def task_get_def Let_def s1_def s2_def s3_def
        sched_rearm_timer_def wait_heap_def not_le split: if_splits)
  then show "d \<noteq> 0" "sq \<noteq> 0" by simp_all
  have w1: "wait_heap s1 = wait_heap s" by (simp add: s1_def wait_heap_upd)
  have w3: "wait_heap s3 = heap_push ?e (wait_heap s)" by (simp add: s3_def s2_def wait_heap_upd w1)
  have free: "snd (wait_heap s) (etask ?e) < 0" using g(3) by simp
  note push = heap_push_correct [OF hok free]
  have h': "wait_timer_heap s' = fst (heap_push ?e (wait_heap s))"
    "wait_timer_heap s3 = fst (heap_push ?e (wait_heap s))"
    using s'(1) w3 fst_wait_heap by metis+
  show set': "set (wait_timer_heap s') = insert ?e (set (wait_timer_heap s))"
    using arg_cong [OF conjunct2 [OF push], of set_mset] by (simp add: h')
  have "size (mset (wait_timer_heap s')) = Suc (size (mset (wait_timer_heap s)))"
    using push by (simp add: h' del: size_mset)
  then have len: "length (wait_timer_heap s') \<le> WAIT_TIMER_HEAP_MAX" using g(4) by simp
  have "wait_timer_heap s' \<noteq> []" using set' by auto
  then have "nws_ok s'" using s'(3) h' by (simp add: nws_ok_def)
  then show "wt_ok s'" using push s'(1) w3 len by (simp add: wt_ok_def)
  have "same_core s s1" "same_core s1 s2" "same_core s2 s3"
    by (simp_all add: s1_def s2_def s3_def same_core_upd kcore_def)
  then have "same_core s s3" using same_core_trans by blast
  then show "same_core s s'" by (simp add: same_core_def s'(2))
  show "\<forall>e\<in>set (wait_timer_heap s). etask e \<noteq> t"
    using heap_ok_index(1) [OF hok, of t] g(3) by auto
qed

subsection \<open>The invariant\<close>

definition waiting :: "ktask \<Rightarrow> bool" where
  "waiting k \<longleftrightarrow> pstate k = PROC_PARK_PREPARING \<or> pstate k = PROC_PARK_PARKED"

definition entry_ok :: "ktask \<Rightarrow> wait_timer \<Rightarrow> bool" where
  "entry_ok k e \<longleftrightarrow> deadline e \<noteq> 0 \<and> eseq e \<noteq> 0 \<and> waiting k \<and> wait_seq k = eseq e \<and>
     wait_deadline k = deadline e"

definition task_ok :: "nat \<Rightarrow> kstate \<Rightarrow> (nat \<times> u64) list \<Rightarrow> bool" where
  "task_ok t s fl \<longleftrightarrow> (let k = ktasks s t in
     (\<forall>e\<in>set (wait_timer_heap s). etask e = t \<longrightarrow> entry_ok k e) \<and>
     (waiting k \<and> wait_deadline k \<noteq> 0 \<longrightarrow>
        (\<exists>e\<in>set (wait_timer_heap s). etask e = t) \<or> (t, wait_seq k) \<in> set fl) \<and>
     (\<not> waiting k \<longrightarrow> wait_deadline k = 0) \<and>
     (pstate k = PROC_PARK_PARKED \<longrightarrow> tstate k = PROC_BLOCKED) \<and>
     (pstate k = PROC_PARK_PREPARING \<longrightarrow> tstate k \<in> {PROC_RUNNING, PROC_READY}) \<and>
     (waiting k \<longrightarrow> wait_seq k \<noteq> 0))"

definition park_inv :: "kstate \<times> (nat \<times> u64) list \<Rightarrow> bool" where
  "park_inv = (\<lambda>(s, fl). wt_ok s \<and> (\<forall>t. task_ok t s fl))"

lemma park_invD: "park_inv (s, fl) \<Longrightarrow> wt_ok s" "park_inv (s, fl) \<Longrightarrow> task_ok t s fl"
  by (simp_all add: park_inv_def)

lemma task_ok_cong:
  assumes ok: "task_ok t s fl" and core: "kcore (ktasks s' t) = kcore (ktasks s t)"
    and heap: "\<And>e. etask e = t \<Longrightarrow> e \<in> set (wait_timer_heap s') \<longleftrightarrow> e \<in> set (wait_timer_heap s)"
    and fl: "\<And>q. (t, q) \<in> set fl \<Longrightarrow> (t, q) \<in> set fl'"
  shows "task_ok t s' fl'"
  using ok heap fl unfolding task_ok_def Let_def waiting_def entry_ok_def kcore_fields [OF core] by blast

lemma park_inv_task:
  assumes inv: "park_inv (s, fl)" and wt: "wt_ok s'"
    and core: "\<And>u. u \<noteq> t \<Longrightarrow> kcore (ktasks s' u) = kcore (ktasks s u)"
    and heap: "\<And>e. etask e \<noteq> t \<Longrightarrow> e \<in> set (wait_timer_heap s') \<longleftrightarrow> e \<in> set (wait_timer_heap s)"
    and fl: "\<And>u q. u \<noteq> t \<Longrightarrow> (u, q) \<in> set fl \<Longrightarrow> (u, q) \<in> set fl'"
    and task: "task_ok t s' fl'"
  shows "park_inv (s', fl')"
proof -
  have "task_ok u s' fl'" for u
    using task task_ok_cong [OF park_invD(2) [OF inv, of u] core heap fl] by (cases "u = t") auto
  then show ?thesis using wt by (simp add: park_inv_def)
qed

lemma park_inv_core:
  assumes "park_inv (s, fl)" "wt_ok s'" "same_core s s'" "wait_timer_heap s' = wait_timer_heap s"
  shows "park_inv (s', fl)"
  using assms task_ok_cong [of _ s fl s' fl] by (auto simp: park_inv_def same_core_def)

text \<open>Ending a wait: the entry is cancelled and the task becomes \<open>WOKEN\<close> or \<open>IDLE\<close>.\<close>

lemma end_wait_inv:
  assumes inv: "park_inv (s, fl)" and sq: "waiting (ktasks s t) \<Longrightarrow> wait_seq (ktasks s t) = sq"
    and f: "\<And>k. \<not> waiting (f k) \<and> wait_deadline (f k) = 0 \<and> wait_timer_index (f k) = wait_timer_index k"
    and s': "wait_heap s' = wait_heap (upd_task t f (proc_wait_timer_cancel t sq s))"
      "next_wake_scan s' = next_wake_scan (proc_wait_timer_cancel t sq s)"
      "\<And>u. u \<noteq> t \<Longrightarrow> kcore (ktasks s' u) = kcore (ktasks (proc_wait_timer_cancel t sq s) u)"
      "kcore (ktasks s' t) = kcore (f (ktasks (proc_wait_timer_cancel t sq s) t))"
  shows "park_inv (s', fl)"
proof -
  define c where "c = proc_wait_timer_cancel t sq s"
  note spec = wait_cancel_spec [OF park_invD(1) [OF inv] c_def]
  have wh: "wait_heap s' = wait_heap c"
    using s'(1) f by (simp add: c_def [symmetric] wait_heap_upd)
  have wt: "wt_ok s'" "wait_timer_heap s' = wait_timer_heap c"
    using wt_ok_cong [OF spec(1) wh] s'(2) by (simp_all add: c_def)
  have none: "e \<notin> set (wait_timer_heap c)" if "etask e = t" for e
    using park_invD(2) [OF inv, of t] sq that by (auto simp: spec(3) task_ok_def entry_ok_def Let_def)
  have k: "\<not> waiting (ktasks s' t)" "wait_deadline (ktasks s' t) = 0"
    using kcore_fields [OF s'(4)] f by (simp_all add: waiting_def)
  show ?thesis
  proof (rule park_inv_task [OF inv wt(1)])
    show "kcore (ktasks s' u) = kcore (ktasks s u)" if "u \<noteq> t" for u
      using s'(3) [OF that] spec(2) by (simp add: c_def [symmetric] same_core_def)
    show "task_ok t s' fl"
      using none k by (auto simp: task_ok_def wt(2) Let_def waiting_def)
  qed (auto simp: wt(2) spec(3))
qed

lemma upd_task_other [simp]: "u \<noteq> t \<Longrightarrow> ktasks (upd_task t f s) u = ktasks s u"
  "ktasks (upd_task t f s) t = f (ktasks s t)"
  by (simp_all add: upd_task_def)

lemma upd_task_scan [simp]: "next_wake_scan (upd_task t f s) = next_wake_scan s"
  by (simp add: upd_task_def)

lemma task_put_scan [simp]: "next_wake_scan (task_put t s) = next_wake_scan s"
  by (simp add: task_put_def)

text \<open>A successful wake names the number of the running wait and ends it.\<close>

lemma try_wake_cases:
  assumes "proc_try_wake_locked_common t sq r s = (b, s')"
  obtains (no) "\<not> b" "s' = s"
  | (yes) "b" "waiting (ktasks s t)" "wait_seq (ktasks s t) = sq"
      "pstate (ktasks s' t) = PROC_PARK_WOKEN" "wake_reason (ktasks s' t) = r"
      "tstate (ktasks s' t) = (if pstate (ktasks s t) = PROC_PARK_PARKED then PROC_READY
        else tstate (ktasks (proc_wait_timer_cancel t sq s) t))"
      "wait_deadline (ktasks s' t) = 0"
      "wait_heap s' = wait_heap (proc_wait_timer_cancel t sq s)"
      "next_wake_scan s' = next_wake_scan (proc_wait_timer_cancel t sq s)"
      "\<And>u. u \<noteq> t \<Longrightarrow> ktasks s' u = ktasks (proc_wait_timer_cancel t sq s) u"
      "wait_seq (ktasks s' t) = wait_seq (ktasks (proc_wait_timer_cancel t sq s) t)"
proof (cases b)
  case False
  then have "s' = s"
    using assms by (auto simp: proc_try_wake_locked_common_def Let_def split: if_splits park_state.splits)
  with False show thesis by (rule no)
next
  case True
  let ?c = "proc_wait_timer_cancel t sq s"
  let ?f = "\<lambda>k. k\<lparr>pstate := PROC_PARK_WOKEN, wake_reason := r, wait_deadline := 0, wake_time := 0\<rparr>"
  let ?g = "\<lambda>k. (?f k)\<lparr>tstate := PROC_READY\<rparr>"
  have w: "waiting (ktasks s t)" "wait_seq (ktasks s t) = sq"
    and s': "s' = (if pstate (ktasks s t) = PROC_PARK_PARKED
        then (upd_task t ?g ?c)\<lparr>sched_log := sched_log (upd_task t ?g ?c) @ [SEnqueue t]\<rparr>
        else upd_task t ?f ?c)"
    using assms True
    by (auto simp: proc_try_wake_locked_common_def Let_def waiting_def split: if_splits park_state.splits)
  have wh: "wait_heap s' = wait_heap ?c"
  proof (rule wait_heap_cong)
    show "wait_timer_heap s' = wait_timer_heap ?c" by (simp add: s')
    show "wait_timer_index (ktasks s' u) = wait_timer_index (ktasks ?c u)" for u
      by (cases "u = t") (simp_all add: s')
  qed
  show thesis
    by (rule yes [OF True w _ _ _ _ wh]) (simp_all add: s')
qed

lemma try_wake_inv:
  assumes inv: "park_inv (s, fl)" and run: "proc_try_wake_locked_common t sq r s = (b, s')"
  shows "park_inv (s', fl)"
  using run
proof (cases rule: try_wake_cases)
  case no
  then show ?thesis using inv by simp
next
  case yes
  let ?f = "\<lambda>k. (ktasks s' t)\<lparr>wait_timer_index := wait_timer_index k\<rparr>"
  show ?thesis
    by (rule end_wait_inv [OF inv, of t sq ?f])
      (use yes in \<open>simp_all add: waiting_def wait_heap_upd kcore_def\<close>)
qed

lemma try_wake_inv_snd:
  "park_inv (s, fl) \<Longrightarrow> park_inv (snd (proc_try_wake_locked_common t sq r s), fl)"
  by (cases "proc_try_wake_locked_common t sq r s") (auto intro: try_wake_inv)

lemma wait_heap_stale: "wait_heap (s\<lparr>wt_stale_expirations := n\<rparr>) = wait_heap s"
  by (simp add: wait_heap_def)

lemma expire_one_inv:
  assumes inv: "park_inv (s, fl)"
  shows "park_inv (expire_one x s, remove1 x fl)"
proof -
  obtain t sq where x: "x = (t, sq)" by force
  obtain b s1 where run: "proc_try_wake_locked_common t sq PROC_WAKE_TIMEOUT s = (b, s1)" by fastforce
  have inv1: "park_inv (s1, fl)" using try_wake_inv [OF inv run] .
  have "wait_heap (expire_one x s) = wait_heap s1" "next_wake_scan (expire_one x s) = next_wake_scan s1"
    by (simp_all add: expire_one_def x run Let_def wait_heap_stale)
  then have wt: "wt_ok (expire_one x s)" "wait_timer_heap (expire_one x s) = wait_timer_heap s1"
    using wt_ok_cong [OF park_invD(1) [OF inv1]] by blast+
  have core: "same_core s1 (expire_one x s)"
    by (simp add: expire_one_def x run Let_def task_put_def same_core_def upd_task_def kcore_def)
  have gone: "\<not> (waiting (ktasks s1 t) \<and> wait_seq (ktasks s1 t) = sq)"
  proof
    assume w: "waiting (ktasks s1 t) \<and> wait_seq (ktasks s1 t) = sq"
    show False
      using run
    proof (cases rule: try_wake_cases)
      case no
      then show False
        using w run park_invD(2) [OF inv, of t]
        by (auto simp: proc_try_wake_locked_common_def Let_def waiting_def task_ok_def
            split: if_splits park_state.splits)
    qed (use w in \<open>simp add: waiting_def\<close>)
  qed
  have "park_inv (s1, remove1 x fl)"
    unfolding park_inv_def prod.case
  proof (intro conjI allI)
    fix u
    show "task_ok u s1 (remove1 x fl)"
    proof (cases "u = t")
      case True
      then show ?thesis
        using park_invD(2) [OF inv1, of t] gone by (auto simp: task_ok_def Let_def x)
    next
      case False
      then show ?thesis
        by (intro task_ok_cong [OF park_invD(2) [OF inv1]]) (auto simp: x)
    qed
  qed (rule park_invD(1) [OF inv1])
  then show ?thesis using park_inv_core [OF _ wt(1) core wt(2)] by blast
qed

lemma park_prepare_inv:
  assumes inv: "park_inv (s, fl)" and run: "proc_park_prepare idle cur mode d s = (tok, s')"
    and alive: "tstate (ktasks s cur) = PROC_RUNNING"
  shows "park_inv (s', fl)"
proof (cases "s' = s")
  case False
  define sq where "sq = (if wait_seq (ktasks s cur) + 1 = 0 then 1 else wait_seq (ktasks s cur) + 1)"
  define s1 where "s1 = upd_task cur (\<lambda>k. k\<lparr>wait_seq := sq, wait_deadline := d, wait_mode := mode,
      wake_reason := PROC_WAKE_NONE, pstate := PROC_PARK_PREPARING\<rparr>) s"
  obtain res s2 where reg: "(if d \<noteq> 0 then proc_wait_timer_register cur d sq s1
      else (PROC_PARK_PREPARE_OK, s1)) = (res, s2)" by fastforce
  let ?idle = "\<lambda>k. k\<lparr>wait_deadline := 0, wake_time := 0, wake_reason := PROC_WAKE_NONE,
      wait_mode := PROC_WAIT_UNINTERRUPTIBLE, pstate := PROC_PARK_IDLE\<rparr>"
  have idle: "pstate (ktasks s cur) = PROC_PARK_IDLE"
    and s': "s' = (if res \<noteq> PROC_PARK_PREPARE_OK then upd_task cur ?idle s2
        else prepare_pending_wake cur mode sq s2)"
    using run False reg
    by (auto simp: proc_park_prepare_def proc_park_prepare_locked_def Let_def sq_def s1_def
        split: if_splits prod.splits)
  have sq0: "sq \<noteq> 0" by (simp add: sq_def)
  have w1: "wait_heap s1 = wait_heap s" "next_wake_scan s1 = next_wake_scan s"
    by (simp_all add: s1_def wait_heap_upd)
  note wt1 = wt_ok_cong [OF park_invD(1) [OF inv] w1]
  have none: "etask e \<noteq> cur" if "e \<in> set (wait_timer_heap s)" for e
    using park_invD(2) [OF inv, of cur] that idle
    by (auto simp: task_ok_def entry_ok_def waiting_def Let_def)
  show ?thesis
  proof (cases "res = PROC_PARK_PREPARE_OK")
    case True
    have s2: "wt_ok s2" "same_core s1 s2" "set (wait_timer_heap s2) = (if d = 0 then set (wait_timer_heap s)
        else insert \<lparr>deadline = d, etask = cur, eseq = sq\<rparr> (set (wait_timer_heap s)))"
      using reg True wt1 wait_register_ok [OF wt1(1)] by (auto split: if_splits)
    have k: "pstate (ktasks s2 cur) = PROC_PARK_PREPARING" "wait_seq (ktasks s2 cur) = sq"
      "wait_deadline (ktasks s2 cur) = d" "tstate (ktasks s2 cur) = PROC_RUNNING"
      using same_core_fields [OF s2(2), of cur] alive by (simp_all add: s1_def)
    have "park_inv (s2, fl)"
    proof (rule park_inv_task [OF inv s2(1)])
      show "kcore (ktasks s2 u) = kcore (ktasks s u)" if "u \<noteq> cur" for u
        using s2(2) that by (simp add: same_core_def s1_def)
      show "task_ok cur s2 fl"
        using k sq0 none by (auto simp: task_ok_def Let_def waiting_def entry_ok_def s2(3))
    qed (auto simp: s2(3))
    then have "park_inv (prepare_pending_wake cur mode sq s2, fl)"
      using try_wake_inv_snd by (simp add: prepare_pending_wake_def Let_def)
    then show ?thesis using True s' by simp
  next
    case fail: False
    have s2: "wt_ok s2" "same_core s1 s2" "wait_timer_heap s2 = wait_timer_heap s"
      using reg fail wt1 wait_register_fail [OF wt1(1)] by (auto split: if_splits)
    have u: "wait_heap (upd_task cur ?idle s2) = wait_heap s2"
      "next_wake_scan (upd_task cur ?idle s2) = next_wake_scan s2" by (simp_all add: wait_heap_upd)
    have "park_inv (upd_task cur ?idle s2, fl)"
    proof (rule park_inv_task [OF inv wt_ok_cong(1) [OF s2(1) u]])
      show "kcore (ktasks (upd_task cur ?idle s2) u) = kcore (ktasks s u)" if "u \<noteq> cur" for u
        using s2(2) that by (simp add: same_core_def s1_def)
      show "task_ok cur (upd_task cur ?idle s2) fl"
        using none by (auto simp: task_ok_def Let_def waiting_def s2(3))
    qed (auto simp: s2(3))
    then show ?thesis using fail s' by simp
  qed
qed (simp add: inv)

lemma park_cancel_inv:
  assumes inv: "park_inv (s, fl)" and run: "proc_park_cancel cur tok s = (r, s')"
  shows "park_inv (s', fl)"
proof (cases "s' = s")
  case False
  let ?f = "\<lambda>k. k\<lparr>wait_deadline := 0, wake_time := 0, wake_reason := PROC_WAKE_CANCEL, pstate := PROC_PARK_WOKEN\<rparr>"
  have "wait_seq (ktasks s cur) = tok_seq tok" "s' = upd_task cur ?f (proc_wait_timer_cancel cur (tok_seq tok) s)"
    using run False by (auto simp: proc_park_cancel_def split: option.splits if_splits)
  then show ?thesis
    by (intro end_wait_inv [OF inv, of cur "tok_seq tok" ?f]) (simp_all add: waiting_def)
qed (simp add: inv)

lemma park_publish_inv:
  assumes inv: "park_inv (s, fl)" and run: "park_publish cur tok s = (r, s')"
  shows "park_inv (s', fl)"
proof (cases "s' = s")
  case False
  let ?f = "\<lambda>k. k\<lparr>pstate := PROC_PARK_PARKED, tstate := PROC_BLOCKED\<rparr>"
  have p: "pstate (ktasks s cur) = PROC_PARK_PREPARING" "s' = upd_task cur ?f s"
    using run False by (auto simp: park_publish_def split: option.splits if_splits)
  then have "wt_ok s'"
    using wt_ok_cong(1) [OF park_invD(1) [OF inv], of s'] by (simp add: wait_heap_upd)
  then show ?thesis
  proof (rule park_inv_task [OF inv, of _ cur])
    show "task_ok cur s' fl"
      using park_invD(2) [OF inv, of cur] p by (auto simp: task_ok_def Let_def waiting_def entry_ok_def)
  qed (auto simp: p)
qed (simp add: inv)

lemma park_finish_inv:
  assumes inv: "park_inv (s, fl)"
  shows "park_inv (proc_park_finish tok s, fl)"
proof (cases "proc_park_finish tok s = s")
  case False
  let ?f = "\<lambda>k. k\<lparr>wait_deadline := 0, wake_time := 0, wait_mode := PROC_WAIT_UNINTERRUPTIBLE,
      wake_reason := PROC_WAKE_NONE, pstate := PROC_PARK_IDLE\<rparr>"
  obtain t where t: "pstate (ktasks s t) = PROC_PARK_WOKEN"
    and s': "proc_park_finish tok s = upd_task t ?f (if wait_timer_index (ktasks s t) \<ge> 0
      then proc_wait_timer_cancel t (tok_seq tok) s else s)"
    using False by (auto simp: proc_park_finish_def Let_def split: option.splits if_splits)
  have "proc_wait_timer_cancel t (tok_seq tok) s = s" if "wait_timer_index (ktasks s t) < 0"
    using that by (simp add: proc_wait_timer_cancel_def Let_def)
  then have "proc_park_finish tok s = upd_task t ?f (proc_wait_timer_cancel t (tok_seq tok) s)"
    using s' by auto
  then show ?thesis
    using t by (intro end_wait_inv [OF inv, of t "tok_seq tok" ?f]) (simp_all add: waiting_def)
qed (simp add: inv)

lemma donate_inv:
  assumes inv: "park_inv (s, fl)" and ready: "donate_ready cpu d s"
  shows "park_inv (donate_handoff now cpu d s, fl)"
proof -
  let ?c = "proc_wait_timer_cancel d (wait_seq (ktasks s d)) s" and ?s' = "donate_handoff now cpu d s"
  let ?f = "\<lambda>k. (ktasks ?s' d)\<lparr>wait_timer_index := wait_timer_index k\<rparr>"
  have d: "pstate (ktasks ?s' d) = PROC_PARK_WOKEN" "wait_deadline (ktasks ?s' d) = 0"
    "wait_timer_index (ktasks ?s' d) = wait_timer_index (ktasks ?c d)"
    "\<And>u. u \<noteq> d \<Longrightarrow> ktasks ?s' u = ktasks ?c u" "wait_timer_heap ?s' = wait_timer_heap ?c"
    "next_wake_scan ?s' = next_wake_scan ?c"
    by (simp_all add: donate_handoff_def Let_def task_get_def)
  have wh: "wait_heap ?s' = wait_heap ?c"
  proof (rule wait_heap_cong)
    show "wait_timer_index (ktasks ?s' u) = wait_timer_index (ktasks ?c u)" for u
      using d(3,4) by (cases "u = d") simp_all
  qed (rule d(5))
  show ?thesis
    by (rule end_wait_inv [OF inv, of d "wait_seq (ktasks s d)" ?f])
      (simp_all add: d wh waiting_def wait_heap_upd kcore_def)
qed

lemma collect_head_inv:
  assumes inv: "park_inv (s, fl)" and i: "0 < length (wait_timer_heap s)"
    and r: "wait_timer_remove_index_locked 0 s = (Some e, s1)"
  shows "park_inv (s1, fl @ [(etask e, eseq e)])"
proof -
  have hok: "heap_ok (wait_heap s)" using park_invD(1) [OF inv] by (simp add: wt_ok_def)
  note rs = wait_remove_spec [OF hok i r]
  have e: "e = wait_timer_heap s ! 0" "e \<in> set (wait_timer_heap s)"
    using rs(1) nth_mem [OF i] by simp_all
  have ok: "task_ok (etask e) s fl" using park_invD(2) [OF inv] .
  then have k: "entry_ok (ktasks s (etask e)) e" using e(2) by (simp add: task_ok_def Let_def)
  have none: "etask x \<noteq> etask e" if "x \<in> set (wait_timer_heap s1)" for x
    using that heap_ok_index(3) [OF hok, of x e] e by (auto simp: rs(3))
  show ?thesis
  proof (rule park_inv_task [OF inv, of _ "etask e"])
    show "wt_ok s1" using rs(2,4,6) park_invD(1) [OF inv] by (simp add: wt_ok_def)
    show "kcore (ktasks s1 u) = kcore (ktasks s u)" for u using rs(5) by (simp add: same_core_def)
    show "task_ok (etask e) s1 (fl @ [(etask e, eseq e)])"
      using ok k none unfolding task_ok_def Let_def waiting_def entry_ok_def
        same_core_fields [OF rs(5)] by simp
  qed (auto simp: rs(3) e(1))
qed

lemma wt_collect_inv:
  assumes "park_inv (s, fl)" "wt_collect now n s = (xs, s')"
  shows "park_inv (s', fl @ xs)"
  using assms
proof (induction "length (wait_timer_heap s)" arbitrary: s n fl xs rule: less_induct)
  case less
  note inv = less.prems(1)
  show ?case
  proof (cases rule: wt_collect_cases [of now n s])
    case stop
    then show ?thesis using less.prems by simp
  next
    case (take e s1 ys s2)
    then have i: "0 < length (wait_timer_heap s)" by simp
    have "park_inv (s1, fl @ [(etask e, eseq e)])" by (rule collect_head_inv [OF inv i take(4)])
    moreover have "length (wait_timer_heap s1) < length (wait_timer_heap s)"
      using wait_timer_remove_length [OF take(4)] i by simp
    moreover have s': "s' = s2" "xs = (etask e, eseq e) # ys" using take(7) less.prems(2) by simp_all
    ultimately have "park_inv (s', (fl @ [(etask e, eseq e)]) @ ys)"
      using less.hyps take(6) by blast
    then show ?thesis by (simp add: s')
  next
    case (drop e s1)
    then have i: "0 < length (wait_timer_heap s)" by simp
    have hok: "heap_ok (wait_heap s)" using park_invD(1) [OF inv] by (simp add: wt_ok_def)
    have "e \<in> set (wait_timer_heap s)"
      using wait_remove_spec(1) [OF hok i drop(4)] nth_mem [OF i] by simp
    then show ?thesis
      using drop(5) park_invD(2) [OF inv, of "etask e"] by (auto simp: task_ok_def entry_ok_def Let_def)
  qed
qed

lemma wait_heap_set_alarm [simp]: "wait_heap (set_alarm_heap q s) = wait_heap s"
  "next_wake_scan (set_alarm_heap q s) = next_wake_scan s"
  by (simp_all add: wait_heap_def set_alarm_heap_def)

lemma alarm_cancel_frame:
  "wait_heap (alarm_timer_cancel_locked t s) = wait_heap s"
  "next_wake_scan (alarm_timer_cancel_locked t s) = next_wake_scan s"
  "same_core s (alarm_timer_cancel_locked t s)"
  by (auto simp: alarm_timer_cancel_locked_def alarm_timer_remove_index_locked_def Let_def
      split: prod.splits option.splits intro: same_core_trans [OF same_core_set_alarm same_core_put])

lemma alarm_arm_frame:
  assumes "(if a = 0 then (a, s) else case task_get t s of
       (True, s') \<Rightarrow> (a, set_alarm_heap (heap_push \<lparr>deadline = a, etask = t\<rparr> (alarm_heap s')) s')
     | (False, s') \<Rightarrow> (0, s')) = (a2, s2)"
  shows "wait_heap s2 = wait_heap s" "next_wake_scan s2 = next_wake_scan s" "same_core s s2"
proof -
  have "same_core s (upd_task t (\<lambda>k. k\<lparr>krefs := krefs k + 1\<rparr>) s)"
    by (simp add: same_core_upd kcore_def)
  then show "wait_heap s2 = wait_heap s" "next_wake_scan s2 = next_wake_scan s" "same_core s s2"
    using assms by (auto simp: task_get_def wait_heap_upd split: if_splits
        intro: same_core_trans [OF _ same_core_set_alarm])
qed

lemma set_alarm_frame:
  "wait_heap (proc_set_alarm_expire t a s) = wait_heap s"
  "next_wake_scan (proc_set_alarm_expire t a s) = next_wake_scan s"
  "same_core s (proc_set_alarm_expire t a s)"
proof -
  define s1 where "s1 = alarm_timer_cancel_locked t s"
  define a1 where "a1 = (if a \<noteq> 0 \<and> length (alarm_timer_heap s1) \<ge> ALARM_TIMER_HEAP_MAX then 0 else a)"
  obtain a2 s2 where arm: "(if a1 = 0 then (a1, s1) else case task_get t s1 of
       (True, s') \<Rightarrow> (a1, set_alarm_heap (heap_push \<lparr>deadline = a1, etask = t\<rparr> (alarm_heap s')) s')
     | (False, s') \<Rightarrow> (0, s')) = (a2, s2)" by fastforce
  define s3 where "s3 = upd_task t (\<lambda>k. k\<lparr>alarm_expire := a2\<rparr>) s2"
  have s': "ktasks (proc_set_alarm_expire t a s) = ktasks s3"
    "wait_timer_heap (proc_set_alarm_expire t a s) = wait_timer_heap s3"
    "next_wake_scan (proc_set_alarm_expire t a s) = next_wake_scan s3"
    unfolding proc_set_alarm_expire_def Let_def s1_def [symmetric] a1_def [symmetric] arm
    by (simp_all add: s3_def [symmetric] sched_rearm_timer_def split: prod.splits)
  have "wait_heap s3 = wait_heap s" "next_wake_scan s3 = next_wake_scan s"
    using alarm_arm_frame(1,2) [OF arm] alarm_cancel_frame(1,2) [of t s]
    by (simp_all add: s3_def wait_heap_upd s1_def)
  then show "wait_heap (proc_set_alarm_expire t a s) = wait_heap s"
    "next_wake_scan (proc_set_alarm_expire t a s) = next_wake_scan s"
    using s' by (simp_all add: wait_heap_def)
  have "same_core s s1" "same_core s1 s2" "same_core s2 s3"
    using alarm_arm_frame(3) [OF arm] alarm_cancel_frame(3) [of s t]
    by (simp_all add: s3_def same_core_upd kcore_def s1_def)
  then have "same_core s s3" using same_core_trans by blast
  then show "same_core s (proc_set_alarm_expire t a s)" by (simp add: same_core_def s'(1))
qed

lemma set_alarm_inv:
  assumes inv: "park_inv (s, fl)"
  shows "park_inv (proc_set_alarm_expire t a s, fl)"
  using park_inv_core [OF inv wt_ok_cong(1) [OF park_invD(1) [OF inv] set_alarm_frame(1,2)] set_alarm_frame(3)]
    wt_ok_cong(2) [OF park_invD(1) [OF inv] set_alarm_frame(1,2)] by blast

lemma schedule_inv:
  assumes inv: "park_inv (s, fl)"
    and parked: "\<And>u. pstate (ktasks s u) = PROC_PARK_PARKED \<Longrightarrow> tstate (f u) = tstate (ktasks s u)"
    and prep: "\<And>u. pstate (ktasks s u) = PROC_PARK_PREPARING \<Longrightarrow> tstate (f u) \<in> {PROC_RUNNING, PROC_READY}"
    and f: "\<And>u. f u = (ktasks s u)\<lparr>tstate := tstate (f u), on_cpu := on_cpu (f u), on_rq := on_rq (f u),
               dispatching := dispatching (f u), cpu_id := cpu_id (f u), owner_cpu := owner_cpu (f u),
               exit_pending := exit_pending (f u), has_fatal_signal := has_fatal_signal (f u),
               has_unblocked_signal := has_unblocked_signal (f u)\<rparr>"
  shows "park_inv (s\<lparr>ktasks := f\<rparr>, fl)"
proof -
  have eq: "pstate (f u) = pstate (ktasks s u)" "wait_seq (f u) = wait_seq (ktasks s u)"
    "wait_deadline (f u) = wait_deadline (ktasks s u)"
    "wait_timer_index (f u) = wait_timer_index (ktasks s u)" for u
    by (subst f, simp)+
  have "wt_ok (s\<lparr>ktasks := f\<rparr>)"
    using park_invD(1) [OF inv] wt_ok_cong(1) [of s "s\<lparr>ktasks := f\<rparr>"] by (simp add: wait_heap_def eq)
  moreover have "task_ok u (s\<lparr>ktasks := f\<rparr>) fl" for u
    using park_invD(2) [OF inv, of u] parked [of u] prep [of u]
    by (simp add: task_ok_def Let_def waiting_def entry_ok_def eq)
  ultimately show ?thesis by (simp add: park_inv_def)
qed

lemma park_step_inv: "park_step idle c c' \<Longrightarrow> park_inv c \<Longrightarrow> park_inv c'"
proof (induction rule: park_step.induct)
  case (prepare cur mode d s tok s' fl)
  then show ?case using park_prepare_inv by blast
next
  case (cancel cur tok s r s' fl)
  then show ?case using park_cancel_inv by blast
next
  case (publish cur tok s r s' fl)
  then show ?case using park_publish_inv by blast
next
  case (finish s fl tok)
  then show ?case using park_finish_inv by blast
next
  case (wake t sq r s b s' fl)
  then show ?case using try_wake_inv by (simp add: proc_try_wake_def)
next
  case (interrupt t r s b s' fl)
  then show ?case using try_wake_inv by (simp add: proc_interrupt_wait_def)
next
  case (donate cpu d s fl now)
  then show ?case using donate_inv by blast
next
  case (collect now s xs s' fl)
  then show ?case using wt_collect_inv by blast
next
  case (deliver x fl s)
  then show ?case using expire_one_inv by blast
next
  case (alarm s fl t a)
  then show ?case using set_alarm_inv by blast
next
  case (schedule s f fl)
  then show ?case using schedule_inv by blast
qed

lemma park_boot_inv: "park_boot s \<Longrightarrow> park_inv (s, [])"
  by (auto simp: park_boot_def park_inv_def wt_ok_def nws_ok_def heap_ok_def ix_ok_def heap_ord_def
      task_ok_def waiting_def Let_def)

lemma park_reachable_inv: "park_reachable idle c \<Longrightarrow> park_inv c"
  by (induction rule: park_reachable.induct) (auto intro: park_boot_inv park_step_inv)

end
