(* ===== verification/Park_Theorems.thy ===== *)
theory Park_Theorems
  imports Park_Safety
begin

text \<open>
  The properties of sleeping, waking and timers: the kernel's check of its timer heap never
  reports anything, no timeout and no wake is lost, a timer scan wakes exactly the tasks whose
  deadline has passed, and the alarm scan returns.
\<close>

subsection \<open>The scan of the wait timers\<close>

text \<open>\<open>timed_out now s s'\<close>: every task is as before, or its wait was due and has timed out.\<close>

definition timed_out_task :: "u64 \<Rightarrow> ktask \<Rightarrow> ktask \<Rightarrow> bool" where
  "timed_out_task now k k' \<longleftrightarrow> waiting k \<and> wait_deadline k \<noteq> 0 \<and> wait_deadline k \<le> now \<and>
     pstate k' = PROC_PARK_WOKEN \<and> wake_reason k' = PROC_WAKE_TIMEOUT \<and>
     tstate k' = (if pstate k = PROC_PARK_PARKED then PROC_READY else tstate k)"

definition timed_out :: "u64 \<Rightarrow> kstate \<Rightarrow> kstate \<Rightarrow> bool" where
  "timed_out now s s' \<longleftrightarrow>
     (\<forall>u. kcore (ktasks s' u) = kcore (ktasks s u) \<or> timed_out_task now (ktasks s u) (ktasks s' u))"

lemma timed_out_task_kcore:
  assumes "kcore b = kcore a" "kcore d = kcore c"
  shows "timed_out_task now b d = timed_out_task now a c"
  using kcore_fields [OF assms(1)] kcore_fields [OF assms(2)]
  by (simp add: timed_out_task_def waiting_def)

lemma timed_out_trans:
  assumes "timed_out now s t" "timed_out now t u"
  shows "timed_out now s u"
  unfolding timed_out_def
proof
  fix x
  have st: "kcore (ktasks t x) = kcore (ktasks s x) \<or> timed_out_task now (ktasks s x) (ktasks t x)"
    and tu: "kcore (ktasks u x) = kcore (ktasks t x) \<or> timed_out_task now (ktasks t x) (ktasks u x)"
    using assms by (simp_all add: timed_out_def)
  show "kcore (ktasks u x) = kcore (ktasks s x) \<or> timed_out_task now (ktasks s x) (ktasks u x)"
  proof (cases "timed_out_task now (ktasks s x) (ktasks t x)")
    case True
    then have "\<not> waiting (ktasks t x)" by (simp add: timed_out_task_def waiting_def)
    then have "kcore (ktasks u x) = kcore (ktasks t x)" using tu by (auto simp: timed_out_task_def)
    then show ?thesis using True timed_out_task_kcore [OF refl] by blast
  next
    case False
    then have "kcore (ktasks t x) = kcore (ktasks s x)" using st by blast
    then show ?thesis using tu timed_out_task_kcore [OF _ refl] by metis
  qed
qed

lemma timed_out_same: "same_core s s' \<Longrightarrow> timed_out now s s'"
  by (simp add: timed_out_def same_core_def)

text \<open>The collected entries are those of due waits.\<close>

definition due :: "u64 \<Rightarrow> kstate \<Rightarrow> nat \<times> u64 \<Rightarrow> bool" where
  "due now s x \<longleftrightarrow> (waiting (ktasks s (fst x)) \<and> wait_seq (ktasks s (fst x)) = snd x \<longrightarrow>
     wait_deadline (ktasks s (fst x)) \<noteq> 0 \<and> wait_deadline (ktasks s (fst x)) \<le> now)"

lemma due_timed_out:
  assumes "due now s x" "timed_out now s s'"
  shows "due now s' x"
proof -
  have "kcore (ktasks s' (fst x)) = kcore (ktasks s (fst x)) \<or>
      timed_out_task now (ktasks s (fst x)) (ktasks s' (fst x))"
    using assms(2) by (simp add: timed_out_def)
  then show ?thesis
  proof
    assume "kcore (ktasks s' (fst x)) = kcore (ktasks s (fst x))"
    from kcore_fields [OF this] show ?thesis using assms(1) by (simp add: due_def waiting_def)
  qed (simp add: due_def timed_out_task_def waiting_def)
qed

lemma wt_collect_spec:
  assumes "park_inv (s, fl)" "wt_collect now n s = (xs, s')"
  shows "same_core s s' \<and> (\<forall>x\<in>set xs. due now s x) \<and> length xs \<le> WAIT_EXPIRE_BATCH - n \<and>
    (n + length xs < WAIT_EXPIRE_BATCH \<longrightarrow> (\<forall>e\<in>set (wait_timer_heap s'). now < deadline e))"
  using assms
proof (induction "length (wait_timer_heap s)" arbitrary: s n fl xs rule: less_induct)
  case less
  note inv = less.prems(1)
  have hok: "heap_ok (wait_heap s)" using park_invD(1) [OF inv] by (simp add: wt_ok_def)
  show ?case
  proof (cases rule: wt_collect_cases [of now n s])
    case stop
    have "now < deadline e" if "e \<in> set (wait_timer_heap s)" "n < WAIT_EXPIRE_BATCH" for e
      using stop(2) that wheap.root_min [OF hok, of e] by (auto dest: less_le_trans)
    then show ?thesis using stop less.prems by auto
  next
    case (take e s1 ys s2)
    then have i: "0 < length (wait_timer_heap s)" by simp
    note rs = wait_remove_spec [OF hok i take(4)]
    have e: "e = wait_timer_heap s ! 0" "e \<in> set (wait_timer_heap s)"
      using rs(1) nth_mem [OF i] by simp_all
    have eok: "entry_ok (ktasks s (etask e)) e"
      using park_invD(2) [OF inv, of "etask e"] e(2) by (simp add: task_ok_def Let_def)
    have s': "s' = s2" "xs = (etask e, eseq e) # ys" using take(7) less.prems(2) by simp_all
    have len: "length (wait_timer_heap s1) < length (wait_timer_heap s)"
      using wait_timer_remove_length [OF take(4)] i by simp
    have inv1: "park_inv (s1, fl @ [(etask e, eseq e)])"
      using collect_head_inv [OF inv i take(4)] .
    have IH: "same_core s1 s'" "\<forall>x\<in>set ys. due now s1 x" "length ys \<le> WAIT_EXPIRE_BATCH - (n + 1)"
      "n + 1 + length ys < WAIT_EXPIRE_BATCH \<longrightarrow> (\<forall>e\<in>set (wait_timer_heap s'). now < deadline e)"
      using less.hyps [OF len inv1] take(6) s'(1) by blast+
    have "due now s x" if "x \<in> set ys" for x
      using IH(2) that same_core_fields [OF rs(5), of "fst x"] by (auto simp: due_def waiting_def)
    moreover have "due now s (etask e, eseq e)"
      using eok take(2) e(1) by (simp add: due_def entry_ok_def)
    ultimately show ?thesis
      using IH(1,3,4) same_core_trans [OF rs(5)] take(3) by (auto simp: s'(2))
  next
    case (drop e s1)
    then have i: "0 < length (wait_timer_heap s)" by simp
    have "e \<in> set (wait_timer_heap s)"
      using wait_remove_spec(1) [OF hok i drop(4)] nth_mem [OF i] by simp
    then show ?thesis
      using drop(5) park_invD(2) [OF inv, of "etask e"] by (auto simp: task_ok_def entry_ok_def Let_def)
  qed
qed

lemma expire_one_timed_out:
  assumes wt: "wt_ok s" and due: "due now s x"
  shows "timed_out now s (expire_one x s)"
proof -
  obtain t sq where x: "x = (t, sq)" by force
  obtain b s1 where run: "proc_try_wake_locked_common t sq PROC_WAKE_TIMEOUT s = (b, s1)" by fastforce
  have core: "same_core s1 (expire_one x s)"
    by (simp add: expire_one_def x run Let_def task_put_def same_core_def upd_task_def kcore_def)
  have "timed_out now s s1"
    using run
  proof (cases rule: try_wake_cases)
    case no
    then show ?thesis by (simp add: timed_out_same)
  next
    case yes
    note c = wait_cancel_spec(2) [OF wt refl, of t sq]
    have "timed_out_task now (ktasks s t) (ktasks s1 t)"
      using yes due same_core_fields(2) [OF c, of t] by (simp add: timed_out_task_def due_def x)
    moreover have "kcore (ktasks s1 u) = kcore (ktasks s u)" if "u \<noteq> t" for u
      using yes(10) [OF that] c by (simp add: same_core_def)
    ultimately show ?thesis unfolding timed_out_def by metis
  qed
  then show ?thesis using timed_out_trans timed_out_same [OF core] by blast
qed

lemma expire_head_inv: "park_inv (s, x # xs) \<Longrightarrow> park_inv (expire_one x s, xs)"
  using expire_one_inv [of s "x # xs" x] by simp

lemma fold_expire_inv:
  "park_inv (s, xs) \<Longrightarrow> park_inv (fold expire_one xs s, [])"
  by (induction xs arbitrary: s) (simp_all add: expire_head_inv)

lemma fold_expire_timed_out:
  assumes "park_inv (s, xs)" "\<forall>x\<in>set xs. due now s x"
  shows "timed_out now s (fold expire_one xs s)"
  using assms
proof (induction xs arbitrary: s)
  case (Cons x xs)
  have t1: "timed_out now s (expire_one x s)"
    using expire_one_timed_out [OF park_invD(1) [OF Cons.prems(1)]] Cons.prems(2) by simp
  then have "\<forall>y\<in>set xs. due now (expire_one x s) y" using Cons.prems(2) due_timed_out by auto
  moreover have "park_inv (expire_one x s, xs)" using expire_head_inv [OF Cons.prems(1)] .
  ultimately show ?case using Cons.IH timed_out_trans [OF t1] by simp
qed (simp add: timed_out_same)

lemma fold_expire_heap:
  "park_inv (s, xs) \<Longrightarrow> set (wait_timer_heap (fold expire_one xs s)) \<subseteq> set (wait_timer_heap s)"
proof (induction xs arbitrary: s)
  case (Cons x xs)
  obtain t sq where x: "x = (t, sq)" by force
  obtain b s1 where run: "proc_try_wake_locked_common t sq PROC_WAKE_TIMEOUT s = (b, s1)" by fastforce
  have "set (wait_timer_heap s1) \<subseteq> set (wait_timer_heap s)"
    using run
  proof (cases rule: try_wake_cases)
    case yes
    then have "wait_timer_heap s1 = wait_timer_heap (proc_wait_timer_cancel t sq s)"
      by (metis fst_wait_heap)
    then show ?thesis using wait_cancel_spec(3) [OF park_invD(1) [OF Cons.prems] refl, of t sq] by auto
  qed simp
  moreover have "wait_timer_heap (expire_one x s) = wait_timer_heap s1"
    by (simp add: expire_one_def x run Let_def)
  moreover have "park_inv (expire_one x s, xs)" using expire_head_inv [OF Cons.prems] .
  ultimately show ?case using Cons.IH [of "expire_one x s"] by auto
qed simp

lemma expire_wait_timers_spec:
  assumes "park_inv (s, [])"
  shows "park_inv (proc_sched_expire_wait_timers now s, []) \<and>
    timed_out now s (proc_sched_expire_wait_timers now s) \<and>
    (\<forall>e\<in>set (wait_timer_heap (proc_sched_expire_wait_timers now s)). now < deadline e)"
  using assms
proof (induction now s rule: proc_sched_expire_wait_timers.induct)
  case (1 now s)
  obtain xs s1 where c: "wt_collect now 0 s = (xs, s1)" by fastforce
  let ?s2 = "fold expire_one xs s1"
  have inv1: "park_inv (s1, xs)" using wt_collect_inv [OF "1.prems" c] by simp
  note spec = wt_collect_spec [OF "1.prems" c]
  have "\<forall>x\<in>set xs. due now s1 x"
    using spec due_timed_out timed_out_same by blast
  then have to: "timed_out now s ?s2"
    using spec fold_expire_timed_out [OF inv1] timed_out_trans timed_out_same by blast
  note inv2 = fold_expire_inv [OF inv1]
  show ?case
  proof (cases "length xs = WAIT_EXPIRE_BATCH")
    case True
    then have eq: "proc_sched_expire_wait_timers now s = proc_sched_expire_wait_timers now ?s2"
      by (subst proc_sched_expire_wait_timers.simps) (simp add: c)
    show ?thesis
      using "1.IH" [OF c [symmetric] refl refl True inv2] timed_out_trans [OF to] by (simp add: eq)
  next
    case False
    then have eq: "proc_sched_expire_wait_timers now s = ?s2"
      by (subst proc_sched_expire_wait_timers.simps) (simp add: c)
    have "length xs < WAIT_EXPIRE_BATCH" using False spec by auto
    then have "\<forall>e\<in>set (wait_timer_heap ?s2). now < deadline e"
      using spec fold_expire_heap [OF inv1] by auto
    then show ?thesis using to inv2 by (simp add: eq)
  qed
qed

lemma violations_zero:
  assumes "park_inv (s, fl)"
  shows "proc_wait_timer_violations_locked s = 0"
proof -
  have wt: "wt_ok s" using park_invD(1) [OF assms] .
  have "wt_entry_violations s i = 0" if i: "i < length (wait_timer_heap s)" for i
  proof -
    let ?e = "wait_timer_heap s ! i"
    have "entry_ok (ktasks s (etask ?e)) ?e"
      using park_invD(2) [OF assms, of "etask ?e"] nth_mem [OF i] by (simp add: task_ok_def Let_def)
    moreover have "wait_timer_index (ktasks s (etask ?e)) = int i"
      using wt i by (auto simp: wt_ok_def heap_ok_def ix_ok_def)
    moreover have "0 < i \<Longrightarrow> dl (wait_timer_heap s) (par i) \<le> deadline ?e"
      using wt i by (auto simp: wt_ok_def heap_ok_def heap_ord_def)
    ultimately show ?thesis by (auto simp: wt_entry_violations_def entry_ok_def Let_def par_def not_less)
  qed
  then show ?thesis using wt by (simp add: proc_wait_timer_violations_locked_def wt_ok_def)
qed

subsection \<open>The wakes of one wait\<close>

text \<open>The reasons a wait admits, and the wake that is already pending when it is prepared.\<close>

definition reason_admitted :: "wait_mode \<Rightarrow> wake_reason \<Rightarrow> bool" where
  "reason_admitted mode r \<longleftrightarrow> (r = PROC_WAKE_SIGNAL \<longrightarrow> mode = PROC_WAIT_INTERRUPTIBLE) \<and>
     (r = PROC_WAKE_FATAL_SIGNAL \<or> r = PROC_WAKE_TASK_EXIT \<longrightarrow> mode \<noteq> PROC_WAIT_UNINTERRUPTIBLE)"

definition pending_reasons :: "wait_mode \<Rightarrow> ktask \<Rightarrow> wake_reason list" where
  "pending_reasons mode k =
     (if mode = PROC_WAIT_UNINTERRUPTIBLE then []
      else if exit_pending k then [PROC_WAKE_TASK_EXIT]
      else if has_fatal_signal k then [PROC_WAKE_FATAL_SIGNAL]
      else if mode = PROC_WAIT_INTERRUPTIBLE \<and> has_unblocked_signal k then [PROC_WAKE_SIGNAL]
      else [])"

text \<open>
  The steps the system can take while the task \<open>t\<close> has a wait open, with the reasons of the
  wakes \<open>t\<close> accepts: every step of the park protocol except the prepare, cancel and finish of
  \<open>t\<close> itself.
\<close>

inductive wait_step :: "nat \<Rightarrow> nat \<Rightarrow> kstate \<times> (nat \<times> u64) list \<Rightarrow> wake_reason list \<Rightarrow>
    kstate \<times> (nat \<times> u64) list \<Rightarrow> bool" for idle t :: nat where
  w_prepare: "proc_park_prepare idle cur mode d s = (tok, s') \<Longrightarrow> tstate (ktasks s cur) = PROC_RUNNING \<Longrightarrow>
    cur \<noteq> t \<Longrightarrow> wait_step idle t (s, fl) [] (s', fl)"
| w_cancel: "proc_park_cancel cur tok s = (r, s') \<Longrightarrow> cur \<noteq> t \<Longrightarrow> wait_step idle t (s, fl) [] (s', fl)"
| w_publish: "park_publish cur tok s = (r, s') \<Longrightarrow> wait_step idle t (s, fl) [] (s', fl)"
| w_finish: "tok_task tok \<noteq> Some t \<Longrightarrow> wait_step idle t (s, fl) [] (proc_park_finish tok s, fl)"
| w_wake: "proc_try_wake u sq r s = (b, s') \<Longrightarrow>
    wait_step idle t (s, fl) (if b \<and> u = t then [r] else []) (s', fl)"
| w_interrupt: "proc_interrupt_wait u r s = (b, s') \<Longrightarrow>
    wait_step idle t (s, fl) (if b \<and> u = t then [r] else []) (s', fl)"
| w_donate: "donate_ready cpu u s \<Longrightarrow>
    wait_step idle t (s, fl) (if u = t then [PROC_WAKE_EVENT] else []) (donate_handoff now cpu u s, fl)"
| w_collect: "wt_collect now 0 s = (xs, s') \<Longrightarrow> wait_step idle t (s, fl) [] (s', fl @ xs)"
| w_deliver: "(u, sq) \<in> set fl \<Longrightarrow> proc_try_wake_locked_common u sq PROC_WAKE_TIMEOUT s = (b, s') \<Longrightarrow>
    wait_step idle t (s, fl) (if b \<and> u = t then [PROC_WAKE_TIMEOUT] else [])
      (expire_one (u, sq) s, remove1 (u, sq) fl)"
| w_alarm: "wait_step idle t (s, fl) [] (proc_set_alarm_expire u a s, fl)"
| w_schedule: "(\<And>u. pstate (ktasks s u) = PROC_PARK_PARKED \<Longrightarrow> tstate (f u) = tstate (ktasks s u)) \<Longrightarrow>
    (\<And>u. pstate (ktasks s u) = PROC_PARK_PREPARING \<Longrightarrow> tstate (f u) \<in> {PROC_RUNNING, PROC_READY}) \<Longrightarrow>
    (\<And>u. f u = (ktasks s u)\<lparr>tstate := tstate (f u), on_cpu := on_cpu (f u), on_rq := on_rq (f u),
               dispatching := dispatching (f u), cpu_id := cpu_id (f u), owner_cpu := owner_cpu (f u),
               exit_pending := exit_pending (f u), has_fatal_signal := has_fatal_signal (f u),
               has_unblocked_signal := has_unblocked_signal (f u)\<rparr>) \<Longrightarrow>
    wait_step idle t (s, fl) [] (s\<lparr>ktasks := f\<rparr>, fl)"

inductive wait_run :: "nat \<Rightarrow> nat \<Rightarrow> kstate \<times> (nat \<times> u64) list \<Rightarrow> wake_reason list \<Rightarrow>
    kstate \<times> (nat \<times> u64) list \<Rightarrow> bool" for idle t :: nat where
  none: "wait_run idle t c [] c"
| more: "wait_run idle t c rs c1 \<Longrightarrow> wait_step idle t c1 l c2 \<Longrightarrow> wait_run idle t c (rs @ l) c2"

lemma wait_step_park: "wait_step idle t c l c' \<Longrightarrow> park_step idle c c'"
  by (induction rule: wait_step.induct) (auto intro: park_step.intros)

text \<open>What a wait has recorded: no wake, or one and its reason.\<close>

definition recorded :: "nat \<Rightarrow> wait_mode \<Rightarrow> u64 \<Rightarrow> wake_reason list \<Rightarrow> kstate \<Rightarrow> bool" where
  "recorded t mode sq rs s \<longleftrightarrow> wait_seq (ktasks s t) = sq \<and>
     (rs = [] \<and> waiting (ktasks s t) \<and> wait_mode (ktasks s t) = mode \<or>
      (\<exists>r. rs = [r] \<and> pstate (ktasks s t) = PROC_PARK_WOKEN \<and> wake_reason (ktasks s t) = r))"

lemma recorded_core:
  assumes "kcore (ktasks s' t) = kcore (ktasks s t)" "recorded t mode sq rs s"
  shows "recorded t mode sq rs s'"
  using assms(2) kcore_fields [OF assms(1)] by (simp add: recorded_def waiting_def)

lemma try_wake_accepts:
  "fst (proc_try_wake_locked_common t q r s) \<longleftrightarrow> q \<noteq> 0 \<and> wait_seq (ktasks s t) = q \<and>
     tstate (ktasks s t) \<noteq> PROC_UNUSED \<and> tstate (ktasks s t) \<noteq> PROC_ZOMBIE \<and>
     reason_admitted (wait_mode (ktasks s t)) r \<and> waiting (ktasks s t)"
  by (auto simp: proc_try_wake_locked_common_def reason_admitted_def waiting_def Let_def split: park_state.splits)

lemma timer_cancel_core: "same_core s (proc_wait_timer_cancel t sq s)"
  by (auto simp: proc_wait_timer_cancel_def Let_def wait_timer_remove_index_locked_def
      same_core_def set_wait_heap_def task_put_def upd_task_def kcore_def
      split: prod.splits option.splits)

lemma timer_register_core: "same_core s (snd (proc_wait_timer_register t d sq s))"
  by (auto simp: proc_wait_timer_register_def task_get_def Let_def same_core_def set_wait_heap_def
      upd_task_def kcore_def sched_rearm_timer_def split: prod.splits)

lemma try_wake_recorded:
  assumes run: "proc_try_wake_locked_common u q r s = (b, s')" and rec: "recorded t mode sq rs s"
  shows "recorded t mode sq (rs @ (if b \<and> u = t then [r] else [])) s'"
  using run
proof (cases rule: try_wake_cases)
  case no
  then show ?thesis using rec by simp
next
  case yes
  show ?thesis
  proof (cases "u = t")
    case True
    then have "rs = []" "wait_seq (ktasks s' t) = sq"
      using yes(2,11) rec same_core_fields(3) [OF timer_cancel_core, of t q s t]
      by (auto simp: recorded_def Let_def waiting_def)
    then show ?thesis using yes(1,4,5) True by (simp add: recorded_def)
  next
    case False
    then have "kcore (ktasks s' t) = kcore (ktasks s t)"
      using yes(10) [of t] timer_cancel_core [of s u q] by (simp add: same_core_def)
    then show ?thesis using recorded_core [OF _ rec] False by simp
  qed
qed

lemma donate_recorded:
  assumes ready: "donate_ready cpu u s" and rec: "recorded t mode sq rs s"
  shows "recorded t mode sq (rs @ (if u = t then [PROC_WAKE_EVENT] else [])) (donate_handoff now cpu u s)"
proof -
  have core: "kcore (ktasks (proc_wait_timer_cancel u (wait_seq (ktasks s u)) s) t) = kcore (ktasks s t)"
    using timer_cancel_core by (simp add: same_core_def)
  show ?thesis
  proof (cases "u = t")
    case True
    then have "rs = []" using ready rec by (auto simp: donate_ready_def recorded_def Let_def)
    then show ?thesis
      using True rec kcore_fields(3) [OF core]
      by (auto simp: recorded_def Let_def donate_handoff_def task_get_def)
  next
    case False
    then have "kcore (ktasks (donate_handoff now cpu u s) t) = kcore (ktasks s t)"
      using core by (auto simp: donate_handoff_def task_get_def Let_def)
    then show ?thesis using recorded_core [OF _ rec] False by simp
  qed
qed

text \<open>The operations of another task leave this one alone.\<close>

lemma prepare_other:
  assumes "proc_park_prepare idle cur mode d s = (tok, s')" "cur \<noteq> t"
  shows "kcore (ktasks s' t) = kcore (ktasks s t)"
proof -
  have wake: "kcore (ktasks (snd (proc_try_wake_locked_common cur q r u)) t) = kcore (ktasks u t)" for q r u
    using assms(2) timer_cancel_core [of u cur q]
    by (auto simp: proc_try_wake_locked_common_def Let_def same_core_def split: park_state.splits)
  have reg: "kcore (ktasks u' t) = kcore (ktasks u t)"
    if "proc_wait_timer_register cur d q u = (res, u')" for q u res u'
    using timer_register_core [of u cur d q] that by (simp add: same_core_def)
  show ?thesis
    using assms
    by (auto simp: proc_park_prepare_def proc_park_prepare_locked_def Let_def prepare_pending_wake_def wake
        split: if_splits prod.splits dest!: reg)
qed

lemma cancel_other:
  "proc_park_cancel cur tok s = (r, s') \<Longrightarrow> cur \<noteq> t \<Longrightarrow> kcore (ktasks s' t) = kcore (ktasks s t)"
  using timer_cancel_core by (auto simp: proc_park_cancel_def same_core_def split: option.splits if_splits)

lemma finish_other:
  "tok_task tok \<noteq> Some t \<Longrightarrow> kcore (ktasks (proc_park_finish tok s) t) = kcore (ktasks s t)"
  using timer_cancel_core by (auto simp: proc_park_finish_def Let_def same_core_def split: option.splits)

lemma publish_recorded:
  assumes "park_publish cur tok s = (r, s')" "recorded t mode sq rs s"
  shows "recorded t mode sq rs s'"
proof -
  have "s' = s \<or> pstate (ktasks s cur) = PROC_PARK_PREPARING \<and>
      s' = upd_task cur (\<lambda>k. k\<lparr>pstate := PROC_PARK_PARKED, tstate := PROC_BLOCKED\<rparr>) s"
    using assms(1) by (auto simp: park_publish_def split: option.splits if_splits)
  then show ?thesis
    using assms(2) by (cases "cur = t") (auto simp: recorded_def waiting_def Let_def)
qed

lemma wait_step_recorded:
  assumes "wait_step idle t c l c'" "park_inv c" "recorded t mode sq rs (fst c)"
  shows "recorded t mode sq (rs @ l) (fst c')"
  using assms
proof (cases rule: wait_step.cases)
  case (w_collect now s xs s' fl)
  then have "same_core s s'" using wt_collect_spec assms(2) by blast
  then show ?thesis using recorded_core [OF _ assms(3), of s'] w_collect by (simp add: same_core_def)
next
  case (w_deliver u q fl s b s')
  have "same_core s' (expire_one (u, q) s)"
    using w_deliver(5) by (simp add: expire_one_def Let_def same_core_def task_put_def upd_task_def kcore_def)
  then show ?thesis
    using recorded_core [OF _ try_wake_recorded [OF w_deliver(5)]] w_deliver(1-3) assms(3)
    by (simp add: same_core_def)
next
  case (w_alarm s fl u a)
  then show ?thesis
    using recorded_core [OF _ assms(3), of "proc_set_alarm_expire u a s"] set_alarm_frame(3) [of s u a]
    by (simp add: same_core_def)
next
  case (w_schedule s f fl)
  have "wait_seq (f t) = wait_seq (ktasks s t)" "pstate (f t) = pstate (ktasks s t)"
    "wake_reason (f t) = wake_reason (ktasks s t)" "wait_mode (f t) = wait_mode (ktasks s t)"
    by (subst w_schedule(6), simp)+
  then show ?thesis using assms(3) w_schedule(1-3) by (simp add: recorded_def waiting_def)
next
  case (w_prepare cur md d s tok s' fl)
  then show ?thesis using recorded_core [OF prepare_other [OF w_prepare(4,6)]] assms(3) by simp
next
  case (w_cancel cur tok s r s' fl)
  then show ?thesis using recorded_core [OF cancel_other [OF w_cancel(4,5)]] assms(3) by simp
next
  case (w_finish tok s fl)
  then show ?thesis using recorded_core [OF finish_other [OF w_finish(4)]] assms(3) by simp
next
  case (w_publish cur tok s r s' fl)
  then show ?thesis using publish_recorded assms(3) by simp
next
  case (w_wake u q r s b s' fl)
  then show ?thesis using try_wake_recorded assms(3) by (simp add: proc_try_wake_def)
next
  case (w_interrupt u r s b s' fl)
  then show ?thesis using try_wake_recorded assms(3) by (simp add: proc_interrupt_wait_def)
next
  case (w_donate cpu u s fl now)
  then show ?thesis using donate_recorded assms(3) by simp
qed

lemma wait_run_recorded:
  assumes "wait_run idle t c rs c'" "park_inv c" "recorded t mode sq rs0 (fst c)"
  shows "park_inv c' \<and> recorded t mode sq (rs0 @ rs) (fst c')"
  using assms
proof (induction rule: wait_run.induct)
  case (more c rs c1 l c2)
  then have i: "park_inv c1" "recorded t mode sq (rs0 @ rs) (fst c1)" by blast+
  show ?case
    using park_step_inv [OF wait_step_park [OF more.hyps(2)] i(1)] wait_step_recorded [OF more.hyps(2) i] by simp
qed simp

lemma prepare_records:
  assumes alive: "tstate (ktasks s t) = PROC_RUNNING"
    and run: "proc_park_prepare idle t mode d s = (tok, s')" and tok: "tok_task tok \<noteq> None"
  shows "tok_task tok = Some t" "tok_seq tok \<noteq> 0"
    "recorded t mode (tok_seq tok) (pending_reasons mode (ktasks s t)) s'"
proof -
  define q where "q = (if wait_seq (ktasks s t) + 1 = 0 then 1 else wait_seq (ktasks s t) + 1)"
  define s1 where "s1 = upd_task t (\<lambda>k. k\<lparr>wait_seq := q, wait_deadline := d, wait_mode := mode,
      wake_reason := PROC_WAKE_NONE, pstate := PROC_PARK_PREPARING\<rparr>) s"
  define s2 where "s2 = snd (if d \<noteq> 0 then proc_wait_timer_register t d q s1 else (PROC_PARK_PREPARE_OK, s1))"
  have tk: "tok = \<lparr>tok_task = Some t, tok_seq = q, tok_error = PROC_PARK_PREPARE_OK\<rparr>"
    "s' = prepare_pending_wake t mode q s2"
    using run tok
    by (auto simp: proc_park_prepare_def proc_park_prepare_locked_def Let_def q_def s1_def s2_def
        proc_wait_token_none_def split: if_splits prod.splits)
  have q: "q \<noteq> 0" by (simp add: q_def)
  then show "tok_task tok = Some t" "tok_seq tok \<noteq> 0" by (simp_all add: tk(1))
  have core: "kcore (ktasks s2 t) = kcore (ktasks s1 t)"
    using timer_register_core [of s1 t d q] by (simp add: s2_def same_core_def)
  note f = kcore_fields [OF core]
  have p: "exit_pending (ktasks s2 t) = exit_pending (ktasks s t)"
    "has_fatal_signal (ktasks s2 t) = has_fatal_signal (ktasks s t)"
    "has_unblocked_signal (ktasks s2 t) = has_unblocked_signal (ktasks s t)"
    using core [THEN arg_cong, of exit_pending] core [THEN arg_cong, of has_fatal_signal]
      core [THEN arg_cong, of has_unblocked_signal] by (simp_all add: kcore_def s1_def)
  have rec: "recorded t mode q [] s2" using f by (simp add: recorded_def waiting_def s1_def)
  have wake: "recorded t mode q [r] (snd (proc_try_wake_locked_common t q r s2))"
    if "reason_admitted mode r" for r
  proof -
    have "fst (proc_try_wake_locked_common t q r s2)"
      using that f alive q by (simp add: try_wake_accepts waiting_def s1_def)
    then show ?thesis using try_wake_recorded [OF surjective_pairing rec, of t q r] by simp
  qed
  show "recorded t mode (tok_seq tok) (pending_reasons mode (ktasks s t)) s'"
    using rec wake
    by (cases mode) (simp_all add: tk prepare_pending_wake_def pending_reasons_def Let_def p reason_admitted_def)
qed

subsection \<open>A concrete run for the witnesses\<close>

definition demo_task :: ktask where
  "demo_task = \<lparr>tstate = PROC_RUNNING, pstate = PROC_PARK_IDLE, wait_seq = 0,
     wait_mode = PROC_WAIT_UNINTERRUPTIBLE, wake_reason = PROC_WAKE_NONE, wait_deadline = 0,
     wake_time = 0, wait_timer_index = - 1, alarm_timer_index = - 1, alarm_expire = 0,
     itimer_real_interval = 0, krefs = 1, exit_pending = False, has_fatal_signal = False,
     has_unblocked_signal = False, on_cpu = True, on_rq = False, dispatching = False, cpu_id = 0,
     owner_cpu = 0, exec_start = 0, eevdf_last_account = 0\<rparr>"

definition demo_kernel :: kstate where
  "demo_kernel = \<lparr>ktasks = (\<lambda>_. demo_task), wait_timer_heap = [], alarm_timer_heap = [],
     next_wake_scan = SCHED_NO_DEADLINE, next_alarm_scan = SCHED_NO_DEADLINE,
     next_posix_scan = SCHED_NO_DEADLINE, wt_full_failures = 0, wt_duplicate_rejections = 0,
     wt_stale_expirations = 0, sched_log = []\<rparr>"

definition demo_token :: wait_token where
  "demo_token = \<lparr>tok_task = Some 3, tok_seq = 1, tok_error = PROC_PARK_PREPARE_OK\<rparr>"

definition demo_prepared :: kstate where
  "demo_prepared = snd (proc_park_prepare 0 3 PROC_WAIT_INTERRUPTIBLE 50 demo_kernel)"

definition demo_parked :: kstate where
  "demo_parked = snd (park_publish 3 demo_token demo_prepared)"

lemma demo_prepared_eq:
  "ktasks demo_prepared 3 = demo_task\<lparr>wait_seq := 1, wait_deadline := 50, wait_mode := PROC_WAIT_INTERRUPTIBLE,
     pstate := PROC_PARK_PREPARING, wait_timer_index := 0, wake_time := 50, krefs := 2\<rparr>"
  "wait_timer_heap demo_prepared = [\<lparr>deadline = 50, etask = 3, eseq = 1\<rparr>]"
  by (simp_all add: demo_prepared_def proc_park_prepare_def proc_park_prepare_locked_def demo_kernel_def
      demo_task_def proc_wait_timer_register_def task_get_def WAIT_TIMER_HEAP_MAX_def upd_task_def
      set_wait_heap_def wait_heap_def heap_push_def heap_sift_up.simps prepare_pending_wake_def
      sched_rearm_timer_def SCHED_NO_DEADLINE_def Let_def)

lemma demo_parked_eq:
  "ktasks demo_parked 3 = (ktasks demo_prepared 3)\<lparr>pstate := PROC_PARK_PARKED, tstate := PROC_BLOCKED\<rparr>"
  "wait_timer_heap demo_parked = [\<lparr>deadline = 50, etask = 3, eseq = 1\<rparr>]"
  using demo_prepared_eq by (simp_all add: demo_parked_def park_publish_def demo_token_def)

lemma demo_park_reachable: "park_reachable 0 (demo_prepared, [])" "park_reachable 0 (demo_parked, [])"
proof -
  have r0: "park_reachable 0 (demo_kernel, [])"
    by (rule boot) (simp add: park_boot_def demo_kernel_def demo_task_def)
  have "park_step 0 (demo_kernel, []) (demo_prepared, [])"
    by (rule prepare [of 0 3 PROC_WAIT_INTERRUPTIBLE 50 demo_kernel
          "fst (proc_park_prepare 0 3 PROC_WAIT_INTERRUPTIBLE 50 demo_kernel)"])
      (simp_all add: demo_prepared_def demo_kernel_def demo_task_def)
  from step [OF r0 this] show r1: "park_reachable 0 (demo_prepared, [])" .
  have "park_step 0 (demo_prepared, []) (demo_parked, [])"
    by (rule publish [of 3 demo_token demo_prepared "fst (park_publish 3 demo_token demo_prepared)"])
      (simp add: demo_parked_def)
  from step [OF r1 this] show "park_reachable 0 (demo_parked, [])" .
qed

subsection \<open>The properties\<close>

text \<open>
  C10.  In every state the park protocol can reach, under any interleaving of waits, wakes and
  timer scans, the kernel's own check of the wait-timer heap counts no violation: entries are
  in heap order, point back from their tasks, and carry the number and deadline of the wait
  that is running.
\<close>

theorem wait_timer_check_clean:
  assumes "park_reachable idle (s, fl)"
  shows "proc_wait_timer_violations_locked s = 0"
  by (rule violations_zero [OF park_reachable_inv [OF assms]])

theorem wait_timer_check_clean_witness:
  "length (wait_timer_heap demo_parked) = 1 \<and> proc_wait_timer_violations_locked demo_parked = 0"
  using wait_timer_check_clean [OF demo_park_reachable(2)] by (simp add: demo_parked_eq)

text \<open>
  C11.  No timeout is lost: a task that waits with a deadline always has its entry in the heap,
  with this deadline and number, or an expiry with its number on the way to it.
\<close>

theorem park_timeout_not_lost:
  assumes "park_reachable idle (s, fl)" "pstate (ktasks s t) = PROC_PARK_PARKED"
    "wait_deadline (ktasks s t) \<noteq> 0"
  shows "\<lparr>deadline = wait_deadline (ktasks s t), etask = t, eseq = wait_seq (ktasks s t)\<rparr>
      \<in> set (wait_timer_heap s) \<or> (t, wait_seq (ktasks s t)) \<in> set fl"
proof -
  have ok: "task_ok t s fl" using park_invD(2) [OF park_reachable_inv [OF assms(1)]] .
  show ?thesis
  proof (cases "\<exists>e\<in>set (wait_timer_heap s). etask e = t")
    case True
    then obtain e where e: "e \<in> set (wait_timer_heap s)" "etask e = t" by blast
    then have "entry_ok (ktasks s t) e" using ok by (simp add: task_ok_def Let_def)
    then have "e = \<lparr>deadline = wait_deadline (ktasks s t), etask = t, eseq = wait_seq (ktasks s t)\<rparr>"
      using e(2) by (simp add: entry_ok_def)
    then show ?thesis using e(1) by simp
  next
    case False
    then show ?thesis using ok assms(2,3) by (auto simp: task_ok_def Let_def waiting_def)
  qed
qed

theorem park_timeout_not_lost_witness:
  "\<lparr>deadline = 50, etask = 3, eseq = 1\<rparr> \<in> set (wait_timer_heap demo_parked)"
  using park_timeout_not_lost [OF demo_park_reachable(2), of 3]
  by (simp add: demo_parked_eq demo_prepared_eq demo_task_def)

text \<open>
  C12.  A scan of the wait timers wakes exactly the tasks whose deadline has passed: each of
  them is woken with the reason timeout and made ready if it was parked, every other task is
  left as it was, and no wait with a deadline at or before the scan remains.
\<close>

theorem expire_wait_timers_exact:
  assumes "park_reachable idle (s, [])" and s'_def: "s' = proc_sched_expire_wait_timers now s"
  shows "(\<forall>t. if waiting (ktasks s t) \<and> wait_deadline (ktasks s t) \<noteq> 0 \<and> wait_deadline (ktasks s t) \<le> now
      then timed_out_task now (ktasks s t) (ktasks s' t) else kcore (ktasks s' t) = kcore (ktasks s t))"
proof
  fix t
  have inv: "park_inv (s, [])" using park_reachable_inv [OF assms(1)] .
  note spec = expire_wait_timers_spec [OF inv, of now, folded s'_def]
  have *: "kcore (ktasks s' t) = kcore (ktasks s t) \<or> timed_out_task now (ktasks s t) (ktasks s' t)"
    using spec by (simp add: timed_out_def)
  show "if waiting (ktasks s t) \<and> wait_deadline (ktasks s t) \<noteq> 0 \<and> wait_deadline (ktasks s t) \<le> now
      then timed_out_task now (ktasks s t) (ktasks s' t) else kcore (ktasks s' t) = kcore (ktasks s t)"
  proof (cases "waiting (ktasks s t) \<and> wait_deadline (ktasks s t) \<noteq> 0 \<and> wait_deadline (ktasks s t) \<le> now")
    case True
    have "kcore (ktasks s' t) \<noteq> kcore (ktasks s t)"
    proof
      assume "kcore (ktasks s' t) = kcore (ktasks s t)"
      from kcore_fields [OF this] have "waiting (ktasks s' t)" "wait_deadline (ktasks s' t) = wait_deadline (ktasks s t)"
        using True by (simp_all add: waiting_def)
      moreover have "task_ok t s' []" using spec park_invD(2) by blast
      ultimately obtain e where "e \<in> set (wait_timer_heap s')" "entry_ok (ktasks s' t) e"
        using True by (auto simp: task_ok_def Let_def)
      then show False
        using spec True \<open>wait_deadline (ktasks s' t) = _\<close> by (auto simp: entry_ok_def)
    qed
    then show ?thesis using * True by simp
  qed (use * in \<open>auto simp: timed_out_task_def\<close>)
qed

theorem expire_wait_timers_exact_witness:
  "wake_reason (ktasks (proc_sched_expire_wait_timers 50 demo_parked) 3) = PROC_WAKE_TIMEOUT \<and>
   tstate (ktasks (proc_sched_expire_wait_timers 50 demo_parked) 3) = PROC_READY \<and>
   pstate (ktasks (proc_sched_expire_wait_timers 49 demo_parked) 3) = PROC_PARK_PARKED"
proof -
  have k: "waiting (ktasks demo_parked 3)" "wait_deadline (ktasks demo_parked 3) = 50"
    "pstate (ktasks demo_parked 3) = PROC_PARK_PARKED"
    by (simp_all add: demo_parked_eq demo_prepared_eq waiting_def)
  from expire_wait_timers_exact [OF demo_park_reachable(2) refl, of 50] have
    "timed_out_task 50 (ktasks demo_parked 3) (ktasks (proc_sched_expire_wait_timers 50 demo_parked) 3)"
    by (rule allE [of _ 3]) (simp add: k)
  moreover from expire_wait_timers_exact [OF demo_park_reachable(2) refl, of 49] have
    "kcore (ktasks (proc_sched_expire_wait_timers 49 demo_parked) 3) = kcore (ktasks demo_parked 3)"
    by (rule allE [of _ 3]) (simp add: k)
  then have "pstate (ktasks (proc_sched_expire_wait_timers 49 demo_parked) 3) = PROC_PARK_PARKED"
    using kcore_fields(1) k(3) by metis
  ultimately show ?thesis using k(3) by (simp add: timed_out_task_def)
qed

text \<open>
  C13.  No wake is lost, misdirected or delivered twice.  A task prepares a wait, in any mode and
  with any deadline; then the rest of the system runs in any interleaving of wakes, interrupts,
  expiries and donations aimed at any task with any numbers and reasons, and the task itself may
  commit.  The wait keeps its number.  As long as no wake was accepted for it, counting the
  signal or exit that was already pending at the prepare, the task waits, and it accepts exactly
  the wakes that carry its number and a reason its mode admits.  Once one was accepted, with
  reason r, it is the only one: no further wake is accepted, and r is what the commit returns,
  at once or after the task has been parked.
\<close>

theorem park_wake_exact:
  assumes "park_reachable idle (s, fl)" "tstate (ktasks s t) = PROC_RUNNING"
    "proc_park_prepare idle t mode d s = (tok, s1)" "tok_task tok \<noteq> None"
    "wait_run idle t (s1, fl) rs (s2, fl2)"
  shows "wait_seq (ktasks s2 t) = tok_seq tok \<and>
    (case pending_reasons mode (ktasks s t) @ rs of
       [] \<Rightarrow> waiting (ktasks s2 t) \<and>
         (\<forall>q r. fst (proc_try_wake t q r s2) \<longleftrightarrow> q = tok_seq tok \<and> reason_admitted mode r)
     | r # more_wakes \<Rightarrow> more_wakes = [] \<and> (\<forall>q r'. \<not> fst (proc_try_wake t q r' s2)) \<and>
         park_publish t tok s2 = (Some r, s2) \<and> proc_park_wake_reason_unlocked t (tok_seq tok) s2 = r)"
proof -
  let ?rs = "pending_reasons mode (ktasks s t) @ rs"
  have inv: "park_inv (s, fl)" using park_reachable_inv [OF assms(1)] .
  note pr = prepare_records [OF assms(2-4)]
  have "park_inv (s1, fl)" using park_prepare_inv [OF inv assms(3,2)] .
  then have rec: "recorded t mode (tok_seq tok) ?rs s2" and inv2: "park_inv (s2, fl2)"
    using wait_run_recorded [OF assms(5)] pr(3) by auto
  have ok: "task_ok t s2 fl2" using park_invD(2) [OF inv2] .
  show ?thesis
  proof (cases ?rs)
    case Nil
    then have w: "waiting (ktasks s2 t)" "wait_seq (ktasks s2 t) = tok_seq tok" "wait_mode (ktasks s2 t) = mode"
      using rec by (auto simp: recorded_def)
    then have "tstate (ktasks s2 t) \<noteq> PROC_UNUSED \<and> tstate (ktasks s2 t) \<noteq> PROC_ZOMBIE"
      using ok by (auto simp: task_ok_def Let_def waiting_def)
    then show ?thesis using Nil w pr(2) by (auto simp: try_wake_accepts proc_try_wake_def)
  next
    case (Cons r more_wakes)
    then have w: "more_wakes = []" "pstate (ktasks s2 t) = PROC_PARK_WOKEN" "wake_reason (ktasks s2 t) = r"
      "wait_seq (ktasks s2 t) = tok_seq tok"
      using rec by (auto simp: recorded_def)
    have "park_publish t tok s2 = (Some r, s2)"
      using w pr(1,2) by (simp add: park_publish_def)
    then show ?thesis
      using w Cons by (simp add: try_wake_accepts proc_try_wake_def waiting_def proc_park_wake_reason_unlocked_def)
  qed
qed

theorem park_wake_exact_witness:
  "park_publish 3 demo_token (snd (proc_interrupt_wait 3 PROC_WAKE_SIGNAL demo_prepared)) =
     (Some PROC_WAKE_SIGNAL, snd (proc_interrupt_wait 3 PROC_WAKE_SIGNAL demo_prepared)) \<and>
   fst (proc_try_wake 3 1 PROC_WAKE_SIGNAL demo_parked) \<and> \<not> fst (proc_try_wake 3 2 PROC_WAKE_EVENT demo_parked)"
proof -
  have prep: "proc_park_prepare 0 3 PROC_WAIT_INTERRUPTIBLE 50 demo_kernel = (demo_token, demo_prepared)"
    by (simp add: prod_eq_iff demo_prepared_def) (simp add: proc_park_prepare_def proc_park_prepare_locked_def
        demo_kernel_def demo_task_def proc_wait_timer_register_def task_get_def WAIT_TIMER_HEAP_MAX_def
        demo_token_def Let_def)
  have k: "park_reachable 0 (demo_kernel, [])" "tstate (ktasks demo_kernel 3) = PROC_RUNNING"
    "tok_task demo_token \<noteq> None" "pending_reasons PROC_WAIT_INTERRUPTIBLE (ktasks demo_kernel 3) = []"
    by (rule boot, simp_all add: park_boot_def demo_kernel_def demo_task_def demo_token_def pending_reasons_def)
  note exact = park_wake_exact [OF k(1,2) prep k(3)]
  have "fst (proc_interrupt_wait 3 PROC_WAKE_SIGNAL demo_prepared)"
    by (simp add: proc_interrupt_wait_def try_wake_accepts demo_prepared_eq demo_task_def waiting_def
        reason_admitted_def)
  then have "wait_step 0 3 (demo_prepared, []) [PROC_WAKE_SIGNAL]
      (snd (proc_interrupt_wait 3 PROC_WAKE_SIGNAL demo_prepared), [])"
    using w_interrupt [where idle = 0 and t = 3 and u = 3 and r = PROC_WAKE_SIGNAL and s = demo_prepared and fl = "[]"]
    by (cases "proc_interrupt_wait 3 PROC_WAKE_SIGNAL demo_prepared") auto
  from more [OF none this] have run1: "wait_run 0 3 (demo_prepared, []) [PROC_WAKE_SIGNAL]
      (snd (proc_interrupt_wait 3 PROC_WAKE_SIGNAL demo_prepared), [])" by simp
  have "wait_step 0 3 (demo_prepared, []) [] (demo_parked, [])"
    unfolding demo_parked_def by (rule w_publish [OF surjective_pairing])
  from more [OF none this] have run2: "wait_run 0 3 (demo_prepared, []) [] (demo_parked, [])" by simp
  show ?thesis using exact [OF run1] exact [OF run2] by (simp add: k(4) demo_token_def reason_admitted_def)
qed

end
