(* ===== verification/Alarm_Theorems.thy ===== *)
theory Alarm_Theorems
  imports Park_Theorems
begin

text \<open>
  The alarm heap and the alarm scan: setting an alarm replaces the task's entry and notes its
  deadline for the next scan, and the scan returns after finitely many batches, has signalled
  exactly the tasks whose alarm was due and leaves no alarm due, provided the re-armed deadlines
  do not wrap around.
\<close>

lemma fst_alarm_heap [simp]: "fst (alarm_heap s) = alarm_timer_heap s"
  by (simp add: alarm_heap_def)

lemma snd_alarm_heap [simp]: "snd (alarm_heap s) t = alarm_timer_index (ktasks s t)"
  by (simp add: alarm_heap_def)

lemma alarm_heap_cong:
  "alarm_timer_heap s' = alarm_timer_heap s \<Longrightarrow>
   (\<And>u. alarm_timer_index (ktasks s' u) = alarm_timer_index (ktasks s u)) \<Longrightarrow> alarm_heap s' = alarm_heap s"
  by (simp add: alarm_heap_def)

lemma alarm_heap_upd:
  "(\<And>k. alarm_timer_index (f k) = alarm_timer_index k) \<Longrightarrow> alarm_heap (upd_task t f s) = alarm_heap s"
  by (auto simp: alarm_heap_def upd_task_def)

definition same_interval :: "kstate \<Rightarrow> kstate \<Rightarrow> bool" where
  "same_interval s s' \<longleftrightarrow> (\<forall>u. itimer_real_interval (ktasks s' u) = itimer_real_interval (ktasks s u))"

lemma same_interval_trans: "same_interval s t \<Longrightarrow> same_interval t u \<Longrightarrow> same_interval s u"
  by (simp add: same_interval_def)

lemma same_core_interval:
  assumes "same_core s s'"
  shows "same_interval s s'"
  unfolding same_interval_def
proof
  fix u
  have "kcore (ktasks s' u) = kcore (ktasks s u)" using assms by (simp add: same_core_def)
  from arg_cong [OF this, of itimer_real_interval]
  show "itimer_real_interval (ktasks s' u) = itimer_real_interval (ktasks s u)" by (simp add: kcore_def)
qed

lemma alarm_cancel_spec:
  assumes ok: "heap_ok (alarm_heap s)"
  shows "heap_ok (alarm_heap (alarm_timer_cancel_locked t s))"
    "set (alarm_timer_heap (alarm_timer_cancel_locked t s)) = {e \<in> set (alarm_timer_heap s). etask e \<noteq> t}"
proof -
  note ix = heap_ok_index [OF ok, simplified]
  let ?i = "nat (alarm_timer_index (ktasks s t))" and ?s = "alarm_timer_cancel_locked t s"
  have "heap_ok (alarm_heap ?s) \<and> set (alarm_timer_heap ?s) = {e \<in> set (alarm_timer_heap s). etask e \<noteq> t}"
  proof (cases "\<exists>e\<in>set (alarm_timer_heap s). etask e = t")
    case False
    then have "?s = s" using ix(1) [of t] by (auto simp: alarm_timer_cancel_locked_def Let_def)
    then show ?thesis using ok False by auto
  next
    case True
    then obtain e where e: "e \<in> set (alarm_timer_heap s)" "etask e = t" by blast
    have i: "?i < length (alarm_timer_heap s)" "alarm_timer_heap s ! ?i = e" "0 \<le> alarm_timer_index (ktasks s t)"
      using ix(2) [OF e] ix(1) [of t] e by auto
    obtain r s1 where r: "alarm_timer_remove_index_locked ?i s = (r, s1)" by fastforce
    have rs: "r = Some e" "heap_ok (alarm_heap s1)" "set (alarm_timer_heap s1) = set (alarm_timer_heap s) - {e}"
      using aheap.remove_ok(1,2) [OF ok _ r] aheap.remove_set [OF ok _ r] i by simp_all
    have "?s = task_put t s1"
      using i e rs(1) r by (simp add: alarm_timer_cancel_locked_def Let_def)
    moreover have "alarm_heap (task_put t s1) = alarm_heap s1" by (simp add: task_put_def alarm_heap_upd)
    moreover have "set (alarm_timer_heap s) - {e} = {e \<in> set (alarm_timer_heap s). etask e \<noteq> t}"
      using e ix(3) by blast
    ultimately show ?thesis using rs by simp
  qed
  then show "heap_ok (alarm_heap ?s)"
    "set (alarm_timer_heap ?s) = {e \<in> set (alarm_timer_heap s). etask e \<noteq> t}" by simp_all
qed

lemma set_alarm_spec:
  assumes ok: "heap_ok (alarm_heap s)"
  shows "heap_ok (alarm_heap (proc_set_alarm_expire t a s))"
    "set (alarm_timer_heap (proc_set_alarm_expire t a s)) \<subseteq>
       {e \<in> set (alarm_timer_heap s). etask e \<noteq> t} \<union> (if a = 0 then {} else {\<lparr>deadline = a, etask = t\<rparr>})"
    "{e \<in> set (alarm_timer_heap s). etask e \<noteq> t} \<subseteq> set (alarm_timer_heap (proc_set_alarm_expire t a s))"
    "next_alarm_scan (proc_set_alarm_expire t a s) \<le> next_alarm_scan s"
    "e \<in> set (alarm_timer_heap (proc_set_alarm_expire t a s)) \<Longrightarrow>
       e \<in> set (alarm_timer_heap s) \<or> next_alarm_scan (proc_set_alarm_expire t a s) \<le> deadline e"
    "sched_log (proc_set_alarm_expire t a s) \<in> {sched_log s, sched_log s @ [SRearm]}"
proof -
  define s1 where "s1 = alarm_timer_cancel_locked t s"
  define a1 where "a1 = (if a \<noteq> 0 \<and> length (alarm_timer_heap s1) \<ge> ALARM_TIMER_HEAP_MAX then 0 else a)"
  obtain a2 s2 where arm: "(if a1 = 0 then (a1, s1) else case task_get t s1 of
       (True, s') \<Rightarrow> (a1, set_alarm_heap (heap_push \<lparr>deadline = a1, etask = t\<rparr> (alarm_heap s')) s')
     | (False, s') \<Rightarrow> (0, s')) = (a2, s2)" by fastforce
  define s3 where "s3 = upd_task t (\<lambda>k. k\<lparr>alarm_expire := a2\<rparr>) s2"
  have s': "alarm_heap (proc_set_alarm_expire t a s) = alarm_heap s3"
    unfolding proc_set_alarm_expire_def Let_def s1_def [symmetric] a1_def [symmetric] arm
    by (rule alarm_heap_cong) (simp_all add: s3_def [symmetric] sched_rearm_timer_def split: prod.splits)
  have w3: "alarm_heap s3 = alarm_heap s2" by (simp add: s3_def alarm_heap_upd)
  note c = alarm_cancel_spec [OF ok, of t, folded s1_def]
  have free: "alarm_timer_index (ktasks s1 t) < 0"
    using heap_ok_index(1) [OF c(1), of t] c(2) by (auto simp: not_le [symmetric])
  let ?s1 = "upd_task t (\<lambda>k. k\<lparr>krefs := krefs k + 1\<rparr>) s1" and ?e = "\<lparr>deadline = a1, etask = t\<rparr>"
  have w1: "alarm_heap ?s1 = alarm_heap s1" by (simp add: alarm_heap_upd)
  have cases: "s2 = s1 \<or> a1 \<noteq> 0 \<and> alarm_heap s2 = heap_push ?e (alarm_heap s1)"
    using arm w1 by (auto simp: task_get_def split: if_splits)
  have armed: "s2 = s1 \<or> a2 = a1"
    using arm by (auto simp: task_get_def split: if_splits)
  have scan2: "next_alarm_scan s2 = next_alarm_scan s1" "sched_log s2 = sched_log s1"
    using arm by (auto simp: task_get_def upd_task_def set_alarm_heap_def split: if_splits)
  have scan1: "next_alarm_scan s1 = next_alarm_scan s" "sched_log s1 = sched_log s"
    by (auto simp: s1_def alarm_timer_cancel_locked_def alarm_timer_remove_index_locked_def set_alarm_heap_def
        task_put_def upd_task_def Let_def split: prod.splits option.splits)
  have note': "next_alarm_scan (proc_set_alarm_expire t a s) = snd (sched_note_deadline (next_alarm_scan s) a2)"
    "sched_log (proc_set_alarm_expire t a s) \<in> {sched_log s, sched_log s @ [SRearm]}"
    unfolding proc_set_alarm_expire_def Let_def s1_def [symmetric] a1_def [symmetric] arm
    using scan1 scan2 by (auto simp: sched_rearm_timer_def upd_task_def split: prod.splits)
  then show "sched_log (proc_set_alarm_expire t a s) \<in> {sched_log s, sched_log s @ [SRearm]}"
    "next_alarm_scan (proc_set_alarm_expire t a s) \<le> next_alarm_scan s"
    by (simp_all add: sched_note_deadline_def less_imp_le)
  have push: "heap_ok (heap_push ?e (alarm_heap s1)) \<and>
      mset (fst (heap_push ?e (alarm_heap s1))) = add_mset ?e (mset (alarm_timer_heap s1))"
    using heap_push_correct [OF c(1), of ?e] free by simp
  then have pset: "set (fst (heap_push ?e (alarm_heap s1))) = insert ?e (set (alarm_timer_heap s1))"
    by (simp flip: set_mset_mset)
  show "heap_ok (alarm_heap (proc_set_alarm_expire t a s))"
    using cases push c(1) by (auto simp: s' w3)
  have heap': "alarm_timer_heap (proc_set_alarm_expire t a s) = alarm_timer_heap s2"
    using s' w3 by (metis fst_alarm_heap)
  have pushed: "alarm_timer_heap s2 = fst (heap_push ?e (alarm_heap s1))"
    if "alarm_heap s2 = heap_push ?e (alarm_heap s1)"
    using that fst_alarm_heap [of s2] by simp
  show "{e \<in> set (alarm_timer_heap s). etask e \<noteq> t} \<subseteq> set (alarm_timer_heap (proc_set_alarm_expire t a s))"
    using cases pushed pset c(2) by (auto simp: heap')
  show "e \<in> set (alarm_timer_heap s) \<or> next_alarm_scan (proc_set_alarm_expire t a s) \<le> deadline e"
    if "e \<in> set (alarm_timer_heap (proc_set_alarm_expire t a s))"
    using that cases armed pushed pset c(2) unfolding note'(1) heap' by (auto simp: sched_note_deadline_def)
  note heap'
  moreover have "set (alarm_timer_heap s2) \<subseteq> set (alarm_timer_heap s1) \<union> (if a1 = 0 then {} else {?e})"
    using cases
  proof
    assume "a1 \<noteq> 0 \<and> alarm_heap s2 = heap_push ?e (alarm_heap s1)"
    then have "alarm_timer_heap s2 = fst (heap_push ?e (alarm_heap s1))" "a1 \<noteq> 0"
      using fst_alarm_heap [of s2] by simp_all
    then show ?thesis using pset by simp
  qed simp
  moreover have "a1 \<noteq> 0 \<Longrightarrow> a1 = a" by (simp add: a1_def split: if_splits)
  ultimately show "set (alarm_timer_heap (proc_set_alarm_expire t a s)) \<subseteq>
       {e \<in> set (alarm_timer_heap s). etask e \<noteq> t} \<union> (if a = 0 then {} else {\<lparr>deadline = a, etask = t\<rparr>})"
    using c(2) by (auto split: if_splits)
qed

subsection \<open>The scan\<close>

definition due_alarms :: "u64 \<Rightarrow> kstate \<Rightarrow> alarm_timer set" where
  "due_alarms now s = {e \<in> set (alarm_timer_heap s). deadline e \<le> now}"

lemma finite_due_alarms [simp]: "finite (due_alarms now s)"
  by (simp add: due_alarms_def)

lemma alarm_remove_frame:
  "alarm_timer_remove_index_locked i s = (r, s') \<Longrightarrow> same_core s s'"
  by (auto simp: alarm_timer_remove_index_locked_def split: prod.splits)

lemma alarm_collect_spec:
  assumes "heap_ok (alarm_heap s)" "alarm_collect now n s = (ts, more_due, s')" "n \<le> SCHED_SIGNAL_BATCH"
  shows "heap_ok (alarm_heap s') \<and> same_core s s' \<and> due_alarms now s' \<subseteq> due_alarms now s \<and>
    etask ` (due_alarms now s - due_alarms now s') = set ts \<and>
    (if more_due then length ts = SCHED_SIGNAL_BATCH - n \<and> card (due_alarms now s') + length ts = card (due_alarms now s)
     else due_alarms now s' = {})"
  using assms
proof (induction "length (alarm_timer_heap s)" arbitrary: s n ts rule: less_induct)
  case less
  note ok = less.prems(1)
  let ?h = "alarm_timer_heap s"
  show ?case
  proof (cases "?h = [] \<or> now < deadline (?h ! 0) \<or> SCHED_SIGNAL_BATCH \<le> n")
    case True
    have none: "due_alarms now s = {}" if "?h = [] \<or> now < deadline (?h ! 0)"
      using that aheap.root_min [OF ok] by (auto simp: due_alarms_def not_le dest: less_le_trans)
    have eq: "alarm_collect now n s = ([], ?h \<noteq> [] \<and> deadline (?h ! 0) \<le> now, s)"
      using True by (subst alarm_collect.simps) (auto simp: not_le)
    show ?thesis
      using less.prems eq none True ok by (auto simp: not_le)
  next
    case False
    then have i: "0 < length ?h" "deadline (?h ! 0) \<le> now" "n < SCHED_SIGNAL_BATCH" by auto
    obtain r s1 where r: "alarm_timer_remove_index_locked 0 s = (r, s1)" by fastforce
    have rs: "r = Some (?h ! 0)" "heap_ok (alarm_heap s1)" "set (alarm_timer_heap s1) = set ?h - {?h ! 0}"
      using aheap.remove_ok(1,2) [OF ok _ r] aheap.remove_set [OF ok _ r] i by simp_all
    obtain us md s2 where us: "alarm_collect now (n + 1) s1 = (us, md, s2)" by (metis prod_cases3)
    have "alarm_collect now n s = (etask (?h ! 0) # us, md, s2)"
      using False r rs(1) us by (subst alarm_collect.simps) (auto simp: not_le)
    then have eq: "ts = etask (?h ! 0) # us" "more_due = md" "s' = s2" using less.prems(2) by auto
    have len: "length (alarm_timer_heap s1) < length ?h"
      using alarm_timer_remove_length [OF r] i by simp
    have d: "due_alarms now s1 = due_alarms now s - {?h ! 0}" "?h ! 0 \<in> due_alarms now s"
      using nth_mem [OF i(1)] i(2) unfolding due_alarms_def rs(3) by auto
    have IH: "heap_ok (alarm_heap s')" "same_core s1 s'" "due_alarms now s' \<subseteq> due_alarms now s1"
      "etask ` (due_alarms now s1 - due_alarms now s') = set us"
      "if more_due then length us = SCHED_SIGNAL_BATCH - (n + 1) \<and>
         card (due_alarms now s') + length us = card (due_alarms now s1) else due_alarms now s' = {}"
    proof -
      have us': "alarm_collect now (n + 1) s1 = (us, more_due, s')" "n + 1 \<le> SCHED_SIGNAL_BATCH"
        using us i(3) by (simp_all add: eq)
      note F = less.hyps [OF len rs(2) us']
      show "heap_ok (alarm_heap s')" "same_core s1 s'" "due_alarms now s' \<subseteq> due_alarms now s1"
        "etask ` (due_alarms now s1 - due_alarms now s') = set us"
        "if more_due then length us = SCHED_SIGNAL_BATCH - (n + 1) \<and>
           card (due_alarms now s') + length us = card (due_alarms now s1) else due_alarms now s' = {}"
        using F by blast+
    qed
    have "due_alarms now s - due_alarms now s' = insert (?h ! 0) (due_alarms now s1 - due_alarms now s')"
      using d IH(3) by blast
    then have "etask ` (due_alarms now s - due_alarms now s') = set ts" using IH(4) eq(1) by simp
    moreover have "same_core s s'" using same_core_trans [OF alarm_remove_frame [OF r] IH(2)] .
    moreover have suc: "card (due_alarms now s) = Suc (card (due_alarms now s1))"
      using d card_Suc_Diff1 [OF finite_due_alarms d(2)] by simp
    moreover have "due_alarms now s' \<subseteq> due_alarms now s" using IH(3) d(1) by blast
    moreover have "if more_due then length ts = SCHED_SIGNAL_BATCH - n \<and>
        card (due_alarms now s') + length ts = card (due_alarms now s) else due_alarms now s' = {}"
    proof (cases more_due)
      case True
      then have "length us = SCHED_SIGNAL_BATCH - (n + 1)"
        "card (due_alarms now s') + length us = card (due_alarms now s1)" using IH(5) by simp_all
      then show ?thesis using suc i(3) True eq(1) by simp
    qed (use IH(5) in simp)
    ultimately show ?thesis using IH(1) by blast
  qed
qed

lemma alarm_fire_spec:
  assumes ok: "heap_ok (alarm_heap s)"
    and nowrap: "\<And>u. itimer_real_interval (ktasks s u) \<noteq> 0 \<Longrightarrow> now < now + itimer_real_interval (ktasks s u)"
  shows "heap_ok (alarm_heap (alarm_fire now t s))" "same_interval s (alarm_fire now t s)"
    "due_alarms now (alarm_fire now t s) \<subseteq> due_alarms now s"
proof -
  let ?a = "if itimer_real_interval (ktasks s t) \<noteq> 0 then now + itimer_real_interval (ktasks s t) else 0"
  let ?dead = "tstate (ktasks s t) = PROC_UNUSED \<or> tstate (ktasks s t) = PROC_ZOMBIE"
  let ?s1 = "proc_set_alarm_expire t ?a s" and ?s' = "alarm_fire now t s"
  have *: "alarm_heap ?s' = (if ?dead then alarm_heap s else alarm_heap ?s1)"
    "same_core (if ?dead then s else ?s1) ?s'"
    by (auto simp: alarm_fire_def Let_def task_put_def alarm_heap_upd same_core_def upd_task_def kcore_def
        alarm_heap_def)
  note sp = set_alarm_spec [OF ok, where t = t and a = ?a]
  show "heap_ok (alarm_heap ?s')" using * ok sp(1) by auto
  have "same_core s (if ?dead then s else ?s1)" using set_alarm_frame(3) by simp
  then show "same_interval s ?s'" using same_core_trans *(2) same_core_interval by blast
  have h: "alarm_timer_heap ?s' = (if ?dead then alarm_timer_heap s else alarm_timer_heap ?s1)"
    using *(1) by (metis fst_alarm_heap)
  have "due_alarms now ?s1 \<subseteq> due_alarms now s"
    using sp(2) nowrap [of t] by (auto simp: due_alarms_def not_le split: if_splits)
  then show "due_alarms now ?s' \<subseteq> due_alarms now s" by (auto simp: due_alarms_def h split: if_splits)
qed

text \<open>
  What firing the alarms of the tasks \<open>T\<close> does: the entries of other tasks stay, every new entry
  is noted for the next scan, and exactly the live tasks of \<open>T\<close> are signalled.
\<close>

definition live :: "kstate \<Rightarrow> nat \<Rightarrow> bool" where
  "live s u \<longleftrightarrow> tstate (ktasks s u) \<noteq> PROC_UNUSED \<and> tstate (ktasks s u) \<noteq> PROC_ZOMBIE"

definition signalled :: "nat set \<Rightarrow> kstate \<Rightarrow> kstate \<Rightarrow> bool" where
  "signalled T s s' \<longleftrightarrow> (\<exists>xs. sched_log s' = sched_log s @ xs \<and>
     (\<forall>u. SSignal u SIGALRM \<in> set xs \<longleftrightarrow> u \<in> T \<and> live s u))"

definition fired :: "nat set \<Rightarrow> kstate \<Rightarrow> kstate \<Rightarrow> bool" where
  "fired T s s' \<longleftrightarrow> same_core s s' \<and> signalled T s s' \<and> next_alarm_scan s' \<le> next_alarm_scan s \<and>
     (\<forall>e\<in>set (alarm_timer_heap s'). e \<in> set (alarm_timer_heap s) \<or> next_alarm_scan s' \<le> deadline e) \<and>
     (\<forall>e\<in>set (alarm_timer_heap s). etask e \<notin> T \<longrightarrow> e \<in> set (alarm_timer_heap s'))"

lemma live_core: "same_core s s' \<Longrightarrow> live s' u = live s u"
  using same_core_fields(2) [of s s' u] by (simp add: live_def)

lemma signalled_trans:
  assumes "signalled T s t" "signalled U t u" "same_core s t"
  shows "signalled (T \<union> U) s u"
  using assms by (auto simp: signalled_def live_core)

lemma fired_trans:
  assumes "fired T s t" "fired U t u"
  shows "fired (T \<union> U) s u"
proof -
  have "signalled (T \<union> U) s u" using assms signalled_trans unfolding fired_def by blast
  moreover have "same_core s u" using assms same_core_trans unfolding fired_def by blast
  ultimately show ?thesis using assms unfolding fired_def by (metis UnCI order_trans)
qed

lemma alarm_fire_fired:
  assumes ok: "heap_ok (alarm_heap s)"
  shows "fired {t} s (alarm_fire now t s)"
proof (cases "live s t")
  case False
  then have "alarm_fire now t s = task_put t (upd_task t (\<lambda>k. k\<lparr>alarm_expire := 0\<rparr>) s)"
    by (auto simp: alarm_fire_def live_def Let_def)
  then show ?thesis
    using False
    by (auto simp: fired_def signalled_def same_core_def task_put_def upd_task_def kcore_def)
next
  case True
  let ?a = "if itimer_real_interval (ktasks s t) \<noteq> 0 then now + itimer_real_interval (ktasks s t) else 0"
  let ?s1 = "proc_set_alarm_expire t ?a s"
  have f: "alarm_fire now t s = task_put t (?s1\<lparr>sched_log := sched_log ?s1 @ [SSignal t SIGALRM]\<rparr>)"
    using True by (simp add: alarm_fire_def live_def Let_def)
  have "same_core ?s1 (alarm_fire now t s)" by (simp add: f same_core_def task_put_def upd_task_def kcore_def)
  then have core: "same_core s (alarm_fire now t s)" using same_core_trans [OF set_alarm_frame(3)] by blast
  note sp = set_alarm_spec [OF ok, where t = t and a = ?a]
  have "signalled {t} s (alarm_fire now t s)"
    using sp(6) True by (auto simp: signalled_def f task_put_def upd_task_def)
  moreover have "next_alarm_scan (alarm_fire now t s) = next_alarm_scan ?s1"
    by (simp add: f task_put_def upd_task_def)
  moreover have "alarm_timer_heap (alarm_fire now t s) = alarm_timer_heap ?s1" by (simp add: f)
  ultimately show ?thesis using core sp(3,4,5) by (auto simp: fired_def)
qed

definition alarm_nowrap :: "u64 \<Rightarrow> kstate \<Rightarrow> bool" where
  "alarm_nowrap now s \<longleftrightarrow> (\<forall>u. itimer_real_interval (ktasks s u) \<noteq> 0 \<longrightarrow>
     now < now + itimer_real_interval (ktasks s u))"

lemma alarm_nowrap_cong: "same_interval s s' \<Longrightarrow> alarm_nowrap now s \<Longrightarrow> alarm_nowrap now s'"
  by (simp add: alarm_nowrap_def same_interval_def)

lemma alarm_fires_spec:
  assumes "heap_ok (alarm_heap s)" "alarm_nowrap now s"
  shows "heap_ok (alarm_heap (fold (alarm_fire now) ts s)) \<and> alarm_nowrap now (fold (alarm_fire now) ts s) \<and>
    due_alarms now (fold (alarm_fire now) ts s) \<subseteq> due_alarms now s \<and>
    fired (set ts) s (fold (alarm_fire now) ts s)"
  using assms
proof (induction ts arbitrary: s)
  case Nil
  then show ?case by (simp add: fired_def signalled_def)
next
  case (Cons t ts)
  have nw: "\<And>u. itimer_real_interval (ktasks s u) \<noteq> 0 \<Longrightarrow> now < now + itimer_real_interval (ktasks s u)"
    using Cons.prems(2) by (simp add: alarm_nowrap_def)
  note f = alarm_fire_spec [OF Cons.prems(1) nw, of t]
  note IH = Cons.IH [OF f(1) alarm_nowrap_cong [OF f(2) Cons.prems(2)]]
  then have "fired (set (t # ts)) s (fold (alarm_fire now) (t # ts) s)"
    using fired_trans [OF alarm_fire_fired [OF Cons.prems(1)], of "set ts" now t] by simp
  then show ?case using IH f(3) by auto
qed

text \<open>Collecting removes the due entries and touches nothing else.\<close>

lemma alarm_collect_frame:
  "alarm_collect now n s = (ts, md, s') \<Longrightarrow>
   next_alarm_scan s' = next_alarm_scan s \<and> sched_log s' = sched_log s"
proof (induction "length (alarm_timer_heap s)" arbitrary: n s ts rule: less_induct)
  case less
  let ?h = "alarm_timer_heap s"
  show ?case
  proof (cases "?h = [] \<or> now < deadline (?h ! 0) \<or> SCHED_SIGNAL_BATCH \<le> n")
    case True
    then show ?thesis using less.prems by (subst (asm) alarm_collect.simps) (auto simp: not_le split: if_splits)
  next
    case False
    obtain r s1 where rm: "alarm_timer_remove_index_locked 0 s = (r, s1)" by fastforce
    then have fr: "next_alarm_scan s1 = next_alarm_scan s \<and> sched_log s1 = sched_log s"
      by (auto simp: alarm_timer_remove_index_locked_def set_alarm_heap_def split: prod.splits)
    obtain us md1 s2 where us: "alarm_collect now (n + 1) s1 = (us, md1, s2)" by (metis prod_cases3)
    have "length (alarm_timer_heap s1) < length ?h" using alarm_timer_remove_length [OF rm] False by simp
    moreover have "s' = s \<or> md = md1 \<and> s' = s2"
      using less.prems False rm us by (subst (asm) alarm_collect.simps) (auto simp: not_le split: option.splits)
    ultimately show ?thesis using less.hyps [of s1 "n + 1" us] us fr by auto
  qed
qed

lemma alarm_collect_keeps:
  assumes "heap_ok (alarm_heap s)" "alarm_collect now 0 s = (ts, md, s')"
  shows "e \<in> due_alarms now s' \<Longrightarrow> etask e \<notin> set ts" "etask ` due_alarms now s = set ts \<union> etask ` due_alarms now s'"
proof -
  note spec = alarm_collect_spec [OF assms(1,2), simplified]
  have img: "etask ` (due_alarms now s - due_alarms now s') = set ts" "due_alarms now s' \<subseteq> due_alarms now s"
    using spec by blast+
  have inj: "e = e'" if "e \<in> due_alarms now s" "e' \<in> due_alarms now s" "etask e = etask e'" for e e'
    using heap_ok_index(3) [OF assms(1)] that by (auto simp: due_alarms_def)
  show "etask e \<notin> set ts" if "e \<in> due_alarms now s'" for e
    using that inj img(2) by (auto simp: img(1) [symmetric])
  show "etask ` due_alarms now s = set ts \<union> etask ` due_alarms now s'"
    using img(2) by (auto simp: img(1) [symmetric])
qed

text \<open>One batch: the collected alarms are fired, the remaining due ones stay.\<close>

lemma alarm_batch:
  assumes ok: "heap_ok (alarm_heap s)" "alarm_nowrap now s" and c: "alarm_collect now 0 s = (ts, md, s1)"
    and s2_def: "s2 = fold (alarm_fire now) ts s1"
  shows "heap_ok (alarm_heap s2)" "alarm_nowrap now s2" "due_alarms now s2 = due_alarms now s1"
    "same_core s s2" "signalled (set ts) s s2" "next_alarm_scan s2 \<le> next_alarm_scan s"
    "e \<in> set (alarm_timer_heap s2) \<Longrightarrow> e \<in> set (alarm_timer_heap s1) \<or> next_alarm_scan s2 \<le> deadline e"
proof -
  note spec = alarm_collect_spec [OF ok(1) c, simplified]
  have core1: "same_core s s1" using spec by blast
  have nw: "alarm_nowrap now s1" using alarm_nowrap_cong [OF same_core_interval [OF core1]] ok(2) .
  note f = alarm_fires_spec [OF _ nw, of ts, folded s2_def]
  have fd: "fired (set ts) s1 s2" "due_alarms now s2 \<subseteq> due_alarms now s1" using f spec by blast+
  show "heap_ok (alarm_heap s2)" "alarm_nowrap now s2" using f spec by blast+
  show "same_core s s2" using core1 fd(1) same_core_trans unfolding fired_def by blast
  show "due_alarms now s2 = due_alarms now s1"
    using fd alarm_collect_keeps(1) [OF ok(1) c] by (auto simp: fired_def due_alarms_def)
  show "signalled (set ts) s s2" "next_alarm_scan s2 \<le> next_alarm_scan s"
    using fd(1) alarm_collect_frame [OF c] by (auto simp: fired_def signalled_def live_core [OF core1])
  show "e \<in> set (alarm_timer_heap s2) \<Longrightarrow> e \<in> set (alarm_timer_heap s1) \<or> next_alarm_scan s2 \<le> deadline e"
    using fd(1) by (auto simp: fired_def)
qed

lemma alarm_scan_loop_returns:
  assumes "heap_ok (alarm_heap s)" "alarm_nowrap now s"
  shows "\<exists>nxt s'. alarm_scan_loop now s = Some (nxt, s') \<and> heap_ok (alarm_heap s') \<and> due_alarms now s' = {} \<and>
    signalled (etask ` due_alarms now s) s s' \<and> nxt \<noteq> 0 \<and>
    (\<forall>e\<in>set (alarm_timer_heap s'). nxt \<le> deadline e \<or> next_alarm_scan s' \<le> deadline e)"
  using assms
proof (induction "card (due_alarms now s)" arbitrary: s rule: less_induct)
  case less
  obtain ts md s1 where c: "alarm_collect now 0 s = (ts, md, s1)" by (metis prod_cases3)
  note spec = alarm_collect_spec [OF less.prems(1) c, simplified]
  define s2 where "s2 = fold (alarm_fire now) ts s1"
  note batch = alarm_batch [OF less.prems c s2_def]
  show ?case
  proof (cases md)
    case True
    have eq: "alarm_scan_loop now s = alarm_scan_loop now s2"
      using True by (subst alarm_scan_loop.simps) (simp add: c Let_def s2_def)
    have "card (due_alarms now s2) < card (due_alarms now s)"
      using spec True by (simp add: SCHED_SIGNAL_BATCH_def batch(3))
    from less.hyps [OF this batch(1,2)] obtain nxt s' where IH: "alarm_scan_loop now s2 = Some (nxt, s')"
      "heap_ok (alarm_heap s')" "due_alarms now s' = {}" "signalled (etask ` due_alarms now s2) s2 s'"
      "nxt \<noteq> 0"
      "\<forall>e\<in>set (alarm_timer_heap s'). nxt \<le> deadline e \<or> next_alarm_scan s' \<le> deadline e" by blast
    have "signalled (etask ` due_alarms now s) s s'"
      using signalled_trans [OF batch(5) IH(4) batch(4)] alarm_collect_keeps(2) [OF less.prems(1) c]
      by (simp add: batch(3))
    then show ?thesis using eq IH by auto
  next
    case False
    define nxt where "nxt = (if alarm_timer_heap s1 \<noteq> [] then deadline (alarm_timer_heap s1 ! 0) else SCHED_NO_DEADLINE)"
    have "alarm_scan_loop now s = Some (nxt, s2)"
      using False by (subst alarm_scan_loop.simps) (simp add: c Let_def s2_def nxt_def)
    moreover have "nxt \<le> deadline e" if "e \<in> set (alarm_timer_heap s1)" for e
      using that spec aheap.root_min [of s1 e] by (auto simp: nxt_def)
    moreover have "nxt \<noteq> 0"
    proof (cases "alarm_timer_heap s1 = []")
      case nonempty: False
      then have "alarm_timer_heap s1 ! 0 \<in> set (alarm_timer_heap s1)" by simp
      then have "now < deadline (alarm_timer_heap s1 ! 0)" using spec False by (auto simp: due_alarms_def not_le)
      then show ?thesis using nonempty by (auto simp: nxt_def)
    qed (simp add: nxt_def SCHED_NO_DEADLINE_def)
    moreover have "signalled (etask ` due_alarms now s) s s2"
      using batch(5) alarm_collect_keeps(2) [OF less.prems(1) c] spec False by simp
    ultimately show ?thesis using batch spec False by (auto dest!: batch(7))
  qed
qed

text \<open>The alarms: a heap, in which no deadline is earlier than the moment noted for the next scan.
  Setting an alarm keeps this.\<close>

definition alarm_ok :: "kstate \<Rightarrow> bool" where
  "alarm_ok s \<longleftrightarrow> heap_ok (alarm_heap s) \<and> (\<forall>e\<in>set (alarm_timer_heap s). next_alarm_scan s \<le> deadline e)"

lemma set_alarm_ok: "alarm_ok s \<Longrightarrow> alarm_ok (proc_set_alarm_expire t a s)"
  using set_alarm_spec(1,4) [of s t a] set_alarm_spec(5) [of s _ t a] by (auto simp: alarm_ok_def intro: order_trans)

definition demo_alarms :: kstate where
  "demo_alarms = proc_set_alarm_expire 3 5 (proc_set_alarm_expire 4 20
     (upd_task 3 (\<lambda>k. k\<lparr>itimer_real_interval := 10\<rparr>) demo_kernel))"

lemma demo_alarms_ok: "alarm_ok demo_alarms" "alarm_nowrap 7 demo_alarms"
proof -
  have "alarm_ok (upd_task 3 (\<lambda>k. k\<lparr>itimer_real_interval := 10\<rparr>) demo_kernel)"
    by (simp add: alarm_ok_def heap_ok_def ix_ok_def heap_ord_def alarm_heap_def demo_kernel_def demo_task_def upd_task_def)
  then show "alarm_ok demo_alarms" unfolding demo_alarms_def by (intro set_alarm_ok)
  have i0: "alarm_nowrap 7 (upd_task 3 (\<lambda>k. k\<lparr>itimer_real_interval := 10\<rparr>) demo_kernel)"
    by (simp add: alarm_nowrap_def upd_task_def demo_kernel_def demo_task_def)
  show "alarm_nowrap 7 demo_alarms"
    unfolding demo_alarms_def
    by (intro alarm_nowrap_cong [OF same_core_interval [OF set_alarm_frame(3)]] i0)
qed

lemma demo_alarms_heap:
  "alarm_timer_heap demo_alarms = [\<lparr>deadline = 5, etask = 3\<rparr>, \<lparr>deadline = 20, etask = 4\<rparr>]"
  "tstate (ktasks demo_alarms u) = PROC_RUNNING" "sched_log demo_alarms = [SRearm, SRearm]"
  by (auto simp: demo_alarms_def proc_set_alarm_expire_def alarm_timer_cancel_locked_def demo_kernel_def demo_task_def
      upd_task_def Let_def ALARM_TIMER_HEAP_MAX_def task_get_def set_alarm_heap_def alarm_heap_def heap_push_def
      heap_sift_up.simps heap_swap_def sched_note_deadline_def SCHED_NO_DEADLINE_def sched_rearm_timer_def)

text \<open>
  C14.  Let the alarms be a heap in which no deadline is earlier than the moment noted for the
  next scan, and let no interval timer wrap the 64-bit clock.  Then the alarm scan returns,
  however many alarms are due: re-arming inside the scan cannot keep it going.  It has sent
  SIGALRM to exactly the live tasks with a due alarm, no alarm is due afterwards, and the
  alarms are again such a heap; setting an alarm keeps it, too.
\<close>

theorem alarm_scan_terminates:
  assumes "alarm_ok s" "alarm_nowrap now s"
  shows "alarm_ok (proc_set_alarm_expire t a s) \<and>
    (\<exists>s'. proc_sched_scan_signal_timers now s = Some s' \<and> alarm_ok s' \<and> due_alarms now s' = {} \<and>
       signalled (etask ` due_alarms now s) s s')"
proof (cases "next_alarm_scan s \<le> now")
  case True
  let ?s0 = "s\<lparr>next_alarm_scan := SCHED_NO_DEADLINE\<rparr>"
  have "heap_ok (alarm_heap ?s0)" "alarm_nowrap now ?s0"
    using assms by (simp_all add: alarm_heap_def alarm_nowrap_def alarm_ok_def)
  then obtain nxt s1 where l: "alarm_scan_loop now ?s0 = Some (nxt, s1)" "heap_ok (alarm_heap s1)"
    "due_alarms now s1 = {}" "signalled (etask ` due_alarms now ?s0) ?s0 s1" "nxt \<noteq> 0"
    "\<forall>e\<in>set (alarm_timer_heap s1). nxt \<le> deadline e \<or> next_alarm_scan s1 \<le> deadline e"
    using alarm_scan_loop_returns by blast
  obtain changed v where n: "sched_note_deadline (next_alarm_scan s1) nxt = (changed, v)" by fastforce
  let ?s2 = "if changed then sched_rearm_timer (s1\<lparr>next_alarm_scan := v\<rparr>) else s1\<lparr>next_alarm_scan := v\<rparr>"
  let ?s3 = "?s2\<lparr>sched_log := sched_log ?s2 @ [SPosixTick]\<rparr>"
  have run: "proc_sched_scan_signal_timers now s = Some ?s3"
    using True l n by (simp add: proc_sched_scan_signal_timers_def Let_def)
  have h: "alarm_timer_heap ?s3 = alarm_timer_heap s1" "alarm_heap ?s3 = alarm_heap s1" "next_alarm_scan ?s3 = v"
    by (simp_all add: sched_rearm_timer_def alarm_heap_def)
  have "v \<le> deadline e" if "e \<in> set (alarm_timer_heap s1)" for e
    using l(5,6) n that by (fastforce simp: sched_note_deadline_def split: if_splits)
  then have "alarm_ok ?s3" using l(2) by (simp add: alarm_ok_def h)
  moreover have "due_alarms now ?s0 = due_alarms now s" "live ?s0 = live s"
    by (auto simp: due_alarms_def live_def)
  then have "signalled (etask ` due_alarms now s) s ?s3"
    using l(4) by (auto simp: signalled_def sched_rearm_timer_def)
  ultimately show ?thesis using run l(3) set_alarm_ok [OF assms(1)] by (auto simp: due_alarms_def h(1))
next
  case False
  then have "due_alarms now s = {}" using assms(1) by (fastforce simp: due_alarms_def alarm_ok_def)
  moreover have "alarm_ok (s\<lparr>sched_log := l\<rparr>)" "due_alarms now (s\<lparr>sched_log := l\<rparr>) = due_alarms now s" for l
    using assms(1) by (auto simp: alarm_ok_def alarm_heap_def due_alarms_def)
  ultimately show ?thesis
    using False set_alarm_ok [OF assms(1)] by (simp add: proc_sched_scan_signal_timers_def signalled_def)
qed

theorem alarm_scan_terminates_witness:
  "due_alarms 7 demo_alarms = {\<lparr>deadline = 5, etask = 3\<rparr>} \<and> itimer_real_interval (ktasks demo_alarms 3) = 10 \<and>
   (\<exists>s'. proc_sched_scan_signal_timers 7 demo_alarms = Some s' \<and> due_alarms 7 s' = {} \<and>
     SSignal 3 SIGALRM \<in> set (sched_log s') \<and> SSignal 4 SIGALRM \<notin> set (sched_log s'))"
proof -
  have due: "due_alarms 7 demo_alarms = {\<lparr>deadline = 5, etask = 3\<rparr>}"
    by (auto simp: due_alarms_def demo_alarms_heap)
  have "same_interval (upd_task 3 (\<lambda>k. k\<lparr>itimer_real_interval := 10\<rparr>) demo_kernel) demo_alarms"
    unfolding demo_alarms_def
    by (rule same_core_interval [OF same_core_trans [OF set_alarm_frame(3) set_alarm_frame(3)]])
  then have "itimer_real_interval (ktasks demo_alarms 3) = 10" by (simp add: same_interval_def upd_task_def)
  with due alarm_scan_terminates [OF demo_alarms_ok, of 3 0] show ?thesis
    by (auto simp: signalled_def live_def demo_alarms_heap)
qed

end
