(* ===== verification/File_Locks.thy ===== *)
theory File_Locks
  imports Prelude
begin

text \<open>
  Advisory file locks (kernel/fs/locks.c, kernel/include/fs/locks.h): POSIX record locks on
  byte ranges, owned by a process or an open file, and BSD whole-file locks.  Both live in
  tables of fixed size under one spinlock, so that a pass over a table is one step of the
  model.  An \<^verbatim>\<open>int64_t\<close> is an \<^typ>\<open>int\<close> with the wrap-around written out (\<^const>\<open>wrap64\<close>).  The
  answer of the file system to \<^verbatim>\<open>stat\<close> is a field of the vnode.
\<close>

unbundle bit_operations_syntax

subsection \<open>State\<close>

definition F_RDLCK :: int where "F_RDLCK = 0"
definition F_WRLCK :: int where "F_WRLCK = 1"
definition F_UNLCK :: int where "F_UNLCK = 2"
definition SEEK_SET :: int where "SEEK_SET = 0"
definition SEEK_CUR :: int where "SEEK_CUR = 1"
definition SEEK_END :: int where "SEEK_END = 2"
definition LOCK_SH :: u32 where "LOCK_SH = 1"
definition LOCK_EX :: u32 where "LOCK_EX = 2"
definition LOCK_NB :: u32 where "LOCK_NB = 4"
definition LOCK_UN :: u32 where "LOCK_UN = 8"
definition FS_LOCK_OWNER_PID :: int where "FS_LOCK_OWNER_PID = 1"
definition FS_LOCK_OWNER_OFD :: int where "FS_LOCK_OWNER_OFD = 2"
definition FS_FILE_LOCK_MAX :: nat where "FS_FILE_LOCK_MAX = 256"
definition FS_LOCK_MAX_RETRIES :: nat where "FS_LOCK_MAX_RETRIES = 1024"
definition FS_FLOCK_MAX_RETRIES :: nat where "FS_FLOCK_MAX_RETRIES = 1024"

record vnode =
  vn_mnt :: u64
  vn_ino :: u64
  vn_stat_size :: "int option"
  vn_size :: int

record vfile =
  vf_addr :: u64
  vf_vnode :: "vnode option"
  vf_offset :: int

record fs_flock =
  l_type :: int
  l_whence :: int
  l_start :: int
  l_len :: int
  l_pid :: int

record fs_file_lock =
  fl_used :: bool
  fl_owner_kind :: int
  fl_key :: u64
  fl_owner :: u64
  fl_type :: int
  fl_start :: int
  fl_end :: int

record fs_bsd_flock =
  bl_used :: bool
  bl_key :: u64
  bl_owner :: u64
  bl_type :: int

record fs_lock_range =
  r_start :: int
  r_end :: int
  r_type :: int

text \<open>The tables, the generation counter, and how often all waiters were woken.\<close>

record fs_locks =
  g_file_locks :: "fs_file_lock list"
  g_bsd_flocks :: "fs_bsd_flock list"
  g_file_lock_generation :: u64
  lock_wakes :: nat

subsection \<open>Keys and ranges\<close>

definition fs_lock_key :: "vfile option \<Rightarrow> u64" where
  "fs_lock_key vf = (case vf of
       None \<Rightarrow> 0
     | Some f \<Rightarrow> (case vf_vnode f of
         Some v \<Rightarrow> if vn_ino v \<noteq> 0
                   then drop_bit 3 (vn_mnt v) XOR push_bit 17 (vn_ino v) XOR vn_ino v
                   else vf_addr f
       | None \<Rightarrow> vf_addr f))"

definition fs_file_size :: "vfile \<Rightarrow> int" where
  "fs_file_size f = (case vf_vnode f of
       None \<Rightarrow> 0
     | Some v \<Rightarrow> (case vn_stat_size v of Some n \<Rightarrow> n | None \<Rightarrow> vn_size v))"

definition fs_lock_range_of :: "vfile option \<Rightarrow> fs_flock \<Rightarrow> errno + int \<times> int" where
  "fs_lock_range_of vf lk = (case vf of
       None \<Rightarrow> Inl EINVAL
     | Some f \<Rightarrow>
         if l_whence lk \<notin> {SEEK_SET, SEEK_CUR, SEEK_END} then Inl EINVAL
         else
           let base = (if l_whence lk = SEEK_SET then 0
                       else if l_whence lk = SEEK_CUR then vf_offset f else fs_file_size f);
               s0 = wrap64 (base + l_start lk);
               (s, e) = (if l_len lk = 0 then (s0, INT64_MAX)
                         else if l_len lk > 0 then (s0, wrap64 (wrap64 (s0 + l_len lk) - 1))
                         else (wrap64 (s0 + l_len lk), wrap64 (s0 - 1)))
           in if s < 0 then Inl EINVAL else Inr (s, e))"

definition fs_lock_overlaps :: "int \<Rightarrow> int \<Rightarrow> int \<Rightarrow> int \<Rightarrow> bool" where
  "fs_lock_overlaps a0 a1 b0 b1 \<longleftrightarrow> a0 \<le> b1 \<and> b0 \<le> a1"

text \<open>What a request asks for, once the range is known.\<close>

record lock_req =
  q_key :: u64
  q_kind :: int
  q_owner :: u64
  q_type :: int
  q_start :: int
  q_end :: int

definition fs_lock_conflicts :: "lock_req \<Rightarrow> fs_file_lock \<Rightarrow> bool" where
  "fs_lock_conflicts q held \<longleftrightarrow>
     fl_used held \<and> fl_key held = q_key q \<and>
     \<not> (fl_owner_kind held = q_kind q \<and> fl_owner held = q_owner q) \<and>
     fs_lock_overlaps (fl_start held) (fl_end held) (q_start q) (q_end q) \<and>
     \<not> (fl_type held = F_RDLCK \<and> q_type q = F_RDLCK)"

definition lock_type_ok :: "int \<Rightarrow> bool" where
  "lock_type_ok t \<longleftrightarrow> t = F_RDLCK \<or> t = F_WRLCK \<or> t = F_UNLCK"

text \<open>The checks at the start of \<^verbatim>\<open>fs_locks_get\<close> and \<^verbatim>\<open>fs_locks_set\<close>.\<close>

definition fs_lock_request :: "vfile option \<Rightarrow> fs_flock option \<Rightarrow> int \<Rightarrow> u64 \<Rightarrow> errno + lock_req" where
  "fs_lock_request vf lk kind owner = (case lk of
       None \<Rightarrow> Inl EINVAL
     | Some l \<Rightarrow>
         if \<not> lock_type_ok (l_type l) then Inl EINVAL
         else case fs_lock_range_of vf l of
                Inl e \<Rightarrow> Inl e
              | Inr (s, e) \<Rightarrow> Inr \<lparr>q_key = fs_lock_key vf, q_kind = kind, q_owner = owner,
                                   q_type = l_type l, q_start = s, q_end = e\<rparr>)"

subsection \<open>Querying a lock\<close>

definition fs_locks_get ::
  "vfile option \<Rightarrow> fs_flock option \<Rightarrow> int \<Rightarrow> u64 \<Rightarrow> fs_locks \<Rightarrow> errno + fs_flock" where
  "fs_locks_get vf lk kind owner s = (case fs_lock_request vf lk kind owner of
       Inl e \<Rightarrow> Inl e
     | Inr q \<Rightarrow> (case find (fs_lock_conflicts q) (g_file_locks s) of
         Some h \<Rightarrow> Inr ((the lk)\<lparr>l_type := fl_type h, l_whence := SEEK_SET, l_start := fl_start h,
                     l_len := (if fl_end h = INT64_MAX then 0 else wrap64 (fl_end h - fl_start h + 1)),
                     l_pid := (if fl_owner_kind h = FS_LOCK_OWNER_PID
                               then sint (ucast (fl_owner h) :: u32) else - 1)\<rparr>)
       | None \<Rightarrow> Inr ((the lk)\<lparr>l_type := F_UNLCK\<rparr>)))"

subsection \<open>The range algebra of a lock request\<close>

definition fs_lock_own :: "lock_req \<Rightarrow> fs_file_lock \<Rightarrow> bool" where
  "fs_lock_own q e \<longleftrightarrow> fl_used e \<and> fl_key e = q_key q \<and> fl_owner_kind e = q_kind q \<and>
     fl_owner e = q_owner q"

text \<open>What is left of one held range after the requested range is subtracted.\<close>

definition fs_lock_subtract :: "lock_req \<Rightarrow> fs_file_lock \<Rightarrow> fs_lock_range list" where
  "fs_lock_subtract q e =
     (if fl_end e < q_start q \<or> fl_start e > q_end q
      then [\<lparr>r_start = fl_start e, r_end = fl_end e, r_type = fl_type e\<rparr>]
      else (if fl_start e < q_start q
            then [\<lparr>r_start = fl_start e, r_end = wrap64 (q_start q - 1), r_type = fl_type e\<rparr>] else []) @
           (if fl_end e > q_end q
            then [\<lparr>r_start = wrap64 (q_end q + 1), r_end = fl_end e, r_type = fl_type e\<rparr>] else []))"

definition fs_lock_collect :: "lock_req \<Rightarrow> fs_file_lock list \<Rightarrow> fs_lock_range list" where
  "fs_lock_collect q tab =
     concat (map (fs_lock_subtract q) (filter (fs_lock_own q) tab)) @
     (if q_type q \<noteq> F_UNLCK
      then [\<lparr>r_start = q_start q, r_end = q_end q, r_type = q_type q\<rparr>] else [])"

text \<open>The insertion sort: the inner loop moves larger entries up one place; its last argument
  is the loop's \<open>j + 1\<close>.\<close>

fun fs_sort_shift :: "fs_lock_range list \<Rightarrow> fs_lock_range \<Rightarrow> nat \<Rightarrow> fs_lock_range list" where
  "fs_sort_shift sc tmp 0 = sc[0 := tmp]"
| "fs_sort_shift sc tmp (Suc j) =
     (if r_start (sc ! j) > r_start tmp then fs_sort_shift (sc[Suc j := sc ! j]) tmp j
      else sc[Suc j := tmp])"

definition fs_lock_sort :: "fs_lock_range list \<Rightarrow> fs_lock_range list" where
  "fs_lock_sort sc = foldl (\<lambda>sc i. fs_sort_shift sc (sc ! i) i) sc [1..<length sc]"

text \<open>The merge runs in place over the sorted array; the entries already written are a list
  of their own here, its last element the one the code extends.\<close>

definition fs_merge_step :: "fs_lock_range list \<Rightarrow> fs_lock_range \<Rightarrow> fs_lock_range list" where
  "fs_merge_step merged r =
     (if merged \<noteq> [] \<and> r_type (last merged) = r_type r \<and>
         wrap64 (r_end (last merged) + 1) \<ge> r_start r
      then (if r_end r > r_end (last merged)
            then butlast merged @ [(last merged)\<lparr>r_end := r_end r\<rparr>] else merged)
      else merged @ [r])"

definition fs_lock_merge :: "fs_lock_range list \<Rightarrow> fs_lock_range list" where
  "fs_lock_merge sc = foldl fs_merge_step [] sc"

fun fs_lock_write :: "lock_req \<Rightarrow> fs_file_lock list \<Rightarrow> fs_lock_range list \<Rightarrow> fs_file_lock list" where
  "fs_lock_write q [] ms = []"
| "fs_lock_write q (e # es) [] = e # es"
| "fs_lock_write q (e # es) (m # ms) =
     (if fl_used e then e # fs_lock_write q es (m # ms)
      else \<lparr>fl_used = True, fl_owner_kind = q_kind q, fl_key = q_key q, fl_owner = q_owner q,
            fl_type = r_type m, fl_start = r_start m, fl_end = r_end m\<rparr> # fs_lock_write q es ms)"

definition used_locks :: "fs_file_lock list \<Rightarrow> nat" where
  "used_locks tab = length (filter fl_used tab)"

definition fs_lock_wake_waiters :: "fs_locks \<Rightarrow> fs_locks" where
  "fs_lock_wake_waiters s = s\<lparr>lock_wakes := lock_wakes s + 1\<rparr>"

definition bump_generation :: "bool \<Rightarrow> fs_locks \<Rightarrow> fs_locks" where
  "bump_generation changed s =
     (if changed then fs_lock_wake_waiters (s\<lparr>g_file_lock_generation := g_file_lock_generation s + 1\<rparr>)
      else s)"

text \<open>Steps 2 to 7 of \<^verbatim>\<open>fs_locks_set\<close>, after no conflict was found.\<close>

definition fs_lock_install :: "lock_req \<Rightarrow> fs_locks \<Rightarrow> (errno + unit) \<times> fs_locks" where
  "fs_lock_install q s =
     (let tab = g_file_locks s;
          own_count = length (filter (fs_lock_own q) tab);
          merged = fs_lock_merge (fs_lock_sort (fs_lock_collect q tab))
      in if used_locks tab - own_count + length merged > FS_FILE_LOCK_MAX then (Inl ENOLCK, s)
         else
           let withdrawn = map (\<lambda>e. if fs_lock_own q e then e\<lparr>fl_used := False\<rparr> else e) tab;
               s1 = s\<lparr>g_file_locks := fs_lock_write q withdrawn merged\<rparr>
           in (Inr (), bump_generation (own_count > 0 \<or> q_type q = F_UNLCK) s1))"

subsection \<open>Waiting\<close>

text \<open>
  What one wait meets: whether there is a current task, the two signal tests, the outcome of
  preparing, linking and committing the park, and what other tasks do to the tables while the
  lock is free, before the generation is tested again and during the sleep.
\<close>

record lock_wait =
  lw_current :: bool
  lw_signal_before :: bool
  lw_prepared :: bool
  lw_linked :: bool
  lw_reason :: wake_reason
  lw_signal_after :: bool
  lw_others :: "fs_locks \<Rightarrow> fs_locks"
  lw_others_asleep :: "fs_locks \<Rightarrow> fs_locks"

definition fs_lock_wait :: "lock_wait \<Rightarrow> fs_locks \<Rightarrow> (errno + unit) \<times> fs_locks" where
  "fs_lock_wait w s =
     (if \<not> lw_current w then (Inr (), lw_others w s)
      else if lw_signal_before w then (Inl ERESTARTSYS, s)
      else
        let s1 = lw_others w s
        in if \<not> lw_prepared w then (Inl EAGAIN, s1)
           else if g_file_lock_generation s1 \<noteq> g_file_lock_generation s then (Inr (), s1)
           else
             let s2 = lw_others_asleep w s1;
                 reason = (if lw_linked w then lw_reason w else PROC_WAKE_CANCEL)
             in if proc_wake_reason_is_task_interrupt reason \<or> lw_signal_after w then (Inl ERESTARTSYS, s2)
                else if \<not> lw_linked w then (Inl EAGAIN, s2)
                else (Inr (), s2))"

subsection \<open>Setting a lock\<close>

datatype lock_pass = PassReturn "errno + unit" | PassWait u64

text \<open>One pass of \<^verbatim>\<open>fs_locks_set\<close> under the table lock; \<open>retries\<close> is \<^verbatim>\<open>deadlock_retries\<close> after it was
  counted up.\<close>

definition fs_locks_set_pass ::
  "lock_req \<Rightarrow> bool \<Rightarrow> u64 \<Rightarrow> nat \<Rightarrow> fs_locks \<Rightarrow> lock_pass \<times> fs_locks" where
  "fs_locks_set_pass q wait prev_blocker retries s =
     (case (if q_type q \<noteq> F_UNLCK then find (fs_lock_conflicts q) (g_file_locks s) else None) of
        Some h \<Rightarrow>
          if \<not> wait then (PassReturn (Inl EAGAIN), s)
          else
            let blocker = fl_owner h
            in if blocker = prev_blocker \<and> blocker \<noteq> 0 \<and>
                  list_ex (\<lambda>e. fl_used e \<and> fl_owner_kind e = q_kind q \<and> fl_owner e = q_owner q \<and>
                               fl_key e \<noteq> q_key q) (g_file_locks s) \<and> retries > 4
               then (PassReturn (Inl EDEADLK), s)
               else (PassWait blocker, s)
      | None \<Rightarrow> (case fs_lock_install q s of (r, s') \<Rightarrow> (PassReturn r, s')))"

text \<open>The retry loop; its second argument counts the passes left, \<open>ws n\<close> is the wait after the
  pass with \<open>n\<close> passes left.\<close>

fun fs_locks_set_loop ::
  "lock_req \<Rightarrow> bool \<Rightarrow> (nat \<Rightarrow> lock_wait) \<Rightarrow> u64 \<Rightarrow> nat \<Rightarrow> fs_locks \<Rightarrow> (errno + unit) \<times> fs_locks" where
  "fs_locks_set_loop q wait ws prev 0 s = (Inl EDEADLK, s)"
| "fs_locks_set_loop q wait ws prev (Suc n) s =
     (case fs_locks_set_pass q wait prev (FS_LOCK_MAX_RETRIES - n) s of
        (PassReturn r, s1) \<Rightarrow> (r, s1)
      | (PassWait blocker, s1) \<Rightarrow>
          (case fs_lock_wait (ws n) s1 of
             (Inl e, s2) \<Rightarrow> (Inl e, s2)
           | (Inr _, s2) \<Rightarrow> fs_locks_set_loop q wait ws blocker n s2))"

text \<open>\<open>mem\<close> tells whether the scratch array could be allocated.\<close>

definition fs_locks_set ::
  "vfile option \<Rightarrow> fs_flock option \<Rightarrow> int \<Rightarrow> u64 \<Rightarrow> bool \<Rightarrow> bool \<Rightarrow> (nat \<Rightarrow> lock_wait) \<Rightarrow> fs_locks \<Rightarrow>
   (errno + unit) \<times> fs_locks" where
  "fs_locks_set vf lk kind owner wait mem ws s = (case fs_lock_request vf lk kind owner of
       Inl e \<Rightarrow> (Inl e, s)
     | Inr q \<Rightarrow> if \<not> mem then (Inl ENOMEM, s)
               else fs_locks_set_loop q wait ws 0 FS_LOCK_MAX_RETRIES s)"

subsection \<open>Releasing locks\<close>

definition release_locks :: "(fs_file_lock \<Rightarrow> bool) \<Rightarrow> fs_locks \<Rightarrow> fs_locks" where
  "release_locks P s = bump_generation (list_ex (\<lambda>e. fl_used e \<and> P e) (g_file_locks s))
     (s\<lparr>g_file_locks := map (\<lambda>e. if fl_used e \<and> P e then e\<lparr>fl_used := False\<rparr> else e) (g_file_locks s)\<rparr>)"

definition fs_locks_release_process :: "int \<Rightarrow> fs_locks \<Rightarrow> fs_locks" where
  "fs_locks_release_process p =
     release_locks (\<lambda>e. fl_owner_kind e = FS_LOCK_OWNER_PID \<and> fl_owner e = word_of_int p)"

definition fs_locks_release_process_file :: "vfile option \<Rightarrow> int \<Rightarrow> fs_locks \<Rightarrow> fs_locks" where
  "fs_locks_release_process_file vf p =
     release_locks (\<lambda>e. fl_key e = fs_lock_key vf \<and> fl_owner_kind e = FS_LOCK_OWNER_PID \<and>
       fl_owner e = word_of_int p)"

definition bl_owned :: "vfile option \<Rightarrow> fs_bsd_flock \<Rightarrow> bool" where
  "bl_owned vf b \<longleftrightarrow> bl_used b \<and> bl_key b = fs_lock_key vf \<and>
     bl_owner b = (case vf of None \<Rightarrow> 0 | Some f \<Rightarrow> vf_addr f)"

definition release_flocks :: "vfile option \<Rightarrow> fs_bsd_flock list \<Rightarrow> fs_bsd_flock list" where
  "release_flocks vf = map (\<lambda>b. if bl_owned vf b then b\<lparr>bl_used := False\<rparr> else b)"

text \<open>\<open>cur\<close> is the pid of the current task, if there is one.\<close>

definition fs_locks_release_file :: "int option \<Rightarrow> vfile option \<Rightarrow> u64 \<Rightarrow> fs_locks \<Rightarrow> fs_locks" where
  "fs_locks_release_file cur vf owner s =
     (let cur_pid = (case cur of Some p \<Rightarrow> p | None \<Rightarrow> - 1);
          gone = (\<lambda>e. fl_used e \<and>
            (fl_owner_kind e = FS_LOCK_OWNER_OFD \<and> fl_owner e = owner \<or>
             fl_key e = fs_lock_key vf \<and> fl_owner_kind e = FS_LOCK_OWNER_PID \<and>
             fl_owner e = word_of_int cur_pid))
      in bump_generation (list_ex gone (g_file_locks s) \<or> list_ex (bl_owned vf) (g_bsd_flocks s))
           (s\<lparr>g_file_locks := map (\<lambda>e. if gone e then e\<lparr>fl_used := False\<rparr> else e) (g_file_locks s),
              g_bsd_flocks := release_flocks vf (g_bsd_flocks s)\<rparr>))"

subsection \<open>Whole-file locks\<close>

definition bl_conflicts :: "vfile \<Rightarrow> int \<Rightarrow> fs_bsd_flock \<Rightarrow> bool" where
  "bl_conflicts f type b \<longleftrightarrow> bl_used b \<and> bl_key b = fs_lock_key (Some f) \<and> bl_owner b \<noteq> vf_addr f \<and>
     \<not> (bl_type b = F_RDLCK \<and> type = F_RDLCK)"

text \<open>Changing the type of the lock the file already has, or taking a free entry: the first
  index that qualifies.\<close>

fun update_first :: "('a \<Rightarrow> bool) \<Rightarrow> ('a \<Rightarrow> 'a) \<Rightarrow> 'a list \<Rightarrow> 'a list option" where
  "update_first P f [] = None"
| "update_first P f (x # xs) =
     (if P x then Some (f x # xs) else map_option ((#) x) (update_first P f xs))"

definition fs_flock_pass :: "vfile \<Rightarrow> int \<Rightarrow> bool \<Rightarrow> fs_locks \<Rightarrow> lock_pass \<times> fs_locks" where
  "fs_flock_pass f type nb s =
     (case find (bl_conflicts f type) (g_bsd_flocks s) of
        Some b \<Rightarrow> if nb then (PassReturn (Inl EAGAIN), s) else (PassWait (bl_owner b), s)
      | None \<Rightarrow>
          (case update_first (bl_owned (Some f)) (\<lambda>b. b\<lparr>bl_type := type\<rparr>) (g_bsd_flocks s) of
             Some tab \<Rightarrow> (PassReturn (Inr ()), bump_generation True (s\<lparr>g_bsd_flocks := tab\<rparr>))
           | None \<Rightarrow>
               (case update_first (\<lambda>b. \<not> bl_used b)
                       (\<lambda>b. \<lparr>bl_used = True, bl_key = fs_lock_key (Some f), bl_owner = vf_addr f,
                             bl_type = type\<rparr>) (g_bsd_flocks s) of
                  Some tab \<Rightarrow> (PassReturn (Inr ()), bump_generation True (s\<lparr>g_bsd_flocks := tab\<rparr>))
                | None \<Rightarrow> (PassReturn (Inl ENOLCK), s))))"

fun fs_flock_loop ::
  "vfile \<Rightarrow> int \<Rightarrow> bool \<Rightarrow> (nat \<Rightarrow> lock_wait) \<Rightarrow> nat \<Rightarrow> fs_locks \<Rightarrow> (errno + unit) \<times> fs_locks" where
  "fs_flock_loop f type nb ws 0 s = (Inl EDEADLK, s)"
| "fs_flock_loop f type nb ws (Suc n) s =
     (case fs_flock_pass f type nb s of
        (PassReturn r, s1) \<Rightarrow> (r, s1)
      | (PassWait b, s1) \<Rightarrow>
          (case fs_lock_wait (ws n) s1 of
             (Inl e, s2) \<Rightarrow> (Inl e, s2)
           | (Inr _, s2) \<Rightarrow> fs_flock_loop f type nb ws n s2))"

definition fs_flock_unlock :: "vfile \<Rightarrow> fs_locks \<Rightarrow> fs_locks" where
  "fs_flock_unlock f s = bump_generation (list_ex (bl_owned (Some f)) (g_bsd_flocks s))
     (s\<lparr>g_bsd_flocks := release_flocks (Some f) (g_bsd_flocks s)\<rparr>)"

definition fs_flocks_apply ::
  "vfile option \<Rightarrow> u32 \<Rightarrow> (nat \<Rightarrow> lock_wait) \<Rightarrow> fs_locks \<Rightarrow> (errno + unit) \<times> fs_locks" where
  "fs_flocks_apply vf operation ws s = (case vf of
       None \<Rightarrow> (Inl EBADF, s)
     | Some f \<Rightarrow>
         let op = operation AND (LOCK_SH OR LOCK_EX OR LOCK_UN)
         in if operation AND NOT (LOCK_SH OR LOCK_EX OR LOCK_NB OR LOCK_UN) \<noteq> 0 \<or> op = 0 then (Inl EINVAL, s)
            else if op AND (op - 1) \<noteq> 0 then (Inl EINVAL, s)
            else if op = LOCK_UN then (Inr (), fs_flock_unlock f s)
            else fs_flock_loop f (if op = LOCK_EX then F_WRLCK else F_RDLCK)
                   (operation AND LOCK_NB \<noteq> 0) ws FS_FLOCK_MAX_RETRIES s)"

subsection \<open>The tables as a transition system\<close>

text \<open>A pass under the table lock by any task is one step; waiting and retrying is another task's
  steps followed by another pass.\<close>

inductive lock_step :: "fs_locks \<Rightarrow> fs_locks \<Rightarrow> bool" where
  set_pass: "fs_lock_request vf lk kind owner = Inr q \<Longrightarrow>
    fs_locks_set_pass q wait prev n s = (r, s') \<Longrightarrow> lock_step s s'"
| flock_pass: "type = F_RDLCK \<or> type = F_WRLCK \<Longrightarrow> fs_flock_pass f type nb s = (r, s') \<Longrightarrow> lock_step s s'"
| flock_unlock: "lock_step s (fs_flock_unlock f s)"
| release_process: "lock_step s (fs_locks_release_process p s)"
| release_process_file: "lock_step s (fs_locks_release_process_file vf p s)"
| release_file: "lock_step s (fs_locks_release_file cur vf owner s)"

definition locks_boot :: fs_locks where
  "locks_boot =
     \<lparr>g_file_locks = replicate FS_FILE_LOCK_MAX
        \<lparr>fl_used = False, fl_owner_kind = 0, fl_key = 0, fl_owner = 0, fl_type = 0, fl_start = 0, fl_end = 0\<rparr>,
      g_bsd_flocks = replicate FS_FILE_LOCK_MAX
        \<lparr>bl_used = False, bl_key = 0, bl_owner = 0, bl_type = 0\<rparr>,
      g_file_lock_generation = 0, lock_wakes = 0\<rparr>"

inductive lock_reachable :: "fs_locks \<Rightarrow> bool" where
  locks_init: "lock_reachable locks_boot"
| locks_next: "lock_reachable s \<Longrightarrow> lock_step s s' \<Longrightarrow> lock_reachable s'"

end
