(* ===== verification/File_Lock_Ranges.thy ===== *)
theory File_Lock_Ranges
  imports File_Locks
begin

text \<open>
  The range algebra of a lock request: which bytes, with which lock types, the collected,
  sorted and merged ranges cover, and what writing them back does to the table.
\<close>

subsection \<open>Bytes covered by ranges and by table entries\<close>

definition covers :: "fs_lock_range list \<Rightarrow> int \<Rightarrow> int \<Rightarrow> bool" where
  "covers rs b t \<longleftrightarrow> (\<exists>r\<in>set rs. r_start r \<le> b \<and> b \<le> r_end r \<and> r_type r = t)"

lemma covers_simps [simp]:
  "\<not> covers [] b t"
  "covers (r # rs) b t \<longleftrightarrow> r_start r \<le> b \<and> b \<le> r_end r \<and> r_type r = t \<or> covers rs b t"
  "covers (rs @ ss) b t \<longleftrightarrow> covers rs b t \<or> covers ss b t"
  by (auto simp: covers_def)

lemma covers_concat: "covers (concat rss) b t \<longleftrightarrow> (\<exists>rs\<in>set rss. covers rs b t)"
  by (auto simp: covers_def)

lemma covers_mset: "mset rs = mset ss \<Longrightarrow> covers rs b t = covers ss b t"
  unfolding covers_def by (metis set_mset_mset)

definition holds :: "fs_file_lock list \<Rightarrow> u64 \<Rightarrow> int \<Rightarrow> u64 \<Rightarrow> int \<Rightarrow> int \<Rightarrow> bool" where
  "holds tab key kind owner b t \<longleftrightarrow>
     (\<exists>e\<in>set tab. fl_used e \<and> fl_key e = key \<and> fl_owner_kind e = kind \<and> fl_owner e = owner \<and>
        fl_start e \<le> b \<and> b \<le> fl_end e \<and> fl_type e = t)"

lemma holds_simps [simp]:
  "\<not> holds [] key kind owner b t"
  "holds (e # es) key kind owner b t \<longleftrightarrow>
     fl_used e \<and> fl_key e = key \<and> fl_owner_kind e = kind \<and> fl_owner e = owner \<and>
     fl_start e \<le> b \<and> b \<le> fl_end e \<and> fl_type e = t \<or> holds es key kind owner b t"
  by (auto simp: holds_def)

text \<open>Ranges in the table and in requests are values of \<^verbatim>\<open>int64_t\<close> that do not start below zero.\<close>

definition range_ok :: "int \<Rightarrow> int \<Rightarrow> bool" where
  "range_ok s e \<longleftrightarrow> 0 \<le> s \<and> s \<le> INT64_MAX \<and> - 0x8000000000000000 \<le> e \<and> e \<le> INT64_MAX"

definition r_ok :: "fs_lock_range \<Rightarrow> bool" where
  "r_ok r \<longleftrightarrow> range_ok (r_start r) (r_end r) \<and> (r_type r = F_RDLCK \<or> r_type r = F_WRLCK)"

definition fl_ok :: "fs_file_lock \<Rightarrow> bool" where
  "fl_ok e \<longleftrightarrow> (fl_used e \<longrightarrow> range_ok (fl_start e) (fl_end e) \<and> (fl_type e = F_RDLCK \<or> fl_type e = F_WRLCK))"

definition q_ok :: "lock_req \<Rightarrow> bool" where
  "q_ok q \<longleftrightarrow> range_ok (q_start q) (q_end q) \<and> lock_type_ok (q_type q)"

lemma fs_lock_request_ok: "fs_lock_request vf lk kind owner = Inr q \<Longrightarrow> q_ok q"
  by (auto simp: fs_lock_request_def fs_lock_range_of_def Let_def q_ok_def range_ok_def wrap64_le wrap64_ge
      split: option.splits if_splits sum.splits) (simp_all add: INT64_MAX_def)

subsection \<open>Subtraction\<close>

lemma subtract_covers:
  assumes "q_ok q" "fl_ok e" "fl_used e"
  shows "covers (fs_lock_subtract q e) b t \<longleftrightarrow>
    fl_start e \<le> b \<and> b \<le> fl_end e \<and> fl_type e = t \<and> \<not> (q_start q \<le> b \<and> b \<le> q_end q)"
proof -
  have w: "wrap64 (q_start q - 1) = q_start q - 1"
    using assms(1) by (simp add: q_ok_def range_ok_def)
  have w': "wrap64 (q_end q + 1) = q_end q + 1" if "q_end q < fl_end e"
    using assms that by (simp add: q_ok_def range_ok_def fl_ok_def)
  show ?thesis unfolding fs_lock_subtract_def using w w' by auto
qed

lemma subtract_ok:
  assumes "q_ok q" "fl_ok e" "fl_used e" "r \<in> set (fs_lock_subtract q e)"
  shows "r_ok r"
proof -
  have w: "wrap64 (q_start q - 1) = q_start q - 1"
    using assms(1) by (simp add: q_ok_def range_ok_def)
  have w': "wrap64 (q_end q + 1) = q_end q + 1" if "q_end q < fl_end e"
    using assms that by (simp add: q_ok_def range_ok_def fl_ok_def)
  show ?thesis
    using assms w w'
    by (auto simp: fs_lock_subtract_def r_ok_def fl_ok_def q_ok_def range_ok_def split: if_splits)
qed

lemma collect_covers:
  assumes "q_ok q" "\<forall>e\<in>set tab. fl_ok e"
  shows "covers (fs_lock_collect q tab) b t \<longleftrightarrow>
    (if q_start q \<le> b \<and> b \<le> q_end q then t = q_type q \<and> q_type q \<noteq> F_UNLCK
     else holds tab (q_key q) (q_kind q) (q_owner q) b t)"
proof -
  have "covers (concat (map (fs_lock_subtract q) (filter (fs_lock_own q) tab))) b t \<longleftrightarrow>
      holds tab (q_key q) (q_kind q) (q_owner q) b t \<and> \<not> (q_start q \<le> b \<and> b \<le> q_end q)"
    using assms(2) subtract_covers [OF assms(1)]
    by (auto simp: covers_concat holds_def fs_lock_own_def)
  then show ?thesis by (auto simp: fs_lock_collect_def)
qed

lemma collect_ok:
  assumes "q_ok q" "\<forall>e\<in>set tab. fl_ok e" "r \<in> set (fs_lock_collect q tab)"
  shows "r_ok r"
  using assms subtract_ok [OF assms(1)]
  by (fastforce simp: fs_lock_collect_def fs_lock_own_def r_ok_def q_ok_def lock_type_ok_def split: if_splits)

subsection \<open>The insertion sort\<close>

lemma sort_shift_spec:
  "\<exists>zs. fs_sort_shift (xs @ x # ys) tmp (length xs) = zs @ ys \<and> mset zs = add_mset tmp (mset xs) \<and>
     (sorted (map r_start xs) \<longrightarrow> sorted (map r_start zs))"
proof (induction xs arbitrary: x ys rule: rev_induct)
  case (snoc a xs)
  show ?case
  proof (cases "r_start a > r_start tmp")
    case True
    obtain zs where zs: "fs_sort_shift (xs @ a # a # ys) tmp (length xs) = zs @ a # ys"
      "mset zs = add_mset tmp (mset xs)" "sorted (map r_start xs) \<longrightarrow> sorted (map r_start zs)"
      using snoc.IH [of a "a # ys"] by blast
    have set: "set zs = insert tmp (set xs)" using zs(2) by (metis set_mset_mset set_mset_add_mset_insert)
    have "fs_sort_shift ((xs @ [a]) @ x # ys) tmp (length (xs @ [a])) = (zs @ [a]) @ ys"
      using True zs(1) by (simp add: nth_append list_update_append)
    moreover have "sorted (map r_start (xs @ [a])) \<longrightarrow> sorted (map r_start (zs @ [a]))"
      using zs(3) set True by (auto simp: sorted_append)
    moreover have "mset (zs @ [a]) = add_mset tmp (mset (xs @ [a]))" using zs(2) by simp
    ultimately show ?thesis by blast
  next
    case False
    then have "fs_sort_shift ((xs @ [a]) @ x # ys) tmp (length (xs @ [a])) = (xs @ [a, tmp]) @ ys"
      by (simp add: nth_append list_update_append)
    moreover have "sorted (map r_start (xs @ [a])) \<longrightarrow> sorted (map r_start (xs @ [a, tmp]))"
      using False by (auto simp: sorted_append)
    ultimately show ?thesis by (intro exI [of _ "xs @ [a, tmp]"]) auto
  qed
qed simp

lemma sort_prefix:
  assumes "1 \<le> n" "n \<le> length sc"
  shows "\<exists>zs. foldl (\<lambda>sc i. fs_sort_shift sc (sc ! i) i) sc [1..<n] = zs @ drop n sc \<and>
    mset zs = mset (take n sc) \<and> sorted (map r_start zs)"
  using assms
proof (induction n rule: nat_induct_at_least)
  case base
  then show ?case by (intro exI [of _ "take 1 sc"]) (cases sc; simp)
next
  case (Suc n)
  then obtain zs where zs: "foldl (\<lambda>sc i. fs_sort_shift sc (sc ! i) i) sc [1..<n] = zs @ drop n sc"
    "mset zs = mset (take n sc)" "sorted (map r_start zs)" by auto
  have len: "length zs = n" using zs(2) Suc.prems by (metis length_take min.absorb2 size_mset Suc_leD)
  have d: "drop n sc = sc ! n # drop (Suc n) sc" using Suc.prems by (simp add: Cons_nth_drop_Suc)
  obtain vs where vs: "fs_sort_shift (zs @ sc ! n # drop (Suc n) sc) (sc ! n) (length zs) = vs @ drop (Suc n) sc"
    "mset vs = add_mset (sc ! n) (mset zs)" "sorted (map r_start vs)"
    using sort_shift_spec zs(3) by blast
  have "foldl (\<lambda>sc i. fs_sort_shift sc (sc ! i) i) sc [1..<Suc n] = vs @ drop (Suc n) sc"
    using Suc.hyps zs(1) vs(1) len d by (simp add: nth_append)
  moreover have "mset vs = mset (take (Suc n) sc)"
    using vs(2) zs(2) Suc.prems by (simp add: take_Suc_conv_app_nth)
  ultimately show ?case using vs(3) by blast
qed

lemma fs_lock_sort_spec: "mset (fs_lock_sort sc) = mset sc" "sorted (map r_start (fs_lock_sort sc))"
proof -
  have "mset (fs_lock_sort sc) = mset sc \<and> sorted (map r_start (fs_lock_sort sc))"
  proof (cases sc)
    case (Cons a as)
    obtain zs where "fs_lock_sort sc = zs @ drop (length sc) sc" "mset zs = mset (take (length sc) sc)"
      "sorted (map r_start zs)"
      using sort_prefix [of "length sc" sc] Cons unfolding fs_lock_sort_def by auto
    then show ?thesis by simp
  qed (simp add: fs_lock_sort_def)
  then show "mset (fs_lock_sort sc) = mset sc" "sorted (map r_start (fs_lock_sort sc))" by auto
qed

subsection \<open>The merge\<close>

lemma merge_step_covers:
  assumes ok: "\<forall>r\<in>set merged. r_ok r" "r_ok r" and le: "merged \<noteq> [] \<Longrightarrow> r_start (last merged) \<le> r_start r"
  shows "covers (fs_merge_step merged r) b t \<longleftrightarrow> covers merged b t \<or> covers [r] b t"
proof (cases "merged \<noteq> [] \<and> r_type (last merged) = r_type r \<and> wrap64 (r_end (last merged) + 1) \<ge> r_start r")
  case True
  let ?l = "last merged"
  have m: "merged = butlast merged @ [?l]" using True by simp
  have lok: "r_ok ?l" using ok True by simp
  have "r_end ?l \<noteq> INT64_MAX"
    using True ok(2) by (auto simp: r_ok_def range_ok_def)
  then have "wrap64 (r_end ?l + 1) = r_end ?l + 1"
    using lok by (simp add: r_ok_def range_ok_def)
  then have "r_start ?l \<le> r_start r" "r_start r \<le> r_end ?l + 1" "r_type ?l = r_type r"
    using True le by simp_all
  moreover have "covers merged b t \<longleftrightarrow> covers (butlast merged) b t \<or> covers [?l] b t"
    using m covers_simps(3) by metis
  ultimately show ?thesis using True by (auto simp: fs_merge_step_def)
qed (auto simp: fs_merge_step_def)

lemma merge_step_ok:
  assumes "\<forall>r\<in>set merged. r_ok r" "r_ok r" and "merged \<noteq> [] \<Longrightarrow> r_start (last merged) \<le> r_start r"
  shows "\<forall>r\<in>set (fs_merge_step merged r). r_ok r" "fs_merge_step merged r \<noteq> []"
    "r_start (last (fs_merge_step merged r)) \<le> r_start r"
proof -
  have "r_ok ((last merged)\<lparr>r_end := r_end r\<rparr>)" if "merged \<noteq> []"
    using that assms(1,2) last_in_set [OF that] by (auto simp: r_ok_def range_ok_def)
  then show "\<forall>r\<in>set (fs_merge_step merged r). r_ok r"
    using assms by (auto simp: fs_merge_step_def dest: in_set_butlastD)
  show "fs_merge_step merged r \<noteq> []" "r_start (last (fs_merge_step merged r)) \<le> r_start r"
    using assms(3) by (auto simp: fs_merge_step_def)
qed

lemma merge_covers:
  assumes "\<forall>r\<in>set merged. r_ok r" "\<forall>r\<in>set rs. r_ok r" "sorted (map r_start rs)"
    "\<forall>r\<in>set rs. merged \<noteq> [] \<longrightarrow> r_start (last merged) \<le> r_start r"
  shows "(covers (foldl fs_merge_step merged rs) b t \<longleftrightarrow> covers merged b t \<or> covers rs b t) \<and>
    (\<forall>r\<in>set (foldl fs_merge_step merged rs). r_ok r)"
  using assms
proof (induction rs arbitrary: merged)
  case (Cons r rs)
  have le: "merged \<noteq> [] \<Longrightarrow> r_start (last merged) \<le> r_start r" using Cons.prems(4) by simp
  have "r_ok r" using Cons.prems(2) by simp
  note step = merge_step_ok [OF Cons.prems(1) this le]
  have "\<forall>x\<in>set rs. fs_merge_step merged r \<noteq> [] \<longrightarrow> r_start (last (fs_merge_step merged r)) \<le> r_start x"
    using step(3) Cons.prems(2,3) by fastforce
  then show ?case
    using Cons.IH [of "fs_merge_step merged r"] step(1) Cons.prems merge_step_covers [OF Cons.prems(1) _ le]
    by auto
qed simp

lemma merged_covers:
  assumes "q_ok q" "\<forall>e\<in>set tab. fl_ok e"
  shows "covers (fs_lock_merge (fs_lock_sort (fs_lock_collect q tab))) b t \<longleftrightarrow>
    (if q_start q \<le> b \<and> b \<le> q_end q then t = q_type q \<and> q_type q \<noteq> F_UNLCK
     else holds tab (q_key q) (q_kind q) (q_owner q) b t)"
    "r \<in> set (fs_lock_merge (fs_lock_sort (fs_lock_collect q tab))) \<Longrightarrow> r_ok r"
proof -
  let ?sc = "fs_lock_sort (fs_lock_collect q tab)"
  have ok: "\<forall>r\<in>set ?sc. r_ok r"
    using collect_ok [OF assms] fs_lock_sort_spec(1) by (metis set_mset_mset)
  note m = merge_covers [of "[]" ?sc b t, OF _ ok fs_lock_sort_spec(2), folded fs_lock_merge_def]
  show "covers (fs_lock_merge ?sc) b t \<longleftrightarrow>
      (if q_start q \<le> b \<and> b \<le> q_end q then t = q_type q \<and> q_type q \<noteq> F_UNLCK
       else holds tab (q_key q) (q_kind q) (q_owner q) b t)"
    using m covers_mset [OF fs_lock_sort_spec(1)] collect_covers [OF assms] by simp
  show "r \<in> set (fs_lock_merge ?sc) \<Longrightarrow> r_ok r" using m by auto
qed

end
