(* ===== verification/File_Lock_Theorems.thy ===== *)
theory File_Lock_Theorems
  imports File_Lock_Ranges
begin

text \<open>
  The correctness of the file locks: a granted request changes the ownership of bytes exactly
  as POSIX prescribes, conflicting locks never coexist in a reachable state, queries agree
  with requests, and nothing is released without waking the waiters.
\<close>

subsection \<open>Writing the merged ranges back\<close>

lemma length_fs_lock_write [simp]: "length (fs_lock_write q tab ms) = length tab"
  by (induction q tab ms rule: fs_lock_write.induct) auto

lemma fs_lock_write_holds:
  "length ms \<le> length (filter (\<lambda>e. \<not> fl_used e) tab) \<Longrightarrow>
   holds (fs_lock_write q tab ms) key kind owner b t \<longleftrightarrow>
     holds tab key kind owner b t \<or> key = q_key q \<and> kind = q_kind q \<and> owner = q_owner q \<and> covers ms b t"
  by (induction q tab ms rule: fs_lock_write.induct) (auto split: if_splits)

lemma fs_lock_write_ok:
  "\<forall>e\<in>set tab. fl_ok e \<Longrightarrow> \<forall>r\<in>set ms. r_ok r \<Longrightarrow> \<forall>e\<in>set (fs_lock_write q tab ms). fl_ok e"
  by (induction q tab ms rule: fs_lock_write.induct) (auto simp: fl_ok_def r_ok_def)

lemma fs_lock_write_keeps: "e \<in> set tab \<Longrightarrow> fl_used e \<Longrightarrow> e \<in> set (fs_lock_write q tab ms)"
  by (induction q tab ms rule: fs_lock_write.induct) auto

definition withdraw :: "lock_req \<Rightarrow> fs_file_lock list \<Rightarrow> fs_file_lock list" where
  "withdraw q = map (\<lambda>e. if fs_lock_own q e then e\<lparr>fl_used := False\<rparr> else e)"

lemma withdraw_holds:
  "holds (withdraw q tab) key kind owner b t \<longleftrightarrow>
     holds tab key kind owner b t \<and> \<not> (key = q_key q \<and> kind = q_kind q \<and> owner = q_owner q)"
  by (induction tab) (auto simp: withdraw_def fs_lock_own_def)

lemma withdraw_ok: "\<forall>e\<in>set tab. fl_ok e \<Longrightarrow> \<forall>e\<in>set (withdraw q tab). fl_ok e"
  by (auto simp: withdraw_def fl_ok_def)

lemma length_withdraw [simp]: "length (withdraw q tab) = length tab"
  by (simp add: withdraw_def)

lemma withdraw_free:
  "length (filter (\<lambda>e. \<not> fl_used e) (withdraw q tab)) + used_locks tab =
     length tab + length (filter (fs_lock_own q) tab)"
  by (induction tab) (auto simp: withdraw_def used_locks_def fs_lock_own_def)

lemma own_le_used: "length (filter (fs_lock_own q) tab) \<le> used_locks tab"
  by (induction tab) (auto simp: used_locks_def fs_lock_own_def)

lemma install_cases:
  assumes "fs_lock_install q s = (r, s')"
  obtains (full) "r = Inl ENOLCK" "s' = s"
  | (ok) ms where "r = Inr ()" "ms = fs_lock_merge (fs_lock_sort (fs_lock_collect q (g_file_locks s)))"
      "used_locks (g_file_locks s) - length (filter (fs_lock_own q) (g_file_locks s)) + length ms \<le> FS_FILE_LOCK_MAX"
      "s' = bump_generation (filter (fs_lock_own q) (g_file_locks s) \<noteq> [] \<or> q_type q = F_UNLCK)
         (s\<lparr>g_file_locks := fs_lock_write q (withdraw q (g_file_locks s)) ms\<rparr>)"
  using assms
  by (auto simp: fs_lock_install_def Let_def withdraw_def not_less split: if_splits)

lemma bump_fields [simp]:
  "g_file_locks (bump_generation c s) = g_file_locks s"
  "g_bsd_flocks (bump_generation c s) = g_bsd_flocks s"
  by (simp_all add: bump_generation_def fs_lock_wake_waiters_def)

subsection \<open>The abstract lock map\<close>

type_synonym lock_map = "(u64 \<times> int \<times> u64 \<times> int \<times> int) set"

text \<open>Who owns which byte of which file with which type.\<close>

definition lock_view :: "fs_locks \<Rightarrow> lock_map" where
  "lock_view s = {(key, kind, owner, b, t). holds (g_file_locks s) key kind owner b t}"

text \<open>POSIX: the request replaces whatever its owner had on the bytes of its range.\<close>

definition posix_lock :: "lock_req \<Rightarrow> lock_map \<Rightarrow> lock_map" where
  "posix_lock q V =
     {(key, kind, owner, b, t) \<in> V.
        \<not> (key = q_key q \<and> kind = q_kind q \<and> owner = q_owner q \<and> q_start q \<le> b \<and> b \<le> q_end q)} \<union>
     (if q_type q = F_UNLCK then {}
      else {(q_key q, q_kind q, q_owner q, b, q_type q) | b. q_start q \<le> b \<and> b \<le> q_end q})"

definition table_ok :: "fs_locks \<Rightarrow> bool" where
  "table_ok s \<longleftrightarrow> length (g_file_locks s) = FS_FILE_LOCK_MAX \<and> (\<forall>e\<in>set (g_file_locks s). fl_ok e)"

lemma install_refines:
  assumes "table_ok s" "q_ok q" "fs_lock_install q s = (Inr (), s')"
  shows "lock_view s' = posix_lock q (lock_view s)" "table_ok s'" "g_bsd_flocks s' = g_bsd_flocks s"
proof -
  let ?tab = "g_file_locks s"
  define ms where "ms = fs_lock_merge (fs_lock_sort (fs_lock_collect q ?tab))"
  have ok: "\<forall>e\<in>set ?tab. fl_ok e" "length ?tab = FS_FILE_LOCK_MAX" using assms(1) by (auto simp: table_ok_def)
  from assms(3) have fits: "used_locks ?tab - length (filter (fs_lock_own q) ?tab) + length ms \<le> FS_FILE_LOCK_MAX"
    and s': "g_file_locks s' = fs_lock_write q (withdraw q ?tab) ms" "g_bsd_flocks s' = g_bsd_flocks s"
    by (auto elim!: install_cases simp: ms_def)
  have "length ms \<le> length (filter (\<lambda>e. \<not> fl_used e) (withdraw q ?tab))"
    using fits withdraw_free [of q ?tab] own_le_used [of q ?tab] ok(2) by linarith
  note w = fs_lock_write_holds [OF this, of q]
  note m = merged_covers [OF assms(2) ok(1), folded ms_def]
  show "lock_view s' = posix_lock q (lock_view s)"
    unfolding lock_view_def posix_lock_def s'(1) by (auto simp: w withdraw_holds m(1) split: if_splits)
  have "\<forall>r\<in>set ms. r_ok r" using m(2) by blast
  from fs_lock_write_ok [OF withdraw_ok [OF ok(1)] this] show "table_ok s'"
    using ok(2) by (simp add: table_ok_def s'(1))
  show "g_bsd_flocks s' = g_bsd_flocks s" by (rule s'(2))
qed

subsection \<open>The invariant\<close>

definition locks_exclusive :: "fs_locks \<Rightarrow> bool" where
  "locks_exclusive s \<longleftrightarrow> (\<forall>key k1 o1 k2 o2 b t1 t2.
     (key, k1, o1, b, t1) \<in> lock_view s \<and> (key, k2, o2, b, t2) \<in> lock_view s \<and> (k1, o1) \<noteq> (k2, o2) \<longrightarrow>
     t1 = F_RDLCK \<and> t2 = F_RDLCK)"

definition flocks_exclusive :: "fs_bsd_flock list \<Rightarrow> bool" where
  "flocks_exclusive tab \<longleftrightarrow> (\<forall>a\<in>set tab. \<forall>b\<in>set tab. bl_used a \<and> bl_used b \<and> bl_key a = bl_key b \<and>
     bl_owner a \<noteq> bl_owner b \<longrightarrow> bl_type a = F_RDLCK \<and> bl_type b = F_RDLCK)"

definition locks_inv :: "fs_locks \<Rightarrow> bool" where
  "locks_inv s \<longleftrightarrow> table_ok s \<and> locks_exclusive s \<and> flocks_exclusive (g_bsd_flocks s)"

lemma locks_exclusive_mono: "lock_view s' \<subseteq> lock_view s \<Longrightarrow> locks_exclusive s \<Longrightarrow> locks_exclusive s'"
  unfolding locks_exclusive_def by blast

lemma flocks_exclusive_mono:
  "flocks_exclusive tab \<Longrightarrow> (\<And>a. a \<in> set tab' \<Longrightarrow> bl_used a \<Longrightarrow> a \<in> set tab) \<Longrightarrow> flocks_exclusive tab'"
  unfolding flocks_exclusive_def by blast

lemma conflict_free_view:
  assumes none: "find (fs_lock_conflicts q) (g_file_locks s) = None"
    and v: "(q_key q, kd, ow, b, t) \<in> lock_view s" "q_start q \<le> b" "b \<le> q_end q" "(kd, ow) \<noteq> (q_kind q, q_owner q)"
  shows "t = F_RDLCK \<and> q_type q = F_RDLCK"
proof -
  obtain e where e: "e \<in> set (g_file_locks s)" "fl_used e" "fl_key e = q_key q" "fl_owner_kind e = kd"
    "fl_owner e = ow" "fl_start e \<le> b" "b \<le> fl_end e" "fl_type e = t"
    using v(1) by (auto simp: lock_view_def holds_def)
  then have "\<not> fs_lock_conflicts q e" using none by (auto simp: find_None_iff)
  moreover have "fs_lock_overlaps (fl_start e) (fl_end e) (q_start q) (q_end q)"
    using e v(2,3) by (simp add: fs_lock_overlaps_def)
  ultimately show ?thesis using e v(4) by (auto simp: fs_lock_conflicts_def)
qed

lemma posix_lock_exclusive:
  assumes ex: "locks_exclusive s" and view: "lock_view s' = posix_lock q (lock_view s)"
    and free: "q_type q \<noteq> F_UNLCK \<Longrightarrow> find (fs_lock_conflicts q) (g_file_locks s) = None"
  shows "locks_exclusive s'"
proof -
  define mine where "mine = (\<lambda>kd ow b key. key = q_key q \<and> kd = q_kind q \<and> ow = q_owner q \<and> q_start q \<le> b \<and> b \<le> q_end q)"
  have v: "(key, kd, ow, b, t) \<in> lock_view s' \<longleftrightarrow>
      (if mine kd ow b key then t = q_type q \<and> q_type q \<noteq> F_UNLCK else (key, kd, ow, b, t) \<in> lock_view s)"
    for key kd ow b t
    unfolding view posix_lock_def mine_def by auto
  have half: "t1 = F_RDLCK \<and> t2 = F_RDLCK"
    if "mine k1 o1 b key" "(key, k1, o1, b, t1) \<in> lock_view s'" "(key, k2, o2, b, t2) \<in> lock_view s'" "(k1, o1) \<noteq> (k2, o2)"
    for key k1 o1 k2 o2 b t1 t2
  proof -
    have "\<not> mine k2 o2 b key" using that by (auto simp: mine_def)
    then show ?thesis
      using that conflict_free_view [OF free, of k2 o2 b t2] by (auto simp: v mine_def)
  qed
  show ?thesis
    unfolding locks_exclusive_def
  proof (intro allI impI)
    fix key k1 o1 k2 o2 b t1 t2
    assume *: "(key, k1, o1, b, t1) \<in> lock_view s' \<and> (key, k2, o2, b, t2) \<in> lock_view s' \<and> (k1, o1) \<noteq> (k2, o2)"
    then show "t1 = F_RDLCK \<and> t2 = F_RDLCK"
      using half [of k1 o1 b key t1 k2 o2 t2] half [of k2 o2 b key t2 k1 o1 t1] ex
      by (cases "mine k1 o1 b key"; cases "mine k2 o2 b key") (auto simp: v locks_exclusive_def)
  qed
qed


subsection \<open>Every step keeps the invariant\<close>

lemma set_pass_cases:
  assumes "fs_locks_set_pass q wait prev n s = (r, s')"
  obtains (same) "s' = s" "\<And>x. r \<noteq> PassReturn (Inr x)"
  | (install) "q_type q \<noteq> F_UNLCK \<Longrightarrow> find (fs_lock_conflicts q) (g_file_locks s) = None"
      "r = PassReturn (Inr ())" "fs_lock_install q s = (Inr (), s')"
proof -
  let ?c = "if q_type q \<noteq> F_UNLCK then find (fs_lock_conflicts q) (g_file_locks s) else None"
  show thesis
  proof (cases ?c)
    case None
    obtain r' s1 where i: "fs_lock_install q s = (r', s1)" by fastforce
    then have eq: "r = PassReturn r'" "s' = s1" using assms None by (auto simp: fs_locks_set_pass_def)
    from i show thesis
    proof (cases rule: install_cases)
      case full
      then show thesis using same eq by simp
    next
      case (ok ms)
      then show thesis using install None i eq by (auto split: if_splits)
    qed
  next
    case (Some h)
    then show thesis using assms same by (auto simp: fs_locks_set_pass_def Let_def split: if_splits)
  qed
qed

lemma set_pass_inv:
  assumes "locks_inv s" "q_ok q" "fs_locks_set_pass q wait prev n s = (r, s')"
  shows "locks_inv s'"
  using assms(3)
proof (cases rule: set_pass_cases)
  case install
  note i = install_refines [OF _ assms(2) install(3)]
  show ?thesis
    using i assms(1) posix_lock_exclusive [OF _ i(1) install(1)] by (simp add: locks_inv_def)
qed (use assms in simp)

lemma release_inv:
  assumes "locks_inv s"
    "g_file_locks s' = map (\<lambda>e. if P e then e\<lparr>fl_used := False\<rparr> else e) (g_file_locks s)"
    "\<And>a. a \<in> set (g_bsd_flocks s') \<Longrightarrow> bl_used a \<Longrightarrow> a \<in> set (g_bsd_flocks s)"
  shows "locks_inv s'"
proof -
  have "lock_view s' \<subseteq> lock_view s"
    by (auto simp: lock_view_def holds_def assms(2) split: if_splits)
  moreover have "table_ok s'"
    using assms(1) by (auto simp: locks_inv_def table_ok_def assms(2) fl_ok_def)
  ultimately show ?thesis
    using assms(1) locks_exclusive_mono flocks_exclusive_mono [OF _ assms(3)]
    by (auto simp: locks_inv_def)
qed

lemma release_flocks_used: "a \<in> set (release_flocks vf tab) \<Longrightarrow> bl_used a \<Longrightarrow> a \<in> set tab"
  by (auto simp: release_flocks_def split: if_splits)

lemma update_first_SomeE:
  assumes "update_first P f xs = Some ys"
  obtains as x bs where "xs = as @ x # bs" "ys = as @ f x # bs" "P x" "\<forall>a\<in>set as. \<not> P a"
proof -
  have "\<exists>as x bs. xs = as @ x # bs \<and> ys = as @ f x # bs \<and> P x \<and> (\<forall>a\<in>set as. \<not> P a)"
    using assms
  proof (induction P f xs arbitrary: ys rule: update_first.induct)
    case (2 P f x xs)
    show ?case
    proof (cases "P x")
      case True
      then show ?thesis using 2 by (intro exI [of _ "[]"]) simp
    next
      case False
      then obtain zs where zs: "update_first P f xs = Some zs" "ys = x # zs" using 2 by auto
      from 2 (1) [OF False zs(1)] obtain as y bs
        where "xs = as @ y # bs" "zs = as @ f y # bs" "P y" "\<forall>a\<in>set as. \<not> P a" by blast
      then show ?thesis using False zs(2) by (intro exI [of _ "x # as"]) auto
    qed
  qed simp
  then show thesis using that by blast
qed

lemma flocks_exclusive_update:
  assumes ex: "flocks_exclusive tab" and none: "find (bl_conflicts f type) tab = None"
    and tab: "tab = as @ x # bs" "tab' = as @ y # bs"
    and y: "bl_used y" "bl_key y = fs_lock_key (Some f)" "bl_owner y = vf_addr f" "bl_type y = type"
  shows "flocks_exclusive tab'"
proof -
  have in_tab: "a \<in> set tab' \<Longrightarrow> a = y \<or> a \<in> set tab" for a using tab by auto
  have "type = F_RDLCK \<and> bl_type a = F_RDLCK"
    if "a \<in> set tab" "bl_used a" "bl_key a = bl_key y" "bl_owner a \<noteq> bl_owner y" for a
    using none that y by (auto simp: find_None_iff bl_conflicts_def)
  then show ?thesis using ex y(4) in_tab unfolding flocks_exclusive_def by metis
qed

lemma flock_pass_cases:
  assumes "fs_flock_pass f type nb s = (r, s')"
  obtains (same) "s' = s" "\<And>x. r \<noteq> PassReturn (Inr x)"
  | (changed) P g tab where "find (bl_conflicts f type) (g_bsd_flocks s) = None"
      "update_first P g (g_bsd_flocks s) = Some tab" "s' = bump_generation True (s\<lparr>g_bsd_flocks := tab\<rparr>)"
      "\<And>b. P b \<Longrightarrow> bl_used (g b) \<and> bl_key (g b) = fs_lock_key (Some f) \<and> bl_owner (g b) = vf_addr f \<and> bl_type (g b) = type"
proof (cases "find (bl_conflicts f type) (g_bsd_flocks s)")
  case None
  let ?P = "bl_owned (Some f)" and ?g = "\<lambda>b. b\<lparr>bl_type := type\<rparr>"
  let ?Q = "\<lambda>b. \<not> bl_used b"
  let ?h = "\<lambda>b. \<lparr>bl_used = True, bl_key = fs_lock_key (Some f), bl_owner = vf_addr f, bl_type = type\<rparr>"
  show thesis
  proof (cases "update_first ?P ?g (g_bsd_flocks s)")
    case (Some tab)
    show thesis
      by (rule changed [OF None Some]) (use assms None Some in \<open>simp_all add: fs_flock_pass_def bl_owned_def\<close>)
  next
    case none1: None
    show thesis
    proof (cases "update_first ?Q ?h (g_bsd_flocks s)")
      case (Some tab)
      show thesis
        by (rule changed [OF None Some]) (use assms None none1 Some in \<open>simp_all add: fs_flock_pass_def\<close>)
    next
      case none2: None
      then show thesis using assms None none1 by (intro same) (auto simp: fs_flock_pass_def)
    qed
  qed
next
  case (Some b)
  then show thesis using assms by (intro same) (auto simp: fs_flock_pass_def split: if_splits)
qed

lemma flock_pass_inv:
  assumes "locks_inv s" "fs_flock_pass f type nb s = (r, s')"
  shows "locks_inv s'"
  using assms(2)
proof (cases rule: flock_pass_cases)
  case (changed P g tab)
  from changed(2) obtain as x bs where u: "g_bsd_flocks s = as @ x # bs" "tab = as @ g x # bs" "P x"
    by (rule update_first_SomeE)
  have "flocks_exclusive tab"
    using flocks_exclusive_update [OF _ changed(1) u(1,2)] changed(4) [OF u(3)] assms(1)
    by (simp add: locks_inv_def)
  then show ?thesis
    using assms(1) changed(3) by (simp add: locks_inv_def table_ok_def locks_exclusive_def lock_view_def)
qed (use assms(1) in simp)

lemma release_locks_inv: "locks_inv s \<Longrightarrow> locks_inv (release_locks P s)"
  by (rule release_inv [where P = "\<lambda>e. fl_used e \<and> P e"]) (simp_all add: release_locks_def)

lemma release_file_inv: "locks_inv s \<Longrightarrow> locks_inv (fs_locks_release_file cur vf owner s)"
  by (rule release_inv [where P = "\<lambda>e. fl_used e \<and> (fl_owner_kind e = FS_LOCK_OWNER_OFD \<and> fl_owner e = owner \<or>
        fl_key e = fs_lock_key vf \<and> fl_owner_kind e = FS_LOCK_OWNER_PID \<and>
        fl_owner e = word_of_int (case cur of Some p \<Rightarrow> p | None \<Rightarrow> - 1))"])
    (simp_all add: fs_locks_release_file_def Let_def, use release_flocks_used in blast)

lemma lock_step_inv: "lock_step s s' \<Longrightarrow> locks_inv s \<Longrightarrow> locks_inv s'"
proof (induction rule: lock_step.induct)
  case (set_pass vf lk kind owner q wait prev n s r s')
  then show ?case using set_pass_inv fs_lock_request_ok by blast
next
  case (flock_pass type f nb s r s')
  then show ?case using flock_pass_inv by blast
next
  case (flock_unlock s f)
  then show ?case
    by (rule release_inv [where P = "\<lambda>_. False"]) (simp_all add: fs_flock_unlock_def, use release_flocks_used in blast)
next
  case (release_process s p)
  then show ?case by (simp add: fs_locks_release_process_def release_locks_inv)
next
  case (release_process_file s vf p)
  then show ?case by (simp add: fs_locks_release_process_file_def release_locks_inv)
next
  case (release_file s cur vf owner)
  then show ?case by (rule release_file_inv)
qed

lemma locks_boot_inv: "locks_inv locks_boot"
  by (auto simp: locks_inv_def locks_boot_def table_ok_def locks_exclusive_def lock_view_def
      flocks_exclusive_def holds_def fl_ok_def)

lemma lock_reachable_inv: "lock_reachable s \<Longrightarrow> locks_inv s"
  by (induction rule: lock_reachable.induct) (auto intro: locks_boot_inv lock_step_inv)


subsection \<open>The whole operation\<close>

lemma lock_reachable_steps: "lock_reachable s \<Longrightarrow> lock_step\<^sup>*\<^sup>* s s' \<Longrightarrow> lock_reachable s'"
  by (rotate_tac, induction rule: rtranclp_induct) (auto intro: locks_next)

definition waits_fair :: "(nat \<Rightarrow> lock_wait) \<Rightarrow> bool" where
  "waits_fair ws \<longleftrightarrow> (\<forall>n s. lock_step\<^sup>*\<^sup>* s (lw_others (ws n) s) \<and> lock_step\<^sup>*\<^sup>* s (lw_others_asleep (ws n) s))"

lemma fs_lock_wait_steps:
  assumes "waits_fair ws" "fs_lock_wait (ws n) s = (r, s')"
  shows "lock_step\<^sup>*\<^sup>* s s'"
proof -
  have o: "lock_step\<^sup>*\<^sup>* x (lw_others (ws n) x)" "lock_step\<^sup>*\<^sup>* x (lw_others_asleep (ws n) x)" for x
    using assms(1) by (simp_all add: waits_fair_def)
  have "s' \<in> {s, lw_others (ws n) s, lw_others_asleep (ws n) (lw_others (ws n) s)}"
    using assms(2) by (auto simp: fs_lock_wait_def Let_def split: if_splits)
  then show ?thesis using o rtranclp_trans [OF o(1) o(2)] by auto
qed

lemma set_loop_granted:
  assumes "waits_fair ws" "fs_locks_set_loop q wait ws prev n s = (Inr (), s')"
  shows "\<exists>s0. lock_step\<^sup>*\<^sup>* s s0 \<and> (q_type q \<noteq> F_UNLCK \<longrightarrow> find (fs_lock_conflicts q) (g_file_locks s0) = None) \<and>
    fs_lock_install q s0 = (Inr (), s')"
  using assms(2)
proof (induction n arbitrary: s prev)
  case (Suc n)
  obtain r s1 where p: "fs_locks_set_pass q wait prev (FS_LOCK_MAX_RETRIES - n) s = (r, s1)" by fastforce
  show ?case
  proof (cases r)
    case (PassReturn x)
    then have "x = Inr ()" "s1 = s'" using Suc.prems p by simp_all
    then show ?thesis using p PassReturn by (auto elim!: set_pass_cases)
  next
    case (PassWait b)
    then have s1: "s1 = s" using p by (auto elim!: set_pass_cases)
    obtain w s2 where w: "fs_lock_wait (ws n) s = (w, s2)" by fastforce
    then have "fs_locks_set_loop q wait ws b n s2 = (Inr (), s')"
      using Suc.prems p PassWait s1 by (cases w) simp_all
    from Suc.IH [OF this] show ?thesis
      using rtranclp_trans [OF fs_lock_wait_steps [OF assms(1) w]] by blast
  qed
qed simp

subsection \<open>Nothing is released in silence\<close>

lemma bump_changed:
  "c \<Longrightarrow> g_file_lock_generation (bump_generation c s) = g_file_lock_generation s + 1 \<and>
     lock_wakes (bump_generation c s) = lock_wakes s + 1"
  by (simp add: bump_generation_def fs_lock_wake_waiters_def)

definition announced :: "fs_locks \<Rightarrow> fs_locks \<Rightarrow> bool" where
  "announced s s' \<longleftrightarrow> g_file_lock_generation s' = g_file_lock_generation s + 1 \<and> lock_wakes s' = lock_wakes s + 1"

text \<open>A step that is not announced keeps every entry in use.\<close>

definition keeps :: "fs_locks \<Rightarrow> fs_locks \<Rightarrow> bool" where
  "keeps s s' \<longleftrightarrow> (\<forall>e\<in>set (g_file_locks s). fl_used e \<longrightarrow> e \<in> set (g_file_locks s')) \<and>
     (\<forall>b\<in>set (g_bsd_flocks s). bl_used b \<longrightarrow> b \<in> set (g_bsd_flocks s'))"

lemma keeps_refl [simp]: "keeps s s"
  by (simp add: keeps_def)

lemma bump_announced:
  assumes "\<not> c \<Longrightarrow> keeps s t" "g_file_lock_generation t = g_file_lock_generation s" "lock_wakes t = lock_wakes s"
  shows "announced s (bump_generation c t) \<or> keeps s (bump_generation c t)"
  using assms by (cases c) (simp_all add: announced_def bump_generation_def fs_lock_wake_waiters_def)

lemma set_pass_announced:
  assumes "fs_locks_set_pass q wait prev n s = (r, s')"
  shows "announced s s' \<or> keeps s s'"
  using assms
proof (cases rule: set_pass_cases)
  case install
  then show ?thesis
  proof (cases rule: install_cases [OF install(3)])
    case (2 ms)
    have "withdraw q tab = tab" if "filter (fs_lock_own q) tab = []" for tab
      using that by (auto simp: withdraw_def filter_empty_conv intro!: map_idI)
    then show ?thesis
      unfolding 2(4) by (intro bump_announced) (auto simp: keeps_def fs_lock_write_keeps)
  qed simp
qed simp

lemma flock_pass_announced:
  assumes "fs_flock_pass f type nb s = (r, s')"
  shows "announced s s' \<or> keeps s s'"
  using assms
proof (cases rule: flock_pass_cases)
  case (changed P g tab)
  then show ?thesis by (simp add: announced_def bump_changed)
qed simp

lemma map_unused_keeps:
  "\<not> list_ex P tab \<Longrightarrow> e \<in> set tab \<Longrightarrow> e \<in> set (map (\<lambda>e. if P e then f e else e) tab)"
  by (auto simp: list_ex_iff)

lemma lock_step_announced: "lock_step s s' \<Longrightarrow> announced s s' \<or> keeps s s'"
proof (induction rule: lock_step.induct)
  case (flock_unlock s f)
  show ?case unfolding fs_flock_unlock_def
    by (rule bump_announced) (simp_all add: keeps_def release_flocks_def map_unused_keeps del: set_map)
next
  case (release_process s p)
  show ?case unfolding fs_locks_release_process_def release_locks_def
    by (rule bump_announced) (simp_all add: keeps_def map_unused_keeps del: set_map)
next
  case (release_process_file s vf p)
  show ?case unfolding fs_locks_release_process_file_def release_locks_def
    by (rule bump_announced) (simp_all add: keeps_def map_unused_keeps del: set_map)
next
  case (release_file s cur vf owner)
  show ?case unfolding fs_locks_release_file_def Let_def
    by (rule bump_announced) (simp_all add: keeps_def release_flocks_def map_unused_keeps del: set_map)
next
  case (set_pass vf lk kind owner q wait prev n s r s')
  then show ?case using set_pass_announced by simp
next
  case (flock_pass type f nb s r s')
  then show ?case using flock_pass_announced by simp
qed


subsection \<open>A concrete history for the witnesses\<close>

definition demo_file :: vfile where
  "demo_file = \<lparr>vf_addr = 9, vf_vnode = Some \<lparr>vn_mnt = 64, vn_ino = 5, vn_stat_size = Some 100, vn_size = 0\<rparr>,
     vf_offset = 0\<rparr>"

definition demo_wrlock :: fs_flock where
  "demo_wrlock = \<lparr>l_type = F_WRLCK, l_whence = SEEK_SET, l_start = 10, l_len = 20, l_pid = 0\<rparr>"

definition demo_req :: "u64 \<Rightarrow> lock_req" where
  "demo_req p = \<lparr>q_key = 655373, q_kind = 1, q_owner = p, q_type = F_WRLCK, q_start = 10, q_end = 29\<rparr>"

definition demo_wait :: "nat \<Rightarrow> lock_wait" where
  "demo_wait n = \<lparr>lw_current = True, lw_signal_before = False, lw_prepared = True, lw_linked = True,
     lw_reason = PROC_WAKE_EVENT, lw_signal_after = False, lw_others = (\<lambda>s. s), lw_others_asleep = (\<lambda>s. s)\<rparr>"

lemma demo_waits_fair: "waits_fair demo_wait"
  by (simp add: waits_fair_def demo_wait_def)

lemma demo_request: "fs_lock_request (Some demo_file) (Some demo_wrlock) 1 p = Inr (demo_req p)"
  by (simp add: fs_lock_request_def demo_wrlock_def lock_type_ok_def fs_lock_range_of_def Let_def
      fs_lock_key_def demo_file_def demo_req_def SEEK_SET_def F_WRLCK_def INT64_MAX_def)

definition demo_locked :: fs_locks where
  "demo_locked = snd (fs_locks_set (Some demo_file) (Some demo_wrlock) 1 7 False True demo_wait locks_boot)"

lemma boot_table:
  "g_file_locks locks_boot =
     \<lparr>fl_used = False, fl_owner_kind = 0, fl_key = 0, fl_owner = 0, fl_type = 0, fl_start = 0, fl_end = 0\<rparr> #
     tl (g_file_locks locks_boot)"
  "length (g_file_locks locks_boot) = FS_FILE_LOCK_MAX" "\<forall>e\<in>set (g_file_locks locks_boot). \<not> fl_used e"
  by (simp_all add: locks_boot_def FS_FILE_LOCK_MAX_def tl_replicate replicate_Suc [symmetric] del: replicate_Suc)

lemma fs_lock_write_Nil [simp]: "fs_lock_write q tab [] = tab"
  by (cases tab) simp_all

lemma fs_lock_write_one:
  "fs_lock_write q (e # es) [m] = (if fl_used e then e # fs_lock_write q es [m] else
      \<lparr>fl_used = True, fl_owner_kind = q_kind q, fl_key = q_key q, fl_owner = q_owner q,
            fl_type = r_type m, fl_start = r_start m, fl_end = r_end m\<rparr> # es)"
  by (cases es) simp_all

lemma demo_install:
  "fs_lock_install (demo_req p) locks_boot = (Inr (), locks_boot\<lparr>g_file_locks :=
     \<lparr>fl_used = True, fl_owner_kind = 1, fl_key = 655373, fl_owner = p, fl_type = F_WRLCK, fl_start = 10, fl_end = 29\<rparr>
       # tl (g_file_locks locks_boot)\<rparr>)"
proof -
  let ?tab = "g_file_locks locks_boot"
  have own: "filter (fs_lock_own (demo_req p)) ?tab = []" "used_locks ?tab = 0"
    using boot_table(3) by (auto simp: filter_empty_conv fs_lock_own_def used_locks_def)
  have id: "map (\<lambda>e. if fs_lock_own (demo_req p) e then e\<lparr>fl_used := False\<rparr> else e) ?tab = ?tab"
    using own(1) by (intro map_idI) (auto simp: filter_empty_conv)
  have m: "fs_lock_merge (fs_lock_sort (fs_lock_collect (demo_req p) ?tab)) = [\<lparr>r_start = 10, r_end = 29, r_type = F_WRLCK\<rparr>]"
    unfolding fs_lock_collect_def own
    by (simp add: fs_lock_sort_def fs_lock_merge_def fs_merge_step_def demo_req_def F_UNLCK_def F_WRLCK_def)
  have w: "fs_lock_write (demo_req p) ?tab [\<lparr>r_start = 10, r_end = 29, r_type = F_WRLCK\<rparr>] =
     \<lparr>fl_used = True, fl_owner_kind = 1, fl_key = 655373, fl_owner = p, fl_type = F_WRLCK, fl_start = 10, fl_end = 29\<rparr>
       # tl ?tab"
    by (subst boot_table(1)) (simp add: fs_lock_write_one demo_req_def)
  show ?thesis
    unfolding fs_lock_install_def
    by (simp add: own id m w bump_generation_def Let_def FS_FILE_LOCK_MAX_def)
      (simp add: demo_req_def F_UNLCK_def F_WRLCK_def)
qed

lemma fs_locks_set_first:
  "fs_locks_set_loop q wait ws prev FS_LOCK_MAX_RETRIES s =
     (case fs_locks_set_pass q wait prev 1 s of
        (PassReturn r, s1) \<Rightarrow> (r, s1)
      | (PassWait blocker, s1) \<Rightarrow>
          (case fs_lock_wait (ws 1023) s1 of
             (Inl e, s2) \<Rightarrow> (Inl e, s2)
           | (Inr _, s2) \<Rightarrow> fs_locks_set_loop q wait ws blocker 1023 s2))"
  using fs_locks_set_loop.simps(2) [of q wait ws prev 1023 s] by (simp add: FS_LOCK_MAX_RETRIES_def)

lemma demo_set:
  "fs_locks_set (Some demo_file) (Some demo_wrlock) 1 7 w True demo_wait locks_boot = (Inr (), demo_locked)"
  "g_file_locks demo_locked =
     \<lparr>fl_used = True, fl_owner_kind = 1, fl_key = 655373, fl_owner = 7, fl_type = F_WRLCK, fl_start = 10, fl_end = 29\<rparr>
       # tl (g_file_locks locks_boot)"
proof -
  have "find (fs_lock_conflicts (demo_req 7)) (g_file_locks locks_boot) = None"
    using boot_table(3) by (auto simp: find_None_iff fs_lock_conflicts_def)
  then have p: "fs_locks_set_pass (demo_req 7) w 0 (Suc 0) locks_boot = (case fs_lock_install (demo_req 7) locks_boot of
      (r, s') \<Rightarrow> (PassReturn r, s'))" for w
    by (simp add: fs_locks_set_pass_def)
  have eq: "fs_locks_set (Some demo_file) (Some demo_wrlock) 1 7 w True demo_wait locks_boot =
      fs_lock_install (demo_req 7) locks_boot" for w
    by (simp add: fs_locks_set_def demo_request fs_locks_set_first p demo_install)
  show "fs_locks_set (Some demo_file) (Some demo_wrlock) 1 7 w True demo_wait locks_boot = (Inr (), demo_locked)"
    "g_file_locks demo_locked =
     \<lparr>fl_used = True, fl_owner_kind = 1, fl_key = 655373, fl_owner = 7, fl_type = F_WRLCK, fl_start = 10, fl_end = 29\<rparr>
       # tl (g_file_locks locks_boot)"
    by (simp_all add: demo_locked_def eq demo_install)
qed

lemma demo_locked_reachable: "lock_reachable demo_locked"
proof -
  obtain s0 where s0: "lock_step\<^sup>*\<^sup>* locks_boot s0" "fs_lock_install (demo_req 7) s0 = (Inr (), demo_locked)"
    "find (fs_lock_conflicts (demo_req 7)) (g_file_locks s0) = None"
    using set_loop_granted [OF demo_waits_fair, of "demo_req 7" False 0 FS_LOCK_MAX_RETRIES locks_boot demo_locked]
      demo_set(1) [of False]
    by (auto simp: fs_locks_set_def demo_request demo_req_def F_UNLCK_def F_WRLCK_def)
  have "fs_locks_set_pass (demo_req 7) False 0 1 s0 = (PassReturn (Inr ()), demo_locked)"
    using s0(2,3) by (simp add: fs_locks_set_pass_def)
  then show ?thesis
    using lock_reachable_steps [OF locks_init s0(1)] locks_next set_pass demo_request by blast
qed

subsection \<open>The properties\<close>

text \<open>
  C15.  Setting a record lock implements POSIX semantics.  When the call succeeds, even after
  waiting while other tasks used the tables, there was a reachable state without a conflicting
  lock in which it took effect: the owner now has exactly the requested type on the bytes of the
  range (or none, for an unlock), and the ownership of every other byte is unchanged.
\<close>

theorem fs_locks_set_refines:
  assumes "lock_reachable s" "waits_fair ws"
    and q: "fs_lock_request vf lk kind owner = Inr q"
    and run: "fs_locks_set vf lk kind owner wait mem ws s = (Inr (), s')"
  shows "\<exists>s0. lock_step\<^sup>*\<^sup>* s s0 \<and> lock_view s' = posix_lock q (lock_view s0) \<and>
    (\<forall>kd ow b t. (q_key q, kd, ow, b, t) \<in> lock_view s0 \<and> q_start q \<le> b \<and> b \<le> q_end q \<and>
       (kd, ow) \<noteq> (kind, owner) \<and> q_type q \<noteq> F_UNLCK \<longrightarrow> t = F_RDLCK \<and> q_type q = F_RDLCK)"
proof -
  have "fs_locks_set_loop q wait ws 0 FS_LOCK_MAX_RETRIES s = (Inr (), s')"
    using run q by (simp add: fs_locks_set_def split: if_splits)
  from set_loop_granted [OF assms(2) this] obtain s0 where s0: "lock_step\<^sup>*\<^sup>* s s0"
    "q_type q \<noteq> F_UNLCK \<longrightarrow> find (fs_lock_conflicts q) (g_file_locks s0) = None"
    "fs_lock_install q s0 = (Inr (), s')" by blast
  have "table_ok s0"
    using lock_reachable_inv [OF lock_reachable_steps [OF assms(1) s0(1)]] by (simp add: locks_inv_def)
  from install_refines(1) [OF this fs_lock_request_ok [OF q] s0(3)]
  have "lock_view s' = posix_lock q (lock_view s0)" .
  moreover have "q_kind q = kind" "q_owner q = owner"
    using q by (auto simp: fs_lock_request_def split: option.splits if_splits sum.splits)
  ultimately show ?thesis using s0(1,2) conflict_free_view by blast
qed

theorem fs_locks_set_refines_witness:
  "\<exists>s0. lock_step\<^sup>*\<^sup>* locks_boot s0 \<and> lock_view demo_locked = posix_lock (demo_req 7) (lock_view s0)"
  using fs_locks_set_refines [OF locks_init demo_waits_fair demo_request demo_set(1)] by blast

text \<open>
  C16.  Locks exclude each other.  In every reachable state, two different owners hold record
  locks on the same byte of the same file only when both are read locks, and two open files hold
  a whole-file lock on the same file only when both are shared.
\<close>

theorem locks_exclusion:
  assumes "lock_reachable s"
  shows "((key, k1, o1, b, t1) \<in> lock_view s \<and> (key, k2, o2, b, t2) \<in> lock_view s \<and> (k1, o1) \<noteq> (k2, o2) \<longrightarrow>
      t1 = F_RDLCK \<and> t2 = F_RDLCK) \<and>
    (\<forall>x\<in>set (g_bsd_flocks s). \<forall>y\<in>set (g_bsd_flocks s). bl_used x \<and> bl_used y \<and> bl_key x = bl_key y \<and>
      bl_owner x \<noteq> bl_owner y \<longrightarrow> bl_type x = F_RDLCK \<and> bl_type y = F_RDLCK)"
  using lock_reachable_inv [OF assms]
  by (auto simp: locks_inv_def locks_exclusive_def flocks_exclusive_def)

theorem locks_exclusion_witness:
  "(655373, 1, 7, 15, F_WRLCK) \<in> lock_view demo_locked \<and>
   \<not> (655373, 1, 8, 15, F_RDLCK) \<in> lock_view demo_locked"
  using locks_exclusion [OF demo_locked_reachable, of 655373 1 7 15 F_WRLCK 1 8 F_RDLCK]
  by (auto simp: lock_view_def demo_set(2) F_WRLCK_def F_RDLCK_def)

text \<open>A held lock that stands against a lock of type \<open>ty\<close> on the bytes from \<open>a\<close> to \<open>b\<close> of a file:
  another owner's, on the same file, sharing a byte with the range, and one of the two for
  writing.\<close>

definition stands_against :: "u64 \<Rightarrow> int \<times> u64 \<Rightarrow> int \<Rightarrow> int \<Rightarrow> int \<Rightarrow> fs_file_lock \<Rightarrow> bool" where
  "stands_against key owner ty a b e \<longleftrightarrow> fl_used e \<and> fl_key e = key \<and> (fl_owner_kind e, fl_owner e) \<noteq> owner \<and>
     fl_start e \<le> b \<and> a \<le> fl_end e \<and> (fl_type e = F_WRLCK \<or> ty = F_WRLCK)"

text \<open>
  C17.  A query agrees with a request.  For a read or a write lock on a range, the query answers
  that the range is free, changing only the type, exactly when no lock of another owner stands
  against it (shares a byte with it, one of the two for writing); and then setting the same lock
  without waiting does not fail with EAGAIN.  Otherwise setting it fails with EAGAIN, and the
  query describes one of the locks that stand against it: its type, its start counted from the
  beginning of the file, its length, with 0 for a lock to the end of the file, and the process
  that holds it, with -1 for a lock of an open file.
\<close>

theorem fs_locks_get_agrees:
  assumes "lock_reachable s" "l_type lk = F_RDLCK \<or> l_type lk = F_WRLCK"
    and get: "fs_locks_get vf (Some lk) kind owner s = Inr lk'"
    and set: "fs_locks_set vf (Some lk) kind owner False True ws s = (r, s')"
  shows "\<exists>a b. fs_lock_range_of vf lk = Inr (a, b) \<and>
    (if l_type lk' = F_UNLCK
     then lk' = lk\<lparr>l_type := F_UNLCK\<rparr> \<and> r \<noteq> Inl EAGAIN \<and>
       \<not> (\<exists>e\<in>set (g_file_locks s). stands_against (fs_lock_key vf) (kind, owner) (l_type lk) a b e)
     else r = Inl EAGAIN \<and>
       (\<exists>e\<in>set (g_file_locks s). stands_against (fs_lock_key vf) (kind, owner) (l_type lk) a b e \<and>
          lk' = \<lparr>l_type = fl_type e, l_whence = SEEK_SET, l_start = fl_start e,
                 l_len = (if fl_end e = INT64_MAX then 0 else wrap64 (fl_end e - fl_start e + 1)),
                 l_pid = (if fl_owner_kind e = FS_LOCK_OWNER_PID then sint (ucast (fl_owner e) :: u32) else - 1)\<rparr>))"
proof -
  obtain q where q: "fs_lock_request vf (Some lk) kind owner = Inr q"
    using get by (auto simp: fs_locks_get_def split: sum.splits)
  obtain a b where ab: "fs_lock_range_of vf lk = Inr (a, b)"
    and qe: "q = \<lparr>q_key = fs_lock_key vf, q_kind = kind, q_owner = owner, q_type = l_type lk, q_start = a, q_end = b\<rparr>"
    using q by (auto simp: fs_lock_request_def split: if_splits sum.splits)
  have nu: "q_type q \<noteq> F_UNLCK" using qe assms(2) by (auto simp: F_UNLCK_def F_RDLCK_def F_WRLCK_def)
  have ty: "fl_type e = F_RDLCK \<or> fl_type e = F_WRLCK" if "e \<in> set (g_file_locks s)" "fl_used e" for e
    using lock_reachable_inv [OF assms(1)] that by (auto simp: locks_inv_def table_ok_def fl_ok_def)
  have con: "fs_lock_conflicts q e \<longleftrightarrow> stands_against (fs_lock_key vf) (kind, owner) (l_type lk) a b e"
    if "e \<in> set (g_file_locks s)" for e
    using ty [OF that] assms(2)
    by (auto simp: fs_lock_conflicts_def stands_against_def fs_lock_overlaps_def qe F_RDLCK_def F_WRLCK_def)
  show ?thesis
  proof (cases "find (fs_lock_conflicts q) (g_file_locks s)")
    case None
    obtain x y where i: "fs_lock_install q s = (x, y)" by fastforce
    then have "x \<noteq> Inl EAGAIN" by (auto elim!: install_cases)
    moreover have "r = x" using set q nu None i by (simp add: fs_locks_set_def fs_locks_set_first fs_locks_set_pass_def)
    ultimately show ?thesis using get q None ab con by (auto simp: fs_locks_get_def find_None_iff)
  next
    case (Some h)
    then have h: "h \<in> set (g_file_locks s)" "fs_lock_conflicts q h"
      by (auto simp: find_Some_iff)
    have "fl_type h \<noteq> F_UNLCK"
      using ty [OF h(1)] h(2) by (auto simp: fs_lock_conflicts_def F_UNLCK_def F_RDLCK_def F_WRLCK_def)
    moreover have "r = Inl EAGAIN" using set q Some nu by (simp add: fs_locks_set_def fs_locks_set_first fs_locks_set_pass_def)
    ultimately show ?thesis
      using get q Some h ab con [OF h(1)] by (auto simp: fs_locks_get_def intro!: bexI [of _ h])
  qed
qed

theorem fs_locks_get_agrees_witness:
  "(case fs_locks_get (Some demo_file) (Some demo_wrlock) 1 8 demo_locked of
      Inr lk' \<Rightarrow> l_type lk' = F_WRLCK \<and> l_start lk' = 10 \<and> l_len lk' = 20 \<and> l_pid lk' = 7 | Inl _ \<Rightarrow> False) \<and>
   fst (fs_locks_set (Some demo_file) (Some demo_wrlock) 1 8 False True demo_wait demo_locked) = Inl EAGAIN"
proof -
  let ?h = "\<lparr>fl_used = True, fl_owner_kind = 1, fl_key = 655373, fl_owner = 7, fl_type = F_WRLCK, fl_start = 10, fl_end = 29\<rparr>"
  have "fs_lock_conflicts (demo_req 8) ?h"
    by (simp add: fs_lock_conflicts_def demo_req_def fs_lock_overlaps_def F_WRLCK_def F_RDLCK_def)
  then have g: "fs_locks_get (Some demo_file) (Some demo_wrlock) 1 8 demo_locked =
      Inr (demo_wrlock\<lparr>l_type := F_WRLCK, l_whence := SEEK_SET, l_start := 10, l_len := 20, l_pid := 7\<rparr>)"
    by (simp add: fs_locks_get_def demo_request demo_set(2) FS_LOCK_OWNER_PID_def INT64_MAX_def)
  have "l_type demo_wrlock = F_WRLCK" by (simp add: demo_wrlock_def)
  from fs_locks_get_agrees [OF demo_locked_reachable disjI2 [OF this] g prod.collapse [symmetric], of demo_wait]
  show ?thesis by (auto simp: g F_UNLCK_def F_WRLCK_def)
qed

text \<open>
  C18.  No release goes unnoticed.  Whenever a step of any task removes the last lock that
  conflicts with a waiting request, for a record lock or a whole-file lock, it counts the
  generation up by one and wakes all waiters, so that a task which tests the generation before it
  sleeps cannot sleep through the release.
\<close>

theorem lock_release_announced:
  assumes "lock_step s s'"
    and "(\<exists>e\<in>set (g_file_locks s). fs_lock_conflicts q e) \<and> \<not> (\<exists>e\<in>set (g_file_locks s'). fs_lock_conflicts q e) \<or>
      (\<exists>b\<in>set (g_bsd_flocks s). bl_conflicts f type b) \<and> \<not> (\<exists>b\<in>set (g_bsd_flocks s'). bl_conflicts f type b)"
  shows "g_file_lock_generation s' = g_file_lock_generation s + 1 \<and> lock_wakes s' = lock_wakes s + 1"
proof -
  have "\<not> keeps s s'"
    using assms(2) by (auto simp: keeps_def fs_lock_conflicts_def bl_conflicts_def)
  then show ?thesis using lock_step_announced [OF assms(1)] by (simp add: announced_def)
qed

theorem lock_release_announced_witness:
  "lock_wakes (fs_locks_release_process 7 demo_locked) = lock_wakes demo_locked + 1"
proof -
  let ?h = "\<lparr>fl_used = True, fl_owner_kind = 1, fl_key = 655373, fl_owner = 7, fl_type = F_WRLCK, fl_start = 10, fl_end = 29\<rparr>"
  have "fs_lock_conflicts (demo_req 8) ?h"
    by (simp add: fs_lock_conflicts_def demo_req_def fs_lock_overlaps_def F_WRLCK_def F_RDLCK_def)
  then have "\<exists>e\<in>set (g_file_locks demo_locked). fs_lock_conflicts (demo_req 8) e"
    by (simp add: demo_set(2))
  moreover have "\<not> (\<exists>e\<in>set (g_file_locks (fs_locks_release_process 7 demo_locked)). fs_lock_conflicts (demo_req 8) e)"
    by (auto simp: fs_locks_release_process_def release_locks_def demo_set(2) locks_boot_def FS_LOCK_OWNER_PID_def
        fs_lock_conflicts_def tl_replicate split: if_splits)
  ultimately show ?thesis
    using lock_release_announced [OF release_process [of demo_locked 7], of "demo_req 8"] by blast
qed

end
