(* ===== verification/Pipe.thy ===== *)
theory Pipe
  imports Prelude
begin

text \<open>
  Pipes (kernel/fs/pipe.c): a ring buffer with a blocking reader and writer end.  The buffer's
  spinlock makes each piece of code between locking and unlocking one step.  Where an operation
  lets the lock go, to sleep or to wake the other side, what other tasks do in between is part
  of a \<open>pipe_env\<close>, one for every time; an operation that is given too few of them has not
  returned yet and its value is \<^const>\<open>None\<close>.  Sizes are natural numbers: they are bounded by the
  memory of the buffer and the length of the caller's data.  Waking a wait queue, the native
  event and the signal are entries of a log.
\<close>

unbundle bit_operations_syntax

subsection \<open>State\<close>

definition PIPE_BUF_SIZE :: nat where "PIPE_BUF_SIZE = 4096"
definition PIPE_DEFAULT_SIZE :: nat where "PIPE_DEFAULT_SIZE = 16 * PIPE_BUF_SIZE"
definition POLLIN :: u16 where "POLLIN = 0x001"
definition POLLOUT :: u16 where "POLLOUT = 0x004"
definition POLLERR :: u16 where "POLLERR = 0x008"
definition POLLHUP :: u16 where "POLLHUP = 0x010"
definition POLLNVAL :: u16 where "POLLNVAL = 0x020"

datatype pipe_event =
    WakeReaders | WakeWriters | NotifyReadable int | NotifyWritable int | SigPipe

record pipe_buf =
  pdata :: "u8 list"
  capacity :: nat
  head :: nat
  tail :: nat
  used :: nat
  logical_size :: nat
  writer_closed :: bool
  reader_closed :: bool
  pref :: int
  read_fd :: int
  write_fd :: int
  pfreed :: bool
  plog :: "pipe_event list"

text \<open>A file that may be one end of a pipe: its operations table, whether it has a buffer, and
  its \<^verbatim>\<open>O_NONBLOCK\<close> flag.\<close>

datatype pipe_ops = READ_OPS | WRITE_OPS | OTHER_OPS

record pfile =
  pf_ops :: pipe_ops
  pf_priv :: bool
  pf_nonblock :: bool

text \<open>The conversion of a \<^verbatim>\<open>size_t\<close> to the \<^verbatim>\<open>int\<close> that is returned.\<close>

definition int_ret :: "nat \<Rightarrow> int" where
  "int_ret n = signed_take_bit 31 (int n)"

subsection \<open>Waking\<close>

definition log_events :: "pipe_event list \<Rightarrow> pipe_buf \<Rightarrow> pipe_buf" where
  "log_events es pb = pb\<lparr>plog := plog pb @ es\<rparr>"

definition pipe_wake_readers :: "pipe_buf \<Rightarrow> pipe_buf" where
  "pipe_wake_readers pb =
     log_events (WakeReaders # (if read_fd pb \<ge> 0 then [NotifyReadable (read_fd pb)] else [])) pb"

definition pipe_wake_writers :: "pipe_buf \<Rightarrow> pipe_buf" where
  "pipe_wake_writers pb =
     log_events (WakeWriters # (if write_fd pb \<ge> 0 then [NotifyWritable (write_fd pb)] else [])) pb"

subsection \<open>Waiting\<close>

datatype pipe_queue = ReadQ | WriteQ

record pipe_env =
  pe_current :: bool
  pe_signal_before :: bool
  pe_prepared :: bool
  pe_signal_mid :: bool
  pe_linked :: bool
  pe_reason :: wake_reason
  pe_signal_after :: bool
  pe_others :: "pipe_buf \<Rightarrow> pipe_buf"
  pe_others_asleep :: "pipe_buf \<Rightarrow> pipe_buf"

definition pipe_should_wait :: "pipe_queue \<Rightarrow> nat \<Rightarrow> pipe_buf \<Rightarrow> bool" where
  "pipe_should_wait wq needed pb = (case wq of
       ReadQ \<Rightarrow> used pb = 0 \<and> \<not> writer_closed pb
     | WriteQ \<Rightarrow> capacity pb - used pb < needed \<and> \<not> reader_closed pb)"

definition pipe_wait_interruptible_locked ::
  "pipe_queue \<Rightarrow> nat \<Rightarrow> pipe_env \<Rightarrow> pipe_buf \<Rightarrow> (errno + unit) \<times> pipe_buf" where
  "pipe_wait_interruptible_locked wq needed e pb =
     (if \<not> pe_current e then (Inr (), pe_others e pb)
      else if pe_signal_before e then (Inl ERESTARTSYS, pb)
      else
        let pb1 = pe_others e pb
        in if \<not> pe_prepared e then (Inr (), pb1)
           else if \<not> pipe_should_wait wq needed pb1 \<or> pe_signal_mid e
           then (if pe_signal_mid e then Inl ERESTARTSYS else Inr (), pe_others_asleep e pb1)
           else
             let pb2 = pe_others_asleep e pb1;
                 reason = (if pe_linked e then pe_reason e else PROC_WAKE_CANCEL)
             in if proc_wake_reason_is_task_interrupt reason \<or> pe_signal_after e
                then (Inl ERESTARTSYS, pb2) else (Inr (), pb2))"

subsection \<open>The ring\<close>

text \<open>The two copies out of the buffer, from the tail and from the start.\<close>

definition ring_peek :: "nat \<Rightarrow> pipe_buf \<Rightarrow> u8 list" where
  "ring_peek n pb =
     (let first = (if capacity pb - tail pb > n then n else capacity pb - tail pb);
          second = n - first
      in take first (drop (tail pb) (pdata pb)) @ take second (pdata pb))"

definition ring_advance :: "nat \<Rightarrow> pipe_buf \<Rightarrow> pipe_buf" where
  "ring_advance n pb = pb\<lparr>tail := (tail pb + n) mod capacity pb, used := used pb - n\<rparr>"

text \<open>\<^verbatim>\<open>memcpy(dst + off, src, n)\<close>\<close>

definition blit :: "'a list \<Rightarrow> nat \<Rightarrow> 'a list \<Rightarrow> 'a list" where
  "blit src off dst = take off dst @ src @ drop (off + length src) dst"

definition ring_put :: "u8 list \<Rightarrow> pipe_buf \<Rightarrow> pipe_buf" where
  "ring_put bs pb =
     (let chunk = length bs;
          first = (if capacity pb - head pb > chunk then chunk else capacity pb - head pb);
          d1 = blit (take first bs) (head pb) (pdata pb);
          d2 = (if chunk - first \<noteq> 0 then blit (drop first bs) 0 d1 else d1)
      in pb\<lparr>pdata := d2, head := (head pb + chunk) mod capacity pb, used := used pb + chunk\<rparr>)"

subsection \<open>Reading\<close>

text \<open>The loop that waits for data, shared by reading and peeking: \<open>Inr False\<close> is the end of the
  stream.\<close>

fun pipe_wait_data :: "bool \<Rightarrow> pipe_env list \<Rightarrow> pipe_buf \<Rightarrow> ((errno + bool) \<times> pipe_buf) option" where
  "pipe_wait_data nonblock envs pb =
     (if used pb \<noteq> 0 then Some (Inr True, pb)
      else if writer_closed pb then Some (Inr False, pb)
      else if nonblock then Some (Inl EAGAIN, pb)
      else case envs of
             [] \<Rightarrow> None
           | e # es \<Rightarrow>
               (case pipe_wait_interruptible_locked ReadQ 1 e pb of
                  (Inl err, pb1) \<Rightarrow> Some (Inl err, pb1)
                | (Inr _, pb1) \<Rightarrow> pipe_wait_data nonblock es pb1))"

declare pipe_wait_data.simps [simp del]

text \<open>The result and the bytes copied to the caller's buffer.\<close>

definition pipe_read ::
  "pfile \<Rightarrow> nat \<Rightarrow> pipe_env list \<Rightarrow> pipe_buf \<Rightarrow> (((errno + int) \<times> u8 list) \<times> pipe_buf) option" where
  "pipe_read vf cnt envs pb =
     (if \<not> pf_priv vf then Some ((Inl EBADF, []), pb)
      else if cnt = 0 then Some ((Inr 0, []), pb)
      else case pipe_wait_data (pf_nonblock vf) envs pb of
             None \<Rightarrow> None
           | Some (Inl err, pb1) \<Rightarrow> Some ((Inl err, []), pb1)
           | Some (Inr False, pb1) \<Rightarrow> Some ((Inr 0, []), pb1)
           | Some (Inr True, pb1) \<Rightarrow>
               let n = (if used pb1 < cnt then used pb1 else cnt)
               in Some ((Inr (int_ret n), ring_peek n pb1), pipe_wake_writers (ring_advance n pb1)))"

definition pipe_vfile_is :: "pfile \<Rightarrow> bool" where
  "pipe_vfile_is vf \<longleftrightarrow> pf_ops vf = READ_OPS \<or> pf_ops vf = WRITE_OPS"

definition pipe_peek ::
  "pfile option \<Rightarrow> nat \<Rightarrow> pipe_env list \<Rightarrow> pipe_buf \<Rightarrow> (((errno + int) \<times> u8 list) \<times> pipe_buf) option" where
  "pipe_peek vf cnt envs pb = (case vf of
       None \<Rightarrow> Some ((Inl EINVAL, []), pb)
     | Some f \<Rightarrow>
         if \<not> pf_priv f \<or> \<not> pipe_vfile_is f then Some ((Inl EINVAL, []), pb)
         else if cnt = 0 then Some ((Inr 0, []), pb)
         else case pipe_wait_data (pf_nonblock f) envs pb of
                None \<Rightarrow> None
              | Some (Inl err, pb1) \<Rightarrow> Some ((Inl err, []), pb1)
              | Some (Inr False, pb1) \<Rightarrow> Some ((Inr 0, []), pb1)
              | Some (Inr True, pb1) \<Rightarrow>
                  let n = (if used pb1 < cnt then used pb1 else cnt)
                  in Some ((Inr (int_ret n), ring_peek n pb1), pb1))"

subsection \<open>Writing\<close>

text \<open>The loop of \<^verbatim>\<open>pipe_write\<close> with \<open>n\<close> bytes done.  Its two branches differ in the space they wait
  for: all of a remainder that fits \<^verbatim>\<open>PIPE_BUF_SIZE\<close>, one byte of a longer one.  \<open>cur\<close> tells whether
  there is a current task to signal.\<close>

fun pipe_write_loop ::
  "bool \<Rightarrow> bool \<Rightarrow> u8 list \<Rightarrow> nat \<Rightarrow> pipe_env list \<Rightarrow> pipe_buf \<Rightarrow> ((errno + int) \<times> pipe_buf) option" where
  "pipe_write_loop nonblock cur buf n envs pb =
     (if n \<ge> length buf then Some (Inr (int_ret n), pb)
      else
        let remaining = length buf - n;
            space = capacity pb - used pb;
            needed = (if remaining \<le> PIPE_BUF_SIZE then remaining else 1)
        in if space < needed then
             if reader_closed pb then
               if n > 0 then Some (Inr (int_ret n), pb)
               else Some (Inl EPIPE, if cur then log_events [SigPipe] pb else pb)
             else if nonblock then Some (if n \<noteq> 0 then Inr (int_ret n) else Inl EAGAIN, pb)
             else (case envs of
                     [] \<Rightarrow> None
                   | e # es \<Rightarrow>
                       (case pipe_wait_interruptible_locked WriteQ needed e pb of
                          (Inl err, pb1) \<Rightarrow> Some (if n \<noteq> 0 then Inr (int_ret n) else Inl err, pb1)
                        | (Inr _, pb1) \<Rightarrow> pipe_write_loop nonblock cur buf n es pb1))
           else
             let chunk = (if remaining < space then remaining else space);
                 pb1 = pipe_wake_readers (ring_put (take chunk (drop n buf)) pb)
             in if n + chunk \<ge> length buf then Some (Inr (int_ret (n + chunk)), pb1)
                else (case envs of
                        [] \<Rightarrow> None
                      | e # es \<Rightarrow> pipe_write_loop nonblock cur buf (n + chunk) es (pe_others e pb1)))"

declare pipe_write_loop.simps [simp del]

definition pipe_write ::
  "pfile \<Rightarrow> bool \<Rightarrow> u8 list \<Rightarrow> pipe_env list \<Rightarrow> pipe_buf \<Rightarrow> ((errno + int) \<times> pipe_buf) option" where
  "pipe_write vf cur buf envs pb =
     (if \<not> pf_priv vf then Some (Inl EBADF, pb)
      else if length buf = 0 then Some (Inr 0, pb)
      else if reader_closed pb then Some (Inl EPIPE, if cur then log_events [SigPipe] pb else pb)
      else pipe_write_loop (pf_nonblock vf) cur buf 0 envs pb)"

subsection \<open>Resizing\<close>

definition pipe_move :: "u8 list \<Rightarrow> nat \<Rightarrow> pipe_buf \<Rightarrow> pipe_buf" where
  "pipe_move new_data new_capacity pb =
     pb\<lparr>pdata := map (\<lambda>i. pdata pb ! ((tail pb + i) mod capacity pb)) [0..<used pb] @ drop (used pb) new_data,
        capacity := new_capacity, logical_size := new_capacity, tail := 0,
        head := used pb mod new_capacity\<rparr>"

text \<open>\<open>mem\<close> is the new memory, if there is any; \<open>others\<close> is what happens while it is allocated.\<close>

definition pipe_resize ::
  "nat \<Rightarrow> u8 list option \<Rightarrow> (pipe_buf \<Rightarrow> pipe_buf) \<Rightarrow> pipe_buf \<Rightarrow> (errno + int) \<times> pipe_buf" where
  "pipe_resize sz mem others pb =
     (let new_capacity = (if sz < PIPE_BUF_SIZE then PIPE_BUF_SIZE else sz)
      in if new_capacity < used pb then (Inl EBUSY, pb)
         else if new_capacity = capacity pb
         then (Inr (int_ret new_capacity), pb\<lparr>logical_size := new_capacity\<rparr>)
         else case mem of
                None \<Rightarrow> (Inl ENOMEM, pb)
              | Some new_data \<Rightarrow>
                  let pb1 = others pb
                  in if new_capacity < used pb1 then (Inl EBUSY, pb1)
                     else if new_capacity = capacity pb1
                     then (Inr (int_ret new_capacity), pb1\<lparr>logical_size := new_capacity\<rparr>)
                     else (Inr (int_ret new_capacity), pipe_move new_data new_capacity pb1))"

definition pipe_set_size ::
  "pfile \<Rightarrow> nat \<Rightarrow> u8 list option \<Rightarrow> (pipe_buf \<Rightarrow> pipe_buf) \<Rightarrow> pipe_buf \<Rightarrow> (errno + int) \<times> pipe_buf" where
  "pipe_set_size vf sz mem others pb =
     (if \<not> pipe_vfile_is vf \<or> \<not> pf_priv vf then (Inl EINVAL, pb) else pipe_resize sz mem others pb)"

definition pipe_get_available :: "pfile \<Rightarrow> pipe_buf \<Rightarrow> errno + int" where
  "pipe_get_available vf pb =
     (if \<not> pipe_vfile_is vf \<or> \<not> pf_priv vf then Inl EINVAL else Inr (int_ret (used pb)))"

definition pipe_get_size :: "pfile \<Rightarrow> pipe_buf \<Rightarrow> errno + int" where
  "pipe_get_size vf pb =
     (if \<not> pipe_vfile_is vf \<or> \<not> pf_priv vf then Inl EINVAL
      else Inr (if logical_size pb \<noteq> 0 then int_ret (logical_size pb) else int PIPE_BUF_SIZE))"

subsection \<open>Closing, polling, creating\<close>

definition pipe_drop_ref :: "pipe_buf \<Rightarrow> pipe_buf" where
  "pipe_drop_ref pb = pb\<lparr>pref := pref pb - 1, pfreed := (pfreed pb \<or> pref pb - 1 = 0)\<rparr>"

text \<open>\<open>final\<close>: no reference to the file is left.\<close>

definition pipe_read_close :: "bool \<Rightarrow> pipe_buf \<Rightarrow> pipe_buf" where
  "pipe_read_close final pb =
     (let pb1 = (if final then pb\<lparr>reader_closed := True\<rparr> else pb)
      in pipe_drop_ref (if final then pipe_wake_writers pb1 else pb1))"

definition pipe_write_close :: "bool \<Rightarrow> pipe_buf \<Rightarrow> pipe_buf" where
  "pipe_write_close final pb =
     (let pb1 = (if final then pb\<lparr>writer_closed := True\<rparr> else pb)
      in pipe_drop_ref (if final then pipe_wake_readers pb1 else pb1))"

definition pipe_poll_events :: "pfile \<Rightarrow> u16 \<Rightarrow> pipe_buf \<Rightarrow> u16" where
  "pipe_poll_events vf events pb =
     (if \<not> pipe_vfile_is vf \<or> \<not> pf_priv vf then POLLNVAL
      else if pf_ops vf = READ_OPS
      then (if events AND POLLIN \<noteq> 0 \<and> used pb > 0 then POLLIN else 0) OR
           (if writer_closed pb then POLLHUP else 0)
      else (if events AND POLLOUT \<noteq> 0 \<and> used pb < capacity pb \<and> \<not> reader_closed pb then POLLOUT else 0) OR
           (if reader_closed pb then POLLERR else 0))"

text \<open>A new pipe over the memory \<open>mem\<close>; \<open>fdrd\<close> and \<open>fdwr\<close> are the descriptors installed for its ends.\<close>

definition pipe_create :: "u8 list option \<Rightarrow> bool \<Rightarrow> int \<Rightarrow> int \<Rightarrow> errno + pipe_buf" where
  "pipe_create mem files fdrd fdwr = (case mem of
       None \<Rightarrow> Inl ENOMEM
     | Some d \<Rightarrow>
         if \<not> files then Inl ENOMEM
         else if fdrd < 0 \<or> fdwr < 0 then Inl EMFILE
         else Inr \<lparr>pdata = d, capacity = PIPE_DEFAULT_SIZE, head = 0, tail = 0, used = 0,
                   logical_size = PIPE_DEFAULT_SIZE, writer_closed = False, reader_closed = False,
                   pref = 2, read_fd = fdrd, write_fd = fdwr, pfreed = False, plog = []\<rparr>)"

end
