(* ===== verification/Pipe_Theorems.thy ===== *)
theory Pipe_Theorems
  imports Pipe
begin

text \<open>
  The correctness of pipes.  The ring buffer implements a queue of bytes (a contract stated as
  a locale and discharged for the ring), whatever readers, writers and a resize do in turn;
  reads return a prefix of the queue, short writes are atomic, and polling tells what a
  non-blocking call would do.
\<close>

subsection \<open>The contract of a queue of bytes\<close>

locale fifo =
  fixes inv :: "'s \<Rightarrow> bool"
    and contents :: "'s \<Rightarrow> 'a list"
    and room :: "'s \<Rightarrow> nat"
    and put :: "'a list \<Rightarrow> 's \<Rightarrow> 's"
    and front :: "nat \<Rightarrow> 's \<Rightarrow> 'a list"
    and advance :: "nat \<Rightarrow> 's \<Rightarrow> 's"
  assumes put_inv: "inv s \<Longrightarrow> length bs \<le> room s \<Longrightarrow> inv (put bs s)"
    and put_contents: "inv s \<Longrightarrow> length bs \<le> room s \<Longrightarrow> contents (put bs s) = contents s @ bs"
    and front_contents: "inv s \<Longrightarrow> n \<le> length (contents s) \<Longrightarrow> front n s = take n (contents s)"
    and advance_inv: "inv s \<Longrightarrow> n \<le> length (contents s) \<Longrightarrow> inv (advance n s)"
    and advance_contents: "inv s \<Longrightarrow> n \<le> length (contents s) \<Longrightarrow> contents (advance n s) = drop n (contents s)"
begin

text \<open>With \<open>w\<close> put and \<open>r\<close> taken since a state with contents \<open>xs\<close>.\<close>

lemma put_conserves:
  "inv s \<Longrightarrow> length bs \<le> room s \<Longrightarrow> xs @ w = r @ contents s \<Longrightarrow> xs @ w @ bs = r @ contents (put bs s)"
  by (metis append_assoc put_contents)

lemma get_conserves:
  "inv s \<Longrightarrow> n \<le> length (contents s) \<Longrightarrow> xs @ w = r @ contents s \<Longrightarrow>
     xs @ w = (r @ front n s) @ contents (advance n s)"
  by (simp add: front_contents advance_contents)

end

subsection \<open>The ring buffer\<close>

definition pipe_ok :: "pipe_buf \<Rightarrow> bool" where
  "pipe_ok pb \<longleftrightarrow> length (pdata pb) = capacity pb \<and> PIPE_BUF_SIZE \<le> capacity pb \<and> tail pb < capacity pb \<and>
     used pb \<le> capacity pb \<and> head pb = (tail pb + used pb) mod capacity pb"

definition pipe_bytes :: "pipe_buf \<Rightarrow> u8 list" where
  "pipe_bytes pb = map (\<lambda>i. pdata pb ! ((tail pb + i) mod capacity pb)) [0..<used pb]"

lemma length_pipe_bytes [simp]: "length (pipe_bytes pb) = used pb"
  by (simp add: pipe_bytes_def)

lemma pipe_bytes_Nil [simp]: "pipe_bytes pb = [] \<longleftrightarrow> used pb = 0"
  by (simp add: pipe_bytes_def)

lemma mod_wrap: "a < c \<Longrightarrow> b \<le> c \<Longrightarrow> (a + b) mod c = (if a + b < c then a + b else a + b - c)" for a :: nat
  by (simp add: mod_if)

lemma ring_peek_take:
  assumes "pipe_ok pb" "n \<le> used pb"
  shows "ring_peek n pb = take n (pipe_bytes pb)"
proof (rule nth_equalityI)
  have ok: "length (pdata pb) = capacity pb" "tail pb < capacity pb" "used pb \<le> capacity pb"
    using assms(1) by (auto simp: pipe_ok_def)
  show "length (ring_peek n pb) = length (take n (pipe_bytes pb))"
    using ok assms(2) by (auto simp: ring_peek_def Let_def)
  fix i assume "i < length (ring_peek n pb)"
  then have i: "i < n" using ok assms(2) by (auto simp: ring_peek_def Let_def split: if_splits)
  then show "ring_peek n pb ! i = take n (pipe_bytes pb) ! i"
    using ok assms(2) mod_wrap [of "tail pb" "capacity pb" i]
    by (auto simp: ring_peek_def Let_def pipe_bytes_def nth_append less_diff_conv add.commute)
qed

lemma ring_advance_ok:
  assumes "pipe_ok pb" "n \<le> used pb"
  shows "pipe_ok (ring_advance n pb)" "pipe_bytes (ring_advance n pb) = drop n (pipe_bytes pb)"
proof -
  have c: "0 < capacity pb" using assms(1) by (auto simp: pipe_ok_def)
  have "((tail pb + n) mod capacity pb + (used pb - n)) mod capacity pb = (tail pb + used pb) mod capacity pb"
    using assms(2) mod_add_left_eq [of "tail pb + n" "capacity pb" "used pb - n"] by simp
  then show "pipe_ok (ring_advance n pb)"
    using assms c by (auto simp: pipe_ok_def ring_advance_def)
  show "pipe_bytes (ring_advance n pb) = drop n (pipe_bytes pb)"
  proof (rule nth_equalityI)
    fix i assume "i < length (pipe_bytes (ring_advance n pb))"
    then have "n + i < used pb" "i < used pb - n" by (auto simp: ring_advance_def)
    then show "pipe_bytes (ring_advance n pb) ! i = drop n (pipe_bytes pb) ! i"
      using mod_add_left_eq [of "tail pb + n" "capacity pb" i]
      by (simp add: pipe_bytes_def ring_advance_def add.assoc)
  qed (simp add: ring_advance_def)
qed

lemma length_blit [simp]: "off + length src \<le> length dst \<Longrightarrow> length (blit src off dst) = length dst"
  by (simp add: blit_def)

lemma nth_blit:
  "off + length src \<le> length dst \<Longrightarrow> i < length dst \<Longrightarrow>
     blit src off dst ! i = (if off \<le> i \<and> i < off + length src then src ! (i - off) else dst ! i)"
  by (auto simp: blit_def nth_append min_def)

lemma ring_put_data:
  assumes "pipe_ok pb" "length bs \<le> capacity pb - used pb"
  shows "length (pdata (ring_put bs pb)) = capacity pb"
    "i < length bs \<Longrightarrow> pdata (ring_put bs pb) ! ((head pb + i) mod capacity pb) = bs ! i"
    "j < used pb \<Longrightarrow> pdata (ring_put bs pb) ! ((tail pb + j) mod capacity pb) = pdata pb ! ((tail pb + j) mod capacity pb)"
proof -
  let ?c = "capacity pb" and ?h = "head pb" and ?n = "length bs"
  define first where "first = (if ?c - ?h > ?n then ?n else ?c - ?h)"
  define d1 where "d1 = blit (take first bs) ?h (pdata pb)"
  have ok: "length (pdata pb) = ?c" "tail pb < ?c" "used pb \<le> ?c" "?h = (tail pb + used pb) mod ?c"
    using assms(1) by (auto simp: pipe_ok_def)
  have h: "?h < ?c" using ok by simp
  have f: "first \<le> ?n" "?h + first \<le> ?c" "first < ?n \<Longrightarrow> ?h + first = ?c" using h by (auto simp: first_def)
  have n: "?n \<le> ?c" using assms(2) by simp
  have d: "pdata (ring_put bs pb) = (if ?n - first \<noteq> 0 then blit (drop first bs) 0 d1 else d1)"
    by (simp add: ring_put_def Let_def d1_def first_def)
  have len1: "length d1 = ?c" using f ok(1) by (simp add: d1_def)
  show len: "length (pdata (ring_put bs pb)) = ?c" using len1 n by (simp add: d)
  have at: "pdata (ring_put bs pb) ! k = (if ?h \<le> k \<and> k < ?h + first then bs ! (k - ?h)
      else if k < ?n - first then bs ! (first + k) else pdata pb ! k)" if "k < ?c" for k
  proof -
    have d1k: "d1 ! k = (if ?h \<le> k \<and> k < ?h + first then bs ! (k - ?h) else pdata pb ! k)"
      using that f ok(1) by (auto simp: d1_def nth_blit)
    have "?n - first \<le> ?h" using f assms(2) ok mod_wrap [of "tail pb" ?c "used pb"] n
      by (auto simp: first_def split: if_splits)
    then show ?thesis using that len1 n d1k by (auto simp: d nth_blit)
  qed
  show "pdata (ring_put bs pb) ! ((?h + i) mod ?c) = bs ! i" if "i < ?n"
  proof (cases "?h + i < ?c")
    case True
    then have "i < first" using that by (auto simp: first_def)
    then show ?thesis using True by (simp add: at)
  next
    case False
    define k where "k = ?h + i - ?c"
    have fl: "?h + first = ?c" using False that f h by auto
    then have k: "(?h + i) mod ?c = k" "first + k = i" "k < ?h" "k < ?n - first" "k < ?c"
      using that h n False mod_wrap [of ?h ?c i] unfolding k_def by auto
    then show ?thesis by (simp add: at)
  qed
  show "pdata (ring_put bs pb) ! ((tail pb + j) mod ?c) = pdata pb ! ((tail pb + j) mod ?c)" if "j < used pb"
  proof -
    have "\<not> (?h \<le> (tail pb + j) mod ?c \<and> (tail pb + j) mod ?c < ?h + first)"
      "\<not> (tail pb + j) mod ?c < ?n - first"
      using that ok f(1,2) assms(2) mod_wrap [of "tail pb" ?c j] mod_wrap [of "tail pb" ?c "used pb"]
      by (cases "first < ?n"; use f(3) in \<open>auto split: if_splits\<close>)+
    then show ?thesis using ok(2) by (auto simp: at)
  qed
qed

lemma ring_put_ok:
  assumes "pipe_ok pb" "length bs \<le> capacity pb - used pb"
  shows "pipe_ok (ring_put bs pb)" "pipe_bytes (ring_put bs pb) = pipe_bytes pb @ bs"
proof -
  have f: "capacity (ring_put bs pb) = capacity pb" "tail (ring_put bs pb) = tail pb"
    "used (ring_put bs pb) = used pb + length bs" "head (ring_put bs pb) = (head pb + length bs) mod capacity pb"
    by (simp_all add: ring_put_def Let_def)
  have ok: "head pb = (tail pb + used pb) mod capacity pb" "used pb \<le> capacity pb"
    using assms(1) by (auto simp: pipe_ok_def)
  show "pipe_ok (ring_put bs pb)"
    using assms ring_put_data(1) [OF assms] f ok by (auto simp: pipe_ok_def mod_add_left_eq add.assoc)
  have hd: "(tail pb + i) mod capacity pb = (head pb + (i - used pb)) mod capacity pb" if "used pb \<le> i" for i
    using that ok mod_add_left_eq [of "tail pb + used pb" "capacity pb" "i - used pb"] by simp
  show "pipe_bytes (ring_put bs pb) = pipe_bytes pb @ bs"
  proof (rule nth_equalityI)
    fix i assume "i < length (pipe_bytes (ring_put bs pb))"
    then have i: "i < used pb + length bs" by (simp add: f)
    then show "pipe_bytes (ring_put bs pb) ! i = (pipe_bytes pb @ bs) ! i"
      using ring_put_data(2) [OF assms, of "i - used pb"] ring_put_data(3) [OF assms, of i] hd [of i]
      by (cases "i < used pb") (simp_all add: pipe_bytes_def f nth_append less_diff_conv2)
  qed (simp add: f)
qed

interpretation ring: fifo pipe_ok pipe_bytes "\<lambda>pb. capacity pb - used pb" ring_put ring_peek ring_advance
  by unfold_locales (simp_all add: ring_put_ok ring_peek_take ring_advance_ok)

lemma pipe_move_ok:
  assumes "pipe_ok pb" "used pb \<le> c" "PIPE_BUF_SIZE \<le> c" "length new = c"
  shows "pipe_ok (pipe_move new c pb)" "pipe_bytes (pipe_move new c pb) = pipe_bytes pb"
proof -
  have "0 < c" using assms(3) by (simp add: PIPE_BUF_SIZE_def)
  then show "pipe_ok (pipe_move new c pb)"
    using assms by (auto simp: pipe_ok_def pipe_move_def)
  show "pipe_bytes (pipe_move new c pb) = pipe_bytes pb"
    using assms(2) by (intro nth_equalityI) (auto simp: pipe_bytes_def pipe_move_def nth_append)
qed

lemma wake_fields [simp]:
  "pipe_ok (pipe_wake_readers pb) = pipe_ok pb" "pipe_bytes (pipe_wake_readers pb) = pipe_bytes pb"
  "pipe_ok (pipe_wake_writers pb) = pipe_ok pb" "pipe_bytes (pipe_wake_writers pb) = pipe_bytes pb"
  "pipe_ok (log_events es pb) = pipe_ok pb" "pipe_bytes (log_events es pb) = pipe_bytes pb"
  "pipe_ok (pipe_drop_ref pb) = pipe_ok pb" "pipe_bytes (pipe_drop_ref pb) = pipe_bytes pb"
  by (simp_all add: pipe_wake_readers_def pipe_wake_writers_def log_events_def pipe_drop_ref_def
      pipe_ok_def pipe_bytes_def)


subsection \<open>Histories\<close>

text \<open>
  \<open>pipe_trace pb w r pb'\<close>: by steps of readers, writers, resizes and closes the pipe gets from
  \<open>pb\<close> to \<open>pb'\<close>, \<open>w\<close> being the bytes put in and \<open>r\<close> the bytes taken out, each in this order.
\<close>

inductive pipe_trace :: "pipe_buf \<Rightarrow> u8 list \<Rightarrow> u8 list \<Rightarrow> pipe_buf \<Rightarrow> bool" for pb :: pipe_buf where
  pt_refl: "pipe_trace pb [] [] pb"
| pt_put: "pipe_trace pb w r q \<Longrightarrow> length bs \<le> capacity q - used q \<Longrightarrow>
    pipe_trace pb (w @ bs) r (pipe_wake_readers (ring_put bs q))"
| pt_get: "pipe_trace pb w r q \<Longrightarrow> n \<le> used q \<Longrightarrow>
    pipe_trace pb w (r @ ring_peek n q) (pipe_wake_writers (ring_advance n q))"
| pt_resize: "pipe_trace pb w r q \<Longrightarrow> (\<And>d. mem = Some d \<Longrightarrow> length d = (if sz < PIPE_BUF_SIZE then PIPE_BUF_SIZE else sz)) \<Longrightarrow>
    pipe_resize sz mem (\<lambda>x. x) q = (res, q') \<Longrightarrow> pipe_trace pb w r q'"
| pt_close_read: "pipe_trace pb w r q \<Longrightarrow> pipe_trace pb w r (pipe_read_close final q)"
| pt_close_write: "pipe_trace pb w r q \<Longrightarrow> pipe_trace pb w r (pipe_write_close final q)"
| pt_signal: "pipe_trace pb w r q \<Longrightarrow> pipe_trace pb w r (log_events [SigPipe] q)"

lemma pipe_trace_trans:
  assumes "pipe_trace pb w r q" "pipe_trace q w' r' q'"
  shows "pipe_trace pb (w @ w') (r @ r') q'"
  using assms(2)
proof (induction rule: pipe_trace.induct)
  case pt_refl
  then show ?case using assms(1) by simp
next
  case (pt_put w r q bs)
  then show ?case using pipe_trace.pt_put by (metis append_assoc)
next
  case (pt_get w r q n)
  then show ?case using pipe_trace.pt_get by (metis append_assoc)
qed (auto intro: pipe_trace.intros)

lemma pipe_close_fields [simp]:
  "pipe_ok (pipe_read_close final q) = pipe_ok q" "pipe_bytes (pipe_read_close final q) = pipe_bytes q"
  "pipe_ok (pipe_write_close final q) = pipe_ok q" "pipe_bytes (pipe_write_close final q) = pipe_bytes q"
  by (simp_all add: pipe_read_close_def pipe_write_close_def Let_def)
    (simp_all add: pipe_ok_def pipe_bytes_def)

lemma pipe_resize_ok:
  assumes "pipe_ok q" "pipe_resize sz mem (\<lambda>x. x) q = (res, q')"
    "\<And>d. mem = Some d \<Longrightarrow> length d = (if sz < PIPE_BUF_SIZE then PIPE_BUF_SIZE else sz)"
  shows "pipe_ok q' \<and> pipe_bytes q' = pipe_bytes q"
proof -
  define c where "c = (if sz < PIPE_BUF_SIZE then PIPE_BUF_SIZE else sz)"
  have c: "PIPE_BUF_SIZE \<le> c" by (simp add: c_def)
  consider "q' = q" | "q' = q\<lparr>logical_size := c\<rparr>" | d where "mem = Some d" "used q \<le> c" "q' = pipe_move d c q"
    using assms(2) unfolding pipe_resize_def c_def [symmetric]
    by (auto simp: Let_def not_less split: if_splits option.splits)
  then show ?thesis
  proof cases
    case 3
    then show ?thesis using pipe_move_ok [OF assms(1) 3(2) c] assms(3) by (simp add: c_def)
  qed (use assms(1) in \<open>simp_all add: pipe_ok_def pipe_bytes_def\<close>)
qed

lemma pipe_trace_conserves:
  assumes "pipe_trace pb w r q" "pipe_ok pb"
  shows "pipe_ok q \<and> pipe_bytes pb @ w = r @ pipe_bytes q"
  using assms(1)
proof (induction rule: pipe_trace.induct)
  case (pt_put w r q bs)
  then show ?case using ring.put_inv ring.put_conserves by simp
next
  case (pt_get w r q n)
  then show ?case using ring.advance_inv [of q n] ring.get_conserves [of q n] by simp
next
  case (pt_resize w r q mem sz res q')
  then show ?case using pipe_resize_ok by metis
qed (use assms(2) in simp_all)

subsection \<open>Operations as histories\<close>

definition env_fair :: "pipe_env \<Rightarrow> bool" where
  "env_fair e \<longleftrightarrow> (\<forall>pb. (\<exists>w r. pipe_trace pb w r (pe_others e pb)) \<and> (\<exists>w r. pipe_trace pb w r (pe_others_asleep e pb)))"

definition reaches :: "pipe_buf \<Rightarrow> pipe_buf \<Rightarrow> bool" where
  "reaches pb q \<longleftrightarrow> (\<exists>w r. pipe_trace pb w r q)"

lemma reaches_refl [simp]: "reaches pb pb"
  unfolding reaches_def using pt_refl by blast

lemma reaches_trans: "reaches p q \<Longrightarrow> reaches q s \<Longrightarrow> reaches p s"
  unfolding reaches_def using pipe_trace_trans by blast

lemma reaches_put: "length bs \<le> capacity q - used q \<Longrightarrow> reaches q (pipe_wake_readers (ring_put bs q))"
  unfolding reaches_def using pt_put [OF pt_refl] by blast

lemma reaches_ok: "reaches p q \<Longrightarrow> pipe_ok p \<Longrightarrow> pipe_ok q"
  unfolding reaches_def using pipe_trace_conserves by blast

lemma wait_reaches:
  assumes "env_fair e" "pipe_wait_interruptible_locked wq n e pb = (x, pb')"
  shows "reaches pb pb'"
proof -
  have f: "reaches p (pe_others e p)" "reaches p (pe_others_asleep e p)" for p
    using assms(1) by (auto simp: env_fair_def reaches_def)
  have "pb' \<in> {pb, pe_others e pb, pe_others_asleep e (pe_others e pb)}"
    using assms(2) by (auto simp: pipe_wait_interruptible_locked_def Let_def split: if_splits)
  then show ?thesis using f reaches_trans [OF f(1) f(2)] by auto
qed

lemma wait_data_spec:
  assumes "\<forall>e\<in>set envs. env_fair e" "pipe_wait_data nb envs pb = Some (x, pb')"
  shows "reaches pb pb' \<and> (x = Inr True \<longrightarrow> used pb' \<noteq> 0) \<and> (x = Inr False \<longrightarrow> used pb' = 0 \<and> writer_closed pb')"
  using assms
proof (induction envs arbitrary: pb)
  case Nil
  then show ?case by (subst (asm) pipe_wait_data.simps) (auto split: if_splits)
next
  case (Cons e es)
  show ?case
  proof (cases "used pb \<noteq> 0 \<or> writer_closed pb \<or> nb")
    case True
    then show ?thesis using Cons.prems(2) by (subst (asm) pipe_wait_data.simps) (auto split: if_splits)
  next
    case False
    obtain y q where w: "pipe_wait_interruptible_locked ReadQ 1 e pb = (y, q)" by fastforce
    note r = wait_reaches [OF _ w]
    have step: "pipe_wait_data nb (e # es) pb =
        (case y of Inl err \<Rightarrow> Some (Inl err, q) | Inr _ \<Rightarrow> pipe_wait_data nb es q)"
      using False w by (subst pipe_wait_data.simps) simp
    then show ?thesis
      using Cons.IH [of q] Cons.prems r reaches_trans by (auto split: sum.splits)
  qed
qed

lemma int_ret_id: "n < 2 ^ 31 \<Longrightarrow> int_ret n = int n"
  by (simp add: int_ret_def signed_take_bit_int_eq_self)

lemma write_loop_atomic:
  assumes "\<forall>e\<in>set envs. env_fair e" "length buf \<le> PIPE_BUF_SIZE" "buf \<noteq> []"
    "pipe_write_loop nb cur buf 0 envs pb = Some (Inr m, pb')"
  shows "\<exists>pb0. reaches pb pb0 \<and> length buf \<le> capacity pb0 - used pb0 \<and>
    pb' = pipe_wake_readers (ring_put buf pb0) \<and> m = int_ret (length buf)"
  using assms
proof (induction envs arbitrary: pb)
  case Nil
  then show ?case
    by (subst (asm) pipe_write_loop.simps) (auto simp: Let_def not_less intro!: exI [of _ pb] split: if_splits)
next
  case (Cons e es)
  show ?case
  proof (cases "capacity pb - used pb < length buf")
    case False
    then have "pb' = pipe_wake_readers (ring_put buf pb) \<and> m = int_ret (length buf)"
      using Cons.prems(2-4) by (subst (asm) pipe_write_loop.simps) (auto simp: Let_def split: if_splits)
    then show ?thesis using False by (intro exI [of _ pb]) (simp add: not_less)
  next
    case True
    obtain y q where w: "pipe_wait_interruptible_locked WriteQ (length buf) e pb = (y, q)" by fastforce
    have "pipe_write_loop nb cur buf 0 es q = Some (Inr m, pb')"
      using True Cons.prems(2-4) w
      by (subst (asm) pipe_write_loop.simps) (auto simp: Let_def split: if_splits sum.splits)
    then show ?thesis
      using Cons.IH [of q] Cons.prems wait_reaches [OF _ w] reaches_trans by fastforce
  qed
qed

subsection \<open>Calls as histories\<close>

text \<open>The calls on a pipe; \<open>envs\<close> is what other tasks do whenever the call lets the lock go.\<close>

datatype pipe_op =
    Op_Read pfile nat
  | Op_Peek "pfile option" nat
  | Op_Write pfile bool "u8 list"
  | Op_Set_Size pfile nat "u8 list option"
  | Op_Close_Read bool
  | Op_Close_Write bool

fun pipe_call :: "pipe_op \<Rightarrow> pipe_env list \<Rightarrow> pipe_buf \<Rightarrow> (((errno + int) \<times> u8 list) \<times> pipe_buf) option" where
  "pipe_call (Op_Read vf n) envs pb = pipe_read vf n envs pb"
| "pipe_call (Op_Peek vf n) envs pb = pipe_peek vf n envs pb"
| "pipe_call (Op_Write vf cur buf) envs pb =
     map_option (\<lambda>(res, pb'). ((res, []), pb')) (pipe_write vf cur buf envs pb)"
| "pipe_call (Op_Set_Size vf sz mem) envs pb = (case envs of
       [] \<Rightarrow> None
     | e # _ \<Rightarrow> (case pipe_set_size vf sz mem (pe_others e) pb of (res, pb') \<Rightarrow> Some ((res, []), pb')))"
| "pipe_call (Op_Close_Read final) envs pb = Some ((Inr 0, []), pipe_read_close final pb)"
| "pipe_call (Op_Close_Write final) envs pb = Some ((Inr 0, []), pipe_write_close final pb)"

text \<open>The memory for a resize has the size asked for, and a transfer is below 2 GiB: the code
  reports the number of bytes as an \<^verbatim>\<open>int\<close>.\<close>

fun op_ok :: "pipe_op \<Rightarrow> bool" where
  "op_ok (Op_Read vf n) \<longleftrightarrow> n < 2 ^ 31"
| "op_ok (Op_Write vf cur buf) \<longleftrightarrow> length buf < 2 ^ 31"
| "op_ok (Op_Set_Size vf sz mem) \<longleftrightarrow> (case mem of
     None \<Rightarrow> True | Some d \<Rightarrow> length d = (if sz < PIPE_BUF_SIZE then PIPE_BUF_SIZE else sz))"
| "op_ok _ \<longleftrightarrow> True"

text \<open>
  The history of one call: what the others did while the lock was free, with the bytes they put
  in and took out, and the bytes the call itself put in and took out.
\<close>

datatype hist_event = Others "u8 list" "u8 list" | Wrote "u8 list" | Took "u8 list"

inductive call_hist :: "pipe_buf \<Rightarrow> hist_event list \<Rightarrow> pipe_buf \<Rightarrow> bool" for pb :: pipe_buf where
  ch_refl: "call_hist pb [] pb"
| ch_others: "call_hist pb h q \<Longrightarrow> pipe_trace q w r q' \<Longrightarrow> call_hist pb (h @ [Others w r]) q'"
| ch_wrote: "call_hist pb h q \<Longrightarrow> length bs \<le> capacity q - used q \<Longrightarrow>
    call_hist pb (h @ [Wrote bs]) (pipe_wake_readers (ring_put bs q))"
| ch_took: "call_hist pb h q \<Longrightarrow> n \<le> used q \<Longrightarrow>
    call_hist pb (h @ [Took (ring_peek n q)]) (pipe_wake_writers (ring_advance n q))"

fun own_puts :: "hist_event list \<Rightarrow> u8 list" where
  "own_puts [] = []"
| "own_puts (Wrote bs # h) = bs @ own_puts h"
| "own_puts (_ # h) = own_puts h"

fun own_gets :: "hist_event list \<Rightarrow> u8 list" where
  "own_gets [] = []"
| "own_gets (Took bs # h) = bs @ own_gets h"
| "own_gets (_ # h) = own_gets h"

fun all_puts :: "hist_event list \<Rightarrow> u8 list" where
  "all_puts [] = []"
| "all_puts (Wrote bs # h) = bs @ all_puts h"
| "all_puts (Others w r # h) = w @ all_puts h"
| "all_puts (Took bs # h) = all_puts h"

fun all_gets :: "hist_event list \<Rightarrow> u8 list" where
  "all_gets [] = []"
| "all_gets (Took bs # h) = bs @ all_gets h"
| "all_gets (Others w r # h) = r @ all_gets h"
| "all_gets (Wrote bs # h) = all_gets h"

lemma own_append [simp]:
  "own_puts (h @ k) = own_puts h @ own_puts k" "own_gets (h @ k) = own_gets h @ own_gets k"
  "all_puts (h @ k) = all_puts h @ all_puts k" "all_gets (h @ k) = all_gets h @ all_gets k"
  by (induction h rule: own_puts.induct; simp; fail)
    (induction h rule: own_gets.induct; simp; fail | induction h rule: all_puts.induct; simp; fail |
      induction h rule: all_gets.induct; simp; fail)+

lemma call_hist_trans:
  assumes "call_hist p h q" "call_hist q k s"
  shows "call_hist p (h @ k) s"
  using assms(2)
proof (induction rule: call_hist.induct)
  case ch_refl
  then show ?case using assms(1) by simp
qed (use call_hist.intros [of p] in \<open>metis append_assoc\<close>)+

lemma call_hist_trace: "call_hist p h q \<Longrightarrow> pipe_trace p (all_puts h) (all_gets h) q"
proof (induction rule: call_hist.induct)
  case (ch_others h q w r q')
  then show ?case using pipe_trace_trans by simp
qed (auto intro: pt_refl pt_put pt_get)

lemma quiet_hist: "reaches p q \<Longrightarrow> \<exists>h. call_hist p h q \<and> own_puts h = [] \<and> own_gets h = []"
  unfolding reaches_def using ch_others [OF ch_refl] by fastforce

lemma quiet_hist_then:
  assumes "reaches p q" "call_hist q k s"
  shows "\<exists>h. call_hist p h s \<and> own_puts h = own_puts k \<and> own_gets h = own_gets k"
  using quiet_hist [OF assms(1)] call_hist_trans [OF _ assms(2)] by fastforce

text \<open>One turn of the writing loop.\<close>

lemma write_loop_cases:
  assumes run: "pipe_write_loop nb cur buf n envs pb = Some (res, pb')" and n: "n \<le> length buf"
  obtains (stop) "pb' = pb \<or> pb' = log_events [SigPipe] pb" "res = Inr (int_ret n) \<or> n = 0 \<and> (\<exists>err. res = Inl err)"
  | (broken) e es k y where "envs = e # es" "pipe_wait_interruptible_locked WriteQ k e pb = (y, pb')"
      "res = Inr (int_ret n) \<or> n = 0 \<and> (\<exists>err. res = Inl err)"
  | (retry) e es k y q where "envs = e # es" "pipe_wait_interruptible_locked WriteQ k e pb = (y, q)"
      "pipe_write_loop nb cur buf n es q = Some (res, pb')"
  | (finish) chunk where "chunk \<le> capacity pb - used pb" "n + chunk = length buf"
      "pb' = pipe_wake_readers (ring_put (take chunk (drop n buf)) pb)" "res = Inr (int_ret (n + chunk))"
  | (put) e es chunk where "envs = e # es" "chunk \<le> capacity pb - used pb" "n + chunk < length buf"
      "pipe_write_loop nb cur buf (n + chunk) es
         (pe_others e (pipe_wake_readers (ring_put (take chunk (drop n buf)) pb))) = Some (res, pb')"
proof -
  define needed where "needed = (if length buf - n \<le> PIPE_BUF_SIZE then length buf - n else 1)"
  define space where "space = capacity pb - used pb"
  define chunk where "chunk = (if length buf - n < space then length buf - n else space)"
  have ch: "chunk \<le> capacity pb - used pb" "n + chunk \<le> length buf" using n by (auto simp: chunk_def space_def)
  note unf = run [unfolded pipe_write_loop.simps [of nb cur buf n envs pb] Let_def
      needed_def [symmetric] space_def [symmetric] chunk_def [symmetric]]
  consider "n \<ge> length buf \<or> space < needed \<and> (reader_closed pb \<or> nb)"
    | e es where "n < length buf" "space < needed" "\<not> reader_closed pb" "\<not> nb" "envs = e # es"
    | "n < length buf" "\<not> space < needed"
    using unf by (cases envs) (auto split: if_splits)
  then show thesis
  proof cases
    case 1
    then show ?thesis using unf by (intro stop) (auto split: if_splits)
  next
    case (2 e es)
    obtain y q where w: "pipe_wait_interruptible_locked WriteQ needed e pb = (y, q)" by fastforce
    show ?thesis
    proof (cases y)
      case (Inl err)
      then show ?thesis using unf 2 w by (intro broken [OF 2(5)]) (auto split: if_splits)
    next
      case (Inr x)
      then show ?thesis using unf 2 w by (intro retry [OF 2(5)]) auto
    qed
  next
    case 3
    show ?thesis
    proof (cases "n + chunk \<ge> length buf")
      case True
      then show ?thesis using unf 3 ch by (intro finish [of chunk]) auto
    next
      case False
      then obtain e es where e: "envs = e # es" using unf 3 by (cases envs) auto
      then show ?thesis using unf 3 False ch by (intro put [OF e, of chunk]) auto
    qed
  qed
qed

lemma write_loop_hist:
  assumes "\<forall>e\<in>set envs. env_fair e" "n \<le> length buf"
    "pipe_write_loop nb cur buf n envs pb = Some (res, pb')"
  shows "\<exists>h k. call_hist pb h pb' \<and> own_gets h = [] \<and> n \<le> k \<and> k \<le> length buf \<and>
    own_puts h = take (k - n) (drop n buf) \<and> (res = Inr (int_ret k) \<or> k = 0 \<and> (\<exists>err. res = Inl err))"
  using assms
proof (induction envs arbitrary: pb n rule: length_induct)
  case (1 envs)
  note IH = 1(1) [rule_format] and fair = 1(2) and n = 1(3)
  have quiet: ?case if "reaches pb pb'" "res = Inr (int_ret n) \<or> n = 0 \<and> (\<exists>err. res = Inl err)"
    using quiet_hist [OF that(1)] that(2) n by fastforce
  show ?case
    using 1(4) n
  proof (cases rule: write_loop_cases)
    case stop
    have "reaches pb (log_events [SigPipe] pb)" unfolding reaches_def using pt_signal [OF pt_refl] by blast
    then show ?thesis using stop by (intro quiet) auto
  next
    case (broken e es k y)
    then show ?thesis using fair wait_reaches [OF _ broken(2)] by (intro quiet) auto
  next
    case (retry e es k y q)
    have "reaches pb q" using fair retry(1) wait_reaches [OF _ retry(2)] by simp
    moreover have "\<exists>h k. call_hist q h pb' \<and> own_gets h = [] \<and> n \<le> k \<and> k \<le> length buf \<and>
        own_puts h = take (k - n) (drop n buf) \<and> (res = Inr (int_ret k) \<or> k = 0 \<and> (\<exists>err. res = Inl err))"
      using IH [OF _ _ n retry(3)] retry(1) fair by simp
    ultimately show ?thesis using quiet_hist_then by metis
  next
    case (finish chunk)
    have "call_hist pb ([] @ [Wrote (take chunk (drop n buf))]) pb'"
      unfolding finish(3) by (rule ch_wrote [OF ch_refl]) (use finish(1) in simp)
    then show ?thesis using finish by (intro exI [of _ "[Wrote (take chunk (drop n buf))]"] exI [of _ "n + chunk"]) simp
  next
    case (put e es chunk)
    let ?bs = "take chunk (drop n buf)"
    let ?q = "pipe_wake_readers (ring_put ?bs pb)"
    have w: "call_hist pb [Wrote ?bs] ?q" using ch_wrote [OF ch_refl, of ?bs pb] put(2) by simp
    have "reaches ?q (pe_others e ?q)" using fair put(1) by (auto simp: env_fair_def reaches_def)
    moreover obtain h k where h: "call_hist (pe_others e ?q) h pb'" "own_gets h = []" "n + chunk \<le> k" "k \<le> length buf"
      "own_puts h = take (k - (n + chunk)) (drop (n + chunk) buf)" "res = Inr (int_ret k) \<or> k = 0 \<and> (\<exists>err. res = Inl err)"
      using IH [OF _ _ _ put(4)] put(1,3) fair by auto
    ultimately obtain h' where h': "call_hist ?q h' pb'" "own_puts h' = own_puts h" "own_gets h' = own_gets h"
      using quiet_hist_then by blast
    have "take (k - n) (drop n buf) = ?bs @ take (k - (n + chunk)) (drop (n + chunk) buf)"
      using h(3) take_add [of chunk "k - (n + chunk)" "drop n buf"] by (simp add: add.commute)
    then have "call_hist pb ([Wrote ?bs] @ h') pb' \<and> own_gets ([Wrote ?bs] @ h') = [] \<and>
        own_puts ([Wrote ?bs] @ h') = take (k - n) (drop n buf)"
      using call_hist_trans [OF w h'(1)] h h' by simp
    then show ?thesis using h by (metis add_leD1)
  qed
qed

lemma resize_reaches:
  assumes "\<exists>w r. pipe_trace pb w r (others pb)" "pipe_resize sz mem others pb = (res, pb')"
    "\<And>d. mem = Some d \<Longrightarrow> length d = (if sz < PIPE_BUF_SIZE then PIPE_BUF_SIZE else sz)"
  shows "reaches pb pb'"
proof -
  have id_reaches: "reaches q q'" if "pipe_resize sz mem (\<lambda>x. x) q = (res', q')" for q q' res'
    unfolding reaches_def using pt_resize [OF pt_refl assms(3) that] by blast
  have "pipe_resize sz mem (\<lambda>x. x) pb = (res, pb') \<or> pipe_resize sz mem (\<lambda>x. x) (others pb) = (res, pb')"
    using assms(2) by (auto simp: pipe_resize_def Let_def split: if_splits option.splits)
  then show ?thesis using id_reaches reaches_trans assms(1) unfolding reaches_def by metis
qed

text \<open>Every call is a history, with exactly the bytes it reports.\<close>

fun op_written :: "pipe_op \<Rightarrow> errno + int \<Rightarrow> u8 list" where
  "op_written (Op_Write vf cur buf) (Inr m) = take (nat m) buf"
| "op_written _ _ = []"

fun op_taken :: "pipe_op \<Rightarrow> u8 list \<Rightarrow> u8 list" where
  "op_taken (Op_Read vf n) bs = bs"
| "op_taken _ _ = []"

text \<open>The result of a call is the number of bytes it has moved, at most what was asked for.\<close>

fun op_counts :: "pipe_op \<Rightarrow> errno + int \<Rightarrow> u8 list \<Rightarrow> bool" where
  "op_counts (Op_Read vf n) (Inr m) bs \<longleftrightarrow> m = int (length bs) \<and> length bs \<le> n"
| "op_counts (Op_Read vf n) (Inl _) bs \<longleftrightarrow> bs = []"
| "op_counts (Op_Write vf cur buf) (Inr m) bs \<longleftrightarrow> 0 \<le> m \<and> m \<le> int (length buf)"
| "op_counts _ _ _ \<longleftrightarrow> True"

lemma read_hist:
  assumes fair: "\<forall>e\<in>set envs. env_fair e" and n: "n < 2 ^ 31" and ok: "pipe_ok pb"
    and run: "pipe_read vf n envs pb = Some ((res, bs), pb')"
  shows "\<exists>h. call_hist pb h pb' \<and> own_puts h = [] \<and> own_gets h = bs \<and> op_counts (Op_Read vf n) res bs"
proof -
  have quiet: ?thesis if "reaches pb pb'" "bs = []" "op_counts (Op_Read vf n) res bs"
    using quiet_hist [OF that(1)] that(2,3) by auto
  show ?thesis
  proof (cases "pf_priv vf \<and> n \<noteq> 0")
    case False
    then show ?thesis using run by (intro quiet) (auto simp: pipe_read_def split: if_splits)
  next
    case True
    then obtain x q where w: "pipe_wait_data (pf_nonblock vf) envs pb = Some (x, q)"
      using run by (auto simp: pipe_read_def split: option.splits)
    note spec = wait_data_spec [OF fair w]
    show ?thesis
    proof (cases "x = Inr True")
      case xt: True
      let ?k = "if used q < n then used q else n"
      have r: "bs = ring_peek ?k q" "res = Inr (int_ret ?k)" "pb' = pipe_wake_writers (ring_advance ?k q)"
        using run w xt True by (auto simp: pipe_read_def Let_def)
      have k: "int_ret ?k = int ?k" using n by (intro int_ret_id) simp
      have "length bs = ?k"
        using r(1) ring_peek_take [of q ?k] reaches_ok [of pb q] spec ok by simp
      then have "op_counts (Op_Read vf n) res bs" by (simp add: r(2) k)
      moreover have "call_hist q ([] @ [Took (ring_peek ?k q)]) pb'"
        unfolding r(3) by (rule ch_took [OF ch_refl]) simp
      ultimately show ?thesis using quiet_hist_then [of pb q] spec r(1) by fastforce
    next
      case False
      then show ?thesis
        using run w True spec by (intro quiet) (auto simp: pipe_read_def Let_def split: sum.splits bool.splits)
    qed
  qed
qed

lemma pipe_call_hist:
  assumes fair: "\<forall>e\<in>set envs. env_fair e" and ok: "op_ok op" "pipe_ok pb"
    and run: "pipe_call op envs pb = Some ((res, bs), pb')"
  shows "\<exists>h. call_hist pb h pb' \<and> own_puts h = op_written op res \<and> own_gets h = op_taken op bs \<and> op_counts op res bs"
proof -
  have quiet: ?thesis if "reaches pb pb'" "op_written op res = []" "op_taken op bs = []" "op_counts op res bs"
    using quiet_hist [OF that(1)] that(2-4) by auto
  show ?thesis
  proof (cases op)
    case (Op_Read vf n)
    then show ?thesis using read_hist [OF fair, of n pb vf] ok run by auto
  next
    case (Op_Peek vf n)
    have "reaches pb pb'"
      using run Op_Peek wait_data_spec [OF fair]
      by (auto simp: pipe_peek_def Let_def split: option.splits if_splits sum.splits bool.splits)
    then show ?thesis using Op_Peek by (intro quiet) simp_all
  next
    case (Op_Write vf cur buf)
    have w: "pipe_write vf cur buf envs pb = Some (res, pb')" "bs = []" using run Op_Write by auto
    show ?thesis
    proof (cases "pipe_write_loop (pf_nonblock vf) cur buf 0 envs pb = Some (res, pb')")
      case True
      then obtain h k where h: "call_hist pb h pb'" "own_gets h = []" "k \<le> length buf" "own_puts h = take k buf"
        "res = Inr (int_ret k) \<or> k = 0 \<and> (\<exists>err. res = Inl err)"
        using write_loop_hist [OF fair _ True] by auto
      have "op_written op res = take k buf \<and> op_counts op res bs"
        using h(3,5) ok(1) Op_Write int_ret_id [of k] by auto
      then show ?thesis using h Op_Write by auto
    next
      case False
      have "reaches pb (log_events [SigPipe] pb)" unfolding reaches_def using pt_signal [OF pt_refl] by blast
      then show ?thesis
        using w(1) False Op_Write by (intro quiet) (auto simp: pipe_write_def split: if_splits)
    qed
  next
    case (Op_Set_Size vf sz mem)
    then obtain e es where e: "envs = e # es" "pipe_set_size vf sz mem (pe_others e) pb = (res, pb')"
      using run by (auto split: list.splits prod.splits)
    have "reaches pb pb'"
    proof (cases "\<not> pipe_vfile_is vf \<or> \<not> pf_priv vf")
      case False
      have "\<exists>w r. pipe_trace pb w r (pe_others e pb)" using fair e(1) by (simp add: env_fair_def)
      then show ?thesis
        using resize_reaches [of pb "pe_others e" sz mem res pb'] False e(2) ok(1) Op_Set_Size
        by (simp add: pipe_set_size_def split: option.splits)
    qed (use e(2) in \<open>simp add: pipe_set_size_def\<close>)
    then show ?thesis using Op_Set_Size by (intro quiet) simp_all
  next
    case (Op_Close_Read final)
    then have "reaches pb pb'" unfolding reaches_def using run pt_close_read [OF pt_refl] by auto
    then show ?thesis using Op_Close_Read by (intro quiet) simp_all
  next
    case (Op_Close_Write final)
    then have "reaches pb pb'" unfolding reaches_def using run pt_close_write [OF pt_refl] by auto
    then show ?thesis using Op_Close_Write by (intro quiet) simp_all
  qed
qed

subsection \<open>A concrete pipe for the witnesses\<close>

definition demo_pipe :: pipe_buf where
  "demo_pipe = \<lparr>pdata = replicate PIPE_DEFAULT_SIZE 0, capacity = PIPE_DEFAULT_SIZE, head = 0, tail = 0, used = 0,
     logical_size = PIPE_DEFAULT_SIZE, writer_closed = False, reader_closed = False, pref = 2, read_fd = 3,
     write_fd = 4, pfreed = False, plog = []\<rparr>"

lemma demo_pipe_created: "pipe_create (Some (replicate PIPE_DEFAULT_SIZE 0)) True 3 4 = Inr demo_pipe"
  by (simp add: pipe_create_def demo_pipe_def)

lemma pipe_create_ok:
  assumes "length d = PIPE_DEFAULT_SIZE" "pipe_create (Some d) files rd wr = Inr pb"
  shows "pipe_ok pb" "pipe_bytes pb = []"
  using assms
  by (auto simp: pipe_create_def pipe_ok_def pipe_bytes_def PIPE_DEFAULT_SIZE_def PIPE_BUF_SIZE_def split: if_splits)

lemma demo_pipe_ok: "pipe_ok demo_pipe" "pipe_bytes demo_pipe = []"
  using pipe_create_ok [OF _ demo_pipe_created] by simp_all

definition demo_read_end :: pfile where
  "demo_read_end = \<lparr>pf_ops = READ_OPS, pf_priv = True, pf_nonblock = True\<rparr>"

definition demo_write_end :: pfile where
  "demo_write_end = \<lparr>pf_ops = WRITE_OPS, pf_priv = True, pf_nonblock = True\<rparr>"

definition demo_full :: pipe_buf where
  "demo_full = pipe_wake_readers (ring_put [7, 8, 9] demo_pipe)"

lemma demo_full_room: "length [7, 8, 9 :: u8] \<le> capacity demo_pipe - used demo_pipe"
  by (simp add: demo_pipe_def PIPE_DEFAULT_SIZE_def PIPE_BUF_SIZE_def)

lemma demo_full_ok: "pipe_ok demo_full" "pipe_bytes demo_full = [7, 8, 9]"
  unfolding demo_full_def using ring_put_ok [OF demo_pipe_ok(1) demo_full_room] demo_pipe_ok(2) by simp_all

lemma demo_write: "pipe_write demo_write_end True [7, 8, 9] [] demo_pipe = Some (Inr 3, demo_full)"
  unfolding pipe_write_def
  by (subst pipe_write_loop.simps)
    (simp add: demo_write_end_def demo_full_def Let_def int_ret_id demo_pipe_def PIPE_DEFAULT_SIZE_def PIPE_BUF_SIZE_def)

subsection \<open>The properties\<close>

text \<open>
  C19.  A pipe is a first-in first-out stream, and its calls report what they do to it.  Take a
  pipe with any past of puts, gets, resizes and closes since its creation, and any call on it, of
  any length below 2 GiB, while other tasks act in such steps whenever the call lets the lock go.
  The call is itself a history of such steps: those of the others, and its own, in which it
  puts in exactly the first bytes of its buffer, as many as it reports written, or takes out
  exactly the bytes it returns, and reports their number; a call that fails, a peek, a resize and a close do neither.
  And all the bytes ever put in are the bytes ever taken out followed by the bytes the pipe
  holds: none is lost, duplicated or reordered.
\<close>

theorem pipe_fifo:
  assumes "pipe_create (Some d) files rd wr = Inr pb" "length d = PIPE_DEFAULT_SIZE" "pipe_trace pb w r q"
    "\<forall>e\<in>set envs. env_fair e" "op_ok op" "pipe_call op envs q = Some ((res, bs), q')"
  shows "\<exists>h. call_hist q h q' \<and> own_puts h = op_written op res \<and> own_gets h = op_taken op bs \<and> op_counts op res bs \<and>
    pipe_trace pb (w @ all_puts h) (r @ all_gets h) q' \<and> w @ all_puts h = (r @ all_gets h) @ pipe_bytes q'"
proof -
  note new = pipe_create_ok [OF assms(2,1)]
  have "pipe_ok q" using pipe_trace_conserves [OF assms(3) new(1)] by simp
  from pipe_call_hist [OF assms(4,5) this assms(6)] obtain h where h: "call_hist q h q'"
    "own_puts h = op_written op res" "own_gets h = op_taken op bs" "op_counts op res bs" by blast
  have tr: "pipe_trace pb (w @ all_puts h) (r @ all_gets h) q'"
    using pipe_trace_trans [OF assms(3) call_hist_trace [OF h(1)]] .
  then have "w @ all_puts h = (r @ all_gets h) @ pipe_bytes q'"
    using pipe_trace_conserves [OF tr new(1)] new(2) by simp
  then show ?thesis using h tr by blast
qed

text \<open>The witness: a reader sleeps on an empty pipe until another task writes three bytes.\<close>

definition demo_sleep_env :: pipe_env where
  "demo_sleep_env = \<lparr>pe_current = True, pe_signal_before = False, pe_prepared = True, pe_signal_mid = False,
     pe_linked = True, pe_reason = PROC_WAKE_EVENT, pe_signal_after = False, pe_others = (\<lambda>pb. pb),
     pe_others_asleep = (\<lambda>pb. if 3 \<le> capacity pb - used pb then pipe_wake_readers (ring_put [7, 8, 9] pb) else pb)\<rparr>"

lemma demo_sleep_fair: "env_fair demo_sleep_env"
proof -
  have "\<exists>w r. pipe_trace pb w r (pipe_wake_readers (ring_put [7, 8, 9] pb))" if "3 \<le> capacity pb - used pb" for pb
    using pt_put [OF pt_refl, of "[7, 8, 9]" pb] that by (auto simp: numeral_3_eq_3)
  then show ?thesis using pt_refl by (auto simp: env_fair_def demo_sleep_env_def)
qed

lemma demo_sleep_read:
  "pipe_call (Op_Read (demo_read_end\<lparr>pf_nonblock := False\<rparr>) 2) [demo_sleep_env] demo_pipe =
     Some ((Inr 2, [7, 8]), pipe_wake_writers (ring_advance 2 demo_full))"
proof -
  have u: "used demo_full = 3" using arg_cong [OF demo_full_ok(2), of length] by simp
  have peek: "ring_peek 2 demo_full = [7, 8]"
    using ring_peek_take [OF demo_full_ok(1), of 2] demo_full_ok(2) u by simp
  have e: "used demo_pipe = 0" "\<not> writer_closed demo_pipe" "3 \<le> capacity demo_pipe - used demo_pipe"
    using demo_full_room by (simp_all add: demo_pipe_def)
  have wait: "pipe_wait_interruptible_locked ReadQ 1 demo_sleep_env demo_pipe = (Inr (), demo_full)"
    using e by (simp add: pipe_wait_interruptible_locked_def demo_sleep_env_def pipe_should_wait_def
        demo_full_def proc_wake_reason_is_task_interrupt_def)
  have "pipe_wait_data False [] demo_full = Some (Inr True, demo_full)"
    by (subst pipe_wait_data.simps) (simp add: u)
  then have "pipe_wait_data False [demo_sleep_env] demo_pipe = Some (Inr True, demo_full)"
    by (subst pipe_wait_data.simps) (simp add: e wait [simplified])
  then show ?thesis by (simp add: pipe_read_def demo_read_end_def u peek int_ret_id)
qed

theorem pipe_fifo_witness:
  "\<exists>h. call_hist demo_pipe h (pipe_wake_writers (ring_advance 2 demo_full)) \<and> own_puts h = [] \<and>
     own_gets h = [7, 8] \<and> all_puts h = all_gets h @ pipe_bytes (pipe_wake_writers (ring_advance 2 demo_full))"
  using pipe_fifo [OF demo_pipe_created _ pt_refl _ _ demo_sleep_read] demo_sleep_fair by auto

text \<open>
  C20.  A read that succeeds returns the first bytes of the stream and removes exactly these.
  There was a state, reached by the steps of others while it waited, in which the bytes returned
  are the first ones in the pipe, as many as asked for or all there were; it returns no bytes only
  when the pipe is empty and the write end is closed.
\<close>

theorem pipe_read_prefix:
  assumes "pipe_ok pb" "\<forall>e\<in>set envs. env_fair e" "pf_priv vf" "0 < n"
    and run: "pipe_read vf n envs pb = Some ((Inr m, bs), pb')"
  shows "\<exists>pb0. reaches pb pb0 \<and> bs = take n (pipe_bytes pb0) \<and> pipe_bytes pb' = drop n (pipe_bytes pb0) \<and>
    m = int_ret (length bs) \<and> (bs = [] \<longrightarrow> pipe_bytes pb0 = [] \<and> writer_closed pb0)"
proof -
  obtain x q where w: "pipe_wait_data (pf_nonblock vf) envs pb = Some (x, q)"
    using run assms(3,4) by (auto simp: pipe_read_def split: option.splits)
  note spec = wait_data_spec [OF assms(2) w]
  then have ok: "pipe_ok q" using reaches_ok assms(1) by blast
  show ?thesis
  proof (cases "x = Inr True")
    case True
    let ?k = "if used q < n then used q else n"
    have k: "?k \<le> used q" "take ?k (pipe_bytes q) = take n (pipe_bytes q)" "drop ?k (pipe_bytes q) = drop n (pipe_bytes q)"
      by auto
    have r: "bs = ring_peek ?k q" "m = int_ret ?k" "pb' = pipe_wake_writers (ring_advance ?k q)"
      using run w True assms(3,4) by (auto simp: pipe_read_def Let_def)
    have bs: "bs = take n (pipe_bytes q)" using r(1) ring_peek_take [OF ok k(1)] k(2) by simp
    moreover have "pipe_bytes pb' = drop n (pipe_bytes q)"
      using r(3) ring_advance_ok(2) [OF ok k(1)] k(3) by simp
    moreover have "m = int_ret (length bs)" using r(2) bs by (simp add: min_def)
    moreover have "bs \<noteq> []" using bs spec True assms(4) by auto
    ultimately show ?thesis using spec by blast
  next
    case False
    then have "x = Inr False" "bs = []" "m = 0" "pb' = q"
      using run w assms(3,4) by (auto simp: pipe_read_def Let_def split: sum.splits bool.splits)
    moreover have "pipe_bytes q = []" "writer_closed q" using spec \<open>x = Inr False\<close> by (auto simp: pipe_bytes_def)
    ultimately show ?thesis using spec by (intro exI [of _ q]) (simp add: int_ret_def pipe_bytes_def)
  qed
qed

theorem pipe_read_prefix_witness:
  "\<exists>pb0 pb'. pipe_read demo_read_end 2 [] demo_full = Some ((Inr 2, [7, 8]), pb') \<and> reaches demo_full pb0 \<and>
     [7, 8] = take 2 (pipe_bytes pb0) \<and> pipe_bytes pb' = drop 2 (pipe_bytes pb0)"
proof -
  have u: "used demo_full = 3" using arg_cong [OF demo_full_ok(2), of length] by simp
  have "ring_peek 2 demo_full = [7, 8]"
    using ring_peek_take [OF demo_full_ok(1), of 2] demo_full_ok(2) u by simp
  then have "pipe_read demo_read_end 2 [] demo_full =
      Some ((Inr 2, [7, 8]), pipe_wake_writers (ring_advance 2 demo_full))"
    unfolding pipe_read_def by (subst pipe_wait_data.simps) (simp add: demo_read_end_def u int_ret_id)
  moreover from pipe_read_prefix [OF demo_full_ok(1) _ _ _ this]
  have "\<exists>pb0. reaches demo_full pb0 \<and> [7, 8] = take 2 (pipe_bytes pb0) \<and>
      pipe_bytes (pipe_wake_writers (ring_advance 2 demo_full)) = drop 2 (pipe_bytes pb0)"
    by (auto simp: demo_read_end_def)
  ultimately show ?thesis by blast
qed

text \<open>
  C21.  Writes of at most PIPE_BUF_SIZE bytes are atomic.  Such a write that succeeds, even after
  waiting, has written all of its bytes, next to each other: there was a state with room for all
  of them, and the pipe now holds the contents of that state followed by the whole data.
\<close>

theorem pipe_write_atomic:
  assumes "pipe_ok pb" "\<forall>e\<in>set envs. env_fair e" "buf \<noteq> []" "length buf \<le> PIPE_BUF_SIZE" "pf_priv vf"
    and run: "pipe_write vf cur buf envs pb = Some (Inr m, pb')"
  shows "\<exists>pb0. reaches pb pb0 \<and> pipe_bytes pb' = pipe_bytes pb0 @ buf \<and> m = int (length buf)"
proof -
  have "pipe_write_loop (pf_nonblock vf) cur buf 0 envs pb = Some (Inr m, pb')"
    using run assms(3,5) by (auto simp: pipe_write_def split: if_splits)
  from write_loop_atomic [OF assms(2,4,3) this] obtain pb0 where p: "reaches pb pb0"
    "length buf \<le> capacity pb0 - used pb0" "pb' = pipe_wake_readers (ring_put buf pb0)" "m = int_ret (length buf)"
    by blast
  have "pipe_bytes pb' = pipe_bytes pb0 @ buf"
    using ring_put_ok(2) [OF reaches_ok [OF p(1) assms(1)] p(2)] p(3) by simp
  moreover have "m = int (length buf)" using p(4) assms(4) by (simp add: int_ret_id PIPE_BUF_SIZE_def)
  ultimately show ?thesis using p(1) by blast
qed

theorem pipe_write_atomic_witness:
  "\<exists>pb0. reaches demo_pipe pb0 \<and> pipe_bytes demo_full = pipe_bytes pb0 @ [7, 8, 9]"
  using pipe_write_atomic [OF demo_pipe_ok(1) _ _ _ _ demo_write]
  by (auto simp: PIPE_BUF_SIZE_def demo_write_end_def)

text \<open>
  C22.  Polling agrees with what the calls do: the read end is reported readable exactly when a
  non-blocking read returns at least one byte, and the write end writable exactly when a
  non-blocking write of one byte succeeds.
\<close>

theorem pipe_poll_agrees:
  assumes "pipe_ok pb" "pf_priv rd" "pf_nonblock rd" "pf_ops rd = READ_OPS" "0 < n"
    and "pf_priv wr" "pf_nonblock wr" "pf_ops wr = WRITE_OPS"
  shows "(pipe_poll_events rd POLLIN pb AND POLLIN \<noteq> 0 \<longleftrightarrow>
      (\<exists>m bs pb'. pipe_read rd n [] pb = Some ((Inr m, bs), pb') \<and> bs \<noteq> [])) \<and>
    (pipe_poll_events wr POLLOUT pb AND POLLOUT \<noteq> 0 \<longleftrightarrow>
      (\<exists>pb'. pipe_write wr cur [b] [] pb = Some (Inr 1, pb')))"
proof
  have "ring_peek k pb \<noteq> []" if "0 < k" "k \<le> used pb" for k
    using that ring_peek_take [OF assms(1) that(2)] by auto
  then have "ring_peek (if used pb < n then used pb else n) pb \<noteq> []" if "used pb \<noteq> 0"
    using that assms(5) by auto
  moreover have "pipe_wait_data True [] pb = (if used pb \<noteq> 0 then Some (Inr True, pb)
      else if writer_closed pb then Some (Inr False, pb) else Some (Inl EAGAIN, pb))"
    by (subst pipe_wait_data.simps) simp
  moreover have "pipe_poll_events rd POLLIN pb AND POLLIN \<noteq> 0 \<longleftrightarrow> used pb \<noteq> 0"
    using assms(2,4) by (simp add: pipe_poll_events_def pipe_vfile_is_def POLLIN_def POLLHUP_def)
  ultimately show "pipe_poll_events rd POLLIN pb AND POLLIN \<noteq> 0 \<longleftrightarrow>
      (\<exists>m bs pb'. pipe_read rd n [] pb = Some ((Inr m, bs), pb') \<and> bs \<noteq> [])"
    using assms(2,3,5) by (auto simp: pipe_read_def Let_def)
next
  have "pipe_write_loop True cur [b] 0 [] pb =
      (if capacity pb - used pb < 1
       then (if reader_closed pb then Some (Inl EPIPE, if cur then log_events [SigPipe] pb else pb) else Some (Inl EAGAIN, pb))
       else Some (Inr 1, pipe_wake_readers (ring_put [b] pb)))"
    by (subst pipe_write_loop.simps) (auto simp: PIPE_BUF_SIZE_def Let_def int_ret_id)
  moreover have "pipe_poll_events wr POLLOUT pb AND POLLOUT \<noteq> 0 \<longleftrightarrow> used pb < capacity pb \<and> \<not> reader_closed pb"
    using assms(6,8) by (simp add: pipe_poll_events_def pipe_vfile_is_def POLLOUT_def POLLERR_def)
  ultimately show "pipe_poll_events wr POLLOUT pb AND POLLOUT \<noteq> 0 \<longleftrightarrow>
      (\<exists>pb'. pipe_write wr cur [b] [] pb = Some (Inr 1, pb'))"
    using assms(6,7) by (auto simp: pipe_write_def)
qed

theorem pipe_poll_agrees_witness:
  "(pipe_poll_events demo_read_end POLLIN demo_full AND POLLIN \<noteq> 0 \<longleftrightarrow>
      (\<exists>m bs pb'. pipe_read demo_read_end 2 [] demo_full = Some ((Inr m, bs), pb') \<and> bs \<noteq> [])) \<and>
   (pipe_poll_events demo_write_end POLLOUT demo_full AND POLLOUT \<noteq> 0 \<longleftrightarrow>
      (\<exists>pb'. pipe_write demo_write_end True [5] [] demo_full = Some (Inr 1, pb')))"
  by (rule pipe_poll_agrees [OF demo_full_ok(1)]) (simp_all add: demo_read_end_def demo_write_end_def)

end
