(* ===== verification/Sysv_Sem.thy ===== *)
theory Sysv_Sem
  imports Prelude
begin

text \<open>
  System V semaphores (kernel/ipc/sysv_sem.c): a table of sets of 16-bit values under one
  lock.  The code between taking and dropping the lock is one step.  User memory is part of
  the arguments: what a copy in delivers and whether a copy out succeeds.  Every wake of a
  set's wait queue is an entry of a log, the index of the set.
\<close>

unbundle bit_operations_syntax

subsection \<open>State\<close>

definition IPC_CREAT :: u32 where "IPC_CREAT = 512"
definition IPC_EXCL :: u32 where "IPC_EXCL = 1024"
definition IPC_NOWAIT :: u16 where "IPC_NOWAIT = 2048"
definition IPC_64_BIT :: u32 where "IPC_64_BIT = 0x100"
definition IPC_RMID :: u32 where "IPC_RMID = 0"
definition IPC_SET :: u32 where "IPC_SET = 1"
definition IPC_STAT :: u32 where "IPC_STAT = 2"
definition IPC_INFO :: u32 where "IPC_INFO = 3"
definition GETPID :: u32 where "GETPID = 11"
definition GETVAL :: u32 where "GETVAL = 12"
definition GETALL :: u32 where "GETALL = 13"
definition GETNCNT :: u32 where "GETNCNT = 14"
definition GETZCNT :: u32 where "GETZCNT = 15"
definition SETVAL :: u32 where "SETVAL = 16"
definition SETALL :: u32 where "SETALL = 17"
definition SEM_STAT :: u32 where "SEM_STAT = 18"
definition SEM_INFO :: u32 where "SEM_INFO = 19"
definition SEM_STAT_ANY :: u32 where "SEM_STAT_ANY = 20"
definition SYSV_SEM_MAX :: nat where "SYSV_SEM_MAX = 32"
definition SYSV_SEM_PER_SET :: nat where "SYSV_SEM_PER_SET = 64"

lemmas sem_cmds = IPC_RMID_def IPC_SET_def IPC_STAT_def IPC_INFO_def GETPID_def GETVAL_def GETALL_def
  GETNCNT_def GETZCNT_def SETVAL_def SETALL_def SEM_STAT_def SEM_INFO_def SEM_STAT_ANY_def IPC_64_BIT_def

record sysv_sembuf =
  sem_num :: u16
  sem_op :: u16
  sem_flg :: u16

record sysv_ipc_perm =
  p_key :: int
  p_uid :: u32
  p_gid :: u32
  p_cuid :: u32
  p_cgid :: u32
  p_mode :: u32
  p_seq :: int

record sysv_semid_ds =
  sem_perm :: sysv_ipc_perm
  sem_nsems :: nat

record sysv_seminfo =
  semmni :: nat
  semmns :: nat
  semmsl :: nat
  semopm :: nat
  semusz :: nat
  semvmx :: nat

record sysv_sem_set =
  ss_used :: bool
  ss_key :: int
  ss_nsems :: nat
  ss_uid :: u32
  ss_gid :: u32
  ss_cuid :: u32
  ss_cgid :: u32
  ss_mode :: u32
  ss_val :: "u16 list"
  ss_ncnt :: "u16 list"
  ss_zcnt :: "u16 list"
  ss_last_pid :: int

record sem_state =
  g_sem :: "sysv_sem_set list"
  sem_wakes :: "nat list"

definition upd_set :: "nat \<Rightarrow> (sysv_sem_set \<Rightarrow> sysv_sem_set) \<Rightarrow> sem_state \<Rightarrow> sem_state" where
  "upd_set i f s = s\<lparr>g_sem := (g_sem s)[i := f (g_sem s ! i)]\<rparr>"

definition sem_wake_all :: "nat \<Rightarrow> sem_state \<Rightarrow> sem_state" where
  "sem_wake_all i s = s\<lparr>sem_wakes := sem_wakes s @ [i]\<rparr>"

definition sem_valid_locked :: "int \<Rightarrow> sem_state \<Rightarrow> bool" where
  "sem_valid_locked semid s \<longleftrightarrow> 0 \<le> semid \<and> semid < int SYSV_SEM_MAX \<and> ss_used (g_sem s ! nat semid)"

subsection \<open>Creating and finding a set\<close>

text \<open>The first index at which a predicate holds, as the loops over the table find it.\<close>

fun first_index :: "('a \<Rightarrow> bool) \<Rightarrow> 'a list \<Rightarrow> nat option" where
  "first_index P [] = None"
| "first_index P (x # xs) = (if P x then Some 0 else map_option Suc (first_index P xs))"

definition sem_fresh :: "int \<Rightarrow> nat \<Rightarrow> u32 \<Rightarrow> u32 \<Rightarrow> u32 \<Rightarrow> sysv_sem_set" where
  "sem_fresh key nsems uid gid semflg =
     \<lparr>ss_used = True, ss_key = key, ss_nsems = nsems, ss_uid = uid, ss_gid = gid, ss_cuid = uid,
      ss_cgid = gid, ss_mode = semflg AND 511, ss_val = replicate SYSV_SEM_PER_SET 0,
      ss_ncnt = replicate SYSV_SEM_PER_SET 0, ss_zcnt = replicate SYSV_SEM_PER_SET 0, ss_last_pid = 0\<rparr>"

text \<open>\<open>cred\<close>: the effective user and group of the current task, if there is one.\<close>

definition sysv_sem_get ::
  "int \<Rightarrow> int \<Rightarrow> u32 \<Rightarrow> (u32 \<times> u32) option \<Rightarrow> sem_state \<Rightarrow> (errno + int) \<times> sem_state" where
  "sysv_sem_get key nsems semflg cred s =
     (if nsems < 0 \<or> nsems > int SYSV_SEM_PER_SET then (Inl EINVAL, s)
      else
        let (uid, gid) = (case cred of Some c \<Rightarrow> c | None \<Rightarrow> (0, 0))
        in case first_index (\<lambda>x. ss_used x \<and> ss_key x = key \<and> key \<noteq> 0) (g_sem s) of
             Some i \<Rightarrow>
               if semflg AND IPC_CREAT \<noteq> 0 \<and> semflg AND IPC_EXCL \<noteq> 0 then (Inl EEXIST, s)
               else if nsems > 0 \<and> nsems > int (ss_nsems (g_sem s ! i)) then (Inl EINVAL, s)
               else (Inr (int i), s)
           | None \<Rightarrow>
               if semflg AND IPC_CREAT = 0 then (Inl ENOENT, s)
               else if nsems \<le> 0 then (Inl EINVAL, s)
               else (case first_index (\<lambda>x. \<not> ss_used x) (g_sem s) of
                       Some i \<Rightarrow> (Inr (int i), upd_set i (\<lambda>_. sem_fresh key (nat nsems) uid gid semflg) s)
                     | None \<Rightarrow> (Inl ENOSPC, s)))"

definition sysv_sem_count :: "sem_state \<Rightarrow> nat" where
  "sysv_sem_count s = length (filter ss_used (g_sem s))"

subsection \<open>Control operations\<close>

text \<open>
  The \<^verbatim>\<open>arg\<close> pointer: its value, whether a copy to it succeeds, what a copy from it delivers
  (the staging array for \<^verbatim>\<open>SETALL\<close>; uid, gid and mode for \<^verbatim>\<open>IPC_SET\<close>), and what other tasks do to the table
  while the lock is dropped around a copy.
\<close>

record sem_arg =
  sa_raw :: u64
  sa_copy_ok :: bool
  sa_vals :: "u16 list option"
  sa_ds :: "(u32 \<times> u32 \<times> u32) option"
  sa_others :: "sem_state \<Rightarrow> sem_state"

datatype sem_out = NoOut | OutInfo sysv_seminfo | OutVals "u16 list" | OutDs sysv_semid_ds

definition highest_used :: "sysv_sem_set list \<Rightarrow> int" where
  "highest_used xs = fold (\<lambda>i h. if ss_used (xs ! i) then int i else h) [0..<length xs] (- 1)"

definition sem_info :: "u32 \<Rightarrow> sem_state \<Rightarrow> sysv_seminfo" where
  "sem_info cmd s = \<lparr>semmni = SYSV_SEM_MAX, semmns = SYSV_SEM_MAX * SYSV_SEM_PER_SET,
     semmsl = SYSV_SEM_PER_SET, semopm = SYSV_SEM_PER_SET,
     semusz = (if cmd = SEM_INFO then sysv_sem_count s else 1), semvmx = 32767\<rparr>"

definition sem_ds :: "nat \<Rightarrow> sysv_sem_set \<Rightarrow> sysv_semid_ds" where
  "sem_ds i x = \<lparr>sem_perm = \<lparr>p_key = ss_key x, p_uid = ss_uid x, p_gid = ss_gid x, p_cuid = ss_cuid x,
       p_cgid = ss_cgid x, p_mode = ss_mode x, p_seq = int i\<rparr>, sem_nsems = ss_nsems x\<rparr>"

definition sem_set_all :: "int \<Rightarrow> nat \<Rightarrow> u16 list \<Rightarrow> int \<Rightarrow> sem_state \<Rightarrow> (errno + int) \<times> sem_state" where
  "sem_set_all semid n stage cur s =
     (if \<not> sem_valid_locked semid s then (Inl EINVAL, s)
      else (Inr 0, sem_wake_all (nat semid)
             (upd_set (nat semid) (\<lambda>x. x\<lparr>ss_val := take n stage @ drop n (ss_val x), ss_last_pid := cur\<rparr>) s)))"

definition sem_set_perm :: "int \<Rightarrow> u32 \<times> u32 \<times> u32 \<Rightarrow> sem_state \<Rightarrow> (errno + int) \<times> sem_state" where
  "sem_set_perm semid ds s =
     (if \<not> sem_valid_locked semid s then (Inl EINVAL, s)
      else case ds of (uid, gid, mode) \<Rightarrow>
        (Inr 0, upd_set (nat semid)
           (\<lambda>x. x\<lparr>ss_uid := uid, ss_gid := gid, ss_mode := (ss_mode x AND NOT 511) OR (mode AND 511)\<rparr>) s))"

text \<open>\<open>cur\<close> is the pid of the current task, zero if there is none.\<close>

definition sysv_sem_control ::
  "int \<Rightarrow> int \<Rightarrow> u32 \<Rightarrow> sem_arg \<Rightarrow> int \<Rightarrow> sem_state \<Rightarrow> ((errno + int) \<times> sem_out) \<times> sem_state" where
  "sysv_sem_control semid semnum cmd0 arg cur s =
     (let cmd = cmd0 AND NOT IPC_64_BIT
      in if cmd = IPC_INFO \<or> cmd = SEM_INFO then
           if sa_raw arg = 0 \<or> \<not> sa_copy_ok arg then ((Inl EFAULT, NoOut), s)
           else ((Inr (if highest_used (g_sem s) < 0 then 0 else highest_used (g_sem s)), OutInfo (sem_info cmd s)), s)
         else if \<not> sem_valid_locked semid s then ((Inl EINVAL, NoOut), s)
         else
           let i = nat semid; x = g_sem s ! i; n = nat semnum
           in if semnum < 0 \<or> n \<ge> ss_nsems x \<and> cmd \<noteq> IPC_RMID \<and> cmd \<noteq> IPC_STAT \<and> cmd \<noteq> SEM_STAT \<and>
                 cmd \<noteq> SEM_STAT_ANY \<and> cmd \<noteq> SEM_INFO
              then ((Inl EINVAL, NoOut), s)
              else if cmd = IPC_RMID then
                ((Inr 0, NoOut), sem_wake_all i (upd_set i (\<lambda>x. x\<lparr>ss_used := False\<rparr>) s))
              else if cmd = GETVAL then ((Inr (uint (ss_val x ! n)), NoOut), s)
              else if cmd = GETPID then ((Inr (ss_last_pid x), NoOut), s)
              else if cmd = GETNCNT then ((Inr (uint (ss_ncnt x ! n)), NoOut), s)
              else if cmd = GETZCNT then ((Inr (uint (ss_zcnt x ! n)), NoOut), s)
              else if cmd = SETVAL then
                ((Inr 0, NoOut), sem_wake_all i
                   (upd_set i (\<lambda>x. x\<lparr>ss_val := (ss_val x)[n := ucast (sa_raw arg)], ss_last_pid := cur\<rparr>) s))
              else if cmd = GETALL then
                if sa_raw arg = 0 then ((Inl EINVAL, NoOut), s)
                else if \<not> sa_copy_ok arg then ((Inl EFAULT, NoOut), s)
                else ((Inr 0, OutVals (take (ss_nsems x) (ss_val x))), s)
              else if cmd = SETALL then
                if sa_raw arg = 0 then ((Inl EINVAL, NoOut), s)
                else (case sa_vals arg of
                        None \<Rightarrow> ((Inl EFAULT, NoOut), sa_others arg s)
                      | Some stage \<Rightarrow>
                          (case sem_set_all semid (ss_nsems x) stage cur (sa_others arg s) of
                             (r, s') \<Rightarrow> ((r, NoOut), s')))
              else if cmd = IPC_SET then
                if sa_raw arg = 0 then ((Inl EFAULT, NoOut), s)
                else (case sa_ds arg of
                        None \<Rightarrow> ((Inl EFAULT, NoOut), sa_others arg s)
                      | Some ds \<Rightarrow>
                          (case sem_set_perm semid ds (sa_others arg s) of (r, s') \<Rightarrow> ((r, NoOut), s')))
              else if cmd = IPC_STAT \<or> cmd = SEM_STAT \<or> cmd = SEM_STAT_ANY then
                if sa_raw arg = 0 \<or> \<not> sa_copy_ok arg then ((Inl EFAULT, NoOut), s)
                else ((Inr (if cmd = IPC_STAT then 0 else semid), OutDs (sem_ds i x)), s)
              else ((Inl EINVAL, NoOut), s))"

subsection \<open>Semaphore operations\<close>

datatype sem_can = CanErr errno | CanWait nat bool | CanApply

fun sem_ops_can_apply :: "sysv_sem_set \<Rightarrow> sysv_sembuf list \<Rightarrow> sem_can" where
  "sem_ops_can_apply x [] = CanApply"
| "sem_ops_can_apply x (b # bs) =
     (let n = unat (sem_num b); op = sem_op b
      in if n \<ge> ss_nsems x then CanErr EFBIG
         else if sint op < 0 \<and> ss_val x ! n < - op then CanWait n False
         else if op = 0 \<and> ss_val x ! n \<noteq> 0 then CanWait n True
         else sem_ops_can_apply x bs)"

definition sem_apply_one :: "u16 list \<Rightarrow> sysv_sembuf \<Rightarrow> u16 list" where
  "sem_apply_one val b =
     (let n = unat (sem_num b); op = sem_op b
      in val[n := if sint op < 0 then val ! n - (- op) else val ! n + op])"

definition sem_ops_apply :: "int \<Rightarrow> sysv_sembuf list \<Rightarrow> sysv_sem_set \<Rightarrow> sysv_sem_set" where
  "sem_ops_apply cur ops x = x\<lparr>ss_val := foldl sem_apply_one (ss_val x) ops, ss_last_pid := cur\<rparr>"

text \<open>
  What one round of the loop meets: a pending signal, the clock, whether the park could be
  prepared or linked, and what other tasks do while the lock is free.
\<close>

record sem_env =
  se_signal :: bool
  se_now :: u64
  se_prepared :: bool
  se_others :: "sem_state \<Rightarrow> sem_state"

datatype sem_round = SemReturn "errno + unit" | SemPrepare | SemSleep nat bool

text \<open>One round up to the point where it returns, prepares to park, or goes to sleep counted as a
  waiter.\<close>

definition bump_waiters :: "nat \<Rightarrow> bool \<Rightarrow> sysv_sem_set \<Rightarrow> sysv_sem_set" where
  "bump_waiters n zero x =
     (if zero then x\<lparr>ss_zcnt := (ss_zcnt x)[n := ss_zcnt x ! n + 1]\<rparr>
      else x\<lparr>ss_ncnt := (ss_ncnt x)[n := ss_ncnt x ! n + 1]\<rparr>)"

definition drop_waiters :: "nat \<Rightarrow> bool \<Rightarrow> sysv_sem_set \<Rightarrow> sysv_sem_set" where
  "drop_waiters n zero x =
     (if zero then (if ss_zcnt x ! n > 0 then x\<lparr>ss_zcnt := (ss_zcnt x)[n := ss_zcnt x ! n - 1]\<rparr> else x)
      else if ss_ncnt x ! n > 0 then x\<lparr>ss_ncnt := (ss_ncnt x)[n := ss_ncnt x ! n - 1]\<rparr> else x)"

definition sem_round ::
  "int \<Rightarrow> sysv_sembuf list \<Rightarrow> u64 \<Rightarrow> int \<Rightarrow> bool \<Rightarrow> sem_env \<Rightarrow> sem_state \<Rightarrow> sem_round \<times> sem_state" where
  "sem_round semid ops deadline cur token e s =
     (if \<not> sem_valid_locked semid s then (SemReturn (Inl EINVAL), s)
      else case sem_ops_can_apply (g_sem s ! nat semid) ops of
             CanErr err \<Rightarrow> (SemReturn (Inl err), s)
           | CanApply \<Rightarrow> (SemReturn (Inr ()),
               sem_wake_all (nat semid) (upd_set (nat semid) (sem_ops_apply cur ops) s))
           | CanWait n zero \<Rightarrow>
               if list_ex (\<lambda>b. sem_flg b AND IPC_NOWAIT \<noteq> 0) ops then (SemReturn (Inl EAGAIN), s)
               else if se_signal e then (SemReturn (Inl EINTR), s)
               else if deadline \<noteq> 0 \<and> sint (se_now e - deadline) \<ge> 0 then (SemReturn (Inl EAGAIN), s)
               else if \<not> token then (SemPrepare, s)
               else (SemSleep n zero, upd_set (nat semid) (bump_waiters n zero) s))"

fun sem_loop ::
  "int \<Rightarrow> sysv_sembuf list \<Rightarrow> u64 \<Rightarrow> int \<Rightarrow> bool \<Rightarrow> sem_env list \<Rightarrow> sem_state \<Rightarrow> ((errno + unit) \<times> sem_state) option" where
  "sem_loop semid ops deadline cur token [] s = None"
| "sem_loop semid ops deadline cur token (e # es) s =
     (case sem_round semid ops deadline cur token e s of
        (SemReturn r, s1) \<Rightarrow> Some (r, s1)
      | (SemPrepare, s1) \<Rightarrow>
          if \<not> se_prepared e then Some (Inl EAGAIN, se_others e s1)
          else sem_loop semid ops deadline cur True es (se_others e s1)
      | (SemSleep n zero, s1) \<Rightarrow>
          sem_loop semid ops deadline cur False es
            (upd_set (nat semid) (drop_waiters n zero) (se_others e s1)))"

definition sysv_sem_timedop ::
  "int \<Rightarrow> sysv_sembuf list uarg \<Rightarrow> nat \<Rightarrow> u64 \<Rightarrow> int \<Rightarrow> sem_env list \<Rightarrow> sem_state \<Rightarrow> ((errno + unit) \<times> sem_state) option" where
  "sysv_sem_timedop semid sops nsops deadline cur envs s =
     (if sops = UNull \<or> nsops = 0 \<or> nsops > 64 then Some (Inl EINVAL, s)
      else case sops of
             UOk ops \<Rightarrow> sem_loop semid (take nsops ops) deadline cur False envs s
           | _ \<Rightarrow> Some (Inl EFAULT, s))"

definition sysv_sem_op ::
  "int \<Rightarrow> sysv_sembuf list uarg \<Rightarrow> nat \<Rightarrow> int \<Rightarrow> sem_env list \<Rightarrow> sem_state \<Rightarrow> ((errno + unit) \<times> sem_state) option" where
  "sysv_sem_op semid sops nsops cur envs s = sysv_sem_timedop semid sops nsops 0 cur envs s"

subsection \<open>The table as a transition system\<close>

text \<open>The steps any tasks take in turn; a control operation that drops the lock around a copy is
  two steps of others and one of its own, so that here nothing happens in between.\<close>

inductive sem_step :: "sem_state \<Rightarrow> sem_state \<Rightarrow> bool" where
  sem_get: "sysv_sem_get key nsems semflg cred s = (r, s') \<Longrightarrow> sem_step s s'"
| sem_control: "sysv_sem_control semid semnum cmd (arg\<lparr>sa_others := (\<lambda>x. x)\<rparr>) cur s = (r, s') \<Longrightarrow>
    (\<And>vs. sa_vals arg = Some vs \<Longrightarrow> length vs = SYSV_SEM_PER_SET) \<Longrightarrow> sem_step s s'"
| sem_set_all: "length stage = SYSV_SEM_PER_SET \<Longrightarrow> n \<le> SYSV_SEM_PER_SET \<Longrightarrow> sem_set_all semid n stage cur s = (r, s') \<Longrightarrow> sem_step s s'"
| sem_set_perm: "sem_set_perm semid ds s = (r, s') \<Longrightarrow> sem_step s s'"
| sem_round: "sem_round semid ops deadline cur token e s = (r, s') \<Longrightarrow> sem_step s s'"
| sem_woken: "sem_step s (upd_set i (drop_waiters n zero) s)"

definition sem_boot :: sem_state where
  "sem_boot = \<lparr>g_sem = replicate SYSV_SEM_MAX ((sem_fresh 0 0 0 0 0)\<lparr>ss_used := False\<rparr>), sem_wakes = []\<rparr>"

inductive sem_reachable :: "sem_state \<Rightarrow> bool" where
  sem_init: "sem_reachable sem_boot"
| sem_next: "sem_reachable s \<Longrightarrow> sem_step s s' \<Longrightarrow> sem_reachable s'"


end
