(* ===== verification/Sysv_Sem_Theorems.thy ===== *)
theory Sysv_Sem_Theorems
  imports Sysv_Sem
begin

text \<open>
  The correctness of semaphore operations: a granted operation changes every value of the set
  by the sum of its operations in one step, nothing that could let a waiter go on happens
  without waking the set's waiters, and the one place where the check is too weak.
\<close>

subsection \<open>Well-formed tables\<close>

definition set_wf :: "sysv_sem_set \<Rightarrow> bool" where
  "set_wf x \<longleftrightarrow> length (ss_val x) = SYSV_SEM_PER_SET \<and> length (ss_ncnt x) = SYSV_SEM_PER_SET \<and>
     length (ss_zcnt x) = SYSV_SEM_PER_SET \<and> ss_nsems x \<le> SYSV_SEM_PER_SET"

definition sem_inv :: "sem_state \<Rightarrow> bool" where
  "sem_inv s \<longleftrightarrow> length (g_sem s) = SYSV_SEM_MAX \<and> (\<forall>x\<in>set (g_sem s). set_wf x)"

lemma g_sem_wake [simp]: "g_sem (sem_wake_all i s) = g_sem s"
  by (simp add: sem_wake_all_def)

lemma sem_inv_wake [simp]: "sem_inv (sem_wake_all i s) = sem_inv s"
  by (simp add: sem_inv_def)

lemma sem_inv_upd:
  assumes "sem_inv s" "i < SYSV_SEM_MAX \<Longrightarrow> set_wf (g_sem s ! i) \<Longrightarrow> set_wf (f (g_sem s ! i))"
  shows "sem_inv (upd_set i f s)"
proof (cases "i < SYSV_SEM_MAX")
  case True
  then have "set_wf (f (g_sem s ! i))" using assms nth_mem [of i "g_sem s"] by (simp add: sem_inv_def)
  then show ?thesis using assms(1) by (auto simp: sem_inv_def upd_set_def dest: set_update_cases)
qed (use assms(1) in \<open>simp add: sem_inv_def upd_set_def list_update_beyond\<close>)

lemma length_apply_one [simp]: "length (sem_apply_one v b) = length v"
  by (simp add: sem_apply_one_def Let_def)

lemma length_apply [simp]: "length (foldl sem_apply_one v ops) = length v"
  by (induction ops arbitrary: v) simp_all

lemma set_wf_ops [simp]:
  "set_wf x \<Longrightarrow> set_wf (sem_ops_apply cur ops x)"
  "set_wf x \<Longrightarrow> set_wf (bump_waiters n z x)"
  "set_wf x \<Longrightarrow> set_wf (drop_waiters n z x)"
  by (simp_all add: set_wf_def sem_ops_apply_def bump_waiters_def drop_waiters_def)

lemma sem_round_inv: "sem_inv s \<Longrightarrow> sem_round semid ops dl cur tok e s = (r, s') \<Longrightarrow> sem_inv s'"
  by (auto simp: sem_round_def split: if_splits sem_can.splits intro!: sem_inv_upd)

lemma sem_get_inv: "sem_inv s \<Longrightarrow> sysv_sem_get key nsems flg cred s = (r, s') \<Longrightarrow> sem_inv s'"
  by (auto simp: sysv_sem_get_def set_wf_def sem_fresh_def split: if_splits option.splits prod.splits
      intro!: sem_inv_upd)

lemma sem_set_all_inv:
  "sem_inv s \<Longrightarrow> length stage = SYSV_SEM_PER_SET \<Longrightarrow> n \<le> SYSV_SEM_PER_SET \<Longrightarrow>
     sem_set_all semid n stage cur s = (r, s') \<Longrightarrow> sem_inv s'"
  by (auto simp: sem_set_all_def set_wf_def split: if_splits intro!: sem_inv_upd)

lemma sem_set_perm_inv: "sem_inv s \<Longrightarrow> sem_set_perm semid ds s = (r, s') \<Longrightarrow> sem_inv s'"
  by (auto simp: sem_set_perm_def set_wf_def split: if_splits prod.splits intro!: sem_inv_upd)

text \<open>The control operations that change the table, one by one.\<close>

lemma sem_control_cases:
  assumes "sysv_sem_control semid semnum cmd (arg\<lparr>sa_others := (\<lambda>x. x)\<rparr>) cur s = (r, s')"
  obtains (same) "s' = s"
  | (rmid) "sem_valid_locked semid s"
      "s' = sem_wake_all (nat semid) (upd_set (nat semid) (\<lambda>x. x\<lparr>ss_used := False\<rparr>) s)"
  | (setval) n v where "sem_valid_locked semid s"
      "s' = sem_wake_all (nat semid) (upd_set (nat semid) (\<lambda>x. x\<lparr>ss_val := (ss_val x)[n := v], ss_last_pid := cur\<rparr>) s)"
  | (setall) stage r' where "sem_valid_locked semid s" "sa_vals arg = Some stage"
      "sem_set_all semid (ss_nsems (g_sem s ! nat semid)) stage cur s = (r', s')"
  | (setperm) ds r' where "sem_set_perm semid ds s = (r', s')"
proof -
  define c where "c = cmd AND NOT IPC_64_BIT"
  note run = assms [unfolded sysv_sem_control_def Let_def, folded c_def]
  note ne = sem_cmds
  show thesis
  proof (cases "sem_valid_locked semid s \<and> c \<noteq> IPC_INFO \<and> c \<noteq> SEM_INFO \<and> \<not> (semnum < 0 \<or>
      nat semnum \<ge> ss_nsems (g_sem s ! nat semid) \<and> c \<noteq> IPC_RMID \<and> c \<noteq> IPC_STAT \<and> c \<noteq> SEM_STAT \<and>
                 c \<noteq> SEM_STAT_ANY \<and> c \<noteq> SEM_INFO)")
    case False
    then have "s' = s" using run by (auto split: if_splits)
    then show thesis by (rule same)
  next
    case True
    then have v: "sem_valid_locked semid s" by simp
    consider "c = IPC_RMID" | "c = SETVAL" | "c = SETALL" | "c = IPC_SET" | "c \<notin> {IPC_RMID, SETVAL, SETALL, IPC_SET}"
      by blast
    then show thesis
    proof cases
      case 1
      then show thesis using run True by (intro rmid) (simp_all add: ne)
    next
      case 2
      then show thesis using run True by (intro setval [of "nat semnum" "ucast (sa_raw arg)"]) (simp_all add: ne)
    next
      case 3
      then have "s' = s \<or> (\<exists>stage r'. sa_vals arg = Some stage \<and>
          sem_set_all semid (ss_nsems (g_sem s ! nat semid)) stage cur s = (r', s'))"
        using run True by (auto simp: ne split: if_splits option.splits prod.splits)
      then show thesis using same setall v by blast
    next
      case 4
      then have "s' = s \<or> (\<exists>ds r'. sem_set_perm semid ds s = (r', s'))"
        using run True by (auto simp: ne split: if_splits option.splits prod.splits)
      then show thesis using same setperm by blast
    next
      case 5
      then have "s' = s" using run True by (auto split: if_splits)
      then show thesis by (rule same)
    qed
  qed
qed

lemma sem_control_inv:
  assumes "sem_inv s" "sysv_sem_control semid semnum cmd (arg\<lparr>sa_others := (\<lambda>x. x)\<rparr>) cur s = (r, s')"
    "\<And>vs. sa_vals arg = Some vs \<Longrightarrow> length vs = SYSV_SEM_PER_SET"
  shows "sem_inv s'"
  using assms(2)
proof (cases rule: sem_control_cases)
  case (setall stage r')
  have "nat semid < length (g_sem s)"
    using setall(1) assms(1) by (auto simp: sem_valid_locked_def sem_inv_def)
  then have "ss_nsems (g_sem s ! nat semid) \<le> SYSV_SEM_PER_SET"
    using assms(1) nth_mem by (fastforce simp: sem_inv_def set_wf_def)
  then show ?thesis using sem_set_all_inv assms(1,3) setall by blast
next
  case (setperm ds r')
  then show ?thesis using sem_set_perm_inv assms(1) by blast
qed (use assms(1) in \<open>auto simp: set_wf_def intro!: sem_inv_upd\<close>)

lemma sem_step_inv: "sem_step s s' \<Longrightarrow> sem_inv s \<Longrightarrow> sem_inv s'"
proof (induction rule: sem_step.induct)
  case (sem_control semid semnum cmd arg cur s r s')
  then show ?case using sem_control_inv by blast
next
  case (sem_woken s i n zero)
  then show ?case by (simp add: sem_inv_upd)
next
  case (sem_get key nsems semflg cred s r s')
  then show ?case using sem_get_inv by simp
next
  case (sem_set_all stage n semid cur s r s')
  then show ?case using sem_set_all_inv by simp
next
  case (sem_set_perm semid ds s r s')
  then show ?case using sem_set_perm_inv by simp
next
  case (sem_round semid ops deadline cur token e s r s')
  then show ?case using sem_round_inv by simp
qed

lemma sem_boot_inv: "sem_inv sem_boot"
  by (auto simp: sem_boot_def sem_inv_def set_wf_def sem_fresh_def)

lemma sem_steps_inv: "sem_step\<^sup>*\<^sup>* s s' \<Longrightarrow> sem_inv s \<Longrightarrow> sem_inv s'"
  by (induction rule: rtranclp_induct) (auto intro: sem_step_inv)

lemma sem_reachable_inv: "sem_reachable s \<Longrightarrow> sem_inv s"
  by (induction rule: sem_reachable.induct) (auto intro: sem_boot_inv sem_step_inv)

subsection \<open>The effect of an operation\<close>

text \<open>The sum of the operations on semaphore \<open>k\<close>.\<close>

definition sem_delta :: "sysv_sembuf list \<Rightarrow> nat \<Rightarrow> int" where
  "sem_delta ops k = (\<Sum>b\<leftarrow>ops. if unat (sem_num b) = k then sint (sem_op b) else 0)"

lemma apply_one_word: "sem_apply_one v b = v[unat (sem_num b) := v ! unat (sem_num b) + sem_op b]"
  by (simp add: sem_apply_one_def Let_def)

lemma apply_word:
  "k < length v \<Longrightarrow> foldl sem_apply_one v ops ! k =
     v ! k + (\<Sum>b\<leftarrow>ops. if unat (sem_num b) = k then sem_op b else 0)"
  by (induction ops arbitrary: v) (auto simp: apply_one_word nth_list_update ac_simps)

lemma delta_word: "(\<Sum>b\<leftarrow>ops. if unat (sem_num b) = k then sem_op b else 0) = word_of_int (sem_delta ops k)"
  by (induction ops) (simp_all add: sem_delta_def)

lemma apply_uint:
  assumes "k < length v"
  shows "uint (foldl sem_apply_one v ops ! k) = (uint (v ! k) + sem_delta ops k) mod 65536"
proof -
  have "foldl sem_apply_one v ops ! k = word_of_int (uint (v ! k) + sem_delta ops k)"
    by (simp add: apply_word [OF assms] delta_word)
  then show ?thesis by (simp only: uint_word_of_int) simp
qed

lemma can_apply_op:
  assumes "sem_ops_can_apply x ops = CanApply" "b \<in> set ops"
  shows "unat (sem_num b) < ss_nsems x" "sint (sem_op b) < 0 \<Longrightarrow> - sem_op b \<le> ss_val x ! unat (sem_num b)"
    "sem_op b = 0 \<Longrightarrow> ss_val x ! unat (sem_num b) = 0"
  using assms by (induction x ops rule: sem_ops_can_apply.induct) (auto simp: Let_def not_less split: if_splits)

lemma uint_minus_neg: "sint w < 0 \<Longrightarrow> uint (- w) = - sint w" for w :: u16
proof -
  assume "sint w < 0"
  moreover have "- 32768 \<le> sint w" using sint_ge [of w] by simp
  ultimately have "(- sint w) mod 65536 = - sint w" by simp
  moreover have "- w = word_of_int (- sint w)" by simp
  moreover have "uint (word_of_int (- sint w) :: u16) = (- sint w) mod 65536" by (simp only: uint_word_of_int) simp
  ultimately show ?thesis by metis
qed

lemma delta_other: "\<forall>b\<in>set ops. sem_num b \<noteq> m \<Longrightarrow> sem_delta ops (unat m) = 0"
  by (induction ops) (auto simp: sem_delta_def dest: unsigned_word_eqI)

lemma delta_distinct:
  assumes "distinct (map sem_num ops)" "b \<in> set ops"
  shows "sem_delta ops (unat (sem_num b)) = sint (sem_op b)"
  using assms
proof (induction ops)
  case (Cons c ops)
  have zero: "sem_delta ops (unat (sem_num c)) = 0"
    using Cons.prems(1) by (intro delta_other) (auto simp: image_iff)
  show ?case
  proof (cases "b = c")
    case True
    then show ?thesis using zero by (simp add: sem_delta_def)
  next
    case False
    then have b: "b \<in> set ops" using Cons.prems(2) by simp
    then have "sem_num b \<noteq> sem_num c" using Cons.prems(1) by (metis distinct.simps(2) image_eqI list.simps(9) set_map)
    then have "unat (sem_num c) \<noteq> unat (sem_num b)" using unsigned_word_eqI by metis
    then show ?thesis using Cons b by (simp add: sem_delta_def)
  qed
qed simp


lemma can_apply_nonneg:
  assumes can: "sem_ops_can_apply x ops = CanApply" and d: "distinct (map sem_num ops)"
  shows "0 \<le> uint (ss_val x ! k) + sem_delta ops k"
proof (cases "\<exists>b\<in>set ops. unat (sem_num b) = k")
  case True
  then obtain b where b: "b \<in> set ops" "unat (sem_num b) = k" by blast
  have "0 \<le> uint (ss_val x ! k) + sint (sem_op b)"
  proof (cases "sint (sem_op b) < 0")
    case True
    then have "uint (- sem_op b) \<le> uint (ss_val x ! k)"
      using can_apply_op(2) [OF can b(1)] b(2) by (simp add: word_le_def)
    then show ?thesis using uint_minus_neg [OF True] by simp
  qed simp
  then show ?thesis using delta_distinct [OF d b(1)] b(2) by simp
next
  case False
  then have "sem_delta ops k = 0" unfolding sem_delta_def by (induction ops) auto
  then show ?thesis by simp
qed

definition sem_envs_fair :: "sem_env list \<Rightarrow> bool" where
  "sem_envs_fair envs \<longleftrightarrow> (\<forall>e\<in>set envs. \<forall>s. sem_step\<^sup>*\<^sup>* s (se_others e s))"

lemma sem_round_granted:
  assumes "sem_round semid ops dl cur tok e s = (SemReturn (Inr ()), s')"
  shows "sem_valid_locked semid s" "sem_ops_can_apply (g_sem s ! nat semid) ops = CanApply"
    "s' = sem_wake_all (nat semid) (upd_set (nat semid) (sem_ops_apply cur ops) s)"
  using assms by (auto simp: sem_round_def split: if_splits sem_can.splits)

lemma sem_loop_granted:
  assumes "sem_envs_fair envs" "sem_loop semid ops dl cur tok envs s = Some (Inr (), s')"
  shows "\<exists>s0 e tok. sem_step\<^sup>*\<^sup>* s s0 \<and> sem_round semid ops dl cur tok e s0 = (SemReturn (Inr ()), s')"
  using assms
proof (induction envs arbitrary: s tok)
  case (Cons e es)
  obtain r s1 where r: "sem_round semid ops dl cur tok e s = (r, s1)" by fastforce
  have st: "sem_step s s1" using r by (rule sem_round)
  have ot: "sem_step\<^sup>*\<^sup>* s1 (se_others e s1)" and fair: "sem_envs_fair es"
    using Cons.prems(1) by (simp_all add: sem_envs_fair_def)
  have to: "sem_step\<^sup>*\<^sup>* s (se_others e s1)" using st ot by simp
  show ?case
  proof (cases r)
    case (SemReturn x)
    then show ?thesis using Cons.prems(2) r by auto
  next
    case SemPrepare
    then have "sem_loop semid ops dl cur True es (se_others e s1) = Some (Inr (), s')"
      using Cons.prems(2) r by (simp split: if_splits)
    from Cons.IH [OF fair this] show ?thesis using to rtranclp_trans by metis
  next
    case (SemSleep n z)
    let ?s2 = "upd_set (nat semid) (drop_waiters n z) (se_others e s1)"
    have "sem_loop semid ops dl cur False es ?s2 = Some (Inr (), s')"
      using Cons.prems(2) r SemSleep by simp
    from Cons.IH [OF fair this] show ?thesis
      using rtranclp.rtrancl_into_rtrancl [OF to sem_woken] rtranclp_trans by metis
  qed
qed simp

subsection \<open>Wakes\<close>

definition same_request :: "sysv_sem_set \<Rightarrow> sysv_sem_set \<Rightarrow> bool" where
  "same_request x y \<longleftrightarrow> ss_used x = ss_used y \<and> ss_nsems x = ss_nsems y \<and> ss_val x = ss_val y"

lemma same_request_can: "same_request x y \<Longrightarrow> sem_ops_can_apply x ops = sem_ops_can_apply y ops"
  by (induction x ops rule: sem_ops_can_apply.induct) (simp_all add: same_request_def Let_def)

definition quiet_for :: "nat \<Rightarrow> sem_state \<Rightarrow> sem_state \<Rightarrow> bool" where
  "quiet_for i s s' \<longleftrightarrow> sem_wakes s' = sem_wakes s @ [i] \<or> same_request (g_sem s ! i) (g_sem s' ! i)"

lemma quiet_refl [simp]: "quiet_for i s s"
  by (simp add: quiet_for_def same_request_def)

lemma quiet_upd:
  "i < length (g_sem s) \<Longrightarrow> (j = i \<Longrightarrow> same_request (g_sem s ! i) (f (g_sem s ! i))) \<Longrightarrow> quiet_for i s (upd_set j f s)"
  by (cases "j = i") (simp_all add: quiet_for_def upd_set_def same_request_def)

lemma quiet_wake_upd: "i < length (g_sem s) \<Longrightarrow> quiet_for i s (sem_wake_all j (upd_set j f s))"
  by (cases "j = i") (simp_all add: quiet_for_def upd_set_def sem_wake_all_def same_request_def)

lemma first_index_SomeD: "first_index P xs = Some i \<Longrightarrow> i < length xs \<and> P (xs ! i)"
  by (induction P xs arbitrary: i rule: first_index.induct) (auto split: if_splits)

lemma sem_get_quiet:
  assumes "i < length (g_sem s)" "ss_used (g_sem s ! i)" "sysv_sem_get key nsems flg cred s = (r, s')"
  shows "quiet_for i s s'"
proof -
  have "s' = s \<or> (\<exists>j y. \<not> ss_used (g_sem s ! j) \<and> s' = upd_set j (\<lambda>_. y) s)"
    using assms(3)
    by (auto simp: sysv_sem_get_def split: if_splits option.splits prod.splits dest!: first_index_SomeD)
  then show ?thesis using assms(1,2) by (auto intro!: quiet_upd)
qed

lemma sem_step_quiet:
  assumes "sem_step s s'" "sem_inv s" "i < SYSV_SEM_MAX" "ss_used (g_sem s ! i)"
  shows "quiet_for i s s'"
  using assms(1)
proof cases
  case (sem_control semid semnum cmd arg cur r)
  have i: "i < length (g_sem s)" using assms(2,3) by (simp add: sem_inv_def)
  from sem_control(1) show ?thesis
  proof (cases rule: sem_control_cases)
    case (setall stage r')
    then show ?thesis using i by (auto simp: sem_set_all_def quiet_wake_upd split: if_splits)
  next
    case (setperm ds r')
    then show ?thesis
      using i by (auto simp: sem_set_perm_def same_request_def split: if_splits prod.splits intro!: quiet_upd)
  qed (use i in \<open>simp_all add: quiet_wake_upd\<close>)
next
  case (sem_round semid ops deadline cur token e r)
  then show ?thesis
    using assms(2,3)
    by (auto simp: sem_round_def sem_inv_def quiet_wake_upd same_request_def bump_waiters_def
        split: if_splits sem_can.splits intro!: quiet_upd)
next
  case (sem_get key nsems semflg cred r)
  then show ?thesis using sem_get_quiet assms(2-4) by (simp add: sem_inv_def)
next
  case (sem_set_all stage n semid cur r)
  then show ?thesis using assms(2,3) by (auto simp: sem_set_all_def sem_inv_def quiet_wake_upd split: if_splits)
next
  case (sem_set_perm semid ds r)
  then show ?thesis
    using assms(2,3)
    by (auto simp: sem_set_perm_def sem_inv_def same_request_def split: if_splits prod.splits intro!: quiet_upd)
next
  case (sem_woken j n z)
  then show ?thesis
    using assms(2,3) by (auto simp: sem_inv_def same_request_def drop_waiters_def intro!: quiet_upd)
qed


subsection \<open>A concrete set for the witnesses\<close>

definition demo_quiet_env :: sem_env where
  "demo_quiet_env = \<lparr>se_signal = False, se_now = 0, se_prepared = True, se_others = (\<lambda>s. s)\<rparr>"

definition demo_arg :: sem_arg where
  "demo_arg = \<lparr>sa_raw = 1, sa_copy_ok = True, sa_vals = None, sa_ds = None, sa_others = (\<lambda>s. s)\<rparr>"

definition demo_sem0 :: sem_state where
  "demo_sem0 = snd (sysv_sem_get 7 2 IPC_CREAT None sem_boot)"

definition demo_sem1 :: sem_state where
  "demo_sem1 = snd (sysv_sem_control 0 0 SETVAL demo_arg 5 demo_sem0)"

definition demo_down :: sysv_sembuf where
  "demo_down = \<lparr>sem_num = 0, sem_op = - 1, sem_flg = 0\<rparr>"

lemma demo_boot_table:
  "g_sem sem_boot = (sem_fresh 0 0 0 0 0)\<lparr>ss_used := False\<rparr> # replicate 31 ((sem_fresh 0 0 0 0 0)\<lparr>ss_used := False\<rparr>)"
  by (simp add: sem_boot_def SYSV_SEM_MAX_def flip: replicate_Suc)

lemma first_index_replicate: "\<not> P x \<Longrightarrow> first_index P (replicate n x) = None"
  by (induction n) simp_all

lemma demo_sem0_set: "g_sem demo_sem0 ! 0 = sem_fresh 7 2 0 0 IPC_CREAT"
  by (simp add: demo_sem0_def sysv_sem_get_def SYSV_SEM_PER_SET_def IPC_CREAT_def IPC_EXCL_def demo_boot_table
      upd_set_def first_index_replicate sem_fresh_def)

lemma demo_sem1_eq:
  "demo_sem1 = sem_wake_all 0 (upd_set 0 (\<lambda>x. x\<lparr>ss_val := (ss_val x)[0 := 1], ss_last_pid := 5\<rparr>) demo_sem0)"
  by (simp add: demo_sem1_def sysv_sem_control_def Let_def sem_cmds sem_valid_locked_def demo_sem0_set
      SYSV_SEM_MAX_def demo_arg_def sem_fresh_def)

lemma demo_sem_reachable: "sem_reachable demo_sem0" "sem_reachable demo_sem1"
proof -
  show r0: "sem_reachable demo_sem0"
    using sem_next [OF sem_init sem_get] by (metis demo_sem0_def prod.collapse)
  have "sysv_sem_control 0 0 SETVAL (demo_arg\<lparr>sa_others := (\<lambda>x. x)\<rparr>) 5 demo_sem0 =
      (fst (sysv_sem_control 0 0 SETVAL demo_arg 5 demo_sem0), demo_sem1)"
    by (simp add: demo_sem1_def demo_arg_def)
  from sem_next [OF r0 sem_control [OF this]] show "sem_reachable demo_sem1"
    by (simp add: demo_arg_def)
qed

lemma demo_sem1_set:
  "ss_used (g_sem demo_sem1 ! 0)" "ss_nsems (g_sem demo_sem1 ! 0) = 2" "ss_val (g_sem demo_sem1 ! 0) = 1 # replicate 63 0"
proof -
  have len: "0 < length (g_sem demo_sem0)"
    using sem_reachable_inv [OF demo_sem_reachable(1)] by (simp add: sem_inv_def SYSV_SEM_MAX_def)
  have "replicate 64 (0::u16) = 0 # replicate 63 0" by (simp flip: replicate_Suc)
  then show "ss_used (g_sem demo_sem1 ! 0)" "ss_nsems (g_sem demo_sem1 ! 0) = 2"
    "ss_val (g_sem demo_sem1 ! 0) = 1 # replicate 63 0"
    using len by (simp_all add: demo_sem1_eq upd_set_def demo_sem0_set sem_fresh_def SYSV_SEM_PER_SET_def)
qed

lemma demo_valid: "sem_valid_locked 0 demo_sem1"
  using demo_sem1_set by (simp add: sem_valid_locked_def SYSV_SEM_MAX_def)

definition demo_sem2 :: sem_state where
  "demo_sem2 = sem_wake_all 0 (upd_set 0 (sem_ops_apply 5 [demo_down]) demo_sem1)"

lemma demo_down_run:
  "sysv_sem_timedop 0 (UOk [demo_down]) 1 0 5 [demo_quiet_env] demo_sem1 = Some (Inr (), demo_sem2)"
  by (simp add: sysv_sem_timedop_def sem_round_def demo_valid demo_down_def demo_sem1_set demo_sem2_def Let_def)

subsection \<open>The properties\<close>

text \<open>
  C23.  Semaphore operations are atomic.  When the call returns success, even after waiting, all
  its operations took effect in one step from a state reached in the meantime: every value of the
  set has changed by the sum of the operations on it, modulo 65536, and if no semaphore is named
  twice, no value was below what the operations take from it.
\<close>

theorem semop_atomic:
  assumes "sem_reachable s" "sem_envs_fair envs" "k < SYSV_SEM_PER_SET"
    and run: "sysv_sem_timedop semid (UOk ops) nsops deadline cur envs s = Some (Inr (), s')"
  shows "\<exists>s0 x. sem_step\<^sup>*\<^sup>* s s0 \<and> x = g_sem s0 ! nat semid \<and> ss_used x \<and>
    uint (ss_val (g_sem s' ! nat semid) ! k) = (uint (ss_val x ! k) + sem_delta (take nsops ops) k) mod 65536 \<and>
    (distinct (map sem_num (take nsops ops)) \<longrightarrow> 0 \<le> uint (ss_val x ! k) + sem_delta (take nsops ops) k)"
proof -
  let ?ops = "take nsops ops" and ?i = "nat semid"
  have "sem_loop semid ?ops deadline cur False envs s = Some (Inr (), s')"
    using run by (simp add: sysv_sem_timedop_def split: if_splits)
  from sem_loop_granted [OF assms(2) this] obtain s0 e tok where s0: "sem_step\<^sup>*\<^sup>* s s0"
    "sem_round semid ?ops deadline cur tok e s0 = (SemReturn (Inr ()), s')" by blast
  note g = sem_round_granted [OF s0(2)]
  have "sem_inv s0" using sem_steps_inv [OF s0(1) sem_reachable_inv [OF assms(1)]] .
  then have i: "?i < length (g_sem s0)" "length (ss_val (g_sem s0 ! ?i)) = SYSV_SEM_PER_SET"
    using g(1) nth_mem [of ?i "g_sem s0"] by (auto simp: sem_valid_locked_def sem_inv_def set_wf_def)
  have "ss_val (g_sem s' ! ?i) = foldl sem_apply_one (ss_val (g_sem s0 ! ?i)) ?ops"
    using g(3) i(1) by (simp add: upd_set_def sem_ops_apply_def)
  then show ?thesis
    using s0(1) g(1) apply_uint [of k "ss_val (g_sem s0 ! ?i)" ?ops] i(2) assms(3) can_apply_nonneg [OF g(2)]
    by (auto simp: sem_valid_locked_def)
qed

theorem semop_atomic_witness:
  "\<exists>s0 x. sem_step\<^sup>*\<^sup>* demo_sem1 s0 \<and> x = g_sem s0 ! 0 \<and> ss_used x \<and>
     uint (ss_val (g_sem demo_sem2 ! 0) ! 0) = (uint (ss_val x ! 0) + sem_delta [demo_down] 0) mod 65536 \<and>
     0 \<le> uint (ss_val x ! 0) + sem_delta [demo_down] 0"
proof -
  have "sem_envs_fair [demo_quiet_env]" by (simp add: sem_envs_fair_def demo_quiet_env_def)
  from semop_atomic [OF demo_sem_reachable(2) this _ demo_down_run, of 0] show ?thesis
    by (simp add: SYSV_SEM_PER_SET_def)
qed

text \<open>
  C24.  No waiter is forgotten.  If a request has to wait on a set, and a step of any task makes it
  possible to go on, be it because it could now be applied or because the set was removed, then
  this step wakes the waiters of the set.
\<close>

theorem sem_release_wakes:
  assumes "sem_reachable s" "sem_step s s'" "i < SYSV_SEM_MAX" "ss_used (g_sem s ! i)"
    "sem_ops_can_apply (g_sem s ! i) ops = CanWait n z"
    "\<not> (ss_used (g_sem s' ! i) \<and> sem_ops_can_apply (g_sem s' ! i) ops = CanWait n z)"
  shows "sem_wakes s' = sem_wakes s @ [i]"
proof -
  have "quiet_for i s s'" using sem_step_quiet [OF assms(2) sem_reachable_inv [OF assms(1)] assms(3,4)] .
  moreover have "\<not> same_request (g_sem s ! i) (g_sem s' ! i)"
  proof
    assume eq: "same_request (g_sem s ! i) (g_sem s' ! i)"
    then have "ss_used (g_sem s' ! i)" using assms(4) by (simp add: same_request_def)
    then show False using assms(5,6) same_request_can [OF eq, of ops] by simp
  qed
  ultimately show ?thesis by (simp add: quiet_for_def)
qed

theorem sem_release_wakes_witness:
  "sem_ops_can_apply (g_sem demo_sem0 ! 0) [demo_down] = CanWait 0 False \<and>
   sem_wakes demo_sem1 = sem_wakes demo_sem0 @ [0]"
proof -
  have w: "sem_ops_can_apply (g_sem demo_sem0 ! 0) [demo_down] = CanWait 0 False"
    by (simp add: demo_down_def demo_sem0_set sem_fresh_def SYSV_SEM_PER_SET_def Let_def)
  have "sem_ops_can_apply (g_sem demo_sem1 ! 0) [demo_down] = CanApply"
    by (simp add: demo_down_def demo_sem1_set Let_def)
  moreover have "sem_step demo_sem0 demo_sem1"
    by (rule sem_control [of 0 0 SETVAL demo_arg 5 demo_sem0 "fst (sysv_sem_control 0 0 SETVAL demo_arg 5 demo_sem0)"])
      (simp_all add: demo_sem1_def demo_arg_def)
  ultimately show ?thesis
    using sem_release_wakes [OF demo_sem_reachable(1), of demo_sem1 0 "[demo_down]" 0 False] w
    by (simp add: SYSV_SEM_MAX_def demo_sem0_set sem_fresh_def)
qed

text \<open>An operation that is possible against the values \<open>v\<close>, taken by itself.\<close>

definition op_possible :: "u16 list \<Rightarrow> sysv_sembuf \<Rightarrow> bool" where
  "op_possible v b \<longleftrightarrow> (sint (sem_op b) < 0 \<longrightarrow> - sint (sem_op b) \<le> uint (v ! unat (sem_num b))) \<and>
     (sem_op b = 0 \<longrightarrow> v ! unat (sem_num b) = 0)"

lemma can_apply_iff:
  "sem_ops_can_apply x ops = CanApply \<longleftrightarrow>
     (\<forall>b\<in>set ops. unat (sem_num b) < ss_nsems x \<and> op_possible (ss_val x) b)"
proof (induction ops)
  case (Cons b ops)
  have "ss_val x ! unat (sem_num b) < - sem_op b \<longleftrightarrow> uint (ss_val x ! unat (sem_num b)) < - sint (sem_op b)"
    if "sint (sem_op b) < 0"
    using uint_minus_neg [OF that] by (simp add: word_less_def)
  then show ?case using Cons by (auto simp: Let_def op_possible_def not_le)
qed simp

text \<open>
  C25.  What a request is granted for, exactly.  A request of up to 64 operations on a set in use
  is granted at once if and only if every operation, taken by itself, is possible against the
  values before the request; then every value changes by the sum of the operations on it modulo
  65536.  So a request that names a semaphore several times is granted even if it takes more in
  all than there is, and then the value wraps around: instead of the negative value v + d it is
  65536 + v + d.
\<close>

theorem semop_grant_exact:
  assumes "sem_reachable s" "sem_valid_locked semid s" "x = g_sem s ! nat semid" "ops \<noteq> []" "length ops \<le> 64"
  shows "((\<exists>s'. sysv_sem_op semid (UOk ops) (length ops) cur [e] s = Some (Inr (), s')) \<longleftrightarrow>
      (\<forall>b\<in>set ops. unat (sem_num b) < ss_nsems x \<and> op_possible (ss_val x) b)) \<and>
    (\<forall>s' k. sysv_sem_op semid (UOk ops) (length ops) cur [e] s = Some (Inr (), s') \<and> k < SYSV_SEM_PER_SET \<longrightarrow>
      (let v = uint (ss_val x ! k); d = sem_delta ops k; v' = uint (ss_val (g_sem s' ! nat semid) ! k)
       in v' = (v + d) mod 65536 \<and> (- 65536 \<le> v + d \<and> v + d < 0 \<longrightarrow> v' = 65536 + v + d)))"
proof -
  have "sysv_sem_op semid (UOk ops) (length ops) cur [e] s = Some (Inr (), s') \<longleftrightarrow>
      sem_ops_can_apply x ops = CanApply \<and>
      s' = sem_wake_all (nat semid) (upd_set (nat semid) (sem_ops_apply cur ops) s)" for s'
    using assms(2-5)
    by (auto simp: sysv_sem_op_def sysv_sem_timedop_def sem_round_def split: sem_can.splits if_splits)
  note run = this
  have "sem_inv s" using sem_reachable_inv [OF assms(1)] .
  then have i: "nat semid < length (g_sem s)" "length (ss_val x) = SYSV_SEM_PER_SET"
    using assms(2,3) nth_mem [of "nat semid" "g_sem s"] by (auto simp: sem_valid_locked_def sem_inv_def set_wf_def)
  have val: "uint (ss_val (g_sem s' ! nat semid) ! k) = (uint (ss_val x ! k) + sem_delta ops k) mod 65536"
    if "s' = sem_wake_all (nat semid) (upd_set (nat semid) (sem_ops_apply cur ops) s)" "k < SYSV_SEM_PER_SET" for s' k
    using that i apply_uint [of k "ss_val x" ops] by (simp add: upd_set_def sem_ops_apply_def assms(3))
  have wrap: "z mod 65536 = 65536 + z" if "- 65536 \<le> z" "z < 0" for z :: int
    using that mod_pos_pos_trivial [of "z + 65536" 65536] by simp
  show ?thesis using run can_apply_iff [of x ops] val wrap by (auto simp: Let_def)
qed

theorem semop_grant_exact_witness:
  "\<exists>s'. sysv_sem_op 0 (UOk [demo_down, demo_down]) 2 5 [demo_quiet_env] demo_sem1 = Some (Inr (), s') \<and>
     ss_val (g_sem demo_sem1 ! 0) ! 0 = 1 \<and> uint (ss_val (g_sem s' ! 0) ! 0) = 65535"
proof -
  have "op_possible (ss_val (g_sem demo_sem1 ! 0)) demo_down" "sem_delta [demo_down, demo_down] 0 = - 2"
    by (simp_all add: op_possible_def demo_sem1_set demo_down_def sem_delta_def)
  moreover note semop_grant_exact [OF demo_sem_reachable(2) demo_valid refl, of "[demo_down, demo_down]" 5 demo_quiet_env]
  ultimately show ?thesis by (auto simp: demo_down_def demo_sem1_set Let_def SYSV_SEM_PER_SET_def numeral_2_eq_2)
qed

end
