(* ===== verification/Eventfd.thy ===== *)
theory Eventfd
  imports Prelude
begin

text \<open>
  Event counters (kernel/ipc/eventfd.c): a 64-bit counter that readers drain and writers add
  to.  As for pipes, the code between taking and dropping the lock is one step, an environment
  describes what a wait meets, and a call that has not returned after the given waits is
  \<^const>\<open>None\<close>.  How often a reader and a writer was woken is counted.
\<close>

unbundle bit_operations_syntax

subsection \<open>State\<close>

definition O_RDWR :: u32 where "O_RDWR = 2"
definition O_NONBLOCK :: u32 where "O_NONBLOCK = 0x800"
definition O_CLOEXEC :: u32 where "O_CLOEXEC = 0x80000"
definition EPOLLIN :: u16 where "EPOLLIN = 0x001"
definition EPOLLOUT :: u16 where "EPOLLOUT = 0x004"
definition EPOLLNVAL :: u16 where "EPOLLNVAL = 0x020"

record eventfd =
  counter :: u64
  semaphore :: bool
  reader_wakes :: nat
  writer_wakes :: nat

record efd_env =
  ee_prepared :: bool
  ee_linked :: bool
  ee_reason :: wake_reason
  ee_others :: "eventfd \<Rightarrow> eventfd"
  ee_others_asleep :: "eventfd \<Rightarrow> eventfd"

text \<open>One round of waiting, the same code for readers and writers: \<open>blocked\<close> is the condition
  tested again after the park is prepared.\<close>

definition efd_wait :: "(eventfd \<Rightarrow> bool) \<Rightarrow> efd_env \<Rightarrow> eventfd \<Rightarrow> (errno + unit) \<times> eventfd" where
  "efd_wait blocked e efd =
     (let efd1 = ee_others e efd
      in if \<not> ee_prepared e then (Inl EAGAIN, efd1)
         else if \<not> blocked efd1 then (Inr (), ee_others_asleep e efd1)
         else
           let reason = (if ee_linked e then ee_reason e else PROC_WAKE_CANCEL);
               efd2 = ee_others_asleep e efd1
           in if proc_wake_reason_is_task_interrupt reason then (Inl ERESTARTSYS, efd2) else (Inr (), efd2))"

fun efd_wait_until ::
  "(eventfd \<Rightarrow> bool) \<Rightarrow> bool \<Rightarrow> efd_env list \<Rightarrow> eventfd \<Rightarrow> ((errno + unit) \<times> eventfd) option" where
  "efd_wait_until blocked nonblock envs efd =
     (if \<not> blocked efd then Some (Inr (), efd)
      else if nonblock then Some (Inl EAGAIN, efd)
      else case envs of
             [] \<Rightarrow> None
           | e # es \<Rightarrow>
               (case efd_wait blocked e efd of
                  (Inl err, efd1) \<Rightarrow> Some (Inl err, efd1)
                | (Inr _, efd1) \<Rightarrow> efd_wait_until blocked nonblock es efd1))"

declare efd_wait_until.simps [simp del]

subsection \<open>Reading and writing\<close>

definition read_blocked :: "eventfd \<Rightarrow> bool" where
  "read_blocked efd \<longleftrightarrow> counter efd = 0"

definition write_blocked :: "u64 \<Rightarrow> eventfd \<Rightarrow> bool" where
  "write_blocked v efd \<longleftrightarrow> counter efd + v > - 1 - 1"

text \<open>The locked end of a read: the value returned and the new state.\<close>

definition efd_take :: "eventfd \<Rightarrow> u64 \<times> eventfd" where
  "efd_take efd =
     (let v = (if semaphore efd then 1 else counter efd);
          efd1 = efd\<lparr>counter := counter efd - v\<rparr>;
          wake = (counter efd1 + v = - 1)
      in (v, if wake then efd1\<lparr>writer_wakes := writer_wakes efd1 + 1\<rparr> else efd1))"

definition efd_add :: "u64 \<Rightarrow> eventfd \<Rightarrow> eventfd" where
  "efd_add v efd =
     (let wake = (counter efd = 0); efd1 = efd\<lparr>counter := counter efd + v\<rparr>
      in if wake then efd1\<lparr>reader_wakes := reader_wakes efd1 + 1\<rparr> else efd1)"

text \<open>\<open>priv\<close>: the file has an event counter; \<open>Inr v\<close>: eight bytes, the value \<open>v\<close>, were copied.\<close>

definition eventfd_read ::
  "bool \<Rightarrow> bool \<Rightarrow> nat \<Rightarrow> efd_env list \<Rightarrow> eventfd \<Rightarrow> ((errno + u64) \<times> eventfd) option" where
  "eventfd_read priv nonblock cnt envs efd =
     (if \<not> priv then Some (Inl EBADF, efd)
      else if cnt < 8 then Some (Inl EINVAL, efd)
      else case efd_wait_until read_blocked nonblock envs efd of
             None \<Rightarrow> None
           | Some (Inl err, efd1) \<Rightarrow> Some (Inl err, efd1)
           | Some (Inr _, efd1) \<Rightarrow> (case efd_take efd1 of (v, efd2) \<Rightarrow> Some (Inr v, efd2)))"

definition eventfd_write ::
  "bool \<Rightarrow> bool \<Rightarrow> nat \<Rightarrow> u64 \<Rightarrow> efd_env list \<Rightarrow> eventfd \<Rightarrow> ((errno + nat) \<times> eventfd) option" where
  "eventfd_write priv nonblock cnt v envs efd =
     (if \<not> priv then Some (Inl EBADF, efd)
      else if cnt < 8 then Some (Inl EINVAL, efd)
      else if v = - 1 then Some (Inl EINVAL, efd)
      else case efd_wait_until (write_blocked v) nonblock envs efd of
             None \<Rightarrow> None
           | Some (Inl err, efd1) \<Rightarrow> Some (Inl err, efd1)
           | Some (Inr _, efd1) \<Rightarrow> Some (Inr 8, efd_add v efd1))"

definition eventfd_poll :: "bool \<Rightarrow> u16 \<Rightarrow> eventfd \<Rightarrow> u16" where
  "eventfd_poll priv events efd =
     (if \<not> priv then EPOLLNVAL
      else (if events AND EPOLLIN \<noteq> 0 \<and> counter efd \<noteq> 0 then EPOLLIN else 0) OR
           (if events AND EPOLLOUT \<noteq> 0 \<and> counter efd < - 1 - 1 then EPOLLOUT else 0))"

text \<open>A new counter and the flags of its file; \<open>mem\<close>: there is memory for both.\<close>

definition eventfd_create :: "u32 \<Rightarrow> u32 \<Rightarrow> bool \<Rightarrow> errno + eventfd \<times> u32" where
  "eventfd_create initval flags mem =
     (if flags AND NOT (O_CLOEXEC OR O_NONBLOCK OR 1) \<noteq> 0 then Inl EINVAL
      else if \<not> mem then Inl ENOMEM
      else Inr (\<lparr>counter = ucast initval, semaphore = (flags AND 1 \<noteq> 0), reader_wakes = 0, writer_wakes = 0\<rparr>,
                O_RDWR OR (flags AND O_NONBLOCK)))"

subsection \<open>Histories\<close>

text \<open>\<open>efd_trace efd w r efd'\<close>: from \<open>efd\<close> to \<open>efd'\<close> by the locked ends of reads and writes that were
  not blocked; \<open>w\<close> and \<open>r\<close> list the values written and read.\<close>

inductive efd_trace :: "eventfd \<Rightarrow> u64 list \<Rightarrow> u64 list \<Rightarrow> eventfd \<Rightarrow> bool" for efd :: eventfd where
  et_refl: "efd_trace efd [] [] efd"
| et_write: "efd_trace efd w r x \<Longrightarrow> v \<noteq> - 1 \<Longrightarrow> \<not> write_blocked v x \<Longrightarrow> efd_trace efd (w @ [v]) r (efd_add v x)"
| et_read: "efd_trace efd w r x \<Longrightarrow> \<not> read_blocked x \<Longrightarrow> efd_take x = (v, y) \<Longrightarrow> efd_trace efd w (r @ [v]) y"

end
