(* ===== verification/Eventfd_Theorems.thy ===== *)
theory Eventfd_Theorems
  imports Eventfd
begin

text \<open>
  The arithmetic of event counters: what a call does to the counter, with other tasks acting
  while it sleeps; and two faults that the model makes visible: a write can carry past the end of
  the counter, and a blocked writer is never woken.
\<close>

lemma unat_max64: "unat (- 1 :: u64) = 18446744073709551615"
  by (simp add: unsigned_minus_1_eq_mask mask_eq_exp_minus_1)

lemma not_write_blocked: "\<not> write_blocked v x \<longleftrightarrow> counter x + v \<noteq> - 1"
proof -
  have "w > - 1 - 1 \<longleftrightarrow> w = - 1" for w :: u64
  proof
    assume "w > - 1 - 1"
    then have "- 2 < w" by simp
    then have "unat (- 2 :: u64) < unat w" by (simp add: word_less_nat_alt)
    moreover have "unat w < 2 ^ LENGTH(64)" by (rule unsigned_less)
    ultimately have "unat w = 2 ^ 64 - 1" by simp
    then have "unat w = unat (- 1 :: u64)" by (simp add: unat_max64)
    then show "w = - 1" by (rule unsigned_word_eqI)
  qed simp
  then show ?thesis by (simp add: write_blocked_def)
qed

lemma efd_take_simps:
  assumes "efd_take x = (v, y)"
  shows "v = (if semaphore x then 1 else counter x)" "counter y = counter x - v"
    "writer_wakes y = (if counter x = - 1 then writer_wakes x + 1 else writer_wakes x)"
  using assms by (auto simp: efd_take_def Let_def split: if_splits)

lemma efd_add_simps [simp]:
  "counter (efd_add v x) = counter x + v" "writer_wakes (efd_add v x) = writer_wakes x"
  by (simp_all add: efd_add_def Let_def)

lemma efd_trace_sum: "efd_trace efd w r x \<Longrightarrow> counter x = counter efd + sum_list w - sum_list r"
  by (induction rule: efd_trace.induct) (simp_all add: efd_take_simps)

lemma efd_trace_reads: "efd_trace efd w r x \<Longrightarrow> v \<in> set r \<Longrightarrow> v \<noteq> 0"
proof (induction rule: efd_trace.induct)
  case (et_read w r x u y)
  have "u \<noteq> 0" using efd_take_simps(1) [OF et_read.hyps(3)] et_read.hyps(2) by (simp add: read_blocked_def)
  then show ?case using et_read by auto
qed simp_all

lemma efd_trace_never_full:
  "efd_trace efd w r x \<Longrightarrow> counter efd \<noteq> - 1 \<Longrightarrow> counter x \<noteq> - 1 \<and> writer_wakes x = writer_wakes efd"
proof (induction rule: efd_trace.induct)
  case (et_read w r x v y)
  note t = efd_take_simps [OF et_read.hyps(3)]
  have "counter y \<noteq> - 1"
  proof (cases "semaphore x")
    case True
    then have "counter y = counter x - 1" using t by simp
    then show ?thesis using et_read.hyps(2) by (auto simp: read_blocked_def)
  qed (use t in simp)
  then show ?case using t(3) et_read by simp
qed (simp_all add: not_write_blocked)

lemma eventfd_create_counter:
  "eventfd_create initval flags mem = Inr (efd, fl) \<Longrightarrow> counter efd = ucast initval \<and> writer_wakes efd = 0"
  by (auto simp: eventfd_create_def split: if_splits)

lemma ucast_not_max: "(ucast (a :: u32) :: u64) \<noteq> - 1"
proof
  assume "(ucast a :: u64) = - 1"
  then have "unat (ucast a :: u64) = unat (- 1 :: u64)" by simp
  moreover have "unat a < 2 ^ LENGTH(32)" by (rule unsigned_less)
  then have "unat (ucast a :: u64) < 2 ^ 32" by (simp add: unsigned_ucast_eq take_bit_nat_eq_self)
  ultimately show False by (simp add: unat_max64)
qed

subsection \<open>Calls as histories\<close>

lemma efd_trace_trans:
  assumes "efd_trace a w r b" "efd_trace b w' r' c"
  shows "efd_trace a (w @ w') (r @ r') c"
  using assms(2)
proof (induction rule: efd_trace.induct)
  case et_refl
  then show ?case using assms(1) by simp
next
  case (et_write w' r' x v)
  then show ?case using efd_trace.et_write by (metis append_assoc)
next
  case (et_read w' r' x v y)
  then show ?case using efd_trace.et_read by (metis append_assoc)
qed

lemma efd_trace_semaphore: "efd_trace efd w r x \<Longrightarrow> semaphore x = semaphore efd"
  by (induction rule: efd_trace.induct) (auto simp: efd_add_def efd_take_def Let_def split: if_splits)

definition efd_env_fair :: "efd_env \<Rightarrow> bool" where
  "efd_env_fair e \<longleftrightarrow> (\<forall>x. (\<exists>w r. efd_trace x w r (ee_others e x)) \<and> (\<exists>w r. efd_trace x w r (ee_others_asleep e x)))"

lemma efd_wait_trace:
  assumes "efd_env_fair e" "efd_wait blocked e x = (res, y)"
  shows "\<exists>w r. efd_trace x w r y"
proof -
  have "y = ee_others e x \<or> y = ee_others_asleep e (ee_others e x)"
    using assms(2) by (auto simp: efd_wait_def Let_def split: if_splits)
  then show ?thesis using assms(1) efd_trace_trans unfolding efd_env_fair_def by metis
qed

lemma efd_wait_until_trace:
  assumes "\<forall>e\<in>set envs. efd_env_fair e" "efd_wait_until blocked nonblock envs x = Some (res, y)"
  shows "(\<exists>w r. efd_trace x w r y) \<and> (\<forall>u. res = Inr u \<longrightarrow> \<not> blocked y)"
  using assms
proof (induction envs arbitrary: x)
  case Nil
  then show ?case using et_refl by (subst (asm) efd_wait_until.simps) (auto split: if_splits)
next
  case (Cons e es)
  show ?case
  proof (cases "\<not> blocked x \<or> nonblock")
    case True
    then show ?thesis
      using Cons.prems(2) et_refl by (subst (asm) efd_wait_until.simps) (auto split: if_splits)
  next
    case False
    obtain z q where w: "efd_wait blocked e x = (z, q)" by fastforce
    obtain w1 r1 where t: "efd_trace x w1 r1 q" using efd_wait_trace [OF _ w] Cons.prems(1) by auto
    have step: "efd_wait_until blocked nonblock (e # es) x =
        (case z of Inl err \<Rightarrow> Some (Inl err, q) | Inr _ \<Rightarrow> efd_wait_until blocked nonblock es q)"
      using False w by (subst efd_wait_until.simps) simp
    show ?thesis
    proof (cases z)
      case (Inl err)
      then show ?thesis using step Cons.prems(2) t by auto
    next
      case (Inr u)
      then have "efd_wait_until blocked nonblock es q = Some (res, y)" using step Cons.prems(2) by simp
      from Cons.IH [OF _ this] Cons.prems(1) show ?thesis using efd_trace_trans [OF t] by simp blast
    qed
  qed
qed

text \<open>The two calls, and the values a completed one has itself written and read.\<close>

datatype efd_op = Efd_Read bool bool nat | Efd_Write bool bool nat u64

fun efd_call :: "efd_op \<Rightarrow> efd_env list \<Rightarrow> eventfd \<Rightarrow> ((errno + u64) \<times> eventfd) option" where
  "efd_call (Efd_Read priv nonblock cnt) envs x = eventfd_read priv nonblock cnt envs x"
| "efd_call (Efd_Write priv nonblock cnt v) envs x =
     map_option (\<lambda>(res, y). (map_sum (\<lambda>err. err) of_nat res, y)) (eventfd_write priv nonblock cnt v envs x)"

fun efd_wrote :: "efd_op \<Rightarrow> errno + u64 \<Rightarrow> u64 list" where
  "efd_wrote (Efd_Write priv nonblock cnt v) (Inr _) = [v]"
| "efd_wrote _ _ = []"

fun efd_got :: "efd_op \<Rightarrow> errno + u64 \<Rightarrow> u64 list" where
  "efd_got (Efd_Read priv nonblock cnt) (Inr v) = [v]"
| "efd_got _ _ = []"

lemma efd_call_trace:
  assumes fair: "\<forall>e\<in>set envs. efd_env_fair e" and run: "efd_call op envs x = Some (res, y)"
  shows "\<exists>w0 r0. efd_trace x (w0 @ efd_wrote op res) (r0 @ efd_got op res) y"
    "v \<in> set (efd_got op res) \<Longrightarrow> if semaphore x then v = 1 else counter y = 0"
proof -
  have "(\<exists>w0 r0. efd_trace x (w0 @ efd_wrote op res) (r0 @ efd_got op res) y) \<and>
      (\<forall>v\<in>set (efd_got op res). if semaphore x then v = 1 else counter y = 0)"
  proof (cases op)
    case (Efd_Read priv nonblock cnt)
    show ?thesis
    proof (cases "priv \<and> 8 \<le> cnt")
      case False
      then show ?thesis
        using run Efd_Read et_refl by (auto simp: eventfd_read_def not_le split: if_splits intro!: exI [of _ "[]"])
    next
      case True
      then obtain z q where w: "efd_wait_until read_blocked nonblock envs x = Some (z, q)"
        using run Efd_Read by (auto simp: eventfd_read_def split: option.splits)
      then obtain w0 r0 where t: "efd_trace x w0 r0 q" and nb: "\<forall>u. z = Inr u \<longrightarrow> \<not> read_blocked q"
        using efd_wait_until_trace [OF fair w] by blast
      show ?thesis
      proof (cases z)
        case (Inl err)
        then have "res = Inl err \<and> y = q" using run Efd_Read True w by (simp add: eventfd_read_def)
        then show ?thesis using t Efd_Read by auto
      next
        case (Inr u)
        obtain v q' where tk: "efd_take q = (v, q')" by fastforce
        then have e: "res = Inr v \<and> y = q'" using run Efd_Read True w Inr by (simp add: eventfd_read_def)
        have "efd_trace x w0 (r0 @ [v]) q'" using et_read [OF t _ tk] nb Inr by simp
        moreover have "if semaphore x then v = 1 else counter q' = 0"
          using efd_take_simps [OF tk] efd_trace_semaphore [OF t] by simp
        ultimately show ?thesis using e Efd_Read by auto
      qed
    qed
  next
    case (Efd_Write priv nonblock cnt v)
    show ?thesis
    proof (cases "priv \<and> 8 \<le> cnt \<and> v \<noteq> - 1")
      case False
      then show ?thesis
        using run Efd_Write et_refl by (auto simp: eventfd_write_def not_le split: if_splits intro!: exI [of _ "[]"])
    next
      case True
      then obtain z q where w: "efd_wait_until (write_blocked v) nonblock envs x = Some (z, q)"
        using run Efd_Write by (auto simp: eventfd_write_def split: option.splits)
      then obtain w0 r0 where t: "efd_trace x w0 r0 q" and nb: "\<forall>u. z = Inr u \<longrightarrow> \<not> write_blocked v q"
        using efd_wait_until_trace [OF fair w] by blast
      show ?thesis
      proof (cases z)
        case (Inl err)
        then have "res = Inl err \<and> y = q" using run Efd_Write True w by (simp add: eventfd_write_def)
        then show ?thesis using t Efd_Write by auto
      next
        case (Inr u)
        then have e: "\<exists>n. res = Inr n" "y = efd_add v q" using run Efd_Write True w by (auto simp: eventfd_write_def)
        have "efd_trace x (w0 @ [v]) r0 (efd_add v q)" using et_write [OF t] nb Inr True by simp
        then show ?thesis using e Efd_Write by (intro conjI exI [of _ w0] exI [of _ r0]) auto
      qed
    qed
  qed
  then show "\<exists>w0 r0. efd_trace x (w0 @ efd_wrote op res) (r0 @ efd_got op res) y"
    "v \<in> set (efd_got op res) \<Longrightarrow> if semaphore x then v = 1 else counter y = 0" by blast+
qed

lemma efd_trace_counter:
  assumes "eventfd_create initval flags mem = Inr (efd, fl)" "efd_trace efd w r x"
  shows "uint (counter x) = (uint initval + (\<Sum>v\<leftarrow>w. uint v) - (\<Sum>v\<leftarrow>r. uint v)) mod 2 ^ 64"
    "0 \<notin> set r" "counter x \<noteq> - 1"
proof -
  have s: "sum_list vs = word_of_int (\<Sum>v\<leftarrow>vs. uint v)" for vs :: "u64 list"
    by (induction vs) simp_all
  have "counter x = ucast initval + sum_list w - sum_list r"
    using efd_trace_sum [OF assms(2)] eventfd_create_counter [OF assms(1)] by simp
  also have "\<dots> = word_of_int (uint initval + (\<Sum>v\<leftarrow>w. uint v) - (\<Sum>v\<leftarrow>r. uint v))"
    by (simp add: s unsigned_ucast_eq flip: word_of_int_uint)
  finally have "counter x = word_of_int (uint initval + (\<Sum>v\<leftarrow>w. uint v) - (\<Sum>v\<leftarrow>r. uint v))" .
  then show "uint (counter x) = (uint initval + (\<Sum>v\<leftarrow>w. uint v) - (\<Sum>v\<leftarrow>r. uint v)) mod 2 ^ 64"
    by (simp only: uint_word_of_int) simp
  show "0 \<notin> set r" using efd_trace_reads [OF assms(2)] by blast
  show "counter x \<noteq> - 1"
    using efd_trace_never_full [OF assms(2)] eventfd_create_counter [OF assms(1)] ucast_not_max by simp
qed

subsection \<open>A concrete counter for the witnesses\<close>

definition demo_efd :: eventfd where
  "demo_efd = \<lparr>counter = 5, semaphore = False, reader_wakes = 0, writer_wakes = 0\<rparr>"

lemma demo_efd_created: "eventfd_create 5 0 True = Inr (demo_efd, O_RDWR)"
  by (simp add: eventfd_create_def demo_efd_def)

text \<open>A reader sleeps on a counter at zero until another task writes 3.\<close>

definition demo_efd0 :: eventfd where
  "demo_efd0 = \<lparr>counter = 0, semaphore = False, reader_wakes = 0, writer_wakes = 0\<rparr>"

lemma demo_efd0_created: "eventfd_create 0 0 True = Inr (demo_efd0, O_RDWR)"
  by (simp add: eventfd_create_def demo_efd0_def)

definition demo_efd_env :: efd_env where
  "demo_efd_env = \<lparr>ee_prepared = True, ee_linked = True, ee_reason = PROC_WAKE_EVENT, ee_others = (\<lambda>x. x),
     ee_others_asleep = (\<lambda>x. if write_blocked 3 x then x else efd_add 3 x)\<rparr>"

lemma demo_efd_env_fair: "efd_env_fair demo_efd_env"
proof -
  have "\<exists>w r. efd_trace x w r (efd_add 3 x)" if "\<not> write_blocked 3 x" for x
    using et_write [OF et_refl _ that] by auto
  then show ?thesis using et_refl by (auto simp: efd_env_fair_def demo_efd_env_def)
qed

lemma demo_efd_sleep:
  "efd_call (Efd_Read True False 8) [demo_efd_env] demo_efd0 = Some (Inr 3, demo_efd0\<lparr>reader_wakes := 1\<rparr>)"
proof -
  let ?q = "efd_add 3 demo_efd0"
  have q: "?q = \<lparr>counter = 3, semaphore = False, reader_wakes = 1, writer_wakes = 0\<rparr>"
    by (simp add: efd_add_def demo_efd0_def)
  have b: "read_blocked demo_efd0" by (simp add: read_blocked_def demo_efd0_def)
  have w: "efd_wait read_blocked demo_efd_env demo_efd0 = (Inr (), ?q)"
    using not_write_blocked [of 3 demo_efd0]
    by (simp add: efd_wait_def demo_efd_env_def demo_efd0_def read_blocked_def Let_def
        proc_wake_reason_is_task_interrupt_def)
  have "efd_wait_until read_blocked False [] ?q = Some (Inr (), ?q)"
    by (subst efd_wait_until.simps) (simp add: read_blocked_def q)
  then have "efd_wait_until read_blocked False [demo_efd_env] demo_efd0 = Some (Inr (), ?q)"
    by (subst efd_wait_until.simps) (simp add: w b)
  then show ?thesis by (simp add: eventfd_read_def efd_take_def Let_def demo_efd0_def efd_add_def)
qed

subsection \<open>The properties\<close>

text \<open>
  C26.  Nothing is lost in the counter's own arithmetic.  Take a new counter after any reads and
  writes, and a call of eventfd_read or eventfd_write that completes, with other tasks reading and
  writing while it sleeps.  Then the counter holds its initial value plus all values written minus
  all values read, modulo 2 to the 64, where the call itself counts with the value it was given to
  write or has returned, and with nothing if it failed; the counter is never at 2 to the 64 minus
  1; no read has returned zero; and the read that completes returned 1 in semaphore mode and
  otherwise has emptied the counter.
\<close>

theorem eventfd_conserves:
  assumes "eventfd_create initval flags mem = Inr (efd, fl)" "efd_trace efd w r x"
    "\<forall>e\<in>set envs. efd_env_fair e" "efd_call op envs x = Some (res, y)"
  shows "\<exists>w0 r0 ws rs. ws = w @ w0 @ efd_wrote op res \<and> rs = r @ r0 @ efd_got op res \<and> efd_trace efd ws rs y \<and>
    uint (counter y) = (uint initval + (\<Sum>v\<leftarrow>ws. uint v) - (\<Sum>v\<leftarrow>rs. uint v)) mod 2 ^ 64 \<and>
    counter y \<noteq> - 1 \<and> 0 \<notin> set rs \<and>
    (\<forall>v\<in>set (efd_got op res). if semaphore efd then v = 1 else counter y = 0)"
proof -
  obtain w0 r0 where "efd_trace x (w0 @ efd_wrote op res) (r0 @ efd_got op res) y"
    using efd_call_trace(1) [OF assms(3,4)] by blast
  from efd_trace_trans [OF assms(2) this]
  have t: "efd_trace efd (w @ w0 @ efd_wrote op res) (r @ r0 @ efd_got op res) y" .
  have "\<forall>v\<in>set (efd_got op res). if semaphore efd then v = 1 else counter y = 0"
    using efd_call_trace(2) [OF assms(3,4)] efd_trace_semaphore [OF assms(2)] by simp
  then show ?thesis using t efd_trace_counter [OF assms(1) t] by blast
qed

theorem eventfd_conserves_witness:
  "\<exists>w0 r0. efd_trace demo_efd0 w0 (r0 @ [3]) (demo_efd0\<lparr>reader_wakes := 1\<rparr>) \<and>
     0 = ((\<Sum>v\<leftarrow>w0. uint v) - (\<Sum>v\<leftarrow>r0 @ [3]. uint v)) mod 2 ^ 64 \<and> 0 \<notin> set (r0 @ [3])"
proof -
  have "\<forall>e\<in>set [demo_efd_env]. efd_env_fair e" using demo_efd_env_fair by simp
  from eventfd_conserves [OF demo_efd0_created et_refl this demo_efd_sleep]
  obtain w0 r0 where t: "efd_trace demo_efd0 w0 (r0 @ [3]) (demo_efd0\<lparr>reader_wakes := 1\<rparr>)"
    "uint (counter (demo_efd0\<lparr>reader_wakes := 1\<rparr>)) =
       (uint (0::u32) + (\<Sum>v\<leftarrow>w0. uint v) - (\<Sum>v\<leftarrow>r0 @ [3]. uint v)) mod 2 ^ 64" "0 \<notin> set (r0 @ [3])"
    by auto
  have "counter (demo_efd0\<lparr>reader_wakes := 1\<rparr>) = 0" by (simp add: demo_efd0_def)
  then show ?thesis using t by (intro exI [of _ w0] exI [of _ r0]) simp
qed

text \<open>
  C27.  What a write does, exactly, for every counter c and every value v but 2 to the 64 minus
  1.  It has to wait, and fails with EAGAIN if it may not, only when c + v is exactly 2 to the 64
  minus 1.  In every other case it succeeds at once: with c + v if that is below 2 to the 64, and
  otherwise, when the counter has no room for v, with c + v - 2 to the 64, a counter below c.  The
  sum that decides whether a writer has to wait is itself taken modulo 2 to the 64.
\<close>

theorem eventfd_write_exact:
  assumes "v \<noteq> - 1" "8 \<le> cnt"
  shows "let t = uint (counter x) + uint v
    in if t = 2 ^ 64 - 1
       then eventfd_write True True cnt v envs x = Some (Inl EAGAIN, x) \<and> eventfd_write True False cnt v [] x = None
       else \<exists>y. eventfd_write True nonblock cnt v envs x = Some (Inr 8, y) \<and>
         (if t < 2 ^ 64 then uint (counter y) = t else uint (counter y) = t - 2 ^ 64 \<and> counter y < counter x)"
proof -
  let ?t = "uint (counter x) + uint v"
  have b: "0 \<le> uint (counter x)" "uint (counter x) < 2 ^ 64" "0 \<le> uint v" "uint v < 2 ^ 64"
    using uint_bounded [of "counter x"] uint_bounded [of v] by simp_all
  have sum: "uint (counter x + v) = (if ?t < 2 ^ 64 then ?t else ?t - 2 ^ 64)"
    using b mod_pos_pos_trivial [of "?t - 2 ^ 64" "2 ^ 64"] by (simp add: uint_word_ariths mod_pos_pos_trivial)
  have m1: "uint (- 1 :: u64) = 2 ^ 64 - 1" by (simp add: unsigned_minus_1_eq_mask mask_eq_exp_minus_1)
  have blocked: "write_blocked v x \<longleftrightarrow> ?t = 2 ^ 64 - 1"
    using not_write_blocked [of v x] sum b word_uint_eq_iff [of "counter x + v" "- 1"]
    by (auto simp: m1 split: if_splits)
  have run: "\<not> write_blocked v x \<Longrightarrow> eventfd_write True nb cnt v es x = Some (Inr 8, efd_add v x)"
    "write_blocked v x \<Longrightarrow> eventfd_write True True cnt v es x = Some (Inl EAGAIN, x)" for nb es
    using assms by (simp_all add: eventfd_write_def efd_wait_until.simps [of _ _ es x])
  have none: "write_blocked v x \<Longrightarrow> eventfd_write True False cnt v [] x = None"
    using assms by (simp add: eventfd_write_def efd_wait_until.simps [of _ _ "[]" x])
  show ?thesis
  proof (cases "?t = 2 ^ 64 - 1")
    case True
    then show ?thesis using run(2) none blocked by (simp add: Let_def)
  next
    case False
    then have "eventfd_write True nonblock cnt v envs x = Some (Inr 8, efd_add v x)"
      using run(1) blocked by simp
    then show ?thesis using False sum b by (auto simp: Let_def word_less_def)
  qed
qed

theorem eventfd_write_exact_witness:
  "\<exists>y. eventfd_write True True 8 2 [] \<lparr>counter = - 2, semaphore = False, reader_wakes = 0, writer_wakes = 0\<rparr> =
     Some (Inr 8, y) \<and> uint (counter y) = 0"
  using eventfd_write_exact [of 2 8 "\<lparr>counter = - 2, semaphore = False, reader_wakes = 0, writer_wakes = 0\<rparr>" "[]" True]
  by (auto simp: Let_def)

text \<open>
  C28.  A blocked writer is never woken: whatever reads and writes happen to a new counter, no read
  wakes a writer, because a read wakes one only when it finds the counter at a value that no
  write can give it.  This holds in particular after a read that makes room for the writer.
\<close>

theorem eventfd_writer_never_woken:
  assumes "eventfd_create initval flags mem = Inr (efd, fl)" "efd_trace efd w r x"
  shows "writer_wakes x = 0 \<and> (efd_take x = (v, y) \<longrightarrow> writer_wakes y = 0)"
proof -
  have "counter efd \<noteq> - 1" "writer_wakes efd = 0"
    using eventfd_create_counter [OF assms(1)] ucast_not_max by simp_all
  then have "counter x \<noteq> - 1" "writer_wakes x = 0" using efd_trace_never_full [OF assms(2)] by simp_all
  then show ?thesis using efd_take_simps(3) by simp
qed

theorem eventfd_writer_never_woken_witness:
  "write_blocked (- 6) demo_efd \<and> \<not> write_blocked (- 6) (snd (efd_take demo_efd)) \<and>
   writer_wakes (snd (efd_take demo_efd)) = 0"
proof -
  have b: "write_blocked (- 6) demo_efd"
    using not_write_blocked [of "- 6" demo_efd] by (simp add: demo_efd_def)
  have nb: "\<not> write_blocked (- 6) (snd (efd_take demo_efd))"
    using not_write_blocked [of "- 6" "snd (efd_take demo_efd)"] by (simp add: demo_efd_def efd_take_def Let_def)
  show ?thesis
    using b nb eventfd_writer_never_woken [OF demo_efd_created et_refl, of "fst (efd_take demo_efd)" "snd (efd_take demo_efd)"]
    by simp
qed

end
