(* ===== verification/Cluster_Wire.thy ===== *)
theory Cluster_Wire
  imports Prelude
begin

text \<open>
  The wire format of the cluster: little-endian field accessors, CRC-16 and FNV-1a, the frame
  builder, the serial-line framing with its streaming decoder (kernel/cluster/uart.h), and the
  frame encoder and decoder (kernel/cluster/frame.c, kernel/cluster/frame.h).  A buffer is the
  list of the bytes in it; a function that writes into a buffer of the caller returns the bytes
  it writes, and the negative code otherwise.  A null pointer is \<^const>\<open>None\<close>.
\<close>

unbundle bit_operations_syntax

subsection \<open>Constants\<close>

definition A20_CLX_MAGIC :: u16 where "A20_CLX_MAGIC = 0x4C43"
definition A20_CLX_WIRE_VER :: u8 where "A20_CLX_WIRE_VER = 0"
definition A20_CLX_TTL_DEFAULT :: u8 where "A20_CLX_TTL_DEFAULT = 8"
definition A20_CLX_CSUM_NONE :: u8 where "A20_CLX_CSUM_NONE = 0"
definition A20_CLX_CSUM_CCITT :: u8 where "A20_CLX_CSUM_CCITT = 1"
definition A20_CLX_TYPE_HELLO :: u8 where "A20_CLX_TYPE_HELLO = 1"
definition A20_CLX_TYPE_HELLO_ACK :: u8 where "A20_CLX_TYPE_HELLO_ACK = 2"
definition A20_CLX_TYPE_PING :: u8 where "A20_CLX_TYPE_PING = 3"
definition A20_CLX_TYPE_PONG :: u8 where "A20_CLX_TYPE_PONG = 4"
definition A20_CLX_TYPE_SEND :: u8 where "A20_CLX_TYPE_SEND = 5"
definition A20_CLX_TYPE_CALL :: u8 where "A20_CLX_TYPE_CALL = 6"
definition A20_CLX_TYPE_CALL_REPLY :: u8 where "A20_CLX_TYPE_CALL_REPLY = 7"
definition A20_CLX_TYPE_CLOSE :: u8 where "A20_CLX_TYPE_CLOSE = 8"
definition A20_CLX_TYPE_ACK :: u8 where "A20_CLX_TYPE_ACK = 9"
definition A20_CLX_TYPE_NACK :: u8 where "A20_CLX_TYPE_NACK = 10"
definition A20_CLX_TYPE_ERROR :: u8 where "A20_CLX_TYPE_ERROR = 11"
definition A20_CLX_FLAG_RELIABLE :: u16 where "A20_CLX_FLAG_RELIABLE = 1"
definition A20_CLX_FLAG_FRAGMENTED :: u16 where "A20_CLX_FLAG_FRAGMENTED = 2"
definition A20_CLX_FLAG_COMPRESSED :: u16 where "A20_CLX_FLAG_COMPRESSED = 8"
definition A20_CLX_FLAGS_KNOWN :: u16 where "A20_CLX_FLAGS_KNOWN = 0x000F"
definition A20_CLX_FRAG_SEQ_MASK :: u16 where "A20_CLX_FRAG_SEQ_MASK = 0x0FFF"
definition A20_CLX_FRAG_LAST :: u16 where "A20_CLX_FRAG_LAST = 0x8000"
definition A20_CLX_FRAG_RESERVED :: u16 where "A20_CLX_FRAG_RESERVED = 0x7000"
definition A20_CLX_SLIP_END :: u8 where "A20_CLX_SLIP_END = 0xC0"
definition A20_CLX_SLIP_ESC :: u8 where "A20_CLX_SLIP_ESC = 0xDB"
definition A20_CLX_SLIP_ESC_END :: u8 where "A20_CLX_SLIP_ESC_END = 0xDC"
definition A20_CLX_SLIP_ESC_ESC :: u8 where "A20_CLX_SLIP_ESC_ESC = 0xDD"
definition A20_CLX_HDR_LEN :: nat where "A20_CLX_HDR_LEN = 32"
definition A20_CLX_CRC_LEN :: nat where "A20_CLX_CRC_LEN = 2"
definition A20_CLX_UART_MTU :: nat where "A20_CLX_UART_MTU = 256"
definition A20_CLX_UART_MAX_PAYLOAD :: nat where "A20_CLX_UART_MAX_PAYLOAD = 222"

lemmas clx_types =
  A20_CLX_TYPE_HELLO_def A20_CLX_TYPE_HELLO_ACK_def A20_CLX_TYPE_PING_def A20_CLX_TYPE_PONG_def
  A20_CLX_TYPE_SEND_def A20_CLX_TYPE_CALL_def A20_CLX_TYPE_CALL_REPLY_def A20_CLX_TYPE_CLOSE_def
  A20_CLX_TYPE_ACK_def A20_CLX_TYPE_NACK_def A20_CLX_TYPE_ERROR_def
lemmas clx_slip =
  A20_CLX_SLIP_END_def A20_CLX_SLIP_ESC_def A20_CLX_SLIP_ESC_END_def A20_CLX_SLIP_ESC_ESC_def
lemmas clx_lens =
  A20_CLX_HDR_LEN_def A20_CLX_CRC_LEN_def A20_CLX_UART_MTU_def A20_CLX_UART_MAX_PAYLOAD_def

subsection \<open>Field accessors and checksums\<close>

definition a20_clx_get_le16 :: "u8 list \<Rightarrow> nat \<Rightarrow> u16" where
  "a20_clx_get_le16 p i = ucast (p ! i) OR push_bit 8 (ucast (p ! (i + 1)))"

definition a20_clx_get_le32 :: "u8 list \<Rightarrow> nat \<Rightarrow> u32" where
  "a20_clx_get_le32 p i = ucast (p ! i) OR push_bit 8 (ucast (p ! (i + 1))) OR
     push_bit 16 (ucast (p ! (i + 2))) OR push_bit 24 (ucast (p ! (i + 3)))"

definition a20_clx_get_le64 :: "u8 list \<Rightarrow> nat \<Rightarrow> u64" where
  "a20_clx_get_le64 p i = ucast (a20_clx_get_le32 p i) OR push_bit 32 (ucast (a20_clx_get_le32 p (i + 4)))"

definition a20_clx_put_le16 :: "u16 \<Rightarrow> u8 list" where
  "a20_clx_put_le16 v = [ucast (v AND 0xFF), ucast (drop_bit 8 v AND 0xFF)]"

definition a20_clx_put_le32 :: "u32 \<Rightarrow> u8 list" where
  "a20_clx_put_le32 v = [ucast (v AND 0xFF), ucast (drop_bit 8 v AND 0xFF),
     ucast (drop_bit 16 v AND 0xFF), ucast (drop_bit 24 v AND 0xFF)]"

definition a20_clx_put_le64 :: "u64 \<Rightarrow> u8 list" where
  "a20_clx_put_le64 v = a20_clx_put_le32 (ucast (v AND 0xFFFFFFFF)) @
     a20_clx_put_le32 (ucast (drop_bit 32 v AND 0xFFFFFFFF))"

definition crc_bit :: "u16 \<Rightarrow> u16" where
  "crc_bit c = (if c AND 0x8000 \<noteq> 0 then push_bit 1 c XOR 0x1021 else push_bit 1 c)"

definition crc_byte :: "u16 \<Rightarrow> u8 \<Rightarrow> u16" where
  "crc_byte c d = (crc_bit ^^ 8) (c XOR push_bit 8 (ucast d))"

definition a20_clx_crc16_ccitt :: "u8 list \<Rightarrow> u16" where
  "a20_clx_crc16_ccitt data = foldl crc_byte 0xFFFF data"

definition a20_clx_fnv1a32 :: "u8 list \<Rightarrow> u32" where
  "a20_clx_fnv1a32 id16 = foldl (\<lambda>h b. (h XOR ucast b) * 16777619) 2166136261 (take 16 id16)"

subsection \<open>Frames\<close>

record a20_frame_hdr =
  fh_ver :: u8
  fh_type :: u8
  fh_flags :: u16
  fh_frag :: u16
  fh_txid :: u32
  fh_src_hash :: u32
  fh_dst_hash :: u32
  fh_dst_slot :: u32
  fh_seq :: u32
  fh_payload_len :: u16
  fh_ttl :: u8
  fh_csum_kind :: u8
  fh_crc_present :: u8
  fh_crc_value :: u16

definition hdr_zero :: a20_frame_hdr where
  "hdr_zero = \<lparr>fh_ver = 0, fh_type = 0, fh_flags = 0, fh_frag = 0, fh_txid = 0, fh_src_hash = 0,
     fh_dst_hash = 0, fh_dst_slot = 0, fh_seq = 0, fh_payload_len = 0, fh_ttl = 0, fh_csum_kind = 0,
     fh_crc_present = 0, fh_crc_value = 0\<rparr>"

datatype a20_frame_verdict =
    A20_FRAME_OK | A20_FRAME_SHORT_FRAME | A20_FRAME_BAD_MAGIC | A20_FRAME_UNSUPPORTED_VER
  | A20_FRAME_UNKNOWN_TYPE | A20_FRAME_UNSUPPORTED_CSUM_KIND | A20_FRAME_PAYLOAD_OVER_MTU
  | A20_FRAME_PAYLOAD_LEN_MISMATCH | A20_FRAME_CRC_MISMATCH | A20_FRAME_FRAG_FLAG_MISMATCH
  | A20_FRAME_SEQ_ON_UNRELIABLE | A20_FRAME_TXID_ON_SEND | A20_FRAME_FIXED_PAYLOAD_LEN_MISMATCH

definition a20_frame_verdict_str :: "a20_frame_verdict \<Rightarrow> string" where
  "a20_frame_verdict_str verdict = (case verdict of
       A20_FRAME_OK \<Rightarrow> ''OK''
     | A20_FRAME_SHORT_FRAME \<Rightarrow> ''short_frame''
     | A20_FRAME_BAD_MAGIC \<Rightarrow> ''bad_magic''
     | A20_FRAME_UNSUPPORTED_VER \<Rightarrow> ''unsupported_ver''
     | A20_FRAME_UNKNOWN_TYPE \<Rightarrow> ''unknown_type''
     | A20_FRAME_UNSUPPORTED_CSUM_KIND \<Rightarrow> ''unsupported_csum_kind''
     | A20_FRAME_PAYLOAD_OVER_MTU \<Rightarrow> ''payload_len_over_mtu''
     | A20_FRAME_PAYLOAD_LEN_MISMATCH \<Rightarrow> ''payload_len_mismatch''
     | A20_FRAME_CRC_MISMATCH \<Rightarrow> ''crc_mismatch''
     | A20_FRAME_FRAG_FLAG_MISMATCH \<Rightarrow> ''frag_flag_mismatch''
     | A20_FRAME_SEQ_ON_UNRELIABLE \<Rightarrow> ''seq_on_unreliable_frame''
     | A20_FRAME_TXID_ON_SEND \<Rightarrow> ''txid_on_send''
     | A20_FRAME_FIXED_PAYLOAD_LEN_MISMATCH \<Rightarrow> ''fixed_payload_len_mismatch'')"

definition a20_frame_max_payload :: "nat \<Rightarrow> nat" where
  "a20_frame_max_payload mtu =
     (if mtu \<ge> A20_CLX_HDR_LEN + A20_CLX_CRC_LEN then mtu - A20_CLX_HDR_LEN - A20_CLX_CRC_LEN else 0)"

definition a20_frame_fixed_payload_len :: "u8 \<Rightarrow> int" where
  "a20_frame_fixed_payload_len t =
     (if t = A20_CLX_TYPE_HELLO \<or> t = A20_CLX_TYPE_HELLO_ACK then 32
      else if t = A20_CLX_TYPE_PING \<or> t = A20_CLX_TYPE_PONG then 8
      else if t = A20_CLX_TYPE_SEND \<or> t = A20_CLX_TYPE_CALL \<or> t = A20_CLX_TYPE_CALL_REPLY then - 1
      else if t = A20_CLX_TYPE_CLOSE then 0
      else if t = A20_CLX_TYPE_ACK \<or> t = A20_CLX_TYPE_NACK then 4
      else if t = A20_CLX_TYPE_ERROR then 8
      else - 2)"

text \<open>The 32 header bytes, the fields at their offsets.\<close>

definition hdr_bytes :: "a20_frame_hdr \<Rightarrow> u8 list" where
  "hdr_bytes h = a20_clx_put_le16 A20_CLX_MAGIC @ [fh_ver h, fh_type h] @
     a20_clx_put_le16 (fh_flags h) @ a20_clx_put_le16 (fh_frag h) @ a20_clx_put_le32 (fh_txid h) @
     a20_clx_put_le32 (fh_src_hash h) @ a20_clx_put_le32 (fh_dst_hash h) @
     a20_clx_put_le32 (fh_dst_slot h) @ a20_clx_put_le32 (fh_seq h) @
     a20_clx_put_le16 (fh_payload_len h) @ [fh_ttl h, fh_csum_kind h]"

text \<open>\<open>buf\<close> tells whether there is a buffer to write to, \<open>cap\<close> its size.\<close>

definition a20_frame_encode ::
  "bool \<Rightarrow> nat \<Rightarrow> nat \<Rightarrow> a20_frame_hdr option \<Rightarrow> u8 list option \<Rightarrow> int + u8 list" where
  "a20_frame_encode buf cap mtu hdr payload = (case hdr of
       None \<Rightarrow> Inl (- 1)
     | Some h \<Rightarrow>
         if \<not> buf \<or> payload = None \<and> fh_payload_len h \<noteq> 0 then Inl (- 1)
         else if fh_csum_kind h \<noteq> A20_CLX_CSUM_NONE \<and> fh_csum_kind h \<noteq> A20_CLX_CSUM_CCITT then Inl (- 1)
         else if fh_flags h AND NOT A20_CLX_FLAGS_KNOWN \<noteq> 0 then Inl (- 1)
         else if fh_flags h AND A20_CLX_FLAG_COMPRESSED \<noteq> 0 then Inl (- 1)
         else if fh_frag h AND A20_CLX_FRAG_RESERVED \<noteq> 0 then Inl (- 1)
         else if unat (fh_payload_len h) > a20_frame_max_payload mtu then Inl (- 2)
         else
           let plen = unat (fh_payload_len h);
               crc_len = (if fh_csum_kind h = A20_CLX_CSUM_CCITT then A20_CLX_CRC_LEN else 0);
               len = A20_CLX_HDR_LEN + plen + crc_len
           in if len > cap then Inl (- 3)
              else
                let body = hdr_bytes h @ (case payload of None \<Rightarrow> [] | Some p \<Rightarrow> take plen p)
                in Inr (if crc_len \<noteq> 0 then body @ a20_clx_put_le16 (a20_clx_crc16_ccitt body) else body))"

text \<open>The fields as they are read once the length allows it.\<close>

definition hdr_read :: "u8 list \<Rightarrow> a20_frame_hdr" where
  "hdr_read b = \<lparr>fh_ver = b ! 2, fh_type = b ! 3, fh_flags = a20_clx_get_le16 b 4,
     fh_frag = a20_clx_get_le16 b 6, fh_txid = a20_clx_get_le32 b 8, fh_src_hash = a20_clx_get_le32 b 12,
     fh_dst_hash = a20_clx_get_le32 b 16, fh_dst_slot = a20_clx_get_le32 b 20,
     fh_seq = a20_clx_get_le32 b 24, fh_payload_len = a20_clx_get_le16 b 28, fh_ttl = b ! 30,
     fh_csum_kind = b ! 31, fh_crc_present = 0, fh_crc_value = 0\<rparr>"

text \<open>The rules checked after the checksum.\<close>

definition frame_rules :: "a20_frame_hdr \<Rightarrow> a20_frame_verdict" where
  "frame_rules h =
     (if fh_flags h AND A20_CLX_FLAG_FRAGMENTED \<noteq> 0 \<and> fh_frag h AND A20_CLX_FRAG_SEQ_MASK = 0 \<and>
         fh_frag h AND A20_CLX_FRAG_LAST \<noteq> 0 then A20_FRAME_FRAG_FLAG_MISMATCH
      else if fh_flags h AND A20_CLX_FLAG_FRAGMENTED = 0 \<and> fh_frag h \<noteq> 0 then A20_FRAME_FRAG_FLAG_MISMATCH
      else if fh_flags h AND A20_CLX_FLAG_RELIABLE = 0 \<and> fh_seq h \<noteq> 0 then A20_FRAME_SEQ_ON_UNRELIABLE
      else if fh_type h = A20_CLX_TYPE_SEND \<and> fh_txid h \<noteq> 0 then A20_FRAME_TXID_ON_SEND
      else if a20_frame_fixed_payload_len (fh_type h) \<ge> 0 \<and>
              a20_frame_fixed_payload_len (fh_type h) \<noteq> uint (fh_payload_len h)
           then A20_FRAME_FIXED_PAYLOAD_LEN_MISMATCH
      else A20_FRAME_OK)"

text \<open>The verdict, the header as far as it was filled, and the payload once its bounds are
  known; \<open>out\<close> tells whether the caller gave a header to fill.\<close>

definition a20_frame_decode ::
  "u8 list option \<Rightarrow> nat \<Rightarrow> bool \<Rightarrow> a20_frame_verdict \<times> a20_frame_hdr \<times> u8 list option" where
  "a20_frame_decode buf mtu out = (case buf of
       None \<Rightarrow> (A20_FRAME_SHORT_FRAME, hdr_zero, None)
     | Some b \<Rightarrow>
         if \<not> out \<or> length b < A20_CLX_HDR_LEN then (A20_FRAME_SHORT_FRAME, hdr_zero, None)
         else
           let h = hdr_read b; plen = unat (fh_payload_len h)
           in if a20_clx_get_le16 b 0 \<noteq> A20_CLX_MAGIC then (A20_FRAME_BAD_MAGIC, h, None)
              else if fh_ver h \<noteq> A20_CLX_WIRE_VER then (A20_FRAME_UNSUPPORTED_VER, h, None)
              else if fh_type h < A20_CLX_TYPE_HELLO \<or> fh_type h > A20_CLX_TYPE_ERROR
              then (A20_FRAME_UNKNOWN_TYPE, h, None)
              else if fh_csum_kind h \<noteq> A20_CLX_CSUM_NONE \<and> fh_csum_kind h \<noteq> A20_CLX_CSUM_CCITT
              then (A20_FRAME_UNSUPPORTED_CSUM_KIND, h, None)
              else if mtu < A20_CLX_HDR_LEN + A20_CLX_CRC_LEN \<or> plen > a20_frame_max_payload mtu
              then (A20_FRAME_PAYLOAD_OVER_MTU, h, None)
              else
                let present = (fh_csum_kind h = A20_CLX_CSUM_CCITT);
                    h1 = h\<lparr>fh_crc_present := (if present then 1 else 0)\<rparr>;
                    crc_len = (if present then A20_CLX_CRC_LEN else 0);
                    body = take (A20_CLX_HDR_LEN + plen) b;
                    payload = Some (take plen (drop A20_CLX_HDR_LEN b))
                in if length b \<noteq> A20_CLX_HDR_LEN + plen + crc_len then (A20_FRAME_PAYLOAD_LEN_MISMATCH, h1, None)
                   else if present then
                     let crc_rx = a20_clx_get_le16 b (A20_CLX_HDR_LEN + plen);
                         h2 = h1\<lparr>fh_crc_value := crc_rx\<rparr>
                     in if crc_rx \<noteq> a20_clx_crc16_ccitt body then (A20_FRAME_CRC_MISMATCH, h2, payload)
                        else (frame_rules h2, h2, payload)
                   else (frame_rules h1, h1, payload))"

subsection \<open>The builder of the serial link\<close>

definition a20_clx_build_frame ::
  "nat \<Rightarrow> u8 \<Rightarrow> u16 \<Rightarrow> u16 \<Rightarrow> u32 \<Rightarrow> u32 \<Rightarrow> u32 \<Rightarrow> u32 \<Rightarrow> u8 list \<Rightarrow> u16 \<Rightarrow> int + u8 list" where
  "a20_clx_build_frame cap type flags frag txid src dst slot payload plen =
     (let len = A20_CLX_HDR_LEN + unat plen + A20_CLX_CRC_LEN
      in if len > cap \<or> unat plen > A20_CLX_UART_MAX_PAYLOAD then Inl (- 1)
         else
           let body = a20_clx_put_le16 A20_CLX_MAGIC @ [A20_CLX_WIRE_VER, type] @
                 a20_clx_put_le16 flags @ a20_clx_put_le16 frag @ a20_clx_put_le32 txid @
                 a20_clx_put_le32 src @ a20_clx_put_le32 dst @ a20_clx_put_le32 slot @
                 a20_clx_put_le32 0 @ a20_clx_put_le16 plen @ [A20_CLX_TTL_DEFAULT, A20_CLX_CSUM_CCITT] @
                 take (unat plen) payload
           in Inr (body @ a20_clx_put_le16 (a20_clx_crc16_ccitt body)))"

definition a20_clx_build_hello_payload ::
  "u8 list \<Rightarrow> u8 \<Rightarrow> u8 \<Rightarrow> u8 \<Rightarrow> u8 \<Rightarrow> u16 \<Rightarrow> u64 \<Rightarrow> u8 list" where
  "a20_clx_build_hello_payload node proto_min proto_max tier caps short_addr nonce =
     take 16 node @ [proto_min, proto_max, tier, caps] @ a20_clx_put_le16 short_addr @ [2, 0] @
     a20_clx_put_le64 nonce"

datatype screen_verdict = A20_CLX_SCREEN_OK | A20_CLX_SCREEN_MALFORMED | A20_CLX_SCREEN_DROP

definition a20_clx_screen_frame :: "u8 list \<Rightarrow> screen_verdict" where
  "a20_clx_screen_frame b =
     (let plen = unat (a20_clx_get_le16 b 28)
      in if length b < A20_CLX_HDR_LEN + A20_CLX_CRC_LEN \<or> length b > A20_CLX_UART_MTU then A20_CLX_SCREEN_MALFORMED
         else if a20_clx_get_le16 b 0 \<noteq> A20_CLX_MAGIC then A20_CLX_SCREEN_MALFORMED
         else if b ! 31 \<noteq> A20_CLX_CSUM_CCITT then A20_CLX_SCREEN_MALFORMED
         else if plen \<noteq> length b - A20_CLX_HDR_LEN - A20_CLX_CRC_LEN \<or> plen > A20_CLX_UART_MAX_PAYLOAD
         then A20_CLX_SCREEN_MALFORMED
         else if b ! 30 = 0 then A20_CLX_SCREEN_DROP
         else if a20_clx_get_le16 b (A20_CLX_HDR_LEN + plen) \<noteq>
                 a20_clx_crc16_ccitt (take (A20_CLX_HDR_LEN + plen) b) then A20_CLX_SCREEN_MALFORMED
         else A20_CLX_SCREEN_OK)"

subsection \<open>Serial-line framing\<close>

definition slip_escape :: "u8 \<Rightarrow> u8 list" where
  "slip_escape b =
     (if b = A20_CLX_SLIP_END then [A20_CLX_SLIP_ESC, A20_CLX_SLIP_ESC_END]
      else if b = A20_CLX_SLIP_ESC then [A20_CLX_SLIP_ESC, A20_CLX_SLIP_ESC_ESC]
      else [b])"

definition a20_clx_slip_encode :: "u8 list \<Rightarrow> nat \<Rightarrow> int + u8 list" where
  "a20_clx_slip_encode frame out_cap =
     (if (length frame * 2 + 2) mod 2 ^ 32 > out_cap then Inl (- 1)
      else Inr (A20_CLX_SLIP_END # concat (map slip_escape frame) @ [A20_CLX_SLIP_END]))"

text \<open>The transmitter's escape: \<open>sink\<close> writes one byte and returns zero or an error.\<close>

definition a20_clx_slip_emit :: "u8 \<Rightarrow> (u8 \<Rightarrow> 's \<Rightarrow> int \<times> 's) \<Rightarrow> 's \<Rightarrow> int \<times> 's" where
  "a20_clx_slip_emit b sink s =
     (if b = A20_CLX_SLIP_END \<or> b = A20_CLX_SLIP_ESC
      then case sink A20_CLX_SLIP_ESC s of (rc, s1) \<Rightarrow>
             if rc \<noteq> 0 then (rc, s1)
             else sink (if b = A20_CLX_SLIP_END then A20_CLX_SLIP_ESC_END else A20_CLX_SLIP_ESC_ESC) s1
      else sink b s)"

text \<open>The receiver; \<open>rx_buf\<close> is the part of the buffer in use.\<close>

record a20_clx_slip_rx =
  rx_buf :: "u8 list"
  rx_cap :: nat
  rx_interbyte_ticks :: u64
  rx_last_byte_ticks :: u64
  rx_in_frame :: bool
  rx_in_escape :: bool
  rx_overflow :: bool

definition a20_clx_slip_rx_init :: "nat \<Rightarrow> u64 \<Rightarrow> a20_clx_slip_rx" where
  "a20_clx_slip_rx_init cap ticks = \<lparr>rx_buf = [], rx_cap = cap, rx_interbyte_ticks = ticks,
     rx_last_byte_ticks = 0, rx_in_frame = False, rx_in_escape = False, rx_overflow = False\<rparr>"

definition a20_clx_slip_rx_reset :: "a20_clx_slip_rx \<Rightarrow> a20_clx_slip_rx" where
  "a20_clx_slip_rx_reset rx =
     rx\<lparr>rx_buf := [], rx_in_frame := False, rx_in_escape := False, rx_overflow := False\<rparr>"

text \<open>Storing a data byte, shared by the escaped and the plain case.\<close>

definition slip_store :: "u8 \<Rightarrow> a20_clx_slip_rx \<Rightarrow> int \<times> a20_clx_slip_rx" where
  "slip_store b rx =
     (if length (rx_buf rx) \<ge> rx_cap rx then (- 1, rx\<lparr>rx_overflow := True\<rparr>)
      else (0, rx\<lparr>rx_buf := rx_buf rx @ [b]\<rparr>))"

definition a20_clx_slip_rx_byte :: "u8 \<Rightarrow> u64 \<Rightarrow> a20_clx_slip_rx \<Rightarrow> int \<times> a20_clx_slip_rx" where
  "a20_clx_slip_rx_byte b now rx0 =
     (let rx = rx0\<lparr>rx_last_byte_ticks := now\<rparr>
      in if rx_in_escape rx then
           let rx1 = rx\<lparr>rx_in_escape := False\<rparr>
           in if b \<noteq> A20_CLX_SLIP_ESC_END \<and> b \<noteq> A20_CLX_SLIP_ESC_ESC then (0, rx1)
              else if rx_overflow rx1 \<or> \<not> rx_in_frame rx1 then (0, rx1)
              else slip_store (if b = A20_CLX_SLIP_ESC_END then A20_CLX_SLIP_END else A20_CLX_SLIP_ESC) rx1
         else if b = A20_CLX_SLIP_END then
           if \<not> rx_in_frame rx then (0, rx\<lparr>rx_in_frame := True, rx_buf := [], rx_overflow := False\<rparr>)
           else if rx_overflow rx then (0, a20_clx_slip_rx_reset rx)
           else if rx_buf rx = [] then (0, rx)
           else (1, rx\<lparr>rx_in_frame := False\<rparr>)
         else if \<not> rx_in_frame rx then (0, rx)
         else if b = A20_CLX_SLIP_ESC then (0, rx\<lparr>rx_in_escape := True\<rparr>)
         else if rx_overflow rx then (0, rx)
         else slip_store b rx)"

definition a20_clx_slip_rx_timeout :: "u64 \<Rightarrow> a20_clx_slip_rx \<Rightarrow> bool \<times> a20_clx_slip_rx" where
  "a20_clx_slip_rx_timeout now rx =
     (if \<not> rx_in_frame rx then (False, rx)
      else if now - rx_last_byte_ticks rx \<le> rx_interbyte_ticks rx then (False, rx)
      else (True, a20_clx_slip_rx_reset rx))"

text \<open>
  The pump of the link (kernel/cluster/uart.c, and the same loop in kernel/mcu/leaf.c): a poll reads
  the clock once, feeds every byte the line has with that time, and then checks for silence at
  that time.  The frames handed on, the number of drops counted, and the receiver; what is done
  with a frame and the state machine of the link are not part of it.
\<close>

fun uart_pump_bytes :: "u64 \<Rightarrow> u8 list \<Rightarrow> a20_clx_slip_rx \<Rightarrow> (u8 list list \<times> nat) \<times> a20_clx_slip_rx" where
  "uart_pump_bytes now [] rx = (([], 0), rx)"
| "uart_pump_bytes now (b # bs) rx =
     (case a20_clx_slip_rx_byte b now rx of (r, rx1) \<Rightarrow>
        (case uart_pump_bytes now bs rx1 of ((fs, drops), rx2) \<Rightarrow>
           ((if r = 1 then rx_buf rx1 # fs else fs, if r < 0 then drops + 1 else drops), rx2)))"

definition uart_poll_rx :: "u64 \<Rightarrow> u8 list \<Rightarrow> a20_clx_slip_rx \<Rightarrow> (u8 list list \<times> nat) \<times> a20_clx_slip_rx" where
  "uart_poll_rx now bs rx =
     (case uart_pump_bytes now bs rx of ((fs, drops), rx1) \<Rightarrow>
        (case a20_clx_slip_rx_timeout now rx1 of (late, rx2) \<Rightarrow>
           ((fs, if late then drops + 1 else drops), rx2)))"

text \<open>A sequence of polls, each with its time and the bytes found on the line.\<close>

fun uart_polls :: "(u64 \<times> u8 list) list \<Rightarrow> a20_clx_slip_rx \<Rightarrow> u8 list list \<times> a20_clx_slip_rx" where
  "uart_polls [] rx = ([], rx)"
| "uart_polls ((now, bs) # ps) rx =
     (case uart_poll_rx now bs rx of ((fs, drops), rx1) \<Rightarrow>
        (case uart_polls ps rx1 of (gs, rx2) \<Rightarrow> (fs @ gs, rx2)))"

end
