(* ===== verification/Cluster_Wire_Theorems.thy ===== *)
theory Cluster_Wire_Theorems
  imports Cluster_Wire
begin

text \<open>
  The wire format delivers what was sent: the field accessors are inverse to each other, the
  frame decoder inverts the encoder, the checksum finds every damaged byte, and the streaming
  decoder of the serial link recovers the frames from any state.
\<close>

unbundle bit_operations_syntax

subsection \<open>Bytes and words\<close>

lemma byte_mask: "(0xFF :: 'a :: len word) = mask 8"
  by (simp add: mask_eq_exp_minus_1)

lemma half_mask: "(0xFFFFFFFF :: 'a :: len word) = mask 32"
  by (simp add: mask_eq_exp_minus_1)

lemmas byte_bits = bit_simps byte_mask bit_mask_iff

lemma put_get_le16:
  "a20_clx_put_le16 (ucast (a :: u8) OR push_bit 8 (ucast (b :: u8))) = [a, b]"
  unfolding a20_clx_put_le16_def
  by (auto intro!: bit_word_eqI simp: byte_bits) (auto dest: bit_imp_le_length)

lemma le16_join:
  fixes v :: u16
  shows "ucast (ucast (v AND 0xFF) :: u8) OR push_bit 8 (ucast (ucast (drop_bit 8 v AND 0xFF) :: u8)) = v"
  by (rule bit_word_eqI) (auto simp: byte_bits)

lemma le32_join:
  fixes v :: u32
  shows "ucast (ucast (v AND 0xFF) :: u8) OR push_bit 8 (ucast (ucast (drop_bit 8 v AND 0xFF) :: u8)) OR
     push_bit 16 (ucast (ucast (drop_bit 16 v AND 0xFF) :: u8)) OR
     push_bit 24 (ucast (ucast (drop_bit 24 v AND 0xFF) :: u8)) = v"
proof (rule bit_word_eqI)
  fix n
  assume "n < LENGTH(32)"
  then consider "n < 8" | "8 \<le> n" "n < 16" | "16 \<le> n" "n < 24" | "24 \<le> n" "n < 32"
    by fastforce
  then show "bit (ucast (ucast (v AND 0xFF) :: u8) OR push_bit 8 (ucast (ucast (drop_bit 8 v AND 0xFF) :: u8)) OR
     push_bit 16 (ucast (ucast (drop_bit 16 v AND 0xFF) :: u8)) OR
     push_bit 24 (ucast (ucast (drop_bit 24 v AND 0xFF) :: u8)) :: u32) n = bit v n"
    by cases (simp_all add: byte_bits less_diff_conv2)
qed

lemma le16_eq_iff:
  "a20_clx_get_le16 p i = a20_clx_get_le16 q i \<longleftrightarrow> p ! i = q ! i \<and> p ! (i + 1) = q ! (i + 1)"
proof
  assume "a20_clx_get_le16 p i = a20_clx_get_le16 q i"
  then have "a20_clx_put_le16 (a20_clx_get_le16 p i) = a20_clx_put_le16 (a20_clx_get_le16 q i)" by simp
  then show "p ! i = q ! i \<and> p ! (i + 1) = q ! (i + 1)"
    by (simp add: a20_clx_get_le16_def put_get_le16)
qed (simp add: a20_clx_get_le16_def)

lemma get_put_le16:
  assumes "p ! i = a20_clx_put_le16 v ! 0" "p ! (i + 1) = a20_clx_put_le16 v ! 1"
  shows "a20_clx_get_le16 p i = v"
  using assms by (simp add: a20_clx_get_le16_def a20_clx_put_le16_def le16_join)

lemma length_put [simp]:
  "length (a20_clx_put_le16 v) = 2" "length (a20_clx_put_le32 w) = 4"
  by (simp_all add: a20_clx_put_le16_def a20_clx_put_le32_def)

subsection \<open>The checksum\<close>

lemma crc_bit_bits:
  "bit (crc_bit c) n \<longleftrightarrow> n < 16 \<and> ((0 < n \<and> bit c (n - 1)) \<noteq> (bit c 15 \<and> bit (0x1021 :: u16) n))"
proof -
  have "(0x8000 :: u16) = 2 ^ 15" by simp
  then have "c AND 0x8000 \<noteq> 0 \<longleftrightarrow> bit c 15"
    by (metis and_exp_eq_0_iff_not_bit)
  moreover have "bit (push_bit 1 c) n \<longleftrightarrow> n < 16 \<and> 0 < n \<and> bit c (n - 1)"
    by (simp only: bit_push_bit_iff) (auto simp: Suc_le_eq)
  moreover have "bit (0x1021 :: u16) n \<Longrightarrow> n < 16"
    using bit_imp_le_length [of "0x1021 :: u16" n] by simp
  ultimately show ?thesis
    unfolding crc_bit_def by (auto simp only: bit_xor_iff split: if_splits)
qed


lemma crc_bit_inj: "crc_bit c = crc_bit d \<Longrightarrow> c = d"
proof (rule bit_word_eqI)
  fix n
  assume eq: "crc_bit c = crc_bit d" and n: "n < LENGTH(16)"
  have top: "bit c 15 = bit d 15"
    using arg_cong [OF eq, of "\<lambda>x. bit x 0"] by (simp add: crc_bit_bits)
  show "bit c n = bit d n"
  proof (cases "n = 15")
    case False
    with n have "Suc n < 16" by simp
    with arg_cong [OF eq, of "\<lambda>x. bit x (Suc n)"] top show ?thesis
      by (auto simp: crc_bit_bits)
  qed (simp add: top)
qed

lemma crc_bits_inj: "(crc_bit ^^ k) c = (crc_bit ^^ k) d \<Longrightarrow> c = d"
  by (induction k) (auto dest: crc_bit_inj)

lemma xor_cancel:
  fixes x y z :: "'a :: len word"
  shows "x XOR z = y XOR z \<longleftrightarrow> x = y" and "z XOR x = z XOR y \<longleftrightarrow> x = y"
  by (auto simp: bit_eq_iff bit_xor_iff)

lemma crc_byte_state_inj: "crc_byte c b = crc_byte d b \<Longrightarrow> c = d"
  unfolding crc_byte_def by (drule crc_bits_inj) (simp add: xor_cancel)

lemma crc_byte_data_inj: "crc_byte c a = crc_byte c b \<Longrightarrow> a = b"
  unfolding crc_byte_def
proof (drule crc_bits_inj)
  assume "c XOR push_bit 8 (ucast a) = c XOR push_bit 8 (ucast b :: u16)"
  then have eq: "push_bit 8 (ucast a) = push_bit 8 (ucast b :: u16)" by (simp add: xor_cancel)
  show "a = b"
  proof (rule bit_word_eqI)
    fix n
    assume "n < LENGTH(8)"
    with arg_cong [OF eq, of "\<lambda>x. bit x (n + 8)"] show "bit a n = bit b n"
      by (simp add: bit_simps)
  qed
qed

lemma crc_foldl_inj: "foldl crc_byte c bs = foldl crc_byte d bs \<Longrightarrow> c = d"
  by (induction bs arbitrary: c d) (auto dest: crc_byte_state_inj)

text \<open>Changing one byte changes the checksum.\<close>

lemma crc_detects_byte:
  assumes "k < length bs" and "a20_clx_crc16_ccitt (bs[k := v]) = a20_clx_crc16_ccitt bs"
  shows "v = bs ! k"
proof -
  have "foldl crc_byte (foldl crc_byte 0xFFFF (take k bs)) (v # drop (Suc k) bs) =
        foldl crc_byte (foldl crc_byte 0xFFFF (take k bs)) (bs ! k # drop (Suc k) bs)"
    using assms unfolding a20_clx_crc16_ccitt_def
    by (metis foldl_append id_take_nth_drop upd_conv_take_nth_drop)
  then show ?thesis by (auto dest!: crc_foldl_inj crc_byte_data_inj)
qed


subsection \<open>Encoding and decoding\<close>

lemmas le_defs = a20_clx_get_le16_def a20_clx_put_le16_def a20_clx_get_le32_def a20_clx_put_le32_def

lemma length_hdr_bytes [simp]: "length (hdr_bytes h) = 32"
  by (simp add: hdr_bytes_def)

lemma hdr_read_bytes: "hdr_read (hdr_bytes h @ r) = h\<lparr>fh_crc_present := 0, fh_crc_value := 0\<rparr>"
  by (simp add: hdr_read_def hdr_bytes_def le_defs le16_join le32_join)

lemma hdr_magic_bytes: "a20_clx_get_le16 (hdr_bytes h @ r) 0 = A20_CLX_MAGIC"
  by (simp add: hdr_bytes_def le_defs le16_join)

lemma get_le16_at_end: "a20_clx_get_le16 (body @ a20_clx_put_le16 v) (length body) = v"
  by (rule get_put_le16) (simp_all add: nth_append a20_clx_put_le16_def)

lemma frame_rules_cong:
  "frame_rules (h\<lparr>fh_crc_present := a, fh_crc_value := c\<rparr>) = frame_rules h"
  "frame_rules (h\<lparr>fh_crc_present := a\<rparr>) = frame_rules h"
  "frame_rules (h\<lparr>fh_crc_value := c\<rparr>) = frame_rules h"
  by (simp_all add: frame_rules_def)

lemma encode_InrD:
  assumes "a20_frame_encode buf cap mtu (Some h) payload = Inr b"
    and "length (case payload of None \<Rightarrow> [] | Some p \<Rightarrow> p) = unat (fh_payload_len h)"
  defines "body \<equiv> hdr_bytes h @ (case payload of None \<Rightarrow> [] | Some p \<Rightarrow> p)"
  shows "fh_csum_kind h = A20_CLX_CSUM_NONE \<or> fh_csum_kind h = A20_CLX_CSUM_CCITT"
    and "unat (fh_payload_len h) \<le> a20_frame_max_payload mtu"
    and "b = (if fh_csum_kind h = A20_CLX_CSUM_CCITT then body @ a20_clx_put_le16 (a20_clx_crc16_ccitt body) else body)"
  using assms by (auto simp: a20_frame_encode_def Let_def clx_lens split: if_splits option.splits)

lemma decode_encode:
  fixes h :: a20_frame_hdr
  assumes "a20_frame_encode True cap mtu (Some h) payload = Inr b"
    and "length (case payload of None \<Rightarrow> [] | Some p \<Rightarrow> p) = unat (fh_payload_len h)"
    and "34 \<le> mtu" and "fh_ver h = A20_CLX_WIRE_VER"
    and "A20_CLX_TYPE_HELLO \<le> fh_type h" and "fh_type h \<le> A20_CLX_TYPE_ERROR"
  shows "a20_frame_decode (Some b) mtu True =
    (frame_rules h,
     (if fh_csum_kind h = A20_CLX_CSUM_CCITT
      then h\<lparr>fh_crc_present := 1,
             fh_crc_value := a20_clx_crc16_ccitt (hdr_bytes h @ (case payload of None \<Rightarrow> [] | Some p \<Rightarrow> p))\<rparr>
      else h\<lparr>fh_crc_present := 0, fh_crc_value := 0\<rparr>),
     Some (case payload of None \<Rightarrow> [] | Some p \<Rightarrow> p))"
proof -
  define p where "p = (case payload of None \<Rightarrow> [] | Some p \<Rightarrow> p)"
  define body where "body = hdr_bytes h @ p"
  note enc = encode_InrD [OF assms(1,2), folded p_def, folded body_def]
  have len: "length p = unat (fh_payload_len h)" "length body = 32 + unat (fh_payload_len h)"
    using assms(2) by (simp_all add: p_def body_def)
  have type: "\<not> fh_type h < A20_CLX_TYPE_HELLO" "\<not> A20_CLX_TYPE_ERROR < fh_type h"
    using assms(5,6) by (simp_all add: not_less)
  have rd: "hdr_read (body @ r) = h\<lparr>fh_crc_present := 0, fh_crc_value := 0\<rparr>"
    "a20_clx_get_le16 (body @ r) 0 = A20_CLX_MAGIC" "take (length p) (drop 32 (body @ r)) = p" for r
    by (simp_all add: body_def hdr_read_bytes hdr_magic_bytes)
  show ?thesis
  proof (cases "fh_csum_kind h = A20_CLX_CSUM_CCITT")
    case True
    with enc have b: "b = body @ a20_clx_put_le16 (a20_clx_crc16_ccitt body)" by simp
    show ?thesis
      using True enc(2) assms(3,4) len rd type get_le16_at_end [of body "a20_clx_crc16_ccitt body"]
      by (simp add: a20_frame_decode_def Let_def b clx_lens frame_rules_cong flip: p_def body_def)
  next
    case False
    with enc have b: "b = body" "fh_csum_kind h = A20_CLX_CSUM_NONE" by simp_all
    show ?thesis
      using False enc(2) assms(3,4) len rd [of "[]"] type
      by (simp add: a20_frame_decode_def Let_def b clx_lens frame_rules_cong flip: p_def body_def)
  qed
qed


definition demo_hdr :: a20_frame_hdr where
  "demo_hdr = \<lparr>fh_ver = 0, fh_type = 3, fh_flags = 0, fh_frag = 0, fh_txid = 7, fh_src_hash = 1,
     fh_dst_hash = 2, fh_dst_slot = 5, fh_seq = 0, fh_payload_len = 8, fh_ttl = 8, fh_csum_kind = 1,
     fh_crc_present = 0, fh_crc_value = 0\<rparr>"

definition demo_payload :: "u8 list" where
  "demo_payload = [0xC0, 0xDB, 1, 2, 3, 4, 5, 6]"

definition demo_frame :: "u8 list" where
  "demo_frame = hdr_bytes demo_hdr @ demo_payload @
     a20_clx_put_le16 (a20_clx_crc16_ccitt (hdr_bytes demo_hdr @ demo_payload))"

lemma demo_encode: "a20_frame_encode True 64 256 (Some demo_hdr) (Some demo_payload) = Inr demo_frame"
  by (simp add: a20_frame_encode_def demo_hdr_def demo_payload_def demo_frame_def clx_lens Let_def
      a20_frame_max_payload_def A20_CLX_CSUM_NONE_def A20_CLX_CSUM_CCITT_def A20_CLX_FLAGS_KNOWN_def
      A20_CLX_FLAG_COMPRESSED_def A20_CLX_FRAG_RESERVED_def)

lemma demo_rules: "frame_rules demo_hdr = A20_FRAME_OK"
  by (simp add: frame_rules_def demo_hdr_def a20_frame_fixed_payload_len_def clx_types)

lemma demo_decoded: "fst (a20_frame_decode (Some demo_frame) 256 True) = A20_FRAME_OK"
  using decode_encode [OF demo_encode] demo_rules
  by (simp add: demo_hdr_def demo_payload_def A20_CLX_WIRE_VER_def clx_types)

text \<open>
  C29.  Encoding and decoding are inverse.  A frame of the wire version and of a known type that
  the encoder accepts is decoded at the same maximum transfer unit, of at least 34 bytes, to the same header, with the
  checksum field filled in, and to the same payload; the verdict is the one of the header rules,
  so no frame is refused for its magic, length or checksum.
\<close>

theorem frame_roundtrip:
  fixes h :: a20_frame_hdr
  assumes "a20_frame_encode True cap mtu (Some h) payload = Inr b"
    and "length (case payload of None \<Rightarrow> [] | Some p \<Rightarrow> p) = unat (fh_payload_len h)"
    and "34 \<le> mtu" and "fh_ver h = A20_CLX_WIRE_VER"
    and "A20_CLX_TYPE_HELLO \<le> fh_type h" and "fh_type h \<le> A20_CLX_TYPE_ERROR"
  shows "a20_frame_decode (Some b) mtu True =
    (frame_rules h,
     (if fh_csum_kind h = A20_CLX_CSUM_CCITT
      then h\<lparr>fh_crc_present := 1,
             fh_crc_value := a20_clx_crc16_ccitt (hdr_bytes h @ (case payload of None \<Rightarrow> [] | Some p \<Rightarrow> p))\<rparr>
      else h\<lparr>fh_crc_present := 0, fh_crc_value := 0\<rparr>),
     Some (case payload of None \<Rightarrow> [] | Some p \<Rightarrow> p))"
  using assms by (rule decode_encode)

theorem frame_roundtrip_witness:
  "fst (a20_frame_decode (Some demo_frame) 256 True) = A20_FRAME_OK \<and>
   snd (snd (a20_frame_decode (Some demo_frame) 256 True)) = Some [0xC0, 0xDB, 1, 2, 3, 4, 5, 6]"
  using frame_roundtrip [OF demo_encode] demo_rules
  by (simp add: demo_hdr_def demo_payload_def A20_CLX_WIRE_VER_def clx_types)

subsection \<open>Damaged frames\<close>

lemma frame_okD:
  assumes "fst (a20_frame_decode (Some b) mtu True) = A20_FRAME_OK"
  defines "plen \<equiv> unat (a20_clx_get_le16 b 28)"
  shows "b ! 31 = A20_CLX_CSUM_NONE \<and> length b = 32 + plen \<or>
     b ! 31 = A20_CLX_CSUM_CCITT \<and> length b = 34 + plen \<and>
     a20_clx_get_le16 b (32 + plen) = a20_clx_crc16_ccitt (take (32 + plen) b)"
  using assms
  by (auto simp: a20_frame_decode_def hdr_read_def Let_def clx_lens A20_CLX_CSUM_NONE_def
      A20_CLX_CSUM_CCITT_def split: if_splits)

text \<open>
  C30.  No damaged byte goes unnoticed: when a frame with a checksum is accepted, every frame of
  the same length that differs from it in exactly one byte, wherever that byte is (header,
  payload, checksum, and also the length field and the field that says whether there is a
  checksum), is refused.
\<close>

theorem frame_byte_error_detected:
  assumes ok: "fst (a20_frame_decode (Some b) mtu True) = A20_FRAME_OK"
    and kind: "b ! 31 = A20_CLX_CSUM_CCITT"
    and k: "k < length b" and diff: "v \<noteq> b ! k"
  shows "fst (a20_frame_decode (Some (b[k := v])) mtu True) \<noteq> A20_FRAME_OK"
proof
  let ?c = "b[k := v]"
  define plen where "plen = unat (a20_clx_get_le16 b 28)"
  assume ok': "fst (a20_frame_decode (Some ?c) mtu True) = A20_FRAME_OK"
  from frame_okD [OF ok] kind have b: "length b = 34 + plen"
    "a20_clx_get_le16 b (32 + plen) = a20_clx_crc16_ccitt (take (32 + plen) b)"
    by (auto simp: plen_def A20_CLX_CSUM_NONE_def A20_CLX_CSUM_CCITT_def)
  have same: "unat (a20_clx_get_le16 ?c 28) = plen" if "k \<noteq> 28" "k \<noteq> 29"
    using that by (simp add: plen_def a20_clx_get_le16_def)
  have k31: "?c ! 31 = A20_CLX_CSUM_CCITT"
  proof (rule ccontr)
    assume "?c ! 31 \<noteq> A20_CLX_CSUM_CCITT"
    with kind have "k = 31" by (cases "k = 31") auto
    with same frame_okD [OF ok'] b(1) \<open>?c ! 31 \<noteq> A20_CLX_CSUM_CCITT\<close> show False by simp
  qed
  with frame_okD [OF ok'] have c: "length b = 34 + unat (a20_clx_get_le16 ?c 28)"
    "a20_clx_get_le16 ?c (32 + unat (a20_clx_get_le16 ?c 28)) =
     a20_clx_crc16_ccitt (take (32 + unat (a20_clx_get_le16 ?c 28)) ?c)"
    by (auto simp: A20_CLX_CSUM_NONE_def A20_CLX_CSUM_CCITT_def)
  from b(1) c(1) have p: "unat (a20_clx_get_le16 ?c 28) = plen" by simp
  show False
  proof (cases "k < 32 + plen")
    case True
    then have "a20_clx_get_le16 ?c (32 + plen) = a20_clx_get_le16 b (32 + plen)"
      by (simp add: a20_clx_get_le16_def)
    with c(2) b(2) have "a20_clx_crc16_ccitt ((take (32 + plen) b)[k := v]) = a20_clx_crc16_ccitt (take (32 + plen) b)"
      by (simp add: p take_update_swap)
    with crc_detects_byte [of k "take (32 + plen) b" v] True b(1) diff show False by simp
  next
    case False
    then have "a20_clx_get_le16 ?c (32 + plen) = a20_clx_get_le16 b (32 + plen)"
      using c(2) b(2) by (simp add: p)
    then have eq: "?c ! (32 + plen) = b ! (32 + plen)" "?c ! (33 + plen) = b ! (33 + plen)"
      by (simp_all add: le16_eq_iff)
    from False k b(1) have "k = 32 + plen \<or> k = 33 + plen" by auto
    with eq k diff show False by auto
  qed
qed

theorem frame_byte_error_detected_witness:
  "fst (a20_frame_decode (Some (demo_frame[9 := 1])) 256 True) \<noteq> A20_FRAME_OK"
  by (rule frame_byte_error_detected [OF demo_decoded])
    (simp_all add: demo_frame_def hdr_bytes_def le_defs demo_hdr_def A20_CLX_CSUM_CCITT_def)


subsection \<open>The serial link's builder\<close>

text \<open>The header the builder writes.\<close>

definition uart_hdr :: "u8 \<Rightarrow> u16 \<Rightarrow> u16 \<Rightarrow> u32 \<Rightarrow> u32 \<Rightarrow> u32 \<Rightarrow> u32 \<Rightarrow> u16 \<Rightarrow> a20_frame_hdr" where
  "uart_hdr type flags frag txid src dst slot plen =
     \<lparr>fh_ver = A20_CLX_WIRE_VER, fh_type = type, fh_flags = flags, fh_frag = frag, fh_txid = txid,
      fh_src_hash = src, fh_dst_hash = dst, fh_dst_slot = slot, fh_seq = 0, fh_payload_len = plen,
      fh_ttl = A20_CLX_TTL_DEFAULT, fh_csum_kind = A20_CLX_CSUM_CCITT, fh_crc_present = 0, fh_crc_value = 0\<rparr>"

lemma build_frame_alt:
  "a20_clx_build_frame cap type flags frag txid src dst slot payload plen =
     (let body = hdr_bytes (uart_hdr type flags frag txid src dst slot plen) @ take (unat plen) payload
      in if 34 + unat plen > cap \<or> unat plen > 222 then Inl (- 1)
         else Inr (body @ a20_clx_put_le16 (a20_clx_crc16_ccitt body)))"
  by (simp add: a20_clx_build_frame_def hdr_bytes_def uart_hdr_def Let_def clx_lens)

lemma screen_built:
  assumes "length payload = unat (fh_payload_len h)" and "unat (fh_payload_len h) \<le> 222"
    and "fh_csum_kind h = A20_CLX_CSUM_CCITT" and "fh_ttl h \<noteq> 0"
  shows "a20_clx_screen_frame (hdr_bytes h @ payload @
      a20_clx_put_le16 (a20_clx_crc16_ccitt (hdr_bytes h @ payload))) = A20_CLX_SCREEN_OK"
proof -
  define b where "b = hdr_bytes h @ payload @ a20_clx_put_le16 (a20_clx_crc16_ccitt (hdr_bytes h @ payload))"
  have rd: "hdr_read b = h\<lparr>fh_crc_present := 0, fh_crc_value := 0\<rparr>"
    unfolding b_def by (rule hdr_read_bytes)
  have f: "a20_clx_get_le16 b 28 = fh_payload_len h" "b ! 30 = fh_ttl h" "b ! 31 = fh_csum_kind h"
    using arg_cong [OF rd, of fh_payload_len] arg_cong [OF rd, of fh_ttl] arg_cong [OF rd, of fh_csum_kind]
    by (simp_all add: hdr_read_def)
  have "a20_clx_get_le16 b (32 + unat (fh_payload_len h)) = a20_clx_crc16_ccitt (take (32 + unat (fh_payload_len h)) b)"
    using get_le16_at_end [of "hdr_bytes h @ payload"] assms(1) by (simp add: b_def)
  moreover have "a20_clx_get_le16 b 0 = A20_CLX_MAGIC" "length b = 34 + unat (fh_payload_len h)"
    using assms(1) by (simp_all add: b_def hdr_magic_bytes)
  ultimately show ?thesis
    unfolding b_def [symmetric] using f assms by (simp add: a20_clx_screen_frame_def Let_def clx_lens)
qed

lemma decode_ccitt:
  assumes "length p = unat (fh_payload_len h)" "unat (fh_payload_len h) \<le> a20_frame_max_payload mtu" "34 \<le> mtu"
    and "fh_ver h = A20_CLX_WIRE_VER" "fh_csum_kind h = A20_CLX_CSUM_CCITT"
  defines "body \<equiv> hdr_bytes h @ p"
  shows "a20_frame_decode (Some (body @ a20_clx_put_le16 (a20_clx_crc16_ccitt body))) mtu True =
    (if A20_CLX_TYPE_HELLO \<le> fh_type h \<and> fh_type h \<le> A20_CLX_TYPE_ERROR
     then (frame_rules h, h\<lparr>fh_crc_present := 1, fh_crc_value := a20_clx_crc16_ccitt body\<rparr>, Some p)
     else (A20_FRAME_UNKNOWN_TYPE, h\<lparr>fh_crc_present := 0, fh_crc_value := 0\<rparr>, None))"
proof -
  have len: "length body = 32 + unat (fh_payload_len h)" using assms(1) by (simp add: body_def)
  have rd: "hdr_read (body @ r) = h\<lparr>fh_crc_present := 0, fh_crc_value := 0\<rparr>"
    "a20_clx_get_le16 (body @ r) 0 = A20_CLX_MAGIC" "take (length p) (drop 32 (body @ r)) = p" for r
    by (simp_all add: body_def hdr_read_bytes hdr_magic_bytes)
  show ?thesis
    using assms(1-5) len rd get_le16_at_end [of body "a20_clx_crc16_ccitt body"]
    by (auto simp: a20_frame_decode_def Let_def clx_lens frame_rules_cong not_less simp flip: body_def)
qed

text \<open>The bits a sender must leave zero; only the general encoder checks them.\<close>

definition reserved_bits :: "u16 \<Rightarrow> u16 \<Rightarrow> bool" where
  "reserved_bits flags frag \<longleftrightarrow> flags AND NOT A20_CLX_FLAGS_KNOWN \<noteq> 0 \<or> flags AND A20_CLX_FLAG_COMPRESSED \<noteq> 0 \<or>
     frag AND A20_CLX_FRAG_RESERVED \<noteq> 0"

text \<open>
  C31.  What the frame builder of the serial link writes, for all arguments with a payload of the
  given length.  When the builder fails, so does the general encoder at the transfer unit of the
  link.  Otherwise the transport's screen lets its bytes through, and the decoder reads the header
  and the payload back from them, with the verdict of the header rules, or refuses the frame if
  the type is not a known one.  The encoder writes the same bytes, except that it refuses reserved
  and compressed flags and reserved fragment bits, which the builder passes on to the wire.
\<close>

theorem build_frame_agrees:
  assumes "length payload = unat plen"
  shows "let h = uart_hdr type flags frag txid src dst slot plen;
      enc = a20_frame_encode True cap A20_CLX_UART_MTU (Some h) (Some payload)
    in case a20_clx_build_frame cap type flags frag txid src dst slot payload plen of
         Inl e \<Rightarrow> e = - 1 \<and> (\<exists>e'. enc = Inl e')
       | Inr b \<Rightarrow> a20_clx_screen_frame b = A20_CLX_SCREEN_OK \<and>
           enc = (if reserved_bits flags frag then Inl (- 1) else Inr b) \<and>
           a20_frame_decode (Some b) A20_CLX_UART_MTU True =
             (if A20_CLX_TYPE_HELLO \<le> type \<and> type \<le> A20_CLX_TYPE_ERROR
              then (frame_rules h,
                    h\<lparr>fh_crc_present := 1, fh_crc_value := a20_clx_crc16_ccitt (hdr_bytes h @ payload)\<rparr>, Some payload)
              else (A20_FRAME_UNKNOWN_TYPE, h, None))"
proof -
  let ?h = "uart_hdr type flags frag txid src dst slot plen"
  have h: "fh_flags ?h = flags" "fh_frag ?h = frag" "fh_payload_len ?h = plen" "fh_type ?h = type"
    "fh_csum_kind ?h = A20_CLX_CSUM_CCITT" "fh_ttl ?h \<noteq> 0" "fh_ver ?h = A20_CLX_WIRE_VER"
    "?h\<lparr>fh_crc_present := 0, fh_crc_value := 0\<rparr> = ?h"
    by (simp_all add: uart_hdr_def A20_CLX_TTL_DEFAULT_def)
  show ?thesis
  proof (cases "34 + unat plen > cap \<or> unat plen > 222")
    case True
    with assms h show ?thesis
      by (auto simp: build_frame_alt a20_frame_encode_def Let_def clx_lens a20_frame_max_payload_def)
  next
    case False
    then have m: "unat plen \<le> a20_frame_max_payload A20_CLX_UART_MTU"
      by (simp add: a20_frame_max_payload_def clx_lens)
    let ?b = "(hdr_bytes ?h @ payload) @ a20_clx_put_le16 (a20_clx_crc16_ccitt (hdr_bytes ?h @ payload))"
    have "a20_clx_build_frame cap type flags frag txid src dst slot payload plen = Inr ?b"
      using False assms by (simp add: build_frame_alt Let_def)
    moreover have "a20_clx_screen_frame ?b = A20_CLX_SCREEN_OK"
      using screen_built [of payload ?h] False assms h by simp
    moreover have "a20_frame_encode True cap A20_CLX_UART_MTU (Some ?h) (Some payload) =
        (if reserved_bits flags frag then Inl (- 1) else Inr ?b)"
      using False assms h m by (simp add: a20_frame_encode_def Let_def clx_lens reserved_bits_def)
    moreover note decode_ccitt [of payload ?h A20_CLX_UART_MTU]
    ultimately show ?thesis using assms h m by (simp add: Let_def clx_lens)
  qed
qed

theorem build_frame_agrees_witness:
  "\<exists>b. a20_clx_build_frame 64 8 0 0 0 1 2 5 [] 0 = Inr b \<and> a20_clx_screen_frame b = A20_CLX_SCREEN_OK \<and>
     fst (a20_frame_decode (Some b) A20_CLX_UART_MTU True) = A20_FRAME_OK"
  using build_frame_agrees [of "[]" 0 8 0 0 0 1 2 5 64]
  by (simp add: build_frame_alt Let_def clx_types) (simp add: frame_rules_def uart_hdr_def
      a20_frame_fixed_payload_len_def clx_types)

subsection \<open>Serial-line framing\<close>

text \<open>Feeding a sequence of time-stamped bytes: the frames delivered and the receiver after it.\<close>

fun slip_feed :: "(u8 \<times> u64) list \<Rightarrow> a20_clx_slip_rx \<Rightarrow> u8 list list \<times> a20_clx_slip_rx" where
  "slip_feed [] rx = ([], rx)"
| "slip_feed ((b, now) # bs) rx =
     (case a20_clx_slip_rx_byte b now rx of
        (r, rx1) \<Rightarrow> (case slip_feed bs rx1 of
          (fs, rx2) \<Rightarrow> (if r = 1 then rx_buf rx1 # fs else fs, rx2)))"

lemma slip_feed_append:
  "slip_feed (xs @ ys) rx =
     (fst (slip_feed xs rx) @ fst (slip_feed ys (snd (slip_feed xs rx))),
      snd (slip_feed ys (snd (slip_feed xs rx))))"
  by (induction xs rx rule: slip_feed.induct) (auto split: prod.splits)

text \<open>A receiver that waits for a frame: either it has seen nothing, or only the opening byte.\<close>

definition rx_ready :: "a20_clx_slip_rx \<Rightarrow> bool" where
  "rx_ready rx \<longleftrightarrow> \<not> rx_in_escape rx \<and> (rx_in_frame rx \<longrightarrow> rx_buf rx = [] \<and> \<not> rx_overflow rx)"

lemmas rx_defs = a20_clx_slip_rx_byte_def slip_store_def a20_clx_slip_rx_reset_def Let_def

lemma slip_escape_cases:
  obtains (esc) c where "slip_escape b = [A20_CLX_SLIP_ESC, c]"
      "c = A20_CLX_SLIP_ESC_END \<and> b = A20_CLX_SLIP_END \<or> c = A20_CLX_SLIP_ESC_ESC \<and> b = A20_CLX_SLIP_ESC"
  | (plain) "slip_escape b = [b]" "b \<noteq> A20_CLX_SLIP_END" "b \<noteq> A20_CLX_SLIP_ESC"
  by (cases "b = A20_CLX_SLIP_END"; cases "b = A20_CLX_SLIP_ESC") (auto simp: slip_escape_def)

text \<open>The bytes of one data byte, inside a frame with room for it.\<close>

lemma feed_escape:
  assumes "map fst bs = slip_escape b" and "rx_in_frame rx" "\<not> rx_in_escape rx" "\<not> rx_overflow rx"
    and "length (rx_buf rx) < rx_cap rx"
  shows "\<exists>t. slip_feed bs rx = ([], rx\<lparr>rx_buf := rx_buf rx @ [b], rx_last_byte_ticks := t\<rparr>)"
proof (cases b rule: slip_escape_cases)
  case (esc c)
  with assms(1) obtain t1 t2 where "bs = [(A20_CLX_SLIP_ESC, t1), (c, t2)]"
    by (auto simp: map_eq_Cons_conv)
  with esc(2) assms(2-) show ?thesis
    by (intro exI [of _ t2]) (auto simp: rx_defs clx_slip)
next
  case plain
  with assms(1) obtain t where "bs = [(b, t)]" by (auto simp: map_eq_Cons_conv)
  with plain assms(2-) show ?thesis
    by (intro exI [of _ t]) (auto simp: rx_defs)
qed


lemma map_fst_appendE:
  assumes "map fst bs = xs @ ys"
  obtains b1 b2 where "bs = b1 @ b2" "map fst b1 = xs" "map fst b2 = ys"
  using assms by (auto simp: map_eq_append_conv)

lemma feed_body:
  assumes "map fst bs = concat (map slip_escape f)"
    and "rx_in_frame rx" "\<not> rx_in_escape rx" "\<not> rx_overflow rx" "length (rx_buf rx) + length f \<le> rx_cap rx"
  shows "\<exists>t. slip_feed bs rx = ([], rx\<lparr>rx_buf := rx_buf rx @ f, rx_last_byte_ticks := t\<rparr>)"
  using assms
proof (induction f arbitrary: bs rx)
  case Nil
  then show ?case by (intro exI [of _ "rx_last_byte_ticks rx"]) simp
next
  case (Cons b f)
  from Cons.prems(1) obtain b1 b2 where bs: "bs = b1 @ b2"
      and m: "map fst b1 = slip_escape b" "map fst b2 = concat (map slip_escape f)"
    by (auto elim: map_fst_appendE)
  obtain t where t: "slip_feed b1 rx = ([], rx\<lparr>rx_buf := rx_buf rx @ [b], rx_last_byte_ticks := t\<rparr>)"
    using feed_escape [OF m(1), of rx] Cons.prems by auto
  show ?case
    using Cons.IH [OF m(2), of "rx\<lparr>rx_buf := rx_buf rx @ [b], rx_last_byte_ticks := t\<rparr>"] Cons.prems t
    by (auto simp: bs slip_feed_append)
qed

lemma slip_wireE:
  assumes "a20_clx_slip_encode f c = Inr w" and "map fst bs = w"
  obtains t1 body t2 where "bs = (A20_CLX_SLIP_END, t1) # body @ [(A20_CLX_SLIP_END, t2)]"
    and "map fst body = concat (map slip_escape f)"
proof -
  from assms have "map fst bs = [A20_CLX_SLIP_END] @ (concat (map slip_escape f) @ [A20_CLX_SLIP_END])"
    by (simp add: a20_clx_slip_encode_def split: if_splits)
  then obtain b1 b2 where 1: "bs = b1 @ b2" "map fst b1 = [A20_CLX_SLIP_END]"
      "map fst b2 = concat (map slip_escape f) @ [A20_CLX_SLIP_END]"
    by (rule map_fst_appendE)
  from 1(3) obtain body b3 where "b2 = body @ b3" "map fst body = concat (map slip_escape f)"
      "map fst b3 = [A20_CLX_SLIP_END]"
    by (rule map_fst_appendE)
  with 1 that show ?thesis by (auto simp: map_eq_Cons_conv)
qed

text \<open>One frame, to a waiting receiver.\<close>

lemma feed_frame:
  assumes "a20_clx_slip_encode f c = Inr w" "map fst bs = w" and "rx_ready rx"
    and "f \<noteq> []" "length f \<le> rx_cap rx"
  shows "\<exists>rx'. slip_feed bs rx = ([f], rx') \<and> rx_ready rx' \<and> rx_cap rx' = rx_cap rx"
proof -
  obtain t1 body t2 where bs: "bs = (A20_CLX_SLIP_END, t1) # body @ [(A20_CLX_SLIP_END, t2)]"
    and body: "map fst body = concat (map slip_escape f)"
    using slip_wireE [OF assms(1,2)] .
  define rx1 where "rx1 = rx\<lparr>rx_last_byte_ticks := t1, rx_in_frame := True, rx_buf := [], rx_overflow := False\<rparr>"
  have head: "a20_clx_slip_rx_byte A20_CLX_SLIP_END t1 rx = (0, rx1)"
    using assms(3) by (auto simp: rx_defs rx_ready_def rx1_def)
  obtain t where t: "slip_feed body rx1 = ([], rx1\<lparr>rx_buf := f, rx_last_byte_ticks := t\<rparr>)"
    using feed_body [OF body, of rx1] assms(3,5) by (auto simp: rx1_def rx_ready_def)
  have "a20_clx_slip_rx_byte A20_CLX_SLIP_END t2 (rx1\<lparr>rx_buf := f, rx_last_byte_ticks := t\<rparr>) =
      (1, rx1\<lparr>rx_buf := f, rx_last_byte_ticks := t2, rx_in_frame := False\<rparr>)"
    using assms(3,4) by (simp add: rx_defs rx1_def rx_ready_def)
  then show ?thesis
    using assms(3) by (simp add: bs head slip_feed_append t) (simp add: rx_ready_def rx1_def)
qed

subsection \<open>Polls\<close>

text \<open>
  What the receiver meets in a sequence of polls, one after the other: a byte, or a check for
  silence, each with its time.
\<close>

fun rx_run :: "(u8 option \<times> u64) list \<Rightarrow> a20_clx_slip_rx \<Rightarrow> u8 list list \<times> a20_clx_slip_rx" where
  "rx_run [] rx = ([], rx)"
| "rx_run ((Some b, now) # es) rx =
     (case a20_clx_slip_rx_byte b now rx of
        (r, rx1) \<Rightarrow> (case rx_run es rx1 of (fs, rx2) \<Rightarrow> (if r = 1 then rx_buf rx1 # fs else fs, rx2)))"
| "rx_run ((None, now) # es) rx = rx_run es (snd (a20_clx_slip_rx_timeout now rx))"

definition poll_events :: "u64 \<times> u8 list \<Rightarrow> (u8 option \<times> u64) list" where
  "poll_events = (\<lambda>(now, bs). map (\<lambda>b. (Some b, now)) bs @ [(None, now)])"

fun timed_bytes :: "(u8 option \<times> u64) list \<Rightarrow> (u8 \<times> u64) list" where
  "timed_bytes [] = []"
| "timed_bytes ((Some b, now) # es) = (b, now) # timed_bytes es"
| "timed_bytes ((None, now) # es) = timed_bytes es"

text \<open>Inside a sequence of bytes that belong together, no check comes later than \<open>limit\<close> after the
  byte before it; checks before the first and after the last byte do not count.\<close>

fun prompt :: "u64 \<Rightarrow> u64 option \<Rightarrow> (u8 option \<times> u64) list \<Rightarrow> bool" where
  "prompt limit last_byte [] \<longleftrightarrow> True"
| "prompt limit last_byte ((Some b, now) # es) \<longleftrightarrow> prompt limit (Some now) es"
| "prompt limit last_byte ((None, now) # es) \<longleftrightarrow>
     (case last_byte of None \<Rightarrow> True | Some t \<Rightarrow> timed_bytes es = [] \<or> now - t \<le> limit) \<and> prompt limit last_byte es"

lemma rx_run_append:
  "rx_run (xs @ ys) rx = (fst (rx_run xs rx) @ fst (rx_run ys (snd (rx_run xs rx))), snd (rx_run ys (snd (rx_run xs rx))))"
  by (induction xs rx rule: rx_run.induct) (auto split: prod.splits)

lemma uart_poll_run:
  "fst (fst (uart_poll_rx now bs rx)) = fst (rx_run (poll_events (now, bs)) rx)"
  "snd (uart_poll_rx now bs rx) = snd (rx_run (poll_events (now, bs)) rx)"
proof -
  have "fst (fst (uart_pump_bytes now bs rx)) = fst (rx_run (map (\<lambda>b. (Some b, now)) bs) rx) \<and>
      snd (uart_pump_bytes now bs rx) = snd (rx_run (map (\<lambda>b. (Some b, now)) bs) rx)"
    by (induction bs arbitrary: rx) (auto split: prod.splits, (metis fst_conv snd_conv)+)
  then show "fst (fst (uart_poll_rx now bs rx)) = fst (rx_run (poll_events (now, bs)) rx)"
    "snd (uart_poll_rx now bs rx) = snd (rx_run (poll_events (now, bs)) rx)"
    by (auto simp: uart_poll_rx_def poll_events_def rx_run_append split: prod.splits)
qed

lemma uart_polls_run: "uart_polls ps rx = rx_run (concat (map poll_events ps)) rx"
proof (induction ps arbitrary: rx)
  case (Cons p ps)
  obtain now bs where p: "p = (now, bs)" by force
  obtain fs drops rx1 where poll: "uart_poll_rx now bs rx = ((fs, drops), rx1)" by (metis prod.exhaust)
  then have "fst (rx_run (poll_events (now, bs)) rx) = fs" "snd (rx_run (poll_events (now, bs)) rx) = rx1"
    using uart_poll_run [of now bs rx] by simp_all
  then show ?case using Cons poll by (simp add: p rx_run_append split: prod.splits)
qed simp

text \<open>A check leaves the receiver as it is or resets it.\<close>

lemma timeout_cases:
  "snd (a20_clx_slip_rx_timeout now rx) = rx \<or> snd (a20_clx_slip_rx_timeout now rx) = a20_clx_slip_rx_reset rx"
  by (simp add: a20_clx_slip_rx_timeout_def)

lemma timeout_frame [simp]:
  "rx_cap (snd (a20_clx_slip_rx_timeout now rx)) = rx_cap rx"
  "rx_interbyte_ticks (snd (a20_clx_slip_rx_timeout now rx)) = rx_interbyte_ticks rx"
  by (simp_all add: a20_clx_slip_rx_timeout_def a20_clx_slip_rx_reset_def)

lemma timeout_ready: "rx_ready rx \<Longrightarrow> rx_ready (snd (a20_clx_slip_rx_timeout now rx))"
  using timeout_cases [of now rx] by (auto simp: rx_ready_def a20_clx_slip_rx_reset_def)

lemma rx_byte_frame:
  "a20_clx_slip_rx_byte b now rx = (r, rx') \<Longrightarrow>
   rx_cap rx' = rx_cap rx \<and> rx_interbyte_ticks rx' = rx_interbyte_ticks rx \<and> rx_last_byte_ticks rx' = now"
  by (auto simp: rx_defs split: if_splits)

lemma rx_run_checks:
  "timed_bytes es = [] \<Longrightarrow> rx_ready rx \<Longrightarrow>
   \<exists>rx'. rx_run es rx = ([], rx') \<and> rx_ready rx' \<and> rx_cap rx' = rx_cap rx \<and> rx_interbyte_ticks rx' = rx_interbyte_ticks rx"
  by (induction es rx rule: rx_run.induct) (auto simp: timeout_ready)

text \<open>Prompt checks change nothing: the receiver does what it does with the bytes alone.\<close>

lemma rx_run_prompt:
  assumes "prompt (rx_interbyte_ticks rx) (Some (rx_last_byte_ticks rx)) es"
    and "slip_feed (timed_bytes es) rx = (d, rx1)" "rx_ready rx1"
  shows "\<exists>rx'. rx_run es rx = (d, rx') \<and> rx_ready rx' \<and> rx_cap rx' = rx_cap rx \<and>
    rx_interbyte_ticks rx' = rx_interbyte_ticks rx"
  using assms
proof (induction es rx arbitrary: d rule: rx_run.induct)
  case (2 b now es rx)
  obtain r rx2 where step: "a20_clx_slip_rx_byte b now rx = (r, rx2)" by fastforce
  obtain d2 where feed: "slip_feed (timed_bytes es) rx2 = (d2, rx1)" "d = (if r = 1 then rx_buf rx2 # d2 else d2)"
    using "2.prems"(2) step by (auto split: prod.splits)
  then show ?case
    using "2.IH" [OF step [symmetric] _ feed(1) "2.prems"(3)] "2.prems"(1) rx_byte_frame [OF step] step by auto
next
  case (3 now es rx)
  show ?case
  proof (cases "timed_bytes es = []")
    case True
    then show ?thesis
      using "3.prems" rx_run_checks [of es "snd (a20_clx_slip_rx_timeout now rx)"] timeout_ready by auto
  next
    case False
    then have "snd (a20_clx_slip_rx_timeout now rx) = rx"
      using "3.prems"(1) by (simp add: a20_clx_slip_rx_timeout_def)
    then show ?thesis using 3 by simp
  qed
qed auto

text \<open>One frame, to a waiting receiver, when the line is polled in time.\<close>

lemma run_frame:
  assumes "a20_clx_slip_encode f c = Inr w" "map fst (timed_bytes es) = w" and "rx_ready rx"
    and "f \<noteq> []" "length f \<le> rx_cap rx" and "prompt (rx_interbyte_ticks rx) None es"
  shows "\<exists>rx'. rx_run es rx = ([f], rx') \<and> rx_ready rx' \<and> rx_cap rx' = rx_cap rx \<and>
    rx_interbyte_ticks rx' = rx_interbyte_ticks rx"
  using assms(2,3,5,6)
proof (induction es rx rule: rx_run.induct)
  case (1 rx)
  then show ?case using assms(1) by (auto simp: a20_clx_slip_encode_def split: if_splits)
next
  case (2 b now es rx)
  obtain r rx2 where step: "a20_clx_slip_rx_byte b now rx = (r, rx2)" by fastforce
  note fr = rx_byte_frame [OF step]
  obtain rx1 where feed: "slip_feed (timed_bytes ((Some b, now) # es)) rx = ([f], rx1)" "rx_ready rx1"
    using feed_frame [OF assms(1) "2.prems"(1,2) assms(4) "2.prems"(3)] by blast
  obtain d2 where feed2: "slip_feed (timed_bytes es) rx2 = (d2, rx1)" "[f] = (if r = 1 then rx_buf rx2 # d2 else d2)"
    using feed(1) step by (auto split: prod.splits)
  have "prompt (rx_interbyte_ticks rx2) (Some (rx_last_byte_ticks rx2)) es" using "2.prems"(4) fr by simp
  from rx_run_prompt [OF this feed2(1) feed(2)] show ?case using feed2(2) step fr by auto
next
  case (3 now es rx)
  then show ?case using timeout_ready by simp
qed

text \<open>
  One frame, to a receiver in any state and with checks at any times.  Within the frame, either no
  escape is open, or the second byte of an escape comes next and the receiver expects it or is
  outside a frame.
\<close>

definition frame_rest :: "u8 list \<Rightarrow> a20_clx_slip_rx \<Rightarrow> bool" where
  "frame_rest bs rx \<longleftrightarrow>
     (\<exists>g. bs = concat (map slip_escape g) @ [A20_CLX_SLIP_END] \<and> \<not> rx_in_escape rx) \<or>
     (\<exists>g c. bs = c # concat (map slip_escape g) @ [A20_CLX_SLIP_END] \<and> c \<in> {A20_CLX_SLIP_ESC_END, A20_CLX_SLIP_ESC_ESC} \<and>
        (rx_in_escape rx \<or> \<not> rx_in_frame rx)) \<or>
     bs = [] \<and> rx_ready rx"

lemma frame_rest_reset: "frame_rest bs rx \<Longrightarrow> frame_rest bs (a20_clx_slip_rx_reset rx)"
  by (auto simp: frame_rest_def a20_clx_slip_rx_reset_def rx_ready_def)

lemma frame_rest_byte:
  assumes "frame_rest (b # bs) rx" "a20_clx_slip_rx_byte b now rx = (r, rx')"
  shows "frame_rest bs rx' \<and> (rx_in_frame rx' \<and> bs \<noteq> [] \<longrightarrow> rx_in_frame rx) \<and>
    (r = 1 \<longrightarrow> rx_in_frame rx \<and> \<not> rx_in_frame rx')"
proof -
  consider (close) "b = A20_CLX_SLIP_END" "bs = []" "\<not> rx_in_escape rx"
    | (data) x g where "b # bs = slip_escape x @ concat (map slip_escape g) @ [A20_CLX_SLIP_END]" "\<not> rx_in_escape rx"
    | (second) g where "bs = concat (map slip_escape g) @ [A20_CLX_SLIP_END]"
        "b \<in> {A20_CLX_SLIP_ESC_END, A20_CLX_SLIP_ESC_ESC}" "rx_in_escape rx \<or> \<not> rx_in_frame rx"
  proof -
    have "(\<exists>g. b # bs = concat (map slip_escape g) @ [A20_CLX_SLIP_END] \<and> \<not> rx_in_escape rx) \<or>
        (\<exists>g. bs = concat (map slip_escape g) @ [A20_CLX_SLIP_END] \<and> b \<in> {A20_CLX_SLIP_ESC_END, A20_CLX_SLIP_ESC_ESC} \<and>
          (rx_in_escape rx \<or> \<not> rx_in_frame rx))"
      using assms(1) by (auto simp: frame_rest_def)
    then show thesis
    proof (elim disjE exE conjE)
      fix g assume g: "b # bs = concat (map slip_escape g) @ [A20_CLX_SLIP_END]" "\<not> rx_in_escape rx"
      show thesis
      proof (cases g)
        case Nil
        then show thesis using g close by simp
      next
        case (Cons x g')
        then show thesis using g data [of x g'] by simp
      qed
    qed (rule second; simp)+
  qed
  then show ?thesis
  proof cases
    case close
    then show ?thesis
      using assms(2) by (auto simp: frame_rest_def rx_ready_def rx_defs split: if_splits)
  next
    case (data x g)
    show ?thesis
    proof (cases x rule: slip_escape_cases)
      case (esc c)
      then have "b = A20_CLX_SLIP_ESC" "bs = c # concat (map slip_escape g) @ [A20_CLX_SLIP_END]"
        "c \<in> {A20_CLX_SLIP_ESC_END, A20_CLX_SLIP_ESC_ESC}"
        using data(1) by auto
      then show ?thesis
        using assms(2) data(2) by (auto simp: frame_rest_def rx_defs clx_slip split: if_splits)
    next
      case plain
      then have "b \<noteq> A20_CLX_SLIP_END" "b \<noteq> A20_CLX_SLIP_ESC" "bs = concat (map slip_escape g) @ [A20_CLX_SLIP_END]"
        using data(1) by auto
      then show ?thesis
        using assms(2) data(2) by (auto simp: frame_rest_def rx_defs split: if_splits)
    qed
  next
    case (second g)
    have "b \<noteq> A20_CLX_SLIP_END" "b \<noteq> A20_CLX_SLIP_ESC" using second(2) by (auto simp: clx_slip)
    then show ?thesis
      using assms(2) second by (auto simp: frame_rest_def rx_defs split: if_splits)
  qed
qed

lemma run_rest:
  assumes "frame_rest (map fst (timed_bytes es)) rx"
  shows "\<exists>d rx'. rx_run es rx = (d, rx') \<and> rx_ready rx' \<and> rx_cap rx' = rx_cap rx \<and>
    rx_interbyte_ticks rx' = rx_interbyte_ticks rx \<and>
    length d \<le> (if rx_in_frame rx \<and> timed_bytes es \<noteq> [] then 1 else 0)"
  using assms
proof (induction es rx rule: rx_run.induct)
  case (1 rx)
  then show ?case by (simp add: frame_rest_def)
next
  case (2 b now es rx)
  obtain r rx2 where step: "a20_clx_slip_rx_byte b now rx = (r, rx2)" by fastforce
  have f: "frame_rest (map fst (timed_bytes es)) rx2" "rx_in_frame rx2 \<and> timed_bytes es \<noteq> [] \<longrightarrow> rx_in_frame rx"
    "r = 1 \<longrightarrow> rx_in_frame rx \<and> \<not> rx_in_frame rx2"
    using frame_rest_byte [OF _ step, of "map fst (timed_bytes es)"] "2.prems" by auto
  from "2.IH" [OF step [symmetric] f(1)] show ?case
    using f(2,3) rx_byte_frame [OF step] step by (auto split: if_splits)
next
  case (3 now es rx)
  have "frame_rest (map fst (timed_bytes es)) (snd (a20_clx_slip_rx_timeout now rx))"
    using timeout_cases [of now rx] frame_rest_reset "3.prems" by auto
  from "3.IH" [OF this] show ?case
    using timeout_cases [of now rx] by (auto simp: a20_clx_slip_rx_reset_def split: if_splits)
qed

lemma run_frame_any:
  assumes "a20_clx_slip_encode f c = Inr w" "map fst (timed_bytes es) = w"
  shows "\<exists>d rx'. rx_run es rx = (d, rx') \<and> length d \<le> 1 \<and> rx_ready rx' \<and> rx_cap rx' = rx_cap rx \<and>
    rx_interbyte_ticks rx' = rx_interbyte_ticks rx"
  using assms(2)
proof (induction es rx rule: rx_run.induct)
  case (1 rx)
  then show ?case using assms(1) by (auto simp: a20_clx_slip_encode_def split: if_splits)
next
  case (2 b now es rx)
  have w: "b = A20_CLX_SLIP_END" "map fst (timed_bytes es) = concat (map slip_escape f) @ [A20_CLX_SLIP_END]"
    using assms(1) "2.prems" by (auto simp: a20_clx_slip_encode_def split: if_splits)
  obtain r rx2 where step: "a20_clx_slip_rx_byte b now rx = (r, rx2)" by fastforce
  have h: "\<not> rx_in_escape rx2" "r = 1 \<Longrightarrow> \<not> rx_in_frame rx2"
    using step w(1) by (auto simp: rx_defs clx_slip split: if_splits)
  have "frame_rest (map fst (timed_bytes es)) rx2" using w(2) h(1) by (auto simp: frame_rest_def)
  from run_rest [OF this] show ?case
    using h(2) rx_byte_frame [OF step] step by (auto split: if_splits)
next
  case (3 now es rx)
  then show ?case by simp
qed

lemma run_frames:
  assumes "list_all2 (\<lambda>f w. a20_clx_slip_encode f c = Inr w) fs ws"
    and "list_all2 (\<lambda>seg w. map fst (timed_bytes seg) = w \<and> prompt (rx_interbyte_ticks rx) None seg) segs ws"
    and "rx_ready rx" and "\<forall>f \<in> set fs. f \<noteq> [] \<and> length f \<le> rx_cap rx"
  shows "\<exists>rx'. rx_run (concat segs) rx = (fs, rx') \<and> rx_ready rx'"
  using assms
proof (induction fs ws arbitrary: segs rx rule: list_all2_induct)
  case (Cons f fs w ws)
  from Cons.prems(1) obtain seg segs' where segs: "segs = seg # segs'"
    and m: "map fst (timed_bytes seg) = w" "prompt (rx_interbyte_ticks rx) None seg"
      "list_all2 (\<lambda>seg w. map fst (timed_bytes seg) = w \<and> prompt (rx_interbyte_ticks rx) None seg) segs' ws"
    by (auto simp: list_all2_Cons2)
  obtain rx1 where r: "rx_run seg rx = ([f], rx1)" "rx_ready rx1" "rx_cap rx1 = rx_cap rx"
    "rx_interbyte_ticks rx1 = rx_interbyte_ticks rx"
    using run_frame [OF Cons.hyps(1) m(1) Cons.prems(2) _ _ m(2)] Cons.prems(3) by auto
  then show ?case
    using Cons.IH [of rx1 segs'] m(3) Cons.prems(3) by (auto simp: segs rx_run_append)
qed simp

text \<open>
  C32.  The serial link delivers and recovers.  Encoded frames arrive one after the other, each not
  empty and within the receiver's capacity, spread in any way over the polls of the link.  Whatever
  state the receiver is in, left there by noise or lost bytes, and however late the polls are
  during the first frame, at most one thing is handed on during that frame; after it, all the
  remaining frames are handed on, in order and unchanged, provided that inside each of them no
  poll comes later after the last byte than the limit for silence (between frames there may be any
  silence).  A receiver that is waiting for a frame also hands on the first frame if it is
  polled in time.
\<close>

theorem slip_delivers_and_recovers:
  assumes enc: "list_all2 (\<lambda>f w. a20_clx_slip_encode f c = Inr w) (f # fs) (w # ws)"
    and polls: "concat (map poll_events ps) = concat (seg # segs)"
    and first: "map fst (timed_bytes seg) = w"
    and rest: "list_all2 (\<lambda>seg w. map fst (timed_bytes seg) = w \<and> prompt (rx_interbyte_ticks rx) None seg) segs ws"
    and fits: "\<forall>g \<in> set (f # fs). g \<noteq> [] \<and> length g \<le> rx_cap rx"
  shows "\<exists>d. fst (uart_polls ps rx) = d @ fs \<and> length d \<le> 1 \<and>
    (rx_ready rx \<and> prompt (rx_interbyte_ticks rx) None seg \<longrightarrow> d = [f])"
proof -
  have e: "a20_clx_slip_encode f c = Inr w" "list_all2 (\<lambda>f w. a20_clx_slip_encode f c = Inr w) fs ws"
    using enc by auto
  obtain d rx1 where d: "rx_run seg rx = (d, rx1)" "length d \<le> 1" "rx_ready rx1" "rx_cap rx1 = rx_cap rx"
    "rx_interbyte_ticks rx1 = rx_interbyte_ticks rx"
    using run_frame_any [OF e(1) first] by blast
  have "rx_ready rx \<and> prompt (rx_interbyte_ticks rx) None seg \<longrightarrow> d = [f]"
    using run_frame [OF e(1) first, of rx] fits d(1) by auto
  moreover obtain rx2 where "rx_run (concat segs) rx1 = (fs, rx2)"
    using run_frames [OF e(2), of rx1 segs] rest fits d(3-5) by auto
  ultimately show ?thesis using d polls by (simp add: uart_polls_run rx_run_append)
qed

text \<open>The witness: a receiver in the middle of an escape, two frames over four polls with a long
  silence between the frames and a short one inside the second.\<close>

definition demo_rx :: a20_clx_slip_rx where
  "demo_rx = (a20_clx_slip_rx_init 256 50)\<lparr>rx_in_frame := True, rx_in_escape := True, rx_buf := [9]\<rparr>"

definition demo_polls :: "(u64 \<times> u8 list) list" where
  "demo_polls = [(10, [0xC0, 0xDB, 0xDC, 7, 0xC0]), (900, []), (1000, [0xC0, 0xDB]), (1040, []), (1041, [0xDD, 0xC0])]"

theorem slip_delivers_and_recovers_witness:
  "fst (uart_polls demo_polls demo_rx) = [[9, 0xC0, 7], [0xDB]] \<and>
   (\<exists>d. fst (uart_polls demo_polls demo_rx) = d @ [[0xDB]] \<and> length d \<le> 1)"
proof -
  define seg1 :: "(u8 option \<times> u64) list" where
    "seg1 = map (\<lambda>b. (Some b, 10)) [0xC0, 0xDB, 0xDC, 7, 0xC0] @ [(None, 10), (None, 900)]"
  define seg2 :: "(u8 option \<times> u64) list" where
    "seg2 = [(Some 0xC0, 1000), (Some 0xDB, 1000), (None, 1000), (None, 1040), (Some 0xDD, 1041), (Some 0xC0, 1041), (None, 1041)]"
  have "list_all2 (\<lambda>f w. a20_clx_slip_encode f 64 = Inr w) [[0xC0, 7], [0xDB]]
      [[0xC0, 0xDB, 0xDC, 7, 0xC0], [0xC0, 0xDB, 0xDD, 0xC0]]"
    by (simp add: a20_clx_slip_encode_def slip_escape_def clx_slip)
  moreover have "concat (map poll_events demo_polls) = concat [seg1, seg2]"
    by (simp add: demo_polls_def poll_events_def seg1_def seg2_def)
  moreover have "map fst (timed_bytes seg1) = [0xC0, 0xDB, 0xDC, 7, 0xC0]" by (simp add: seg1_def)
  moreover have "list_all2 (\<lambda>seg w. map fst (timed_bytes seg) = w \<and> prompt (rx_interbyte_ticks demo_rx) None seg)
      [seg2] [[0xC0, 0xDB, 0xDD, 0xC0]]"
    by (simp add: seg2_def demo_rx_def a20_clx_slip_rx_init_def)
  ultimately have "\<exists>d. fst (uart_polls demo_polls demo_rx) = d @ [[0xDB]] \<and> length d \<le> 1 \<and>
      (rx_ready demo_rx \<and> prompt (rx_interbyte_ticks demo_rx) None seg1 \<longrightarrow> d = [[0xC0, 7]])"
    by (rule slip_delivers_and_recovers) (simp add: demo_rx_def a20_clx_slip_rx_init_def)
  then show ?thesis
    by (simp add: demo_polls_def demo_rx_def a20_clx_slip_rx_init_def rx_defs clx_slip uart_poll_rx_def
        a20_clx_slip_rx_timeout_def)
qed

end
