(* ===== verification/A20_Base.thy ===== *)
theory A20_Base
  imports Bit_Scan
begin

text \<open>
  Vocabulary of the native object model (kernel/include/ipc/ipc.h,
  kernel/include/ipc/handle_table.h): status codes, object types, capability rights and
  temporal flags.  An object is named by its address, zero for the null pointer.
\<close>

unbundle bit_operations_syntax

text \<open>A call that returns a negative status returns \<open>Inl\<close> of it.\<close>

datatype a20_err =
    A20_ERR_PERM | A20_ERR_NO_ENTRY | A20_ERR_INTERRUPTED | A20_ERR_IO | A20_ERR_BAD_HANDLE
  | A20_ERR_NO_MEMORY | A20_ERR_ACCESS | A20_ERR_FAULT | A20_ERR_BUSY | A20_ERR_EXISTS
  | A20_ERR_NOT_SUPPORTED | A20_ERR_INVALID_ARGUMENT | A20_ERR_NO_SPACE | A20_ERR_NOT_DIR | A20_ERR_IS_DIR
  | A20_ERR_NOT_EMPTY | A20_ERR_NAME_TOO_LONG | A20_ERR_WOULD_BLOCK | A20_ERR_TIMED_OUT | A20_ERR_CANCELED
  | A20_ERR_PROTOCOL | A20_ERR_RANGE | A20_ERR_TYPE_MISMATCH | A20_ERR_NOT_FOUND | A20_ERR_EXPIRED
  | A20_ERR_NODE_UNREACHABLE | A20_ERR_CLUSTER_TIMEOUT | A20_ERR_REMOTE_CLOSED | A20_ERR_CLUSTER_UNSUPPORTED

type_synonym obj = nat

definition A20_OBJ_INVALID :: u16 where "A20_OBJ_INVALID = 0"
definition A20_OBJ_TASK :: u16 where "A20_OBJ_TASK = 1"
definition A20_OBJ_THREAD :: u16 where "A20_OBJ_THREAD = 2"
definition A20_OBJ_FILE :: u16 where "A20_OBJ_FILE = 3"
definition A20_OBJ_DIRECTORY :: u16 where "A20_OBJ_DIRECTORY = 4"
definition A20_OBJ_SOCKET :: u16 where "A20_OBJ_SOCKET = 5"
definition A20_OBJ_PIPE_ENDPOINT :: u16 where "A20_OBJ_PIPE_ENDPOINT = 6"
definition A20_OBJ_CHANNEL_ENDPOINT :: u16 where "A20_OBJ_CHANNEL_ENDPOINT = 7"
definition A20_OBJ_EVENT_QUEUE :: u16 where "A20_OBJ_EVENT_QUEUE = 8"
definition A20_OBJ_TIMER :: u16 where "A20_OBJ_TIMER = 9"
definition A20_OBJ_MEMORY :: u16 where "A20_OBJ_MEMORY = 10"
definition A20_OBJ_DEVICE :: u16 where "A20_OBJ_DEVICE = 11"
definition A20_OBJ_NAMESPACE :: u16 where "A20_OBJ_NAMESPACE = 12"
definition A20_OBJ_DEBUG :: u16 where "A20_OBJ_DEBUG = 13"
definition A20_OBJ_EXT_PROG :: u16 where "A20_OBJ_EXT_PROG = 14"
definition A20_OBJ_PAGER :: u16 where "A20_OBJ_PAGER = 15"
definition A20_OBJ_MONITOR :: u16 where "A20_OBJ_MONITOR = 16"
definition A20_OBJ_VMAR :: u16 where "A20_OBJ_VMAR = 17"

lemmas a20_obj_defs =
  A20_OBJ_INVALID_def A20_OBJ_TASK_def A20_OBJ_THREAD_def A20_OBJ_FILE_def A20_OBJ_DIRECTORY_def A20_OBJ_SOCKET_def A20_OBJ_PIPE_ENDPOINT_def A20_OBJ_CHANNEL_ENDPOINT_def A20_OBJ_EVENT_QUEUE_def A20_OBJ_TIMER_def A20_OBJ_MEMORY_def A20_OBJ_DEVICE_def A20_OBJ_NAMESPACE_def A20_OBJ_DEBUG_def A20_OBJ_EXT_PROG_def A20_OBJ_PAGER_def A20_OBJ_MONITOR_def A20_OBJ_VMAR_def

definition A20_RIGHT_READ :: u64 where "A20_RIGHT_READ = push_bit 0 1"
definition A20_RIGHT_WRITE :: u64 where "A20_RIGHT_WRITE = push_bit 1 1"
definition A20_RIGHT_EXEC :: u64 where "A20_RIGHT_EXEC = push_bit 2 1"
definition A20_RIGHT_STAT :: u64 where "A20_RIGHT_STAT = push_bit 3 1"
definition A20_RIGHT_SEEK :: u64 where "A20_RIGHT_SEEK = push_bit 4 1"
definition A20_RIGHT_DUP :: u64 where "A20_RIGHT_DUP = push_bit 5 1"
definition A20_RIGHT_TRANSFER :: u64 where "A20_RIGHT_TRANSFER = push_bit 6 1"
definition A20_RIGHT_MAP :: u64 where "A20_RIGHT_MAP = push_bit 7 1"
definition A20_RIGHT_WAIT :: u64 where "A20_RIGHT_WAIT = push_bit 8 1"
definition A20_RIGHT_CONNECT :: u64 where "A20_RIGHT_CONNECT = push_bit 9 1"
definition A20_RIGHT_ACCEPT :: u64 where "A20_RIGHT_ACCEPT = push_bit 10 1"
definition A20_RIGHT_CONTROL :: u64 where "A20_RIGHT_CONTROL = push_bit 11 1"
definition A20_RIGHT_ADMIN :: u64 where "A20_RIGHT_ADMIN = push_bit 12 1"
definition A20_RIGHT_SIGNAL :: u64 where "A20_RIGHT_SIGNAL = push_bit 13 1"

lemmas a20_right_defs =
  A20_RIGHT_READ_def A20_RIGHT_WRITE_def A20_RIGHT_EXEC_def A20_RIGHT_STAT_def A20_RIGHT_SEEK_def A20_RIGHT_DUP_def A20_RIGHT_TRANSFER_def A20_RIGHT_MAP_def A20_RIGHT_WAIT_def A20_RIGHT_CONNECT_def A20_RIGHT_ACCEPT_def A20_RIGHT_CONTROL_def A20_RIGHT_ADMIN_def A20_RIGHT_SIGNAL_def

definition A20_TEMPORAL_EXPIRY_ABSOLUTE :: u32 where "A20_TEMPORAL_EXPIRY_ABSOLUTE = 1"
definition A20_TEMPORAL_OP_COUNT :: u32 where "A20_TEMPORAL_OP_COUNT = 2"
definition A20_TEMPORAL_AUTO_CLOSE :: u32 where "A20_TEMPORAL_AUTO_CLOSE = 4"

definition A20_TEMPORAL_KNOWN_FLAGS :: u32 where
  "A20_TEMPORAL_KNOWN_FLAGS = A20_TEMPORAL_EXPIRY_ABSOLUTE OR A20_TEMPORAL_OP_COUNT OR A20_TEMPORAL_AUTO_CLOSE"

lemmas a20_temporal_defs =
  A20_TEMPORAL_EXPIRY_ABSOLUTE_def A20_TEMPORAL_OP_COUNT_def A20_TEMPORAL_AUTO_CLOSE_def
  A20_TEMPORAL_KNOWN_FLAGS_def

text \<open>The rights each type of object can carry.\<close>

definition a20_type_valid_rights :: "u16 \<Rightarrow> u64" where
  "a20_type_valid_rights type =
     (if type > A20_OBJ_VMAR then 0
      else if type = A20_OBJ_TASK then
        A20_RIGHT_WAIT OR A20_RIGHT_SIGNAL OR A20_RIGHT_STAT OR A20_RIGHT_DUP OR
        A20_RIGHT_TRANSFER OR A20_RIGHT_CONTROL OR A20_RIGHT_ADMIN OR A20_RIGHT_READ OR
        A20_RIGHT_WRITE
      else if type = A20_OBJ_THREAD then
        A20_RIGHT_WAIT OR A20_RIGHT_SIGNAL OR A20_RIGHT_STAT OR A20_RIGHT_DUP OR
        A20_RIGHT_TRANSFER OR A20_RIGHT_CONTROL OR A20_RIGHT_ADMIN OR A20_RIGHT_READ OR
        A20_RIGHT_WRITE
      else if type = A20_OBJ_FILE then
        A20_RIGHT_READ OR A20_RIGHT_WRITE OR A20_RIGHT_STAT OR A20_RIGHT_SEEK OR
        A20_RIGHT_DUP OR A20_RIGHT_TRANSFER OR A20_RIGHT_EXEC OR A20_RIGHT_MAP OR
        A20_RIGHT_CONTROL
      else if type = A20_OBJ_DIRECTORY then
        A20_RIGHT_READ OR A20_RIGHT_STAT OR A20_RIGHT_DUP OR A20_RIGHT_TRANSFER OR
        A20_RIGHT_CONTROL
      else if type = A20_OBJ_SOCKET then
        A20_RIGHT_READ OR A20_RIGHT_WRITE OR A20_RIGHT_STAT OR A20_RIGHT_DUP OR
        A20_RIGHT_TRANSFER OR A20_RIGHT_CONNECT OR A20_RIGHT_ACCEPT OR A20_RIGHT_CONTROL
      else if type = A20_OBJ_PIPE_ENDPOINT then
        A20_RIGHT_READ OR A20_RIGHT_WRITE OR A20_RIGHT_STAT OR A20_RIGHT_DUP OR
        A20_RIGHT_TRANSFER
      else if type = A20_OBJ_CHANNEL_ENDPOINT then
        A20_RIGHT_READ OR A20_RIGHT_WRITE OR A20_RIGHT_STAT OR A20_RIGHT_DUP OR
        A20_RIGHT_TRANSFER
      else if type = A20_OBJ_EVENT_QUEUE then
        A20_RIGHT_READ OR A20_RIGHT_STAT OR A20_RIGHT_DUP OR A20_RIGHT_TRANSFER OR
        A20_RIGHT_CONTROL
      else if type = A20_OBJ_TIMER then
        A20_RIGHT_STAT OR A20_RIGHT_DUP OR A20_RIGHT_TRANSFER OR A20_RIGHT_CONTROL
      else if type = A20_OBJ_MEMORY then
        A20_RIGHT_READ OR A20_RIGHT_WRITE OR A20_RIGHT_EXEC OR A20_RIGHT_MAP OR
        A20_RIGHT_STAT OR A20_RIGHT_DUP OR A20_RIGHT_TRANSFER OR A20_RIGHT_CONTROL
      else if type = A20_OBJ_DEVICE then
        A20_RIGHT_READ OR A20_RIGHT_WRITE OR A20_RIGHT_MAP OR A20_RIGHT_STAT OR
        A20_RIGHT_SEEK OR A20_RIGHT_DUP OR A20_RIGHT_TRANSFER OR A20_RIGHT_CONTROL
      else if type = A20_OBJ_NAMESPACE then
        A20_RIGHT_STAT OR A20_RIGHT_DUP OR A20_RIGHT_TRANSFER OR A20_RIGHT_CONTROL OR
        A20_RIGHT_ADMIN
      else if type = A20_OBJ_DEBUG then
        A20_RIGHT_READ OR A20_RIGHT_WRITE OR A20_RIGHT_WAIT OR A20_RIGHT_SIGNAL OR
        A20_RIGHT_STAT OR A20_RIGHT_DUP OR A20_RIGHT_TRANSFER OR A20_RIGHT_CONTROL OR
        A20_RIGHT_ADMIN
      else if type = A20_OBJ_EXT_PROG then
        A20_RIGHT_READ OR A20_RIGHT_DUP OR A20_RIGHT_TRANSFER OR A20_RIGHT_CONTROL
      else if type = A20_OBJ_PAGER then
        A20_RIGHT_READ OR A20_RIGHT_WRITE OR A20_RIGHT_STAT OR A20_RIGHT_DUP OR
        A20_RIGHT_TRANSFER OR A20_RIGHT_CONTROL
      else if type = A20_OBJ_VMAR then
        A20_RIGHT_MAP OR A20_RIGHT_STAT OR A20_RIGHT_DUP OR A20_RIGHT_TRANSFER OR
        A20_RIGHT_CONTROL
      else if type = A20_OBJ_MONITOR then
        A20_RIGHT_READ OR A20_RIGHT_STAT OR A20_RIGHT_DUP OR A20_RIGHT_TRANSFER OR
        A20_RIGHT_CONTROL
      else 0)"

end
