(* ===== verification/Handle_Table.thy ===== *)
theory Handle_Table
  imports A20_Base
begin

text \<open>
  The handle table of the native interface (kernel/abi/native/handle_table.c,
  kernel/include/ipc/handle_table.h): a growable array of capability entries with a bitmap of
  the slots in use, lookups that check type, rights and temporal limits, reservation of slots
  for atomic delivery, and the sweeper of expired entries.  A table operation runs under the
  table lock and is one step; the references it takes and drops on objects, and the changes of
  the global statistics, are returned as events in their order.  The outcome of a memory
  allocation and the current tick are arguments.
\<close>

unbundle bit_operations_syntax

subsection \<open>State\<close>

datatype handle_state = A20_HS_FREE | A20_HS_ACTIVE | A20_HS_EXPIRED | A20_HS_CLOSING

record handle_entry =
  he_object :: obj
  he_type :: u16
  he_rights :: u64
  he_expiry :: u64
  he_ops :: u32
  he_flags :: u32
  he_label :: u8
  he_state :: handle_state

definition entry_zero :: handle_entry where
  "entry_zero = \<lparr>he_object = 0, he_type = A20_OBJ_INVALID, he_rights = 0, he_expiry = 0, he_ops = 0,
     he_flags = 0, he_label = 0, he_state = A20_HS_FREE\<rparr>"

record ht =
  ht_entries :: "handle_entry list"
  ht_count :: nat
  ht_hint :: nat
  ht_bitmap :: "u64 list"
  ht_label :: u8
  ht_refcount :: int
  ht_sig_pending :: u64
  ht_sig_blocked :: u64
  ht_max :: nat

text \<open>The array and its length are one list, as are the bitmap and \<^verbatim>\<open>bitmap_size\<close>.\<close>

abbreviation ht_capacity :: "ht \<Rightarrow> nat" where
  "ht_capacity t \<equiv> length (ht_entries t)"

datatype ht_event =
    ObjRef obj u16
  | ObjRelease obj u16
  | StatHandles int
  | NoteDeadline u64

definition A20_HT_INITIAL_CAP :: nat where "A20_HT_INITIAL_CAP = 256"
definition A20_HT_MAX_CAP :: nat where "A20_HT_MAX_CAP = 65536"
definition A20_HT_DEFAULT_QUOTA :: nat where "A20_HT_DEFAULT_QUOTA = 4096"
definition A20_HT_GROWTH_FACTOR :: nat where "A20_HT_GROWTH_FACTOR = 2"
definition A20_SWEEP_BATCH :: nat where "A20_SWEEP_BATCH = 16"

lemmas ht_consts = A20_HT_INITIAL_CAP_def A20_HT_MAX_CAP_def A20_HT_DEFAULT_QUOTA_def
  A20_HT_GROWTH_FACTOR_def

subsection \<open>Helpers\<close>

definition a20_ctz64 :: "u64 \<Rightarrow> nat" where
  "a20_ctz64 v = (if v = 0 then 64
     else fst (ctz_step 1 (ctz_step 2 (ctz_step 4 (ctz_step 8 (ctz_step 16 (ctz_step 32 (0, v))))))))"

definition a20_effective_rights :: "u64 \<Rightarrow> handle_entry \<Rightarrow> u64" where
  "a20_effective_rights now e =
     (if he_expiry e > 0 \<and> now \<ge> he_expiry e then 0
      else if he_flags e AND A20_TEMPORAL_OP_COUNT \<noteq> 0 \<and> he_ops e = 0 then 0
      else he_rights e)"

definition a20_blp_read_ok :: "u8 \<Rightarrow> u8 \<Rightarrow> bool" where
  "a20_blp_read_ok proc_label obj_label \<longleftrightarrow> proc_label \<ge> obj_label"

definition a20_blp_write_ok :: "u8 \<Rightarrow> u8 \<Rightarrow> bool" where
  "a20_blp_write_ok proc_label obj_label \<longleftrightarrow> proc_label \<le> obj_label"

definition a20_ht_set_label :: "u8 \<Rightarrow> ht \<Rightarrow> ht" where
  "a20_ht_set_label label t = (if label \<le> 2 then t\<lparr>ht_label := label\<rparr> else t)"

text \<open>The scan of the bitmap from a word on.\<close>

primrec alloc_scan :: "nat \<Rightarrow> u64 list \<Rightarrow> nat \<Rightarrow> nat option" where
  "alloc_scan cap [] i = None"
| "alloc_scan cap (w # ws) i =
     (if w \<noteq> - 1 \<and> i * 64 + a20_ctz64 (NOT w) < cap then Some (i * 64 + a20_ctz64 (NOT w))
      else alloc_scan cap ws (i + 1))"

definition bm_set :: "u64 list \<Rightarrow> nat \<Rightarrow> u64 list" where
  "bm_set bm slot = bm[slot div 64 := bm ! (slot div 64) OR push_bit (slot mod 64) 1]"

definition bm_clear :: "u64 list \<Rightarrow> nat \<Rightarrow> u64 list" where
  "bm_clear bm slot = bm[slot div 64 := bm ! (slot div 64) AND NOT (push_bit (slot mod 64) 1)]"

definition ht_alloc_slot :: "ht \<Rightarrow> nat option \<times> ht" where
  "ht_alloc_slot t =
     (case alloc_scan (ht_capacity t) (drop (ht_hint t div 64) (ht_bitmap t)) (ht_hint t div 64) of
        None \<Rightarrow> (None, t)
      | Some slot \<Rightarrow> (Some slot, t\<lparr>ht_bitmap := bm_set (ht_bitmap t) slot, ht_hint := slot + 1\<rparr>))"

definition ht_free_slot :: "nat \<Rightarrow> ht \<Rightarrow> ht" where
  "ht_free_slot slot t = t\<lparr>ht_bitmap := bm_clear (ht_bitmap t) slot,
     ht_hint := (if slot < ht_hint t then slot else ht_hint t)\<rparr>"

definition ht_grow :: "bool \<Rightarrow> ht \<Rightarrow> a20_err + ht" where
  "ht_grow mem t =
     (if ht_capacity t \<ge> A20_HT_MAX_CAP then Inl A20_ERR_NO_SPACE
      else
        let doubled = ht_capacity t * A20_HT_GROWTH_FACTOR;
            new_cap = (if doubled > A20_HT_MAX_CAP then A20_HT_MAX_CAP else doubled);
            new_bm = (new_cap + 63) div 64
        in if \<not> mem then Inl A20_ERR_NO_MEMORY
           else Inr (t\<lparr>ht_entries := ht_entries t @ replicate (new_cap - ht_capacity t) entry_zero,
                       ht_bitmap := ht_bitmap t @ replicate (new_bm - length (ht_bitmap t)) 0\<rparr>))"

definition valid_rights :: "u16 \<Rightarrow> u64 \<Rightarrow> u64" where
  "valid_rights type rights =
     (if rights AND NOT (a20_type_valid_rights type) \<noteq> 0 then rights AND a20_type_valid_rights type else rights)"

subsection \<open>Life of a table\<close>

text \<open>The fields for signals are not set: they hold what was in the allocated memory, \<open>junk\<close>.\<close>

definition a20_ht_create :: "bool \<Rightarrow> u64 \<times> u64 \<Rightarrow> ht option" where
  "a20_ht_create mem junk =
     (if \<not> mem then None
      else Some \<lparr>ht_entries = replicate A20_HT_INITIAL_CAP entry_zero,
             ht_count = 0, ht_hint = 0, ht_bitmap = replicate ((A20_HT_INITIAL_CAP + 63) div 64) 0,
             ht_label = 0, ht_refcount = 1, ht_sig_pending = fst junk, ht_sig_blocked = snd junk,
             ht_max = A20_HT_DEFAULT_QUOTA\<rparr>)"

definition a20_ht_destroy :: "ht \<Rightarrow> ht_event list" where
  "a20_ht_destroy t = concat (map (\<lambda>e.
     if he_object e \<noteq> 0 \<and> he_state e \<noteq> A20_HS_FREE
     then [StatHandles (- 1), ObjRelease (he_object e) (he_type e)] else []) (ht_entries t))"

definition a20_ht_get_ref :: "ht \<Rightarrow> ht" where
  "a20_ht_get_ref t = t\<lparr>ht_refcount := ht_refcount t + 1\<rparr>"

definition a20_ht_put_ref :: "ht \<Rightarrow> ht option \<times> ht_event list" where
  "a20_ht_put_ref t =
     (if ht_refcount t - 1 = 0 then (None, a20_ht_destroy t)
      else (Some (t\<lparr>ht_refcount := ht_refcount t - 1\<rparr>), []))"

subsection \<open>Installing\<close>

definition ht_put :: "nat \<Rightarrow> handle_entry \<Rightarrow> ht \<Rightarrow> ht" where
  "ht_put slot e t = t\<lparr>ht_entries := (ht_entries t)[slot := e]\<rparr>"

text \<open>Finding a slot, growing the table once when there is none.\<close>

definition ht_take_slot :: "bool \<Rightarrow> ht \<Rightarrow> nat option \<times> ht" where
  "ht_take_slot mem t =
     (if ht_count t < ht_max t then
        (case ht_alloc_slot t of
           (Some slot, t1) \<Rightarrow> (Some slot, t1)
         | (None, t1) \<Rightarrow> (case ht_grow mem t1 of Inl _ \<Rightarrow> (None, t1) | Inr t2 \<Rightarrow> ht_alloc_slot t2))
      else (None, t))"

definition a20_handle_install_temporal ::
  "bool \<Rightarrow> obj \<Rightarrow> u16 \<Rightarrow> u64 \<Rightarrow> u64 \<Rightarrow> u32 \<Rightarrow> u32 \<Rightarrow> u8 \<Rightarrow> ht \<Rightarrow> (a20_err + nat) \<times> ht \<times> ht_event list" where
  "a20_handle_install_temporal mem object type rights expiry ops flags label t =
     (case ht_take_slot mem t of
        (None, t1) \<Rightarrow> (Inl A20_ERR_NO_SPACE, t1, [])
      | (Some slot, t1) \<Rightarrow>
          (Inr slot,
           (ht_put slot \<lparr>he_object = object, he_type = type, he_rights = valid_rights type rights,
              he_expiry = expiry, he_ops = ops, he_flags = flags, he_label = label,
              he_state = A20_HS_ACTIVE\<rparr> t1)\<lparr>ht_count := ht_count t1 + 1\<rparr>,
           [StatHandles 1]))"

definition a20_handle_install :: "bool \<Rightarrow> obj \<Rightarrow> u16 \<Rightarrow> u64 \<Rightarrow> ht \<Rightarrow> (a20_err + nat) \<times> ht \<times> ht_event list" where
  "a20_handle_install mem object type rights t =
     (case ht_take_slot mem t of
        (None, t1) \<Rightarrow> (Inl A20_ERR_NO_SPACE, t1, [])
      | (Some slot, t1) \<Rightarrow>
          (Inr slot,
           (ht_put slot \<lparr>he_object = object, he_type = type, he_rights = valid_rights type rights,
              he_expiry = 0, he_ops = 0, he_flags = 0, he_label = 0,
              he_state = A20_HS_ACTIVE\<rparr> t1)\<lparr>ht_count := ht_count t1 + 1\<rparr>,
           [StatHandles 1]))"

text \<open>Growing until a slot exists: one allocation outcome for each round, a missing one is a
  failure.\<close>

fun grow_until :: "nat \<Rightarrow> bool list \<Rightarrow> ht \<Rightarrow> (a20_err + unit) \<times> ht" where
  "grow_until slot mems t =
     (if slot < ht_capacity t then (Inr (), t)
      else case mems of
        [] \<Rightarrow> (Inl A20_ERR_NO_SPACE, t)
      | m # ms \<Rightarrow> (case ht_grow m t of
            Inl _ \<Rightarrow> (Inl A20_ERR_NO_SPACE, t)
          | Inr t1 \<Rightarrow> grow_until slot ms t1))"

definition a20_handle_install_at_temporal ::
  "bool list \<Rightarrow> nat \<Rightarrow> obj \<Rightarrow> u16 \<Rightarrow> u64 \<Rightarrow> u64 \<Rightarrow> u32 \<Rightarrow> u32 \<Rightarrow> u8 \<Rightarrow> ht \<Rightarrow> (a20_err + nat) \<times> ht \<times> ht_event list" where
  "a20_handle_install_at_temporal mems slot object type rights expiry ops flags label t =
     (if slot \<ge> A20_HT_MAX_CAP then (Inl A20_ERR_INVALID_ARGUMENT, t, [])
      else case grow_until slot mems t of
        (Inl e, t1) \<Rightarrow> (Inl e, t1, [])
      | (Inr _, t1) \<Rightarrow>
          if has_bit (ht_bitmap t1 ! (slot div 64)) (slot mod 64) then (Inl A20_ERR_EXISTS, t1, [])
          else if ht_count t1 \<ge> ht_max t1 then (Inl A20_ERR_NO_SPACE, t1, [])
          else
            (Inr slot,
             (ht_put slot \<lparr>he_object = object, he_type = type, he_rights = valid_rights type rights,
                he_expiry = expiry, he_ops = ops, he_flags = flags, he_label = label,
                he_state = A20_HS_ACTIVE\<rparr> t1)
               \<lparr>ht_bitmap := bm_set (ht_bitmap t1) slot,
                ht_hint := (if ht_hint t1 \<le> slot then slot + 1 else ht_hint t1),
                ht_count := ht_count t1 + 1\<rparr>,
             [StatHandles 1]))"

subsection \<open>Looking up and removing\<close>

definition a20_handle_lookup_ref_mode ::
  "u64 \<Rightarrow> nat \<Rightarrow> u16 \<Rightarrow> u64 \<Rightarrow> bool \<Rightarrow> ht \<Rightarrow> (a20_err + handle_entry) \<times> ht \<times> ht_event list" where
  "a20_handle_lookup_ref_mode now h expected_type required take_ref t =
     (if h \<ge> ht_capacity t then (Inl A20_ERR_BAD_HANDLE, t, [])
      else
        let e = ht_entries t ! h; effective = a20_effective_rights now e
        in if he_object e = 0 \<or> he_state e = A20_HS_FREE then (Inl A20_ERR_BAD_HANDLE, t, [])
           else if he_state e = A20_HS_CLOSING then (Inl A20_ERR_BAD_HANDLE, t, [])
           else if he_state e = A20_HS_EXPIRED then (Inl A20_ERR_EXPIRED, t, [])
           else if expected_type \<noteq> A20_OBJ_INVALID \<and> he_type e \<noteq> expected_type
           then (Inl A20_ERR_BAD_HANDLE, t, [])
           else if effective AND required \<noteq> required then (Inl A20_ERR_ACCESS, t, [])
           else
             let e1 = (if he_flags e AND A20_TEMPORAL_OP_COUNT \<noteq> 0 \<and> he_ops e > 0
                       then e\<lparr>he_ops := he_ops e - 1\<rparr> else e)
             in (Inr (e1\<lparr>he_rights := effective\<rparr>), ht_put h e1 t,
                 if take_ref then [ObjRef (he_object e) (he_type e)] else []))"

definition a20_handle_lookup_internal ::
  "u64 \<Rightarrow> nat \<Rightarrow> u16 \<Rightarrow> u64 \<Rightarrow> ht \<Rightarrow> (a20_err + handle_entry) \<times> ht \<times> ht_event list" where
  "a20_handle_lookup_internal now h type required t = a20_handle_lookup_ref_mode now h type required False t"

definition a20_handle_lookup_ref_internal ::
  "u64 \<Rightarrow> nat \<Rightarrow> u16 \<Rightarrow> u64 \<Rightarrow> ht \<Rightarrow> (a20_err + handle_entry) \<times> ht \<times> ht_event list" where
  "a20_handle_lookup_ref_internal now h type required t = a20_handle_lookup_ref_mode now h type required True t"

definition a20_handle_lookup_task_like ::
  "u64 \<Rightarrow> nat \<Rightarrow> u64 \<Rightarrow> ht \<Rightarrow> (a20_err + handle_entry) \<times> ht \<times> ht_event list" where
  "a20_handle_lookup_task_like now h required t =
     (case a20_handle_lookup_internal now h A20_OBJ_TASK required t of
        (Inl _, t1, _) \<Rightarrow> a20_handle_lookup_internal now h A20_OBJ_THREAD required t1
      | r \<Rightarrow> r)"

definition a20_handle_lookup_ref_task_like ::
  "u64 \<Rightarrow> nat \<Rightarrow> u64 \<Rightarrow> ht \<Rightarrow> (a20_err + handle_entry) \<times> ht \<times> ht_event list" where
  "a20_handle_lookup_ref_task_like now h required t =
     (case a20_handle_lookup_ref_internal now h A20_OBJ_TASK required t of
        (Inl _, t1, _) \<Rightarrow> a20_handle_lookup_ref_internal now h A20_OBJ_THREAD required t1
      | r \<Rightarrow> r)"

text \<open>Detaching an entry, shared by removal and by the sweeper.\<close>

definition ht_detach :: "nat \<Rightarrow> ht \<Rightarrow> ht" where
  "ht_detach h t =
     (let t1 = ht_free_slot h (ht_put h ((ht_entries t ! h)\<lparr>he_object := 0, he_type := A20_OBJ_INVALID,
                 he_rights := 0, he_state := A20_HS_FREE\<rparr>) t)
      in t1\<lparr>ht_count := ht_count t1 - 1\<rparr>)"

definition a20_handle_remove :: "nat \<Rightarrow> ht \<Rightarrow> (a20_err + unit) \<times> ht \<times> ht_event list" where
  "a20_handle_remove h t =
     (if h < ht_capacity t \<and> he_object (ht_entries t ! h) \<noteq> 0 \<and>
         he_state (ht_entries t ! h) \<noteq> A20_HS_FREE \<and> he_state (ht_entries t ! h) \<noteq> A20_HS_CLOSING
      then (Inr (), ht_detach h t,
            [StatHandles (- 1), ObjRelease (he_object (ht_entries t ! h)) (he_type (ht_entries t ! h))])
      else (Inl A20_ERR_BAD_HANDLE, t, []))"

subsection \<open>Reserving for delivery\<close>

fun reserve_loop :: "nat \<Rightarrow> ht \<Rightarrow> nat list \<times> ht" where
  "reserve_loop 0 t = ([], t)"
| "reserve_loop (Suc n) t =
     (case ht_alloc_slot t of
        (None, t1) \<Rightarrow> ([], t1)
      | (Some slot, t1) \<Rightarrow>
          (case reserve_loop n
             ((ht_put slot ((ht_entries t1 ! slot)\<lparr>he_state := A20_HS_CLOSING\<rparr>) t1)\<lparr>ht_count := ht_count t1 + 1\<rparr>) of
             (hs, t2) \<Rightarrow> (slot # hs, t2)))"

definition abort_one :: "nat \<Rightarrow> ht \<Rightarrow> ht" where
  "abort_one h t =
     (if h \<ge> ht_capacity t then t
      else if he_state (ht_entries t ! h) \<noteq> A20_HS_CLOSING \<or> he_object (ht_entries t ! h) \<noteq> 0 then t
      else
        let t1 = ht_free_slot h (ht_put h ((ht_entries t ! h)\<lparr>he_state := A20_HS_FREE\<rparr>) t)
        in t1\<lparr>ht_count := ht_count t1 - 1\<rparr>)"

definition a20_handle_abort_reserved :: "nat list \<Rightarrow> ht \<Rightarrow> ht" where
  "a20_handle_abort_reserved handles t = fold abort_one handles t"

definition a20_handle_reserve_many :: "bool \<Rightarrow> nat \<Rightarrow> ht \<Rightarrow> (a20_err + nat list) \<times> ht" where
  "a20_handle_reserve_many mem n t =
     (if n = 0 then (Inr [], t)
      else
        let t1 = (if ht_capacity t - ht_count t < n
                  then (case ht_grow mem t of Inl _ \<Rightarrow> t | Inr t' \<Rightarrow> t') else t)
        in if ht_capacity t1 - ht_count t1 < n then (Inl A20_ERR_NO_SPACE, t1)
           else (case reserve_loop n t1 of
               (hs, t2) \<Rightarrow> if length hs < n then (Inl A20_ERR_NO_SPACE, a20_handle_abort_reserved hs t2)
                 else (Inr hs, t2)))"

definition a20_handle_commit_reserved_temporal ::
  "nat \<Rightarrow> obj \<Rightarrow> u16 \<Rightarrow> u64 \<Rightarrow> u64 \<Rightarrow> u32 \<Rightarrow> u32 \<Rightarrow> u8 \<Rightarrow> ht \<Rightarrow> (a20_err + unit) \<times> ht" where
  "a20_handle_commit_reserved_temporal h object type rights expiry ops flags label t =
     (if h \<ge> ht_capacity t \<or> he_state (ht_entries t ! h) \<noteq> A20_HS_CLOSING \<or> he_object (ht_entries t ! h) \<noteq> 0
      then (Inl A20_ERR_BAD_HANDLE, t)
      else (Inr (), ht_put h \<lparr>he_object = object, he_type = type, he_rights = valid_rights type rights,
              he_expiry = expiry, he_ops = ops, he_flags = flags, he_label = label,
              he_state = A20_HS_ACTIVE\<rparr> t))"

subsection \<open>Temporal limits and labels\<close>

text \<open>\<open>sweep_ticks\<close> is \<^verbatim>\<open>A20_SWEEP_INTERVAL_TICKS\<close>.\<close>

definition a20_handle_set_temporal ::
  "u64 \<Rightarrow> u64 \<Rightarrow> nat \<Rightarrow> u64 \<Rightarrow> u32 \<Rightarrow> u32 \<Rightarrow> ht \<Rightarrow> (a20_err + unit) \<times> ht \<times> ht_event list" where
  "a20_handle_set_temporal sweep_ticks now h expiry ops flags t =
     (if flags AND NOT A20_TEMPORAL_KNOWN_FLAGS \<noteq> 0 then (Inl A20_ERR_INVALID_ARGUMENT, t, [])
      else if h \<ge> ht_capacity t then (Inl A20_ERR_BAD_HANDLE, t, [])
      else
        let e = ht_entries t ! h
        in if he_object e = 0 \<or> he_state e \<noteq> A20_HS_ACTIVE then (Inl A20_ERR_BAD_HANDLE, t, [])
           else if he_flags e AND NOT flags \<noteq> 0 then (Inl A20_ERR_ACCESS, t, [])
           else if he_flags e AND A20_TEMPORAL_EXPIRY_ABSOLUTE \<noteq> 0 \<and> he_expiry e > 0 \<and>
                   (expiry = 0 \<or> expiry > he_expiry e) then (Inl A20_ERR_ACCESS, t, [])
           else if he_flags e AND A20_TEMPORAL_OP_COUNT \<noteq> 0 \<and> ops > he_ops e then (Inl A20_ERR_ACCESS, t, [])
           else
             (Inr (),
              ht_put h (e\<lparr>he_expiry := (if flags AND A20_TEMPORAL_EXPIRY_ABSOLUTE \<noteq> 0 then expiry else he_expiry e),
                he_ops := (if flags AND A20_TEMPORAL_OP_COUNT \<noteq> 0 then ops else he_ops e),
                he_flags := flags\<rparr>) t,
              if flags AND A20_TEMPORAL_EXPIRY_ABSOLUTE \<noteq> 0 \<and> expiry > 0 then [NoteDeadline expiry]
              else if flags \<noteq> 0 then [NoteDeadline (now + sweep_ticks)] else []))"

definition a20_handle_get_temporal :: "nat \<Rightarrow> ht \<Rightarrow> a20_err + u64 \<times> u32 \<times> u32" where
  "a20_handle_get_temporal h t =
     (if h \<ge> ht_capacity t then Inl A20_ERR_BAD_HANDLE
      else
        let e = ht_entries t ! h
        in if he_object e = 0 \<or> he_state e = A20_HS_FREE \<or> he_state e = A20_HS_CLOSING then Inl A20_ERR_BAD_HANDLE
           else Inr (he_expiry e, he_ops e, he_flags e))"

definition a20_handle_set_label :: "nat \<Rightarrow> u8 \<Rightarrow> ht \<Rightarrow> (a20_err + unit) \<times> ht" where
  "a20_handle_set_label h label t =
     (if label > 2 then (Inl A20_ERR_INVALID_ARGUMENT, t)
      else if h \<ge> ht_capacity t then (Inl A20_ERR_BAD_HANDLE, t)
      else
        let e = ht_entries t ! h
        in if he_object e = 0 \<or> he_state e \<noteq> A20_HS_ACTIVE then (Inl A20_ERR_BAD_HANDLE, t)
           else if label < he_label e then (Inl A20_ERR_ACCESS, t)
           else (Inr (), ht_put h (e\<lparr>he_label := label\<rparr>) t))"

subsection \<open>The sweeper\<close>

definition entry_expired :: "u64 \<Rightarrow> handle_entry \<Rightarrow> bool" where
  "entry_expired now e \<longleftrightarrow>
     he_flags e AND A20_TEMPORAL_EXPIRY_ABSOLUTE \<noteq> 0 \<and> he_expiry e > 0 \<and> now \<ge> he_expiry e \<or>
     he_flags e AND A20_TEMPORAL_OP_COUNT \<noteq> 0 \<and> he_ops e = 0"

text \<open>One pass: the indices left to visit, and the objects collected so far.\<close>

fun sweep_pass :: "u64 \<Rightarrow> nat list \<Rightarrow> (obj \<times> u16) list \<Rightarrow> ht \<Rightarrow> (obj \<times> u16) list \<times> ht" where
  "sweep_pass now [] objs t = (objs, t)"
| "sweep_pass now (i # is) objs t =
     (if length objs \<ge> A20_SWEEP_BATCH then (objs, t)
      else
        let e = ht_entries t ! i
        in if he_object e = 0 \<or> he_state e \<noteq> A20_HS_ACTIVE \<or> \<not> entry_expired now e then sweep_pass now is objs t
           else if he_flags e AND A20_TEMPORAL_AUTO_CLOSE \<noteq> 0
           then sweep_pass now is (objs @ [(he_object e, he_type e)]) (ht_detach i t)
           else sweep_pass now is objs (ht_put i (e\<lparr>he_state := A20_HS_EXPIRED, he_rights := 0\<rparr>) t))"

definition ht_live :: "ht \<Rightarrow> nat" where
  "ht_live t = length (filter (\<lambda>e. he_object e \<noteq> 0) (ht_entries t))"

lemma ht_put_live:
  assumes "i < length (ht_entries t)" "he_object (ht_entries t ! i) \<noteq> 0"
  shows "ht_live (ht_put i e t) + 1 = ht_live t + (if he_object e = 0 then 0 else 1)"
proof -
  let ?P = "\<lambda>e. he_object e \<noteq> 0" and ?es = "ht_entries t"
  have "length (filter ?P ?es) = length (filter ?P (take i ?es)) + 1 + length (filter ?P (drop (Suc i) ?es))"
    using assms by (subst (1) id_take_nth_drop [of i ?es]) simp_all
  then show ?thesis
    using assms(1) by (simp add: ht_live_def ht_put_def upd_conv_take_nth_drop)
qed

lemma ht_expire_live:
  "i < length (ht_entries t) \<Longrightarrow> he_object (ht_entries t ! i) \<noteq> 0 \<Longrightarrow>
   ht_live (ht_put i ((ht_entries t ! i)\<lparr>he_state := A20_HS_EXPIRED, he_rights := 0\<rparr>) t) = ht_live t"
  using ht_put_live [of i t "(ht_entries t ! i)\<lparr>he_state := A20_HS_EXPIRED, he_rights := 0\<rparr>"] by simp

lemma ht_detach_live:
  assumes "i < length (ht_entries t)" "he_object (ht_entries t ! i) \<noteq> 0"
  shows "ht_live (ht_detach i t) + 1 = ht_live t"
  using ht_put_live [OF assms, of "(ht_entries t ! i)\<lparr>he_object := 0, he_type := A20_OBJ_INVALID,
      he_rights := 0, he_state := A20_HS_FREE\<rparr>"]
  by (simp add: ht_detach_def Let_def ht_free_slot_def ht_live_def ht_put_def)

lemma length_sweep_entries [simp]:
  "length (ht_entries (ht_put i e t)) = length (ht_entries t)"
  "length (ht_entries (ht_detach i t)) = length (ht_entries t)"
  by (simp_all add: ht_put_def ht_detach_def Let_def ht_free_slot_def)

lemma sweep_pass_live:
  assumes "sweep_pass now is objs t = (objs', t')" and "\<forall>i \<in> set is. i < length (ht_entries t)"
  shows "ht_live t' + length objs' = ht_live t + length objs"
  using assms
proof (induction now "is" objs t rule: sweep_pass.induct)
  case (2 now i "is" objs t)
  then show ?case
    using ht_detach_live [of i t] ht_expire_live [of i t]
    by (auto simp: Let_def split: if_splits)
qed simp

text \<open>The batches; the clock is read anew for each, and \<open>objs\<close> are released between them.\<close>

function a20_temporal_sweep :: "(nat \<Rightarrow> u64) \<Rightarrow> nat \<Rightarrow> ht \<Rightarrow> ht \<times> ht_event list" where
  "a20_temporal_sweep now k t =
     (case sweep_pass (now k) [0..<ht_capacity t] [] t of
        (objs, t1) \<Rightarrow>
          let evs = map (\<lambda>(ob, ty). ObjRelease ob ty) objs
          in if length objs < A20_SWEEP_BATCH then (t1, evs)
             else (case a20_temporal_sweep now (k + 1) t1 of (t2, evs2) \<Rightarrow> (t2, evs @ evs2)))"
  by pat_completeness auto
termination
proof (relation "measure (\<lambda>(now, k, t). ht_live t)", goal_cases)
  case (2 now k t objs t1 evs)
  then show ?case
    using sweep_pass_live [of "now k" "[0..<ht_capacity t]" "[]" t objs t1]
    by (simp add: A20_SWEEP_BATCH_def)
qed simp

declare a20_temporal_sweep.simps [simp del]

subsection \<open>Simulated signals\<close>

definition a20_ht_sig_pend :: "int \<Rightarrow> ht \<Rightarrow> ht" where
  "a20_ht_sig_pend sig t =
     (if sig \<le> 0 \<or> sig \<ge> 64 then t
      else t\<lparr>ht_sig_pending := ht_sig_pending t OR push_bit (nat sig) 1\<rparr>)"

definition a20_ht_sig_take :: "ht \<Rightarrow> u64 \<times> ht" where
  "a20_ht_sig_take t =
     (ht_sig_pending t AND NOT (ht_sig_blocked t),
      t\<lparr>ht_sig_pending := ht_sig_pending t AND ht_sig_blocked t\<rparr>)"

definition a20_ht_sig_set_blocked :: "u64 \<Rightarrow> ht \<Rightarrow> u64 \<times> ht" where
  "a20_ht_sig_set_blocked m t =
     (ht_sig_blocked t, t\<lparr>ht_sig_blocked := m AND NOT (push_bit 9 1)\<rparr>)"

end
