(* ===== verification/Handle_Table_Safety.thy ===== *)
theory Handle_Table_Safety
  imports Handle_Table
begin

text \<open>
  The invariant of a handle table and what each operation does to it, stated on the total
  function from handles to entries that the array denotes.
\<close>

unbundle bit_operations_syntax

subsection \<open>The bitmap\<close>

definition bm_used :: "u64 list \<Rightarrow> nat \<Rightarrow> bool" where
  "bm_used bm i \<longleftrightarrow> bit (bm ! (i div 64)) (i mod 64)"

lemma div64_less: "i < 64 * n \<Longrightarrow> i div 64 < (n::nat)"
  by (simp add: less_mult_imp_div_less mult.commute)

lemma length_bm [simp]: "length (bm_set bm s) = length bm" "length (bm_clear bm s) = length bm"
  by (simp_all add: bm_set_def bm_clear_def)

lemma same_slot: "(i::nat) = s \<longleftrightarrow> i div 64 = s div 64 \<and> i mod 64 = s mod 64"
  by (metis div_mult_mod_eq)

lemma bm_used_set:
  assumes "s < 64 * length bm"
  shows "bm_used (bm_set bm s) i \<longleftrightarrow> i = s \<or> bm_used bm i"
  using div64_less [OF assms] same_slot [of i s]
  by (cases "i div 64 = s div 64") (auto simp: bm_used_def bm_set_def bit_simps)

lemma bm_used_clear:
  assumes "s < 64 * length bm"
  shows "bm_used (bm_clear bm s) i \<longleftrightarrow> i \<noteq> s \<and> bm_used bm i"
  using div64_less [OF assms] same_slot [of i s]
  by (cases "i div 64 = s div 64") (auto simp: bm_used_def bm_clear_def bit_simps)

lemma bm_used_append:
  "64 * length bm = n \<Longrightarrow> i < n + 64 * k \<Longrightarrow> bm_used (bm @ replicate k 0) i \<longleftrightarrow> i < n \<and> bm_used bm i"
proof (cases "i < n")
  case True
  assume "64 * length bm = n"
  with True have "i div 64 < length bm" by (intro div64_less) simp
  with True show ?thesis by (simp add: bm_used_def nth_append)
next
  case False
  assume n: "64 * length bm = n" and i: "i < n + 64 * k"
  from n i have "i div 64 < length bm + k" by (intro div64_less) (simp add: algebra_simps)
  moreover from False n have "\<not> i div 64 < length bm" by auto
  ultimately show ?thesis using False by (simp add: bm_used_def nth_append)
qed

lemma a20_ctz64_lowest:
  assumes "v \<noteq> 0"
  shows "bit v (a20_ctz64 v)" "j < a20_ctz64 v \<Longrightarrow> \<not> bit v j" "a20_ctz64 v < 64"
  using ctz_steps_lowest [OF assms] assms by (simp_all add: a20_ctz64_def ctz_steps_def)

lemma a20_ctz64_not:
  assumes "w \<noteq> - 1"
  shows "\<not> bit w (a20_ctz64 (NOT w))" "j < a20_ctz64 (NOT w) \<Longrightarrow> bit w j" "a20_ctz64 (NOT w) < 64"
proof -
  have "NOT w \<noteq> 0" using assms by (metis bit.compl_zero bit.double_compl)
  note f = a20_ctz64_lowest [OF this]
  show "\<not> bit w (a20_ctz64 (NOT w))" using f(1,3) by (simp add: bit_simps)
  show "a20_ctz64 (NOT w) < 64" by (rule f(3))
  assume "j < a20_ctz64 (NOT w)"
  with f(2) [of j] f(3) show "bit w j" by (simp add: bit_simps)
qed

lemma alloc_scan_Some:
  "alloc_scan cap ws i = Some slot \<Longrightarrow>
   i * 64 \<le> slot \<and> slot < cap \<and> slot < (i + length ws) * 64 \<and>
   \<not> bit (ws ! (slot div 64 - i)) (slot mod 64)"
proof (induction ws arbitrary: i)
  case (Cons w ws)
  show ?case
  proof (cases "w \<noteq> - 1 \<and> i * 64 + a20_ctz64 (NOT w) < cap")
    case True
    with Cons.prems have "slot = i * 64 + a20_ctz64 (NOT w)" "slot < cap" by auto
    with True a20_ctz64_not [of w] show ?thesis by auto
  next
    case False
    with Cons.prems have "alloc_scan cap ws (i + 1) = Some slot" by auto
    from Cons.IH [OF this] have s: "(i + 1) * 64 \<le> slot" "slot < cap" "slot < (i + 1 + length ws) * 64"
      "\<not> bit (ws ! (slot div 64 - (i + 1))) (slot mod 64)" by auto
    from s(1) have "slot div 64 - i = Suc (slot div 64 - (i + 1))"
      using div_le_mono [OF s(1), of 64] by simp
    with s show ?thesis by simp
  qed
qed simp

subsection \<open>The invariant\<close>

abbreviation free_entry :: "handle_entry \<Rightarrow> bool" where
  "free_entry e \<equiv> he_state e = A20_HS_FREE"

definition live_entry :: "handle_entry \<Rightarrow> bool" where
  "live_entry e \<longleftrightarrow> he_state e = A20_HS_ACTIVE \<or> he_state e = A20_HS_EXPIRED"

definition entry_ok :: "handle_entry \<Rightarrow> bool" where
  "entry_ok e \<longleftrightarrow>
     (if live_entry e
      then he_object e \<noteq> 0 \<and> bits_within (he_rights e) (a20_type_valid_rights (he_type e)) \<and>
        (he_state e = A20_HS_EXPIRED \<longrightarrow> he_rights e = 0) \<and>
        (he_expiry e > 0 \<longrightarrow> he_flags e AND A20_TEMPORAL_EXPIRY_ABSOLUTE \<noteq> 0)
      else he_object e = 0)"

definition ht_ok :: "ht \<Rightarrow> bool" where
  "ht_ok t \<longleftrightarrow>
     0 < ht_capacity t \<and> ht_capacity t \<le> A20_HT_MAX_CAP \<and> 64 * length (ht_bitmap t) = ht_capacity t \<and>
     (\<forall>i < ht_capacity t. bm_used (ht_bitmap t) i \<longleftrightarrow> \<not> free_entry (ht_entries t ! i)) \<and>
     ht_count t = length (filter (\<lambda>e. \<not> free_entry e) (ht_entries t)) \<and>
     (\<forall>e \<in> set (ht_entries t). entry_ok e)"

text \<open>The entries as a function on all handles.\<close>

definition ent :: "ht \<Rightarrow> nat \<Rightarrow> handle_entry" where
  "ent t h = (if h < ht_capacity t then ht_entries t ! h else entry_zero)"

lemma ent_nth: "h < ht_capacity t \<Longrightarrow> ht_entries t ! h = ent t h"
  by (simp add: ent_def)

lemma entry_zero_ok [simp]: "entry_ok entry_zero" "free_entry entry_zero" "\<not> live_entry entry_zero"
  by (simp_all add: entry_ok_def entry_zero_def live_entry_def)

lemma free_not_live [simp]: "free_entry e \<Longrightarrow> \<not> live_entry e"
  by (simp add: live_entry_def)

lemma ent_ok: "ht_ok t \<Longrightarrow> entry_ok (ent t h)"
  by (simp add: ent_def ht_ok_def)

lemma ent_live_less: "live_entry (ent t h) \<Longrightarrow> h < ht_capacity t"
  by (simp add: ent_def split: if_splits)

lemma length_filter_update:
  "i < length xs \<Longrightarrow>
   length (filter P (xs[i := x])) + (if P (xs ! i) then 1 else 0) = length (filter P xs) + (if P x then 1 else 0)"
proof -
  assume i: "i < length xs"
  then have "length (filter P xs) = length (filter P (take i xs)) + (if P (xs ! i) then 1 else 0) +
      length (filter P (drop (Suc i) xs))"
    by (subst (1) id_take_nth_drop [of i xs]) simp_all
  with i show ?thesis by (simp add: upd_conv_take_nth_drop)
qed

text \<open>Three ways to change an entry: fill a free slot, free a used one, keep it used or free.\<close>

lemma fill_ok:
  assumes "ht_ok t" "s < ht_capacity t" "free_entry (ht_entries t ! s)" "\<not> free_entry e" "entry_ok e"
  shows "ht_ok (t\<lparr>ht_entries := (ht_entries t)[s := e], ht_bitmap := bm_set (ht_bitmap t) s,
      ht_hint := hint, ht_count := ht_count t + 1\<rparr>)"
  using assms length_filter_update [of s "ht_entries t" "\<lambda>e. \<not> free_entry e" e]
  by (auto simp: ht_ok_def bm_used_set nth_list_update dest!: set_update_cases)

lemma free_ok:
  assumes "ht_ok t" "s < ht_capacity t" "\<not> free_entry (ht_entries t ! s)" "free_entry e" "entry_ok e"
  shows "ht_ok (t\<lparr>ht_entries := (ht_entries t)[s := e], ht_bitmap := bm_clear (ht_bitmap t) s,
      ht_hint := hint, ht_count := ht_count t - 1\<rparr>)"
  using assms length_filter_update [of s "ht_entries t" "\<lambda>e. \<not> free_entry e" e]
  by (auto simp: ht_ok_def bm_used_clear nth_list_update dest!: set_update_cases)

lemma keep_ok:
  assumes "ht_ok t" "s < ht_capacity t" "free_entry e = free_entry (ht_entries t ! s)" "entry_ok e"
  shows "ht_ok (ht_put s e t)"
  using assms length_filter_update [of s "ht_entries t" "\<lambda>e. \<not> free_entry e" e]
  by (auto simp: ht_ok_def ht_put_def nth_list_update dest!: set_update_cases)

lemma ent_put: "s < ht_capacity t \<Longrightarrow> ent (ht_put s e t) = (ent t)(s := e)"
  by (auto simp: ent_def ht_put_def fun_eq_iff)

lemma ent_update:
  "s < ht_capacity t \<Longrightarrow>
   ent (t\<lparr>ht_entries := (ht_entries t)[s := e], ht_bitmap := bm, ht_hint := hint, ht_count := n\<rparr>) = (ent t)(s := e)"
  by (auto simp: ent_def fun_eq_iff)

lemma ht_alloc_slot_spec:
  assumes "ht_ok t" "ht_alloc_slot t = (Some s, t')"
  shows "s < ht_capacity t" "free_entry (ht_entries t ! s)"
    "t' = t\<lparr>ht_bitmap := bm_set (ht_bitmap t) s, ht_hint := s + 1\<rparr>"
proof -
  let ?k = "ht_hint t div 64"
  from assms(2) have scan: "alloc_scan (ht_capacity t) (drop ?k (ht_bitmap t)) ?k = Some s"
    and t': "t' = t\<lparr>ht_bitmap := bm_set (ht_bitmap t) s, ht_hint := s + 1\<rparr>"
    by (auto simp: ht_alloc_slot_def split: option.splits)
  from alloc_scan_Some [OF scan] have s: "?k * 64 \<le> s" "s < ht_capacity t"
    "\<not> bit (drop ?k (ht_bitmap t) ! (s div 64 - ?k)) (s mod 64)" by auto
  from s(1) have "?k \<le> s div 64" using div_le_mono [of "?k * 64" s 64] by simp
  moreover have "s div 64 < length (ht_bitmap t)"
    using assms(1) s(2) by (intro div64_less) (simp add: ht_ok_def)
  ultimately have "\<not> bm_used (ht_bitmap t) s" using s(3) by (simp add: bm_used_def)
  with assms(1) s(2) show "free_entry (ht_entries t ! s)" by (simp add: ht_ok_def)
  show "s < ht_capacity t" by (rule s(2))
  show "t' = t\<lparr>ht_bitmap := bm_set (ht_bitmap t) s, ht_hint := s + 1\<rparr>" by (rule t')
qed

lemma ht_alloc_slot_None: "ht_alloc_slot t = (None, t') \<Longrightarrow> t' = t"
  by (auto simp: ht_alloc_slot_def split: option.splits)

lemma ht_grow_spec:
  assumes ok: "ht_ok t" and g: "ht_grow mem t = Inr t'"
  shows "ht_ok t'" "ent t' = ent t" "ht_count t' = ht_count t" "ht_max t' = ht_max t" "ht_capacity t < ht_capacity t'"
proof -
  define cap where "cap = (if ht_capacity t * 2 > A20_HT_MAX_CAP then A20_HT_MAX_CAP else ht_capacity t * 2)"
  from g have lt: "ht_capacity t < A20_HT_MAX_CAP"
    and t': "t' = t\<lparr>ht_entries := ht_entries t @ replicate (cap - ht_capacity t) entry_zero,
       ht_bitmap := ht_bitmap t @ replicate ((cap + 63) div 64 - length (ht_bitmap t)) 0\<rparr>"
    by (auto simp: ht_grow_def Let_def cap_def A20_HT_GROWTH_FACTOR_def split: if_splits)
  have bm: "64 * length (ht_bitmap t) = ht_capacity t" and pos: "0 < ht_capacity t"
    using ok by (simp_all add: ht_ok_def)
  define k where "k = (cap + 63) div 64 - length (ht_bitmap t)"
  obtain m where m: "cap = 64 * m"
    using bm by (intro that [of "if ht_capacity t * 2 > A20_HT_MAX_CAP then 1024 else 2 * length (ht_bitmap t)"])
      (simp add: cap_def A20_HT_MAX_CAP_def)
  then have "(cap + 63) div 64 = m" by simp
  moreover have lt': "ht_capacity t < cap" "cap \<le> A20_HT_MAX_CAP"
    using lt pos by (auto simp: cap_def A20_HT_MAX_CAP_def)
  ultimately have cap: "ht_capacity t < cap" "cap \<le> A20_HT_MAX_CAP" "ht_capacity t + 64 * k = cap"
    using bm m by (simp_all add: k_def)
  have used: "bm_used (ht_bitmap t @ replicate k 0) i \<longleftrightarrow> i < ht_capacity t \<and> bm_used (ht_bitmap t) i"
    if "i < cap" for i
    using bm_used_append [OF bm, of i k] that cap(3) by simp
  show "ht_ok t'"
    using ok cap used by (auto simp: ht_ok_def t' nth_append simp flip: k_def)
  show "ent t' = ent t"
    using cap by (auto simp: ent_def t' fun_eq_iff nth_append)
  show "ht_count t' = ht_count t" "ht_max t' = ht_max t" "ht_capacity t < ht_capacity t'"
    using cap by (simp_all add: t')
qed


subsection \<open>What the operations do\<close>

lemma bits_within_iff: "bits_within a b \<longleftrightarrow> (\<forall>n. bit a n \<longrightarrow> bit b n)"
  for a b :: "'a::len word"
  unfolding bits_within_def
  by (auto simp: bit_eq_iff bit_simps) (meson bit_imp_le_length)

lemma valid_rights_eq: "valid_rights ty r = r AND a20_type_valid_rights ty"
  unfolding valid_rights_def
  by (metis (no_types) and.right_neutral bit.conj_disj_distrib bit.disj_cancel_right or.right_neutral)

lemma valid_rights_within: "bits_within (valid_rights ty r) (a20_type_valid_rights ty)" "bits_within (valid_rights ty r) r"
  by (simp_all add: valid_rights_eq bits_within_iff bit_simps)

lemma new_entry_ok:
  "ob \<noteq> 0 \<Longrightarrow> (expiry > 0 \<longrightarrow> flags AND A20_TEMPORAL_EXPIRY_ABSOLUTE \<noteq> 0) \<Longrightarrow>
   entry_ok \<lparr>he_object = ob, he_type = ty, he_rights = valid_rights ty r, he_expiry = expiry, he_ops = ops,
     he_flags = flags, he_label = label, he_state = A20_HS_ACTIVE\<rparr>"
  by (simp add: entry_ok_def live_entry_def valid_rights_within)

lemma ht_take_slot_spec:
  assumes ok: "ht_ok t" and take: "ht_take_slot mem t = (r, t1)"
  shows "case r of
      None \<Rightarrow> ht_ok t1 \<and> ent t1 = ent t
    | Some s \<Rightarrow> (\<exists>t0. ht_ok t0 \<and> ent t0 = ent t \<and> ht_count t0 = ht_count t \<and> ht_count t < ht_max t \<and>
        s < ht_capacity t0 \<and> free_entry (ht_entries t0 ! s) \<and>
        t1 = t0\<lparr>ht_bitmap := bm_set (ht_bitmap t0) s, ht_hint := s + 1\<rparr>)"
proof (cases "ht_count t < ht_max t")
  case True
  obtain r0 t0 where a: "ht_alloc_slot t = (r0, t0)" by force
  show ?thesis
  proof (cases r0)
    case (Some s)
    with take True a have "r = Some s" "t1 = t0" by (auto simp: ht_take_slot_def)
    with ht_alloc_slot_spec [OF ok, of s t0] a Some ok True show ?thesis by (auto intro!: exI [of _ t])
  next
    case None
    with a have t0: "t0 = t" using ht_alloc_slot_None by blast
    show ?thesis
    proof (cases "ht_grow mem t")
      case (Inl e)
      with take True a None t0 ok show ?thesis by (auto simp: ht_take_slot_def)
    next
      case (Inr t2)
      with take True a None t0 have t2: "ht_alloc_slot t2 = (r, t1)" by (auto simp: ht_take_slot_def)
      note g = ht_grow_spec [OF ok Inr]
      show ?thesis
      proof (cases r)
        case None
        with t2 g show ?thesis using ht_alloc_slot_None by auto
      next
        case (Some s)
        with t2 ht_alloc_slot_spec [OF g(1), of s t1] g True show ?thesis by (auto intro!: exI [of _ t2])
      qed
    qed
  qed
next
  case False
  with take ok show ?thesis by (auto simp: ht_take_slot_def)
qed

lemma install_slot_ok:
  assumes "ht_ok t" "ht_take_slot mem t = (Some s, t1)" "entry_ok e" "\<not> free_entry e"
  shows "ht_ok ((ht_put s e t1)\<lparr>ht_count := ht_count t1 + 1\<rparr>)" "free_entry (ent t s)"
    "ent ((ht_put s e t1)\<lparr>ht_count := ht_count t1 + 1\<rparr>) = (ent t)(s := e)"
    "ht_count ((ht_put s e t1)\<lparr>ht_count := ht_count t1 + 1\<rparr>) \<le> ht_max t"
proof -
  from ht_take_slot_spec [OF assms(1,2)] obtain t0 where t0: "ht_ok t0" "ent t0 = ent t" "ht_count t0 = ht_count t"
    "ht_count t < ht_max t" "s < ht_capacity t0" "free_entry (ht_entries t0 ! s)"
    "t1 = t0\<lparr>ht_bitmap := bm_set (ht_bitmap t0) s, ht_hint := s + 1\<rparr>" by auto
  have eq: "(ht_put s e t1)\<lparr>ht_count := ht_count t1 + 1\<rparr> =
      t0\<lparr>ht_entries := (ht_entries t0)[s := e], ht_bitmap := bm_set (ht_bitmap t0) s, ht_hint := s + 1,
         ht_count := ht_count t0 + 1\<rparr>"
    by (simp add: ht_put_def t0(7))
  show "ht_ok ((ht_put s e t1)\<lparr>ht_count := ht_count t1 + 1\<rparr>)"
    unfolding eq by (rule fill_ok [OF t0(1,5,6) assms(4,3)])
  show "ent ((ht_put s e t1)\<lparr>ht_count := ht_count t1 + 1\<rparr>) = (ent t)(s := e)"
    unfolding eq using t0(2,5) by (simp add: ent_update)
  show "free_entry (ent t s)" using t0(2,5,6) by (metis ent_nth)
  show "ht_count ((ht_put s e t1)\<lparr>ht_count := ht_count t1 + 1\<rparr>) \<le> ht_max t"
    using t0(3,4,7) by simp
qed

text \<open>What a successful or failed installation leaves.\<close>

definition installed :: "ht \<Rightarrow> handle_entry \<Rightarrow> a20_err + nat \<Rightarrow> ht \<Rightarrow> bool" where
  "installed t e r t' \<longleftrightarrow> ht_ok t' \<and>
     (case r of Inl _ \<Rightarrow> ent t' = ent t | Inr s \<Rightarrow> free_entry (ent t s) \<and> ent t' = (ent t)(s := e))"

lemma install_temporal_spec:
  assumes "ht_ok t" "a20_handle_install_temporal mem ob ty ri ex ops fl lb t = (r, t', evs)"
    and "ob \<noteq> 0" "ex > 0 \<longrightarrow> fl AND A20_TEMPORAL_EXPIRY_ABSOLUTE \<noteq> 0"
  shows "installed t \<lparr>he_object = ob, he_type = ty, he_rights = valid_rights ty ri, he_expiry = ex, he_ops = ops,
     he_flags = fl, he_label = lb, he_state = A20_HS_ACTIVE\<rparr> r t'"
proof -
  let ?e = "\<lparr>he_object = ob, he_type = ty, he_rights = valid_rights ty ri, he_expiry = ex, he_ops = ops,
     he_flags = fl, he_label = lb, he_state = A20_HS_ACTIVE\<rparr>"
  have e: "entry_ok ?e" "\<not> free_entry ?e" using new_entry_ok [OF assms(3,4)] by simp_all
  obtain q t1 where take: "ht_take_slot mem t = (q, t1)" by force
  show ?thesis
  proof (cases q)
    case None
    with assms(2) take ht_take_slot_spec [OF assms(1) take] show ?thesis
      by (auto simp: a20_handle_install_temporal_def installed_def)
  next
    case (Some s)
    with assms(2) take install_slot_ok [OF assms(1) _ e, of mem s t1] show ?thesis
      by (auto simp: a20_handle_install_temporal_def installed_def)
  qed
qed

lemma install_eq_temporal:
  "a20_handle_install mem ob ty ri t = a20_handle_install_temporal mem ob ty ri 0 0 0 0 t"
  by (simp add: a20_handle_install_def a20_handle_install_temporal_def)

lemma grow_until_spec:
  "ht_ok t \<Longrightarrow> grow_until s mems t = (r, t') \<Longrightarrow>
   ht_ok t' \<and> ent t' = ent t \<and> (r = Inr () \<longrightarrow> s < ht_capacity t')"
proof (induction s mems t rule: grow_until.induct)
  case (1 s mems t)
  show ?case
  proof (cases "s < ht_capacity t")
    case True
    with "1.prems" show ?thesis by auto
  next
    case False
    show ?thesis
    proof (cases mems)
      case Nil
      with False "1.prems" show ?thesis by auto
    next
      case (Cons m ms)
      show ?thesis
      proof (cases "ht_grow m t")
        case (Inl e)
        with False Cons "1.prems" show ?thesis by auto
      next
        case (Inr t1)
        with False Cons "1.prems" have "grow_until s ms t1 = (r, t')" by simp
        with "1.IH" [OF False Cons Inr] ht_grow_spec [OF "1.prems"(1) Inr] show ?thesis by auto
      qed
    qed
  qed
qed

declare grow_until.simps [simp del]

lemma install_at_spec:
  assumes "ht_ok t" "a20_handle_install_at_temporal mems s ob ty ri ex ops fl lb t = (r, t', evs)"
    and "ob \<noteq> 0" "ex > 0 \<longrightarrow> fl AND A20_TEMPORAL_EXPIRY_ABSOLUTE \<noteq> 0"
  shows "installed t \<lparr>he_object = ob, he_type = ty, he_rights = valid_rights ty ri, he_expiry = ex, he_ops = ops,
     he_flags = fl, he_label = lb, he_state = A20_HS_ACTIVE\<rparr> r t'"
proof -
  let ?e = "\<lparr>he_object = ob, he_type = ty, he_rights = valid_rights ty ri, he_expiry = ex, he_ops = ops,
     he_flags = fl, he_label = lb, he_state = A20_HS_ACTIVE\<rparr>"
  have e: "entry_ok ?e" "\<not> free_entry ?e" using new_entry_ok [OF assms(3,4)] by simp_all
  obtain q t1 where g: "grow_until s mems t = (q, t1)" by force
  note gs = grow_until_spec [OF assms(1) g]
  show ?thesis
  proof (cases "s < A20_HT_MAX_CAP \<and> q = Inr () \<and> \<not> has_bit (ht_bitmap t1 ! (s div 64)) (s mod 64) \<and> ht_count t1 < ht_max t1")
    case True
    with gs have s: "s < ht_capacity t1" "free_entry (ht_entries t1 ! s)"
      by (auto simp: ht_ok_def has_bit_iff bm_used_def)
    from True assms(2) g have "r = Inr s"
      "t' = t1\<lparr>ht_entries := (ht_entries t1)[s := ?e], ht_bitmap := bm_set (ht_bitmap t1) s,
         ht_hint := (if ht_hint t1 \<le> s then s + 1 else ht_hint t1), ht_count := ht_count t1 + 1\<rparr>"
      by (auto simp: a20_handle_install_at_temporal_def ht_put_def)
    with fill_ok [OF _ s e(2,1)] ent_update [OF s(1)] gs s show ?thesis
      by (simp add: installed_def) (metis ent_nth)
  next
    case False
    with assms(1,2) g gs show ?thesis
      by (auto simp: a20_handle_install_at_temporal_def installed_def split: if_splits sum.splits)
  qed
qed


subsection \<open>Weakening a capability\<close>

text \<open>\<open>cap_le e' e\<close>: \<open>e'\<close> names the same object as \<open>e\<close> and allows no more.\<close>

definition cap_le :: "handle_entry \<Rightarrow> handle_entry \<Rightarrow> bool" where
  "cap_le e' e \<longleftrightarrow>
     he_object e' = he_object e \<and> he_type e' = he_type e \<and> bits_within (he_rights e') (he_rights e) \<and>
     (he_expiry e > 0 \<longrightarrow> he_expiry e' > 0 \<and> he_expiry e' \<le> he_expiry e) \<and>
     bits_within (he_flags e) (he_flags e') \<and>
     (he_flags e AND A20_TEMPORAL_OP_COUNT \<noteq> 0 \<longrightarrow> he_ops e' \<le> he_ops e) \<and>
     he_label e \<le> he_label e'"

lemma bits_within_refl [simp]: "bits_within a a"
  by (simp add: bits_within_iff)

lemma bits_within_trans: "bits_within a b \<Longrightarrow> bits_within b c \<Longrightarrow> bits_within a c"
  by (simp add: bits_within_iff)

lemma bits_within_zero [simp]: "bits_within 0 a"
  by (simp add: bits_within_iff)

lemma bits_within_nonzero: "bits_within a b \<Longrightarrow> a AND c \<noteq> 0 \<Longrightarrow> b AND c \<noteq> 0"
proof
  assume w: "bits_within a b" and a: "a AND c \<noteq> 0" and b: "b AND c = 0"
  from a obtain n where "bit (a AND c) n" by (auto simp: bit_eq_iff)
  with w have "bit (b AND c) n" by (simp add: bits_within_iff bit_simps)
  with b show False by simp
qed

lemma cap_le_refl [simp]: "cap_le e e"
  by (simp add: cap_le_def)

lemma cap_le_trans: "cap_le e1 e2 \<Longrightarrow> cap_le e2 e3 \<Longrightarrow> cap_le e1 e3"
  unfolding cap_le_def by (auto intro: bits_within_trans dest: bits_within_nonzero order_trans)

text \<open>The documented theorem on temporal rights: they only shrink, with time and with use.\<close>

lemma effective_rights_decay:
  assumes "cap_le e' e" "now \<le> now'"
  shows "bits_within (a20_effective_rights now' e') (a20_effective_rights now e)"
proof (cases "he_expiry e > 0 \<and> now \<ge> he_expiry e")
  case True
  with assms have "he_expiry e' > 0 \<and> now' \<ge> he_expiry e'"
    by (auto simp: cap_le_def)
  then show ?thesis by (simp add: a20_effective_rights_def)
next
  case False
  show ?thesis
  proof (cases "he_flags e AND A20_TEMPORAL_OP_COUNT \<noteq> 0 \<and> he_ops e = 0")
    case True
    with assms(1) have "he_flags e' AND A20_TEMPORAL_OP_COUNT \<noteq> 0" "he_ops e' = 0"
      using bits_within_nonzero [of "he_flags e" "he_flags e'"] by (auto simp: cap_le_def)
    then show ?thesis by (simp add: a20_effective_rights_def)
  next
    case False
    with \<open>\<not> (he_expiry e > 0 \<and> now \<ge> he_expiry e)\<close> have "a20_effective_rights now e = he_rights e"
      by (auto simp: a20_effective_rights_def)
    with assms(1) show ?thesis by (auto simp: a20_effective_rights_def cap_le_def)
  qed
qed

subsection \<open>Lookup, removal and the temporal calls\<close>

definition use_op :: "handle_entry \<Rightarrow> handle_entry" where
  "use_op e = (if he_flags e AND A20_TEMPORAL_OP_COUNT \<noteq> 0 \<and> he_ops e > 0 then e\<lparr>he_ops := he_ops e - 1\<rparr> else e)"

lemma word_dec_mono: "(w::'a::len word) > 0 \<Longrightarrow> w - 1 \<le> w"
  by (metis less_imp_le measure_unat word_le_nat_alt word_not_simps(1))

lemma use_op_props:
  "cap_le (use_op e) e" "he_state (use_op e) = he_state e" "he_object (use_op e) = he_object e"
  "he_type (use_op e) = he_type e" "he_rights (use_op e) = he_rights e" "entry_ok e \<Longrightarrow> entry_ok (use_op e)"
  "he_label (use_op e) = he_label e" "he_expiry (use_op e) = he_expiry e" "he_flags (use_op e) = he_flags e"
  by (auto simp: use_op_def cap_le_def entry_ok_def live_entry_def word_dec_mono)

text \<open>A lookup is exact: it succeeds if and only if the entry is active, has the type asked for
  and the effective rights, and then costs one operation of the budget.\<close>

definition lookup_admits :: "u64 \<Rightarrow> u16 \<Rightarrow> u64 \<Rightarrow> handle_entry \<Rightarrow> bool" where
  "lookup_admits now ty req e \<longleftrightarrow>
     he_object e \<noteq> 0 \<and> he_state e = A20_HS_ACTIVE \<and> (ty = A20_OBJ_INVALID \<or> he_type e = ty) \<and>
     a20_effective_rights now e AND req = req"

lemma lookup_spec:
  assumes "a20_handle_lookup_ref_mode now h ty req ref t = (r, t', evs)"
  shows "case r of
      Inl _ \<Rightarrow> \<not> lookup_admits now ty req (ent t h) \<and> t' = t \<and> evs = []
    | Inr e \<Rightarrow> lookup_admits now ty req (ent t h) \<and> h < ht_capacity t \<and> t' = ht_put h (use_op (ent t h)) t \<and>
        e = (use_op (ent t h))\<lparr>he_rights := a20_effective_rights now (ent t h)\<rparr> \<and>
        evs = (if ref then [ObjRef (he_object (ent t h)) (he_type (ent t h))] else [])"
proof (cases "h < ht_capacity t")
  case True
  then have e: "ht_entries t ! h = ent t h" by (rule ent_nth)
  show ?thesis
    using assms True
    by (cases "he_state (ent t h)")
      (auto simp: a20_handle_lookup_ref_mode_def Let_def e lookup_admits_def use_op_def split: if_splits)
next
  case False
  with assms show ?thesis
    by (auto simp: a20_handle_lookup_ref_mode_def lookup_admits_def ent_def entry_zero_def)
qed

lemma lookup_ok:
  assumes "ht_ok t" "a20_handle_lookup_ref_mode now h ty req ref t = (r, t', evs)"
  shows "ht_ok t'" "ent t' = (case r of Inl _ \<Rightarrow> ent t | Inr _ \<Rightarrow> (ent t)(h := use_op (ent t h)))"
proof -
  note s = lookup_spec [OF assms(2)]
  have k: "ht_ok (ht_put h (use_op (ent t h)) t)" if "h < ht_capacity t"
    using keep_ok [OF assms(1) that] use_op_props ent_ok [OF assms(1)] that by (simp add: ent_nth)
  show "ht_ok t'" using s k assms(1) by (auto split: sum.splits)
  show "ent t' = (case r of Inl _ \<Rightarrow> ent t | Inr _ \<Rightarrow> (ent t)(h := use_op (ent t h)))"
    using s by (auto simp: ent_put split: sum.splits)
qed

definition freed :: "handle_entry \<Rightarrow> handle_entry" where
  "freed e = e\<lparr>he_object := 0, he_type := A20_OBJ_INVALID, he_rights := 0, he_state := A20_HS_FREE\<rparr>"

lemma freed_props [simp]: "free_entry (freed e)" "entry_ok (freed e)" "he_object (freed e) = 0"
  by (simp_all add: freed_def entry_ok_def live_entry_def)

lemma detach_ok:
  assumes "ht_ok t" "h < ht_capacity t" "\<not> free_entry (ent t h)"
  shows "ht_ok (ht_detach h t)" "ent (ht_detach h t) = (ent t)(h := freed (ent t h))"
proof -
  have eq: "ht_detach h t = t\<lparr>ht_entries := (ht_entries t)[h := freed (ent t h)],
      ht_bitmap := bm_clear (ht_bitmap t) h, ht_hint := (if h < ht_hint t then h else ht_hint t),
      ht_count := ht_count t - 1\<rparr>"
    using assms(2) by (simp add: ht_detach_def Let_def ht_free_slot_def ht_put_def freed_def ent_nth)
  show "ht_ok (ht_detach h t)"
    unfolding eq using assms by (intro free_ok) (simp_all add: ent_nth)
  show "ent (ht_detach h t) = (ent t)(h := freed (ent t h))"
    unfolding eq using assms(2) by (simp add: ent_update)
qed

lemma live_iff: "ht_ok t \<Longrightarrow> live_entry (ent t h) \<longleftrightarrow> he_object (ent t h) \<noteq> 0"
  using ent_ok [of t h] by (auto simp: entry_ok_def split: if_splits)

lemma remove_spec:
  assumes "ht_ok t" "a20_handle_remove h t = (r, t', evs)"
  shows "ht_ok t'"
    "case r of
      Inl _ \<Rightarrow> \<not> live_entry (ent t h) \<and> t' = t \<and> evs = []
    | Inr _ \<Rightarrow> live_entry (ent t h) \<and> ent t' = (ent t)(h := freed (ent t h)) \<and>
        evs = [StatHandles (- 1), ObjRelease (he_object (ent t h)) (he_type (ent t h))]"
proof -
  have cond: "h < ht_capacity t \<and> he_object (ht_entries t ! h) \<noteq> 0 \<and> he_state (ht_entries t ! h) \<noteq> A20_HS_FREE \<and>
      he_state (ht_entries t ! h) \<noteq> A20_HS_CLOSING \<longleftrightarrow> live_entry (ent t h)"
    using live_iff [OF assms(1), of h] ent_live_less [of t h]
    by (cases "he_state (ent t h)") (auto simp: ent_nth live_entry_def)
  show "ht_ok t'" "case r of
      Inl _ \<Rightarrow> \<not> live_entry (ent t h) \<and> t' = t \<and> evs = []
    | Inr _ \<Rightarrow> live_entry (ent t h) \<and> ent t' = (ent t)(h := freed (ent t h)) \<and>
        evs = [StatHandles (- 1), ObjRelease (he_object (ent t h)) (he_type (ent t h))]"
    using assms(2) detach_ok [OF assms(1), of h] ent_live_less [of t h] assms(1)
    unfolding a20_handle_remove_def cond
    by (auto simp: ent_nth live_entry_def split: if_splits)
qed

lemma set_temporal_spec:
  assumes ok: "ht_ok t" and run: "a20_handle_set_temporal st now h ex ops fl t = (r, t', evs)"
  shows "ht_ok t'"
    "case r of Inl _ \<Rightarrow> t' = t
     | Inr _ \<Rightarrow> (\<exists>e. ent t' = (ent t)(h := e) \<and> he_state e = he_state (ent t h) \<and> cap_le e (ent t h))"
proof -
  define e where "e = (ent t h)\<lparr>he_expiry := (if fl AND A20_TEMPORAL_EXPIRY_ABSOLUTE \<noteq> 0 then ex else he_expiry (ent t h)),
      he_ops := (if fl AND A20_TEMPORAL_OP_COUNT \<noteq> 0 then ops else he_ops (ent t h)), he_flags := fl\<rparr>"
  have "ht_ok t' \<and> (case r of Inl _ \<Rightarrow> t' = t
     | Inr _ \<Rightarrow> (\<exists>e. ent t' = (ent t)(h := e) \<and> he_state e = he_state (ent t h) \<and> cap_le e (ent t h)))"
  proof (cases r)
    case (Inl x)
    with run ok show ?thesis
      by (auto simp: a20_handle_set_temporal_def Let_def split: if_splits)
  next
    case (Inr u)
    with run have c: "h < ht_capacity t" "he_object (ent t h) \<noteq> 0" "he_state (ent t h) = A20_HS_ACTIVE"
      "bits_within (he_flags (ent t h)) fl"
      "\<not> (he_flags (ent t h) AND A20_TEMPORAL_EXPIRY_ABSOLUTE \<noteq> 0 \<and> he_expiry (ent t h) > 0 \<and> (ex = 0 \<or> ex > he_expiry (ent t h)))"
      "\<not> (he_flags (ent t h) AND A20_TEMPORAL_OP_COUNT \<noteq> 0 \<and> ops > he_ops (ent t h))"
      and t': "t' = ht_put h e t"
      by (auto simp: a20_handle_set_temporal_def Let_def e_def bits_within_def ent_nth split: if_splits)
    have fe: "fl AND A20_TEMPORAL_EXPIRY_ABSOLUTE \<noteq> 0" if "he_expiry (ent t h) > 0"
      using ent_ok [OF ok, of h] c(2,3,4) that bits_within_nonzero
      by (auto simp: entry_ok_def live_entry_def split: if_splits)
    have fo: "fl AND A20_TEMPORAL_OP_COUNT \<noteq> 0" if "he_flags (ent t h) AND A20_TEMPORAL_OP_COUNT \<noteq> 0"
      using bits_within_nonzero [OF c(4) that] .
    have le: "cap_le e (ent t h)"
      using c(4-6) fe fo ent_ok [OF ok, of h] c(2,3)
      by (auto simp: cap_le_def e_def not_less word_gt_0 entry_ok_def live_entry_def)
    have eok: "entry_ok e"
      using ent_ok [OF ok, of h] c(2,3) fe by (auto simp: entry_ok_def e_def live_entry_def)
    with keep_ok [OF ok c(1), of e] c le t' Inr show ?thesis
      by (auto simp: e_def ent_put ent_nth)
  qed
  then show "ht_ok t'" "case r of Inl _ \<Rightarrow> t' = t
     | Inr _ \<Rightarrow> (\<exists>e. ent t' = (ent t)(h := e) \<and> he_state e = he_state (ent t h) \<and> cap_le e (ent t h))"
    by simp_all
qed

lemma set_label_spec:
  assumes ok: "ht_ok t" and run: "a20_handle_set_label h lb t = (r, t')"
  shows "ht_ok t'"
    "case r of Inl _ \<Rightarrow> t' = t
     | Inr _ \<Rightarrow> h < ht_capacity t \<and> he_label (ent t h) \<le> lb \<and> ent t' = (ent t)(h := (ent t h)\<lparr>he_label := lb\<rparr>)"
proof -
  have k: "ht_ok (ht_put h ((ent t h)\<lparr>he_label := lb\<rparr>) t)" if "h < ht_capacity t"
    using keep_ok [OF ok that] ent_ok [OF ok, of h] that
    by (simp add: ent_nth entry_ok_def live_entry_def)
  show "ht_ok t'" "case r of Inl _ \<Rightarrow> t' = t
     | Inr _ \<Rightarrow> h < ht_capacity t \<and> he_label (ent t h) \<le> lb \<and> ent t' = (ent t)(h := (ent t h)\<lparr>he_label := lb\<rparr>)"
    using run k ok
    by (auto simp: a20_handle_set_label_def Let_def ent_nth ent_put not_less split: if_splits)
qed


subsection \<open>Reservation\<close>

definition reserved :: "nat list \<Rightarrow> (nat \<Rightarrow> handle_entry) \<Rightarrow> nat \<Rightarrow> handle_entry" where
  "reserved hs f i = (if i \<in> set hs then (f i)\<lparr>he_state := A20_HS_CLOSING\<rparr> else f i)"

lemma reserve_slot_ok:
  assumes ok: "ht_ok t" and a: "ht_alloc_slot t = (Some s, t1)"
  defines "t2 \<equiv> (ht_put s ((ht_entries t1 ! s)\<lparr>he_state := A20_HS_CLOSING\<rparr>) t1)\<lparr>ht_count := ht_count t1 + 1\<rparr>"
  shows "ht_ok t2" "ent t2 = (ent t)(s := (ent t s)\<lparr>he_state := A20_HS_CLOSING\<rparr>)" "free_entry (ent t s)"
    "s < ht_capacity t" "ht_capacity t2 = ht_capacity t"
proof -
  note s = ht_alloc_slot_spec [OF ok a]
  let ?e = "(ent t s)\<lparr>he_state := A20_HS_CLOSING\<rparr>"
  have eq: "t2 = t\<lparr>ht_entries := (ht_entries t)[s := ?e], ht_bitmap := bm_set (ht_bitmap t) s, ht_hint := s + 1,
      ht_count := ht_count t + 1\<rparr>"
    using s by (simp add: t2_def ht_put_def ent_nth)
  have "entry_ok ?e"
    using ent_ok [OF ok, of s] s(1,2) by (simp add: entry_ok_def live_entry_def ent_nth)
  with s show "ht_ok t2" unfolding eq by (intro fill_ok [OF ok]) simp_all
  show "ent t2 = (ent t)(s := ?e)" unfolding eq using s(1) by (simp add: ent_update)
  show "free_entry (ent t s)" using s(1,2) by (simp add: ent_nth)
  show "s < ht_capacity t" "ht_capacity t2 = ht_capacity t" using s(1) by (simp_all add: eq)
qed

lemma reserve_loop_spec:
  "ht_ok t \<Longrightarrow> reserve_loop n t = (hs, t') \<Longrightarrow>
   ht_ok t' \<and> distinct hs \<and> length hs \<le> n \<and> (\<forall>h \<in> set hs. free_entry (ent t h) \<and> h < ht_capacity t) \<and>
   ent t' = reserved hs (ent t)"
proof (induction n arbitrary: t hs t')
  case (Suc n)
  obtain r t1 where a: "ht_alloc_slot t = (r, t1)" by force
  show ?case
  proof (cases r)
    case None
    with Suc.prems a ht_alloc_slot_None [of t t1] show ?thesis by (auto simp: reserved_def)
  next
    case (Some s)
    let ?t2 = "(ht_put s ((ht_entries t1 ! s)\<lparr>he_state := A20_HS_CLOSING\<rparr>) t1)\<lparr>ht_count := ht_count t1 + 1\<rparr>"
    note r = reserve_slot_ok [OF Suc.prems(1) a [unfolded Some]]
    obtain hs' where hs: "reserve_loop n ?t2 = (hs', t')" "hs = s # hs'"
      using Suc.prems(2) a Some by (auto split: prod.splits)
    note IH = Suc.IH [OF r(1) hs(1)]
    have "s \<notin> set hs'" using IH r(2) by auto
    have "free_entry (ent t h) \<and> h < ht_capacity t" if "h \<in> set hs'" for h
    proof -
      from that \<open>s \<notin> set hs'\<close> have "h \<noteq> s" by blast
      with IH that r(2,5) show ?thesis by auto
    qed
    moreover have "ent t' = reserved hs (ent t)"
      using IH r(2) hs(2) \<open>s \<notin> set hs'\<close> by (auto simp: reserved_def fun_eq_iff)
    ultimately show ?thesis
      using IH r(3,4) hs(2) \<open>s \<notin> set hs'\<close> by auto
  qed
qed (auto simp: reserved_def)

lemma abort_one_spec:
  assumes "ht_ok t"
  shows "ht_ok (abort_one h t)"
    "ent (abort_one h t) =
      (if he_state (ent t h) = A20_HS_CLOSING then (ent t)(h := (ent t h)\<lparr>he_state := A20_HS_FREE\<rparr>) else ent t)"
proof -
  let ?e = "(ent t h)\<lparr>he_state := A20_HS_FREE\<rparr>"
  have "ht_ok (abort_one h t) \<and> ent (abort_one h t) =
      (if he_state (ent t h) = A20_HS_CLOSING then (ent t)(h := ?e) else ent t)"
  proof (cases "he_state (ent t h) = A20_HS_CLOSING")
    case True
    then have h: "h < ht_capacity t" by (simp add: ent_def entry_zero_def split: if_splits)
    have ob: "he_object (ent t h) = 0"
      using ent_ok [OF assms, of h] True by (simp add: entry_ok_def live_entry_def)
    have eq: "abort_one h t = t\<lparr>ht_entries := (ht_entries t)[h := ?e], ht_bitmap := bm_clear (ht_bitmap t) h,
        ht_hint := (if h < ht_hint t then h else ht_hint t), ht_count := ht_count t - 1\<rparr>"
      using True h ob by (simp add: abort_one_def Let_def ht_free_slot_def ht_put_def ent_nth)
    have "entry_ok ?e" using ob by (simp add: entry_ok_def live_entry_def)
    then have "ht_ok (abort_one h t)"
      unfolding eq using assms h True by (intro free_ok) (simp_all add: ent_nth)
    moreover have "ent (abort_one h t) = (ent t)(h := ?e)"
      unfolding eq using h by (simp add: ent_update)
    ultimately show ?thesis using True by simp
  next
    case False
    with assms show ?thesis by (auto simp: abort_one_def ent_nth)
  qed
  then show "ht_ok (abort_one h t)" "ent (abort_one h t) =
      (if he_state (ent t h) = A20_HS_CLOSING then (ent t)(h := ?e) else ent t)" by simp_all
qed

lemma abort_reserved_spec:
  "ht_ok t \<Longrightarrow> ht_ok (a20_handle_abort_reserved hs t) \<and>
   ent (a20_handle_abort_reserved hs t) =
     (\<lambda>i. if i \<in> set hs \<and> he_state (ent t i) = A20_HS_CLOSING then (ent t i)\<lparr>he_state := A20_HS_FREE\<rparr> else ent t i)"
proof (induction hs arbitrary: t)
  case (Cons h hs)
  have "a20_handle_abort_reserved (h # hs) t = a20_handle_abort_reserved hs (abort_one h t)"
    by (simp add: a20_handle_abort_reserved_def)
  with Cons.IH [OF abort_one_spec(1) [OF Cons.prems]] abort_one_spec(2) [OF Cons.prems, of h]
  show ?case by (auto simp: fun_eq_iff)
qed (simp add: a20_handle_abort_reserved_def)

lemma abort_reserves:
  assumes "ht_ok t" "ent t = reserved hs f" "\<forall>h \<in> set hs. free_entry (f h)"
  shows "ent (a20_handle_abort_reserved hs t) = f"
proof -
  have "(f i)\<lparr>he_state := A20_HS_FREE\<rparr> = f i" if "i \<in> set hs" for i
    using assms(3) that by simp
  with abort_reserved_spec [OF assms(1), of hs] assms(2) show ?thesis
    by (auto simp: reserved_def fun_eq_iff)
qed

lemma reserve_many_spec:
  assumes ok: "ht_ok t" and run: "a20_handle_reserve_many mem n t = (r, t')"
  shows "ht_ok t'"
    "case r of Inl _ \<Rightarrow> ent t' = ent t
     | Inr hs \<Rightarrow> length hs = n \<and> distinct hs \<and> (\<forall>h \<in> set hs. free_entry (ent t h)) \<and> ent t' = reserved hs (ent t)"
proof -
  define t1 where "t1 = (if ht_capacity t - ht_count t < n then (case ht_grow mem t of Inl _ \<Rightarrow> t | Inr t' \<Rightarrow> t') else t)"
  have t1: "ht_ok t1" "ent t1 = ent t"
    using ok ht_grow_spec [OF ok] by (auto simp: t1_def split: sum.splits)
  obtain hs t2 where l: "reserve_loop n t1 = (hs, t2)" by force
  note ls = reserve_loop_spec [OF t1(1) l]
  have "ht_ok t' \<and> (case r of Inl _ \<Rightarrow> ent t' = ent t
     | Inr hs \<Rightarrow> length hs = n \<and> distinct hs \<and> (\<forall>h \<in> set hs. free_entry (ent t h)) \<and> ent t' = reserved hs (ent t))"
  proof (cases "n = 0 \<or> ht_capacity t1 - ht_count t1 < n")
    case True
    with run ok t1 show ?thesis
      by (auto simp: a20_handle_reserve_many_def Let_def reserved_def fun_eq_iff simp flip: t1_def split: if_splits)
  next
    case False
    show ?thesis
    proof (cases "length hs < n")
      case True
      with run False l have "r = Inl A20_ERR_NO_SPACE" "t' = a20_handle_abort_reserved hs t2"
        by (auto simp: a20_handle_reserve_many_def Let_def simp flip: t1_def)
      with abort_reserved_spec [of t2 hs] abort_reserves [of t2 hs "ent t"] ls t1 show ?thesis by simp
    next
      case ge: False
      with run False l have "r = Inr hs" "t' = t2"
        by (auto simp: a20_handle_reserve_many_def Let_def simp flip: t1_def)
      with ge ls t1 show ?thesis by auto
    qed
  qed
  then show "ht_ok t'" "case r of Inl _ \<Rightarrow> ent t' = ent t
     | Inr hs \<Rightarrow> length hs = n \<and> distinct hs \<and> (\<forall>h \<in> set hs. free_entry (ent t h)) \<and> ent t' = reserved hs (ent t)"
    by simp_all
qed

lemma commit_spec:
  assumes ok: "ht_ok t" and run: "a20_handle_commit_reserved_temporal h ob ty ri ex ops fl lb t = (r, t')"
    and new: "ob \<noteq> 0" "ex > 0 \<longrightarrow> fl AND A20_TEMPORAL_EXPIRY_ABSOLUTE \<noteq> 0"
  shows "ht_ok t'"
    "case r of Inl _ \<Rightarrow> t' = t \<and> he_state (ent t h) \<noteq> A20_HS_CLOSING
     | Inr _ \<Rightarrow> he_state (ent t h) = A20_HS_CLOSING \<and>
         ent t' = (ent t)(h := \<lparr>he_object = ob, he_type = ty, he_rights = valid_rights ty ri, he_expiry = ex,
           he_ops = ops, he_flags = fl, he_label = lb, he_state = A20_HS_ACTIVE\<rparr>)"
proof -
  have cond: "h \<ge> ht_capacity t \<or> he_state (ht_entries t ! h) \<noteq> A20_HS_CLOSING \<or> he_object (ht_entries t ! h) \<noteq> 0 \<longleftrightarrow>
      he_state (ent t h) \<noteq> A20_HS_CLOSING"
    using ent_ok [OF ok, of h]
    by (auto simp: ent_def entry_zero_def entry_ok_def live_entry_def split: if_splits)
  have h: "h < ht_capacity t" if "he_state (ent t h) = A20_HS_CLOSING"
    using that by (simp add: ent_def entry_zero_def split: if_splits)
  let ?e = "\<lparr>he_object = ob, he_type = ty, he_rights = valid_rights ty ri, he_expiry = ex,
           he_ops = ops, he_flags = fl, he_label = lb, he_state = A20_HS_ACTIVE\<rparr>"
  have "ht_ok (ht_put h ?e t)" if "he_state (ent t h) = A20_HS_CLOSING"
    using keep_ok [OF ok h [OF that], of ?e] new_entry_ok [OF new] that h [OF that] by (simp add: ent_nth)
  with run h ok ent_put show "ht_ok t'" "case r of Inl _ \<Rightarrow> t' = t \<and> he_state (ent t h) \<noteq> A20_HS_CLOSING
     | Inr _ \<Rightarrow> he_state (ent t h) = A20_HS_CLOSING \<and> ent t' = (ent t)(h := ?e)"
    unfolding a20_handle_commit_reserved_temporal_def cond by (auto split: if_splits)
qed

subsection \<open>The sweeper\<close>

definition swept :: "ht \<Rightarrow> ht \<Rightarrow> bool" where
  "swept t t' \<longleftrightarrow> (\<forall>h. ent t' h = ent t h \<or>
     he_state (ent t h) = A20_HS_ACTIVE \<and>
     (ent t' h = freed (ent t h) \<or> ent t' h = (ent t h)\<lparr>he_state := A20_HS_EXPIRED, he_rights := 0\<rparr>))"

lemma swept_refl: "swept t t"
  by (simp add: swept_def)

lemma swept_trans:
  assumes "swept t t1" "swept t1 t2"
  shows "swept t t2"
  unfolding swept_def
proof
  fix h
  have a: "ent t1 h = ent t h \<or> he_state (ent t h) = A20_HS_ACTIVE \<and>
     (ent t1 h = freed (ent t h) \<or> ent t1 h = (ent t h)\<lparr>he_state := A20_HS_EXPIRED, he_rights := 0\<rparr>)"
    using assms(1) by (simp add: swept_def)
  have b: "ent t2 h = ent t1 h \<or> he_state (ent t1 h) = A20_HS_ACTIVE \<and>
     (ent t2 h = freed (ent t1 h) \<or> ent t2 h = (ent t1 h)\<lparr>he_state := A20_HS_EXPIRED, he_rights := 0\<rparr>)"
    using assms(2) by (simp add: swept_def)
  from a show "ent t2 h = ent t h \<or> he_state (ent t h) = A20_HS_ACTIVE \<and>
     (ent t2 h = freed (ent t h) \<or> ent t2 h = (ent t h)\<lparr>he_state := A20_HS_EXPIRED, he_rights := 0\<rparr>)"
  proof (elim disjE conjE)
    assume "ent t1 h = ent t h"
    with b show ?thesis by simp
  next
    assume "he_state (ent t h) = A20_HS_ACTIVE" "ent t1 h = freed (ent t h)"
    with b show ?thesis by (simp add: freed_def)
  next
    assume "he_state (ent t h) = A20_HS_ACTIVE" "ent t1 h = (ent t h)\<lparr>he_state := A20_HS_EXPIRED, he_rights := 0\<rparr>"
    with b show ?thesis by simp
  qed
qed

lemma sweep_pass_spec:
  "ht_ok t \<Longrightarrow> (\<forall>i \<in> set is. i < ht_capacity t) \<Longrightarrow> sweep_pass now is objs t = (objs', t') \<Longrightarrow>
   ht_ok t' \<and> swept t t'"
proof (induction now "is" objs t rule: sweep_pass.induct)
  case (2 now i "is" objs t)
  let ?e = "ht_entries t ! i"
  have i: "i < ht_capacity t" using "2.prems"(2) by simp
  then have e: "?e = ent t i" by (rule ent_nth)
  consider "A20_SWEEP_BATCH \<le> length objs"
    | "\<not> A20_SWEEP_BATCH \<le> length objs" "he_object ?e = 0 \<or> he_state ?e \<noteq> A20_HS_ACTIVE \<or> \<not> entry_expired now ?e"
    | "\<not> A20_SWEEP_BATCH \<le> length objs" "\<not> (he_object ?e = 0 \<or> he_state ?e \<noteq> A20_HS_ACTIVE \<or> \<not> entry_expired now ?e)"
      "he_flags ?e AND A20_TEMPORAL_AUTO_CLOSE \<noteq> 0"
    | "\<not> A20_SWEEP_BATCH \<le> length objs" "\<not> (he_object ?e = 0 \<or> he_state ?e \<noteq> A20_HS_ACTIVE \<or> \<not> entry_expired now ?e)"
      "he_flags ?e AND A20_TEMPORAL_AUTO_CLOSE = 0" by argo
  then show ?case
  proof cases
    case 1
    with "2.prems" swept_refl show ?thesis by auto
  next
    case c: 2
    with "2.prems" "2.IH"(1) [OF c(1) refl c(2)] show ?thesis by (simp add: Let_def)
  next
    case c: 3
    have d: "ht_ok (ht_detach i t)" "ent (ht_detach i t) = (ent t)(i := freed (ent t i))"
      using detach_ok [OF "2.prems"(1) i] c(2) e by auto
    have "swept t (ht_detach i t)" using d(2) c(2) e by (simp add: swept_def)
    with "2.prems" "2.IH"(2) [OF c(1) refl c(2) c(3) d(1)] c d show ?thesis
      by (auto simp: Let_def intro: swept_trans)
  next
    case c: 4
    let ?x = "?e\<lparr>he_state := A20_HS_EXPIRED, he_rights := 0\<rparr>"
    have x: "entry_ok ?x"
      using ent_ok [OF "2.prems"(1), of i] c(2) e by (simp add: entry_ok_def live_entry_def)
    have k: "ht_ok (ht_put i ?x t)" using keep_ok [OF "2.prems"(1) i _ x] c(2) by simp
    have "swept t (ht_put i ?x t)" using c(2) e i by (simp add: swept_def ent_put)
    with "2.prems" "2.IH"(3) [OF c(1) refl c(2) _ k] c show ?thesis
      by (auto simp: Let_def intro: swept_trans)
  qed
qed (simp add: swept_refl)

lemma temporal_sweep_spec:
  "ht_ok t \<Longrightarrow> a20_temporal_sweep now k t = (t', evs) \<Longrightarrow> ht_ok t' \<and> swept t t'"
proof (induction now k t arbitrary: t' evs rule: a20_temporal_sweep.induct)
  case (1 now k t)
  obtain objs t1 where p: "sweep_pass (now k) [0..<ht_capacity t] [] t = (objs, t1)" by force
  have s: "ht_ok t1 \<and> swept t t1"
    using sweep_pass_spec [OF "1.prems"(1) _ p] by simp
  show ?case
  proof (cases "length objs < A20_SWEEP_BATCH")
    case True
    with "1.prems"(2) p s show ?thesis by (simp add: a20_temporal_sweep.simps [of now k t] Let_def)
  next
    case False
    obtain t2 ev2 where r: "a20_temporal_sweep now (k + 1) t1 = (t2, ev2)" by force
    with "1.prems"(2) p False have "t' = t2" by (simp add: a20_temporal_sweep.simps [of now k t] Let_def)
    with "1.IH" [OF p [symmetric] refl False _ r] s show ?thesis by (auto intro: swept_trans)
  qed
qed

end
