(* ===== verification/Handle_Table_Theorems.thy ===== *)
theory Handle_Table_Theorems
  imports Handle_Table_Safety
begin

text \<open>
  The properties of one handle table: every sequence of operations keeps its bookkeeping
  consistent, an installed capability is found under its handle and nowhere else, and the
  rights of a handle only ever shrink.
\<close>

unbundle bit_operations_syntax

subsection \<open>The operations as steps\<close>

inductive ht_step :: "ht \<Rightarrow> ht \<Rightarrow> bool" where
  install: "a20_handle_install_temporal mem ob ty ri ex ops fl lb t = (r, t', evs) \<Longrightarrow> ob \<noteq> 0 \<Longrightarrow>
    (ex > 0 \<longrightarrow> fl AND A20_TEMPORAL_EXPIRY_ABSOLUTE \<noteq> 0) \<Longrightarrow> ht_step t t'"
| install_plain: "a20_handle_install mem ob ty ri t = (r, t', evs) \<Longrightarrow> ob \<noteq> 0 \<Longrightarrow> ht_step t t'"
| install_at: "a20_handle_install_at_temporal mems s ob ty ri ex ops fl lb t = (r, t', evs) \<Longrightarrow> ob \<noteq> 0 \<Longrightarrow>
    (ex > 0 \<longrightarrow> fl AND A20_TEMPORAL_EXPIRY_ABSOLUTE \<noteq> 0) \<Longrightarrow> ht_step t t'"
| lookup: "a20_handle_lookup_ref_mode now h ty req ref t = (res, t', evs) \<Longrightarrow> ht_step t t'"
| remove: "a20_handle_remove h t = (u, t', evs) \<Longrightarrow> ht_step t t'"
| reserve: "a20_handle_reserve_many mem n t = (hs, t') \<Longrightarrow> ht_step t t'"
| abort: "ht_step t (a20_handle_abort_reserved hs t)"
| commit: "a20_handle_commit_reserved_temporal h ob ty ri ex ops fl lb t = (u, t') \<Longrightarrow> ob \<noteq> 0 \<Longrightarrow>
    (ex > 0 \<longrightarrow> fl AND A20_TEMPORAL_EXPIRY_ABSOLUTE \<noteq> 0) \<Longrightarrow> ht_step t t'"
| set_temporal: "a20_handle_set_temporal st now h ex ops fl t = (u, t', evs) \<Longrightarrow> ht_step t t'"
| set_label: "a20_handle_set_label h lb t = (u, t') \<Longrightarrow> ht_step t t'"
| sweep: "a20_temporal_sweep clock 0 t = (t', evs) \<Longrightarrow> ht_step t t'"
| table_label: "ht_step t (a20_ht_set_label lb t)"
| get_ref: "ht_step t (a20_ht_get_ref t)"
| put_ref: "a20_ht_put_ref t = (Some t', evs) \<Longrightarrow> ht_step t t'"
| sig_pend: "ht_step t (a20_ht_sig_pend sig t)"
| sig_take: "ht_step t (snd (a20_ht_sig_take t))"
| sig_block: "ht_step t (snd (a20_ht_sig_set_blocked m t))"

inductive ht_reachable :: "ht \<Rightarrow> bool" where
  created: "a20_ht_create True junk = Some t \<Longrightarrow> ht_reachable t"
| stepped: "ht_reachable t \<Longrightarrow> ht_step t t' \<Longrightarrow> ht_reachable t'"

lemma ht_ok_fields:
  assumes "ht_entries t' = ht_entries t" "ht_bitmap t' = ht_bitmap t" "ht_count t' = ht_count t" "ht_ok t"
  shows "ht_ok t' \<and> ent t' = ent t"
proof -
  have "ht_ok t' = ht_ok t" unfolding ht_ok_def assms(1-3) ..
  moreover have "ent t' = ent t" by (simp add: ent_def fun_eq_iff assms(1))
  ultimately show ?thesis using assms(4) by simp
qed

lemma quiet_fields:
  assumes "ht_ok t"
  shows "ht_ok (a20_ht_set_label lb t) \<and> ent (a20_ht_set_label lb t) = ent t"
    and "ht_ok (a20_ht_get_ref t) \<and> ent (a20_ht_get_ref t) = ent t"
    and "a20_ht_put_ref t = (Some t', evs) \<Longrightarrow> ht_ok t' \<and> ent t' = ent t"
    and "ht_ok (a20_ht_sig_pend sig t) \<and> ent (a20_ht_sig_pend sig t) = ent t"
    and "ht_ok (snd (a20_ht_sig_take t)) \<and> ent (snd (a20_ht_sig_take t)) = ent t"
    and "ht_ok (snd (a20_ht_sig_set_blocked m t)) \<and> ent (snd (a20_ht_sig_set_blocked m t)) = ent t"
  by (rule ht_ok_fields [OF _ _ _ assms];
      auto simp: a20_ht_set_label_def a20_ht_get_ref_def a20_ht_put_ref_def a20_ht_sig_pend_def
        a20_ht_sig_take_def a20_ht_sig_set_blocked_def split: if_splits)+

text \<open>What one step can do to one slot.\<close>

definition slot_step :: "handle_entry \<Rightarrow> handle_entry \<Rightarrow> bool" where
  "slot_step e e' \<longleftrightarrow> (live_entry e \<longrightarrow> free_entry e' \<or> live_entry e' \<and> cap_le e' e)"

lemma slot_step_same [simp]: "slot_step e e"
  by (simp add: slot_step_def)

lemma slot_step_fill: "free_entry e \<Longrightarrow> slot_step e e'"
  by (simp add: slot_step_def)

lemma installed_slot_step: "installed t e r t' \<Longrightarrow> slot_step (ent t h) (ent t' h)"
  by (auto simp: installed_def slot_step_fill split: sum.splits)

lemma expired_le: "cap_le (e\<lparr>he_state := A20_HS_EXPIRED, he_rights := 0\<rparr>) e"
  by (simp add: cap_le_def)

lemma ht_step_spec:
  assumes "ht_step t t'" "ht_ok t"
  shows "ht_ok t'" "slot_step (ent t h) (ent t' h)"
proof -
  from assms have "ht_ok t' \<and> slot_step (ent t h) (ent t' h)"
  proof cases
    case (install mem ob ty ri ex ops fl lb r evs)
    then show ?thesis
      using install_temporal_spec [OF assms(2)] installed_slot_step by (metis installed_def)
  next
    case (install_plain mem ob ty ri r evs)
    then have "installed t \<lparr>he_object = ob, he_type = ty, he_rights = valid_rights ty ri, he_expiry = 0,
        he_ops = 0, he_flags = 0, he_label = 0, he_state = A20_HS_ACTIVE\<rparr> r t'"
      using install_temporal_spec [OF assms(2)] by (simp add: install_eq_temporal)
    then show ?thesis using installed_slot_step by (metis installed_def)
  next
    case (install_at mems s ob ty ri ex ops fl lb r evs)
    then show ?thesis
      using install_at_spec [OF assms(2)] installed_slot_step by (metis installed_def)
  next
    case (lookup now h' ty req ref res evs)
    have "slot_step e (use_op e)" for e
      using use_op_props(1,2) [of e] by (simp add: slot_step_def live_entry_def)
    with lookup_ok [OF assms(2) lookup] show ?thesis by (auto split: sum.splits)
  next
    case (remove h' u evs)
    show ?thesis
      using remove_spec [OF assms(2) remove] by (auto simp: slot_step_def split: sum.splits)
  next
    case (reserve mem n hs)
    show ?thesis
      using reserve_many_spec [OF assms(2) reserve] by (auto simp: reserved_def slot_step_fill split: sum.splits)
  next
    case (abort hs)
    then show ?thesis
      using abort_reserved_spec [OF assms(2), of hs] by (auto simp: slot_step_def live_entry_def)
  next
    case (commit h' ob ty ri ex ops fl lb u)
    show ?thesis
      using commit_spec [OF assms(2) commit] by (auto simp: slot_step_def live_entry_def split: sum.splits)
  next
    case (set_temporal st now h' ex ops fl u evs)
    note s = set_temporal_spec [OF assms(2) set_temporal]
    show ?thesis
    proof (cases u)
      case (Inl e)
      with s assms(2) show ?thesis by simp
    next
      case (Inr v)
      with s obtain e where "ent t' = (ent t)(h' := e)" "he_state e = he_state (ent t h')" "cap_le e (ent t h')"
        by auto
      with s(1) show ?thesis by (cases "h = h'") (simp_all add: slot_step_def live_entry_def)
    qed
  next
    case (set_label h' lb u)
    note s = set_label_spec [OF assms(2) set_label]
    show ?thesis
    proof (cases u)
      case (Inl e)
      with s assms(2) show ?thesis by simp
    next
      case (Inr v)
      with s have "ent t' = (ent t)(h' := (ent t h')\<lparr>he_label := lb\<rparr>)" "he_label (ent t h') \<le> lb" by auto
      with s(1) show ?thesis by (cases "h = h'") (simp_all add: slot_step_def live_entry_def cap_le_def)
    qed
  next
    case (sweep clock evs)
    with temporal_sweep_spec [OF assms(2)] have s: "ht_ok t'" "swept t t'" by auto
    from s(2) have "ent t' h = ent t h \<or> ent t' h = freed (ent t h) \<or>
        ent t' h = (ent t h)\<lparr>he_state := A20_HS_EXPIRED, he_rights := 0\<rparr>"
      unfolding swept_def by blast
    then have "slot_step (ent t h) (ent t' h)"
      using expired_le by (auto simp: slot_step_def live_entry_def)
    with s(1) show ?thesis by simp
  next
    case (table_label lb)
    with quiet_fields(1) [OF assms(2)] show ?thesis by simp
  next
    case get_ref
    with quiet_fields(2) [OF assms(2)] show ?thesis by simp
  next
    case (put_ref evs)
    with quiet_fields(3) [OF assms(2)] show ?thesis by simp
  next
    case (sig_pend sig)
    with quiet_fields(4) [OF assms(2)] show ?thesis by simp
  next
    case sig_take
    with quiet_fields(5) [OF assms(2)] show ?thesis by simp
  next
    case (sig_block m)
    with quiet_fields(6) [OF assms(2)] show ?thesis by simp
  qed
  then show "ht_ok t'" "slot_step (ent t h) (ent t' h)" by simp_all
qed

lemma ht_fresh_ok:
  assumes "0 < n" "64 * n \<le> A20_HT_MAX_CAP" "ht_entries t = replicate (64 * n) entry_zero"
    "ht_bitmap t = replicate n 0" "ht_count t = 0"
  shows "ht_ok t" "ent t = (\<lambda>_. entry_zero)"
  using assms div64_less by (auto simp: ht_ok_def bm_used_def ent_def fun_eq_iff)

lemma ht_create_ok:
  assumes "a20_ht_create True junk = Some t"
  shows "ht_ok t" "ent t = (\<lambda>_. entry_zero)"
proof -
  have "ht_entries t = replicate (64 * 4) entry_zero" "ht_bitmap t = replicate 4 0" "ht_count t = 0"
    using assms by (auto simp: a20_ht_create_def ht_consts)
  with ht_fresh_ok [of 4 t] show "ht_ok t" "ent t = (\<lambda>_. entry_zero)"
    by (simp_all add: A20_HT_MAX_CAP_def)
qed

lemma ht_reachable_inv: "ht_reachable t \<Longrightarrow> ht_ok t"
  by (induction rule: ht_reachable.induct) (auto intro: ht_create_ok ht_step_spec)


text \<open>A run during which the handle stays in use, so that the slot is not given to another.\<close>

inductive ht_kept :: "nat \<Rightarrow> ht \<Rightarrow> ht \<Rightarrow> bool" for h where
  kept_refl: "live_entry (ent t h) \<Longrightarrow> ht_kept h t t"
| kept_step: "ht_kept h t t' \<Longrightarrow> ht_step t' t'' \<Longrightarrow> \<not> free_entry (ent t'' h) \<Longrightarrow> ht_kept h t t''"

lemma ht_kept_le:
  "ht_kept h t t' \<Longrightarrow> ht_ok t \<Longrightarrow> ht_ok t' \<and> live_entry (ent t' h) \<and> cap_le (ent t' h) (ent t h)"
proof (induction rule: ht_kept.induct)
  case (kept_step t t' t'')
  then have ok: "ht_ok t'" and live: "live_entry (ent t' h)" and le: "cap_le (ent t' h) (ent t h)" by auto
  note s = ht_step_spec [OF kept_step.hyps(2) ok]
  from s(2) [of h] live kept_step.hyps(3) have "live_entry (ent t'' h)" "cap_le (ent t'' h) (ent t' h)"
    by (auto simp: slot_step_def)
  with s(1) le show ?case by (auto intro: cap_le_trans)
qed simp

subsection \<open>Properties\<close>

definition demo_ht0 :: ht where
  "demo_ht0 = the (a20_ht_create True (3, 5))"

definition demo_ht1 :: ht where
  "demo_ht1 = fst (snd (a20_handle_install True 77 A20_OBJ_FILE (A20_RIGHT_READ OR A20_RIGHT_SIGNAL) demo_ht0))"

definition demo_ht2 :: ht where
  "demo_ht2 = fst (snd (a20_handle_set_temporal 10 5 0 0 1 A20_TEMPORAL_OP_COUNT demo_ht1))"

definition demo_ht3 :: ht where
  "demo_ht3 = fst (snd (a20_handle_lookup_ref_mode 6 0 A20_OBJ_FILE A20_RIGHT_READ True demo_ht2))"

lemma surjective_pairing3: "x = (fst x, fst (snd x), snd (snd x))"
  by simp

lemma demo_ht0_create: "a20_ht_create True (3, 5) = Some demo_ht0"
  by (simp add: demo_ht0_def a20_ht_create_def)

lemma demo_ht_steps: "ht_step demo_ht0 demo_ht1" "ht_step demo_ht1 demo_ht2" "ht_step demo_ht2 demo_ht3"
proof -
  show "ht_step demo_ht0 demo_ht1"
    unfolding demo_ht1_def by (rule ht_step.install_plain [OF surjective_pairing3]) simp
  show "ht_step demo_ht1 demo_ht2"
    unfolding demo_ht2_def by (rule ht_step.set_temporal [OF surjective_pairing3])
  show "ht_step demo_ht2 demo_ht3"
    unfolding demo_ht3_def by (rule ht_step.lookup [OF surjective_pairing3])
qed

lemma demo_ht_live: "live_entry (ent demo_ht1 0)" "\<not> free_entry (ent demo_ht2 0)" "\<not> free_entry (ent demo_ht3 0)"
  by code_simp+

lemma demo_ht_rights:
  "a20_effective_rights 5 (ent demo_ht1 0) = A20_RIGHT_READ" "a20_effective_rights 6 (ent demo_ht3 0) = 0"
  by code_simp+

text \<open>
  C33.  The bookkeeping of a handle table is consistent after every sequence of operations: the
  bitmap marks exactly the slots in use, the count is their number, the capacity stays within its
  limit, a slot that is free or reserved names no object, and a live one names an object, has
  only rights its type allows, and none when it has expired.
\<close>

theorem handle_table_consistent:
  assumes "ht_reachable t"
  shows "ht_ok t"
  using assms by (rule ht_reachable_inv)

theorem handle_table_consistent_witness: "ht_ok demo_ht3"
  by (rule handle_table_consistent)
    (intro ht_reachable.stepped [OF _ demo_ht_steps(3)] ht_reachable.stepped [OF _ demo_ht_steps(2)]
      ht_reachable.stepped [OF _ demo_ht_steps(1)] ht_reachable.created [OF demo_ht0_create])

text \<open>
  C34.  The rights of a handle decay: in a reachable table, over any sequence of operations
  during which the handle is not closed, it keeps naming the same object with the same type, no
  right is added, a deadline is neither removed nor moved back, no temporal flag is cleared, a
  budget of operations does not grow and the label is not lowered (\<^const>\<open>cap_le\<close>; a raised label
  forbids reads of lower processes but admits their writes).  So its effective
  rights at any later time are among the effective rights it had.
\<close>

theorem handle_rights_decay:
  assumes "ht_reachable t" and "ht_kept h t t'" and "now \<le> now'"
  shows "cap_le (ent t' h) (ent t h) \<and>
    bits_within (a20_effective_rights now' (ent t' h)) (a20_effective_rights now (ent t h))"
proof -
  have "cap_le (ent t' h) (ent t h)"
    using ht_kept_le [OF assms(2) ht_reachable_inv [OF assms(1)]] by simp
  then show ?thesis
    using effective_rights_decay [OF _ assms(3)] by simp
qed

theorem handle_rights_decay_witness:
  "bits_within (a20_effective_rights 6 (ent demo_ht3 0)) (a20_effective_rights 5 (ent demo_ht1 0)) \<and>
   a20_effective_rights 5 (ent demo_ht1 0) = A20_RIGHT_READ \<and> a20_effective_rights 6 (ent demo_ht3 0) = 0"
proof -
  have "ht_reachable demo_ht1"
    by (intro ht_reachable.stepped [OF _ demo_ht_steps(1)] ht_reachable.created [OF demo_ht0_create])
  moreover have "ht_kept 0 demo_ht1 demo_ht3"
    by (intro kept_step [OF _ demo_ht_steps(3)] kept_step [OF _ demo_ht_steps(2)] kept_refl demo_ht_live)
  ultimately show ?thesis
    using handle_rights_decay [of demo_ht1 0 demo_ht3 5 6] demo_ht_rights by simp
qed

end
