(* ===== verification/Channel.thy ===== *)
theory Channel
  imports Handle_Table
begin

text \<open>
  Channel endpoints and the lifetime of the objects that handles name
  (kernel/ipc/a20_channel.c, kernel/ipc/a20_object.c).  Endpoints live in a list of slots; an
  address is a position plus one, and a freed endpoint leaves an empty slot, so that the use of
  a freed one is visible: it sets the flag \<open>ip_uaf\<close>.  For the other kinds of objects only the
  count of references is kept, since their release belongs to other parts of the kernel.
  A program of the extension registry (kernel/ext/kep.c) is not counted here; \<open>ip_progs\<close> is the number of
  times its release was requested.
  Wake-ups and event notifications are recorded in a log.  The state also holds the handle
  tables of the processes, which the other tasks can change while a call sleeps.

  A call is one step between the points where it sleeps.  At each of them a script says what the
  other tasks do meanwhile and why the caller wakes, and goes on with what happens later; where
  the script ends the caller is still asleep, and the call has no result yet.
\<close>

unbundle bit_operations_syntax

subsection \<open>State\<close>

definition A20_CH_MAX_DATA :: nat where "A20_CH_MAX_DATA = 65536"
definition A20_CH_MAX_HANDLES :: nat where "A20_CH_MAX_HANDLES = 8"
definition A20_CH_DEFAULT_CAP :: nat where "A20_CH_DEFAULT_CAP = 64"
definition A20_MSG_NONBLOCK :: u32 where "A20_MSG_NONBLOCK = 1"
definition A20_CH_WAIT_RECV :: nat where "A20_CH_WAIT_RECV = 1"
definition A20_CH_WAIT_SEND :: nat where "A20_CH_WAIT_SEND = 2"

lemmas ch_consts = A20_CH_MAX_DATA_def A20_CH_MAX_HANDLES_def A20_CH_DEFAULT_CAP_def A20_MSG_NONBLOCK_def
  A20_CH_WAIT_RECV_def A20_CH_WAIT_SEND_def

datatype a20_event = A20_EVENT_MESSAGE_READY | A20_EVENT_PEER_CLOSED | A20_EVENT_CLOSED

record channel_type =
  ct_version :: u32
  ct_send_types :: u32
  ct_recv_types :: u32
  ct_max_data :: nat
  ct_max_handles :: nat
  ct_flags :: u32

record handle_info =
  hi_object :: obj
  hi_type :: u16
  hi_rights :: u64
  hi_expiry :: u64
  hi_ops :: u32
  hi_flags :: u32
  hi_label :: u8

record ch_message =
  msg_data :: "u8 list"
  msg_handles :: "handle_info list"

type_synonym tid = nat

record channel_ep =
  ep_refcount :: int
  ep_waiters :: "(tid \<times> nat) list"
  ep_peer :: obj
  ep_peer_closed :: bool
  ep_chan_type :: "channel_type option"
  ep_queue :: "ch_message list"
  ep_cap :: nat
  ep_total_data :: nat

datatype ipc_event = Notify obj a20_event | Unwatch obj | Wake tid

record ipc =
  ip_eps :: "channel_ep option list"
  ip_orefs :: "obj \<Rightarrow> int"
  ip_progs :: "obj \<Rightarrow> nat"
  ip_log :: "ipc_event list"
  ip_stat_eps :: int
  ip_stat_handles :: int
  ip_tabs :: "ht option list"
  ip_uaf :: bool

definition ep_at :: "ipc \<Rightarrow> obj \<Rightarrow> channel_ep option" where
  "ep_at s a = (if 0 < a \<and> a \<le> length (ip_eps s) then ip_eps s ! (a - 1) else None)"

text \<open>Changing an endpoint; a dereference of a freed one is recorded.\<close>

definition ep_upd :: "obj \<Rightarrow> (channel_ep \<Rightarrow> channel_ep) \<Rightarrow> ipc \<Rightarrow> ipc" where
  "ep_upd a f s = (case ep_at s a of
       None \<Rightarrow> s\<lparr>ip_uaf := True\<rparr>
     | Some ep \<Rightarrow> s\<lparr>ip_eps := (ip_eps s)[a - 1 := Some (f ep)]\<rparr>)"

definition ipc_log :: "ipc_event list \<Rightarrow> ipc \<Rightarrow> ipc" where
  "ipc_log evs s = s\<lparr>ip_log := ip_log s @ evs\<rparr>"

subsection \<open>Wait queues\<close>

fun collect_one :: "nat \<Rightarrow> (tid \<times> nat) list \<Rightarrow> tid option \<times> (tid \<times> nat) list" where
  "collect_one key [] = (None, [])"
| "collect_one key ((t, k) # ws) =
     (if key = 0 \<or> k = key then (Some t, ws)
      else case collect_one key ws of (r, ws') \<Rightarrow> (r, (t, k) # ws'))"

definition wait_queue_wake_one :: "obj \<Rightarrow> nat \<Rightarrow> ipc \<Rightarrow> ipc" where
  "wait_queue_wake_one a key s = (case ep_at s a of
       None \<Rightarrow> s\<lparr>ip_uaf := True\<rparr>
     | Some ep \<Rightarrow> (case collect_one key (ep_waiters ep) of
           (None, _) \<Rightarrow> s
         | (Some t, ws) \<Rightarrow> ipc_log [Wake t] (ep_upd a (ep_waiters_update (\<lambda>_. ws)) s)))"

definition wait_queue_wake_all :: "obj \<Rightarrow> ipc \<Rightarrow> ipc" where
  "wait_queue_wake_all a s = (case ep_at s a of
       None \<Rightarrow> s\<lparr>ip_uaf := True\<rparr>
     | Some ep \<Rightarrow> ipc_log (map (\<lambda>(t, k). Wake t) (ep_waiters ep)) (ep_upd a (ep_waiters_update (\<lambda>_. [])) s))"

definition wait_queue_peek_key :: "obj \<Rightarrow> nat \<Rightarrow> ipc \<Rightarrow> tid option" where
  "wait_queue_peek_key a key s = (case ep_at s a of
       None \<Rightarrow> None
     | Some ep \<Rightarrow> fst (collect_one key (ep_waiters ep)))"

definition wait_queue_link :: "obj \<Rightarrow> tid \<Rightarrow> nat \<Rightarrow> ipc \<Rightarrow> ipc" where
  "wait_queue_link a t key = ep_upd a (ep_waiters_update (\<lambda>ws. (t, key) # ws))"

definition wait_queue_unlink :: "obj \<Rightarrow> tid \<Rightarrow> ipc \<Rightarrow> ipc" where
  "wait_queue_unlink a t = ep_upd a (ep_waiters_update (filter (\<lambda>w. fst w \<noteq> t)))"

subsection \<open>References to objects\<close>

definition a20_object_is_vfile_backed :: "u16 \<Rightarrow> bool" where
  "a20_object_is_vfile_backed type \<longleftrightarrow>
     type = A20_OBJ_FILE \<or> type = A20_OBJ_DIRECTORY \<or> type = A20_OBJ_PIPE_ENDPOINT \<or>
     type = A20_OBJ_DEVICE \<or> type = A20_OBJ_SOCKET"

definition counted_type :: "u16 \<Rightarrow> bool" where
  "counted_type type \<longleftrightarrow>
     a20_object_is_vfile_backed type \<or> type = A20_OBJ_EVENT_QUEUE \<or> type = A20_OBJ_MEMORY \<or>
     type = A20_OBJ_TIMER \<or> type = A20_OBJ_NAMESPACE \<or> type = A20_OBJ_PAGER \<or> type = A20_OBJ_MONITOR \<or>
     type = A20_OBJ_VMAR"

definition refcount_inc :: "obj \<Rightarrow> ipc \<Rightarrow> ipc" where
  "refcount_inc a = ep_upd a (ep_refcount_update (\<lambda>n. n + 1))"

definition a20_object_ref :: "obj \<Rightarrow> u16 \<Rightarrow> ipc \<Rightarrow> ipc" where
  "a20_object_ref ob type s =
     (if ob = 0 then s
      else if type = A20_OBJ_CHANNEL_ENDPOINT then refcount_inc ob s
      else if counted_type type then s\<lparr>ip_orefs := (ip_orefs s)(ob := ip_orefs s ob + 1)\<rparr>
      else s)"

text \<open>Dropping one reference of an endpoint; when it was the last the endpoint is freed and the
  handles in its queue are returned, whose references are to be dropped next.\<close>

definition ep_put :: "obj \<Rightarrow> ipc \<Rightarrow> handle_info list \<times> ipc" where
  "ep_put a s = (case ep_at s a of
       None \<Rightarrow> ([], s\<lparr>ip_uaf := True\<rparr>)
     | Some ep \<Rightarrow>
         if ep_refcount ep - 1 \<noteq> 0 then ([], ep_upd a (ep_refcount_update (\<lambda>n. n - 1)) s)
         else
           let s1 = s\<lparr>ip_stat_eps := ip_stat_eps s - 1\<rparr>;
               s2 = (if ep_peer ep \<noteq> 0
                     then ipc_log [Notify (ep_peer ep) A20_EVENT_PEER_CLOSED]
                            (wait_queue_wake_all (ep_peer ep)
                              (ep_upd (ep_peer ep)
                                (\<lambda>p. p\<lparr>ep_peer_closed := True, ep_peer := (if ep_peer p = a then 0 else ep_peer p)\<rparr>) s1))
                     else s1);
               s3 = ipc_log [Notify a A20_EVENT_CLOSED, Unwatch a] s2
           in (concat (map msg_handles (ep_queue ep)), s3\<lparr>ip_eps := (ip_eps s3)[a - 1 := None]\<rparr>))"

definition queued :: "channel_ep option \<Rightarrow> nat" where
  "queued x = (case x of None \<Rightarrow> 0 | Some ep \<Rightarrow> length (concat (map msg_handles (ep_queue ep))))"

definition total_queued :: "ipc \<Rightarrow> nat" where
  "total_queued s = sum_list (map queued (ip_eps s))"

lemma sum_list_update_add:
  "i < length xs \<Longrightarrow> sum_list (map f (xs[i := x])) + f (xs ! i) = sum_list (map f xs) + (f x :: 'a::comm_monoid_add)"
proof -
  assume i: "i < length xs"
  then have "sum_list (map f xs) = sum_list (map f (take i xs)) + f (xs ! i) + sum_list (map f (drop (Suc i) xs))"
    by (subst (1) id_take_nth_drop [of i xs]) (simp_all add: ac_simps)
  with i show ?thesis by (simp add: upd_conv_take_nth_drop ac_simps)
qed

lemma ep_at_SomeD: "ep_at s a = Some ep \<Longrightarrow> a - 1 < length (ip_eps s) \<and> ip_eps s ! (a - 1) = Some ep \<and> 0 < a"
  by (auto simp: ep_at_def split: if_splits)

lemma total_queued_upd:
  assumes "\<And>ep. ep_queue (f ep) = ep_queue ep"
  shows "total_queued (ep_upd a f s) = total_queued s"
proof (cases "ep_at s a")
  case (Some ep)
  with sum_list_update_add [of "a - 1" "ip_eps s" queued "Some (f ep)"] ep_at_SomeD [OF Some] assms
  show ?thesis by (simp add: ep_upd_def total_queued_def queued_def)
qed (simp add: ep_upd_def total_queued_def)

lemma total_queued_same [simp]:
  "total_queued (ipc_log evs s) = total_queued s" "total_queued (s\<lparr>ip_uaf := b\<rparr>) = total_queued s"
  "total_queued (s\<lparr>ip_progs := g\<rparr>) = total_queued s" "total_queued (s\<lparr>ip_stat_eps := n\<rparr>) = total_queued s" "total_queued (s\<lparr>ip_orefs := f\<rparr>) = total_queued s"
  by (simp_all add: ipc_log_def total_queued_def)

lemma total_queued_wake_all [simp]: "total_queued (wait_queue_wake_all a s) = total_queued s"
  by (simp add: wait_queue_wake_all_def total_queued_upd split: option.splits)


lemma total_queued_free:
  assumes "ep_at s a = Some ep"
  shows "total_queued (s\<lparr>ip_eps := (ip_eps s)[a - 1 := None]\<rparr>) + length (concat (map msg_handles (ep_queue ep))) =
    total_queued s"
  using sum_list_update_add [of "a - 1" "ip_eps s" queued None] ep_at_SomeD [OF assms]
  by (simp add: total_queued_def queued_def)

lemma ep_at_upd: "ep_at (ep_upd b f s) a = (if a = b then map_option f (ep_at s a) else ep_at s a)"
  by (auto simp: ep_upd_def ep_at_def nth_list_update split: option.splits)

lemma ep_at_same [simp]:
  "ep_at (ipc_log evs s) a = ep_at s a" "ep_at (s\<lparr>ip_uaf := b\<rparr>) a = ep_at s a"
  "ep_at (s\<lparr>ip_stat_eps := n\<rparr>) a = ep_at s a" "ep_at (s\<lparr>ip_orefs := f\<rparr>) a = ep_at s a"
  "ep_at (s\<lparr>ip_progs := g\<rparr>) a = ep_at s a"
  by (simp_all add: ipc_log_def ep_at_def)

lemma ep_at_wake_all:
  "ep_at (wait_queue_wake_all b s) a =
     (if a = b then map_option (ep_waiters_update (\<lambda>_. [])) (ep_at s a) else ep_at s a)"
  by (auto simp: wait_queue_wake_all_def ep_at_upd split: option.splits)

lemma ep_put_queued:
  assumes "ep_put a s = (hs, s')"
  shows "length hs + total_queued s' = total_queued s"
proof (cases "ep_at s a")
  case None
  with assms show ?thesis by (auto simp: ep_put_def)
next
  case (Some ep)
  show ?thesis
  proof (cases "ep_refcount ep - 1 \<noteq> 0")
    case True
    with assms Some show ?thesis by (auto simp: ep_put_def total_queued_upd)
  next
    case False
    define s3 where "s3 = ipc_log [Notify a A20_EVENT_CLOSED, Unwatch a]
      (if ep_peer ep \<noteq> 0
       then ipc_log [Notify (ep_peer ep) A20_EVENT_PEER_CLOSED]
              (wait_queue_wake_all (ep_peer ep)
                (ep_upd (ep_peer ep)
                  (\<lambda>p. p\<lparr>ep_peer_closed := True, ep_peer := (if ep_peer p = a then 0 else ep_peer p)\<rparr>)
                  (s\<lparr>ip_stat_eps := ip_stat_eps s - 1\<rparr>)))
       else s\<lparr>ip_stat_eps := ip_stat_eps s - 1\<rparr>)"
    have q: "total_queued s3 = total_queued s" by (simp add: s3_def total_queued_upd)
    have "\<exists>ep'. ep_at s3 a = Some ep' \<and> ep_queue ep' = ep_queue ep"
      using Some by (cases "ep_peer ep = a") (auto simp: s3_def ep_at_upd ep_at_wake_all)
    then obtain ep' where ep': "ep_at s3 a = Some ep'" "ep_queue ep' = ep_queue ep" by blast
    from assms Some False have "hs = concat (map msg_handles (ep_queue ep))"
      "s' = s3\<lparr>ip_eps := (ip_eps s3)[a - 1 := None]\<rparr>"
      by (simp_all add: ep_put_def Let_def s3_def)
    with total_queued_free [OF ep'(1)] ep'(2) q show ?thesis by simp
  qed
qed

text \<open>Dropping one reference of another kind of object; the watches of a memory object are removed
  every time, those of a name space with its last reference.\<close>

definition drop_count :: "obj \<Rightarrow> u16 \<Rightarrow> ipc \<Rightarrow> ipc" where
  "drop_count ob type s =
     (let s1 = s\<lparr>ip_orefs := (ip_orefs s)(ob := ip_orefs s ob - 1)\<rparr>
      in if type = A20_OBJ_MEMORY \<or> type = A20_OBJ_NAMESPACE \<and> ip_orefs s1 ob = 0 then ipc_log [Unwatch ob] s1 else s1)"

lemma total_queued_drop_count [simp]: "total_queued (drop_count ob type s) = total_queued s"
  by (simp add: drop_count_def Let_def)

text \<open>Dropping references: releasing an endpoint can release those in its queue in turn.\<close>

function release_refs :: "(obj \<times> u16) list \<Rightarrow> ipc \<Rightarrow> ipc" where
  "release_refs [] s = s"
| "release_refs ((ob, type) # rest) s =
     (if ob = 0 then release_refs rest s
      else if type = A20_OBJ_CHANNEL_ENDPOINT then
        (case ep_put ob s of
           (hs, s1) \<Rightarrow> release_refs (map (\<lambda>h. (hi_object h, hi_type h)) hs @ rest) s1)
      else if counted_type type then
        release_refs rest (drop_count ob type s)
      else if type = A20_OBJ_EXT_PROG then
        release_refs rest (s\<lparr>ip_progs := (ip_progs s)(ob := ip_progs s ob + 1)\<rparr>)
      else release_refs rest s)"
  by pat_completeness auto
termination
proof (relation "measure (\<lambda>(work, s). length work + total_queued s)", goal_cases)
  case (3 ob type rest s hs s1)
  then show ?case using ep_put_queued [of ob s hs s1] by simp
qed simp_all

declare release_refs.simps(2) [simp del]

definition a20_object_release :: "obj \<Rightarrow> u16 \<Rightarrow> ipc \<Rightarrow> ipc" where
  "a20_object_release ob type = release_refs [(ob, type)]"

definition a20_channel_ep_release :: "obj \<Rightarrow> ipc \<Rightarrow> ipc" where
  "a20_channel_ep_release a s = (if a = 0 then s else release_refs [(a, A20_OBJ_CHANNEL_ENDPOINT)] s)"

definition ref_all :: "handle_info list \<Rightarrow> ipc \<Rightarrow> ipc" where
  "ref_all hs = fold (\<lambda>h. a20_object_ref (hi_object h) (hi_type h)) hs"

definition release_all :: "handle_info list \<Rightarrow> ipc \<Rightarrow> ipc" where
  "release_all hs = release_refs (map (\<lambda>h. (hi_object h, hi_type h)) hs)"

definition ch_msg_free :: "ch_message \<Rightarrow> bool \<Rightarrow> ipc \<Rightarrow> ipc" where
  "ch_msg_free m release s = (if release then release_all (msg_handles m) s else s)"

subsection \<open>Endpoints\<close>

definition type_admits :: "u32 \<Rightarrow> handle_info list \<Rightarrow> bool" where
  "type_admits types hs \<longleftrightarrow> (\<forall>h \<in> set hs. types AND push_bit (unat (hi_type h)) 1 \<noteq> 0)"

definition ch_check_send_types :: "channel_type option \<Rightarrow> handle_info list \<Rightarrow> a20_err option" where
  "ch_check_send_types ct hs = (case ct of
       None \<Rightarrow> None
     | Some c \<Rightarrow> if type_admits (ct_send_types c) hs then None else Some A20_ERR_TYPE_MISMATCH)"

definition ch_check_recv_types :: "channel_type option \<Rightarrow> handle_info list \<Rightarrow> a20_err option" where
  "ch_check_recv_types ct hs = (case ct of
       None \<Rightarrow> None
     | Some c \<Rightarrow> if type_admits (ct_recv_types c) hs then None else Some A20_ERR_TYPE_MISMATCH)"

definition new_ep :: "obj \<Rightarrow> nat \<Rightarrow> channel_type option \<Rightarrow> channel_ep" where
  "new_ep peer cap type = \<lparr>ep_refcount = 1, ep_waiters = [], ep_peer = peer, ep_peer_closed = False,
     ep_chan_type = type, ep_queue = [], ep_cap = cap, ep_total_data = 0\<rparr>"

text \<open>The first endpoint of the new pair, its peer is the next address.\<close>

definition a20_channel_create :: "bool \<Rightarrow> nat \<Rightarrow> channel_type option \<Rightarrow> ipc \<Rightarrow> obj \<times> ipc" where
  "a20_channel_create mem msg_cap type s =
     (let cap = (if msg_cap = 0 then A20_CH_DEFAULT_CAP else msg_cap);
          a = length (ip_eps s) + 1
      in if \<not> mem then (0, s)
         else (a, s\<lparr>ip_eps := ip_eps s @ [Some (new_ep (a + 1) cap type), Some (new_ep a cap type)],
                    ip_stat_eps := ip_stat_eps s + 2\<rparr>))"

text \<open>The referenced peer of an endpoint, zero when it is gone.\<close>

definition a20_channel_ep_peer_ref :: "obj \<Rightarrow> ipc \<Rightarrow> obj \<times> ipc" where
  "a20_channel_ep_peer_ref a s =
     (if a = 0 then (0, s)
      else case ep_at s a of
        None \<Rightarrow> (0, s\<lparr>ip_uaf := True\<rparr>)
      | Some ep \<Rightarrow>
          if ep_peer ep = 0 then (0, s)
          else case ep_at s (ep_peer ep) of
            None \<Rightarrow> (0, s\<lparr>ip_uaf := True\<rparr>)
          | Some p \<Rightarrow> if ep_refcount p = 0 then (0, s) else (ep_peer ep, refcount_inc (ep_peer ep) s))"

datatype enqueue_result = Enqueued | Queue_Full | Enqueue_Err a20_err

definition ch_try_enqueue :: "obj \<Rightarrow> ch_message \<Rightarrow> bool \<Rightarrow> ipc \<Rightarrow> enqueue_result \<times> ipc" where
  "ch_try_enqueue a m defer_wake s =
     (case a20_channel_ep_peer_ref a s of
        (peer, s1) \<Rightarrow>
          if peer = 0 then (Enqueue_Err A20_ERR_CANCELED, s1)
          else case ep_at s1 peer of
            None \<Rightarrow> (Enqueue_Err A20_ERR_CANCELED, s1\<lparr>ip_uaf := True\<rparr>)
          | Some p \<Rightarrow>
              if ep_peer_closed p then (Enqueue_Err A20_ERR_CANCELED, a20_channel_ep_release peer s1)
              else if length (ep_queue p) \<ge> ep_cap p then (Queue_Full, a20_channel_ep_release peer s1)
              else
                let s2 = ep_upd peer (\<lambda>p. p\<lparr>ep_queue := ep_queue p @ [m],
                           ep_total_data := ep_total_data p + length (msg_data m)\<rparr>) s1;
                    s3 = (if defer_wake then s2 else wait_queue_wake_one peer A20_CH_WAIT_RECV s2);
                    s4 = ipc_log [Notify peer A20_EVENT_MESSAGE_READY] s3
                in (Enqueued, a20_channel_ep_release peer s4))"

text \<open>The script of the waits of a call.  In \<open>Wait before retry during reason rest\<close> the others do
  \<open>before\<close> until the task has linked itself into the wait queue; when it need not sleep any more it
  goes on with \<open>retry\<close>, otherwise the others do \<open>during\<close>, it wakes for \<open>reason\<close> and goes on with \<open>rest\<close>.
  In \<open>No_Link before rest\<close> the link fails, where it is still tried after \<open>before\<close>: the task does not sleep, its wait
  ends with \<^const>\<open>PROC_WAKE_CANCEL\<close>, which is no interrupt, and it goes on with \<open>rest\<close>.  With \<open>No_Park\<close> the
  task cannot sleep.\<close>

datatype waits = Asleep | No_Park | No_Link "ipc \<Rightarrow> ipc" waits | Wait "ipc \<Rightarrow> ipc" waits "ipc \<Rightarrow> ipc" wake_reason waits

definition peer_full :: "obj \<Rightarrow> ipc \<Rightarrow> bool" where
  "peer_full peer s = (case ep_at s peer of
       None \<Rightarrow> False | Some p \<Rightarrow> \<not> ep_peer_closed p \<and> length (ep_queue p) \<ge> ep_cap p)"

text \<open>The wait of a sender: \<open>Inl\<close> ends the call, \<open>Inr\<close> tries again and tells whether it has slept.\<close>

definition send_wait :: "tid \<Rightarrow> obj \<Rightarrow> (ipc \<Rightarrow> ipc) \<Rightarrow> (ipc \<Rightarrow> ipc) \<Rightarrow> wake_reason \<Rightarrow> ipc \<Rightarrow> (a20_err + bool) \<times> ipc" where
  "send_wait me a before during reason s =
     (case a20_channel_ep_peer_ref a (before s) of
        (peer, s1) \<Rightarrow>
          if peer = 0 then (Inl A20_ERR_CANCELED, s1)
          else if peer_full peer s1 then
            let s2 = wait_queue_link peer me A20_CH_WAIT_SEND s1;
                s3 = a20_channel_ep_release peer (wait_queue_unlink peer me (during s2))
            in if proc_wake_reason_is_task_interrupt reason then (Inl A20_ERR_INTERRUPTED, s3) else (Inr True, s3)
          else (Inr False, a20_channel_ep_release peer s1))"

text \<open>A wait whose link fails, or that is not needed any more, only takes and drops the reference to the peer.\<close>

definition send_no_link :: "obj \<Rightarrow> (ipc \<Rightarrow> ipc) \<Rightarrow> ipc \<Rightarrow> a20_err option \<times> ipc" where
  "send_no_link a before s =
     (case a20_channel_ep_peer_ref a (before s) of
        (peer, s1) \<Rightarrow> if peer = 0 then (Some A20_ERR_CANCELED, s1) else (None, a20_channel_ep_release peer s1))"

text \<open>The state in which a sender is asleep.\<close>

definition send_asleep :: "tid \<Rightarrow> obj \<Rightarrow> ipc \<Rightarrow> ipc" where
  "send_asleep me a s = (case a20_channel_ep_peer_ref a s of
       (peer, s1) \<Rightarrow> wait_queue_link peer me A20_CH_WAIT_SEND s1)"

fun send_loop :: "tid \<Rightarrow> obj \<Rightarrow> ch_message \<Rightarrow> bool \<Rightarrow> bool \<Rightarrow> waits \<Rightarrow> ipc \<Rightarrow>
    (a20_err + unit) option \<times> ipc" where
  "send_loop me a m nonblock defer_wake ws s =
     (case ch_try_enqueue a m defer_wake s of
        (Enqueued, s1) \<Rightarrow> (Some (Inr ()), s1)
      | (Enqueue_Err e, s1) \<Rightarrow> (Some (Inl e), ch_msg_free m True s1)
      | (Queue_Full, s1) \<Rightarrow>
          if nonblock then (Some (Inl A20_ERR_WOULD_BLOCK), ch_msg_free m True s1)
          else (case ws of
              Asleep \<Rightarrow> (None, send_asleep me a s1)
            | No_Park \<Rightarrow> (Some (Inl A20_ERR_WOULD_BLOCK), ch_msg_free m True s1)
            | No_Link before rest \<Rightarrow>
                (case send_no_link a before s1 of
                   (Some e, s2) \<Rightarrow> (Some (Inl e), ch_msg_free m True s2)
                 | (None, s2) \<Rightarrow> send_loop me a m nonblock defer_wake rest s2)
            | Wait before retry during reason rest \<Rightarrow>
                (case send_wait me a before during reason s1 of
                   (Inl e, s2) \<Rightarrow> (Some (Inl e), ch_msg_free m True s2)
                 | (Inr slept, s2) \<Rightarrow>
                     if slept then send_loop me a m nonblock defer_wake rest s2
                     else send_loop me a m nonblock defer_wake retry s2)))"

declare send_loop.simps [simp del]

definition ep_type_of :: "obj \<Rightarrow> ipc \<Rightarrow> channel_type option" where
  "ep_type_of a s = (case ep_at s a of None \<Rightarrow> None | Some ep \<Rightarrow> ep_chan_type ep)"

definition send_type_check :: "channel_type option \<Rightarrow> nat \<Rightarrow> handle_info list \<Rightarrow> a20_err option" where
  "send_type_check ct len hs = (case ct of
       None \<Rightarrow> None
     | Some c \<Rightarrow>
         if ct_max_data c \<noteq> 0 \<and> len > ct_max_data c then Some A20_ERR_INVALID_ARGUMENT
         else if ct_max_handles c \<noteq> 0 \<and> length hs > ct_max_handles c then Some A20_ERR_INVALID_ARGUMENT
         else if hs \<noteq> [] then ch_check_send_types ct hs
         else None)"

definition finish_call :: "obj \<Rightarrow> 'r option \<times> ipc \<Rightarrow> 'r option \<times> ipc" where
  "finish_call a = (\<lambda>(r, s). case r of None \<Rightarrow> (None, s) | Some x \<Rightarrow> (Some x, a20_channel_ep_release a s))"

definition a20_channel_send_dwc ::
  "bool \<Rightarrow> tid \<Rightarrow> obj \<Rightarrow> u8 list \<Rightarrow> handle_info list \<Rightarrow> u32 \<Rightarrow> bool \<Rightarrow> waits \<Rightarrow> ipc \<Rightarrow>
    (a20_err + unit) option \<times> ipc" where
  "a20_channel_send_dwc mem me a data hs flags defer_wake ws s =
     (if a = 0 then (Some (Inl A20_ERR_BAD_HANDLE), s)
      else if length data > A20_CH_MAX_DATA then (Some (Inl A20_ERR_INVALID_ARGUMENT), s)
      else if length hs > A20_CH_MAX_HANDLES then (Some (Inl A20_ERR_INVALID_ARGUMENT), s)
      else if flags AND NOT A20_MSG_NONBLOCK \<noteq> 0 then (Some (Inl A20_ERR_INVALID_ARGUMENT), s)
      else
        let s1 = refcount_inc a s
        in finish_call a (case send_type_check (ep_type_of a s1) (length data) hs of
             Some e \<Rightarrow> (Some (Inl e), s1)
           | None \<Rightarrow>
               let s2 = ref_all hs s1
               in if \<not> mem then (Some (Inl A20_ERR_NO_MEMORY), release_all hs s2)
                  else send_loop me a \<lparr>msg_data = data, msg_handles = hs\<rparr> (flags AND A20_MSG_NONBLOCK \<noteq> 0)
                         defer_wake ws s2))"

definition a20_channel_send ::
  "bool \<Rightarrow> tid \<Rightarrow> obj \<Rightarrow> u8 list \<Rightarrow> handle_info list \<Rightarrow> u32 \<Rightarrow> waits \<Rightarrow> ipc \<Rightarrow> (a20_err + unit) option \<times> ipc" where
  "a20_channel_send mem me a data hs flags ws s = a20_channel_send_dwc mem me a data hs flags False ws s"

subsection \<open>Receiving\<close>

text \<open>Taking the head message off the queue wakes one sender.\<close>

definition ch_dequeue :: "obj \<Rightarrow> ipc \<Rightarrow> ipc" where
  "ch_dequeue a s = wait_queue_wake_one a A20_CH_WAIT_SEND
     (ep_upd a (\<lambda>ep. ep\<lparr>ep_queue := tl (ep_queue ep),
        ep_total_data := ep_total_data ep - length (msg_data (hd (ep_queue ep)))\<rparr>) s)"

text \<open>The part both forms of \<^verbatim>\<open>recv_begin\<close> share: the head message can be delivered, has the wrong
  types and is discarded, or there is nothing yet.\<close>

datatype recv_try = Ready ch_message | Recv_Err a20_err | Recv_Empty

definition recv_try :: "obj \<Rightarrow> bool \<Rightarrow> ipc \<Rightarrow> recv_try \<times> ipc" where
  "recv_try a nonblock s = (case ep_at s a of
       None \<Rightarrow> (Recv_Err A20_ERR_CANCELED, s\<lparr>ip_uaf := True\<rparr>)
     | Some ep \<Rightarrow> (case ep_queue ep of
           m # _ \<Rightarrow> (case (if msg_handles m \<noteq> [] then ch_check_recv_types (ep_chan_type ep) (msg_handles m) else None) of
               Some e \<Rightarrow> (Recv_Err e, ch_msg_free m True (ch_dequeue a s))
             | None \<Rightarrow> (Ready m, s))
         | [] \<Rightarrow>
             if ep_peer_closed ep then (Recv_Err A20_ERR_CANCELED, s)
             else if nonblock then (Recv_Err A20_ERR_WOULD_BLOCK, s)
             else (Recv_Empty, s)))"

definition ep_idle :: "obj \<Rightarrow> ipc \<Rightarrow> bool" where
  "ep_idle a s = (case ep_at s a of None \<Rightarrow> False | Some ep \<Rightarrow> ep_queue ep = [] \<and> \<not> ep_peer_closed ep)"

definition recv_wait :: "tid \<Rightarrow> obj \<Rightarrow> (ipc \<Rightarrow> ipc) \<Rightarrow> (ipc \<Rightarrow> ipc) \<Rightarrow> wake_reason \<Rightarrow> ipc \<Rightarrow> (a20_err + bool) \<times> ipc" where
  "recv_wait me a before during reason s =
     (let s1 = before s
      in if ep_idle a s1 then
           let s2 = wait_queue_unlink a me (during (wait_queue_link a me A20_CH_WAIT_RECV s1))
           in if proc_wake_reason_is_task_interrupt reason then (Inl A20_ERR_INTERRUPTED, s2) else (Inr True, s2)
         else (Inr False, s1))"

text \<open>On success the reference taken here is still held, as is the endpoint's lock: nobody else
  touches the queue before \<open>recv_finish\<close> or \<open>recv_abort\<close>.\<close>

fun recv_loop :: "tid \<Rightarrow> obj \<Rightarrow> bool \<Rightarrow> waits \<Rightarrow> ipc \<Rightarrow> (a20_err + ch_message) option \<times> ipc" where
  "recv_loop me a nonblock ws s =
     (case recv_try a nonblock s of
        (Ready m, s1) \<Rightarrow> (Some (Inr m), s1)
      | (Recv_Err e, s1) \<Rightarrow> (Some (Inl e), a20_channel_ep_release a s1)
      | (Recv_Empty, s1) \<Rightarrow> (case ws of
            Asleep \<Rightarrow> (None, wait_queue_link a me A20_CH_WAIT_RECV s1)
          | No_Park \<Rightarrow> (Some (Inl A20_ERR_WOULD_BLOCK), a20_channel_ep_release a s1)
          | No_Link before rest \<Rightarrow> recv_loop me a nonblock rest (before s1)
          | Wait before retry during reason rest \<Rightarrow> (case recv_wait me a before during reason s1 of
                (Inl e, s2) \<Rightarrow> (Some (Inl e), a20_channel_ep_release a s2)
              | (Inr slept, s2) \<Rightarrow>
                  if slept then recv_loop me a nonblock rest s2 else recv_loop me a nonblock retry s2)))"

declare recv_loop.simps [simp del]

definition a20_channel_recv_begin ::
  "tid \<Rightarrow> obj \<Rightarrow> u32 \<Rightarrow> waits \<Rightarrow> ipc \<Rightarrow> (a20_err + ch_message) option \<times> ipc" where
  "a20_channel_recv_begin me a flags ws s =
     (if a = 0 then (Some (Inl A20_ERR_BAD_HANDLE), s)
      else if flags AND NOT A20_MSG_NONBLOCK \<noteq> 0 then (Some (Inl A20_ERR_INVALID_ARGUMENT), s)
      else recv_loop me a (flags AND A20_MSG_NONBLOCK \<noteq> 0) ws (refcount_inc a s))"

definition a20_channel_recv_abort :: "obj \<Rightarrow> ipc \<Rightarrow> ipc" where
  "a20_channel_recv_abort a s = a20_channel_ep_release a s"

text \<open>The hand-off or the wake a caller of \<open>channel_call\<close> owes the receiver when it goes to sleep; it happens
  only once the caller is linked, so that a link that fails keeps it for a later wait.
  The first time \<open>don\<close> is \<open>Some can_donate\<close>, where \<open>can_donate\<close> tells whether the receiver that is
  found is parked on this processor (\<^verbatim>\<open>proc_park_commit_donate\<close> in kernel/proc/park.c); later it is
  \<^const>\<open>None\<close>.\<close>

definition donate :: "bool option \<Rightarrow> obj \<Rightarrow> ipc \<Rightarrow> ipc" where
  "donate don a s = (case ep_at s a of
       None \<Rightarrow> s\<lparr>ip_uaf := True\<rparr>
     | Some ep \<Rightarrow>
         (let peer = ep_peer ep;
              reachable = (peer \<noteq> 0 \<and> (case ep_at s peer of None \<Rightarrow> False | Some p \<Rightarrow> \<not> ep_peer_closed p));
              target = (if reachable \<and> don \<noteq> None then wait_queue_peek_key peer A20_CH_WAIT_RECV s else None)
          in case target of
               Some t \<Rightarrow> if don = Some True then ipc_log [Wake t] s else s
             | None \<Rightarrow> if reachable then wait_queue_wake_one peer A20_CH_WAIT_RECV s else s))"

definition recv_wait_donate ::
  "bool option \<Rightarrow> tid \<Rightarrow> obj \<Rightarrow> (ipc \<Rightarrow> ipc) \<Rightarrow> (ipc \<Rightarrow> ipc) \<Rightarrow> wake_reason \<Rightarrow> ipc \<Rightarrow> (a20_err + bool) \<times> ipc" where
  "recv_wait_donate don me a before during reason s =
     (let s1 = before s
      in if ep_idle a s1 then
           let s2 = wait_queue_unlink a me (during (donate don a (wait_queue_link a me A20_CH_WAIT_RECV s1)))
           in if proc_wake_reason_is_task_interrupt reason then (Inl A20_ERR_INTERRUPTED, s2) else (Inr True, s2)
         else (Inr False, s1))"

fun recv_loop_donate ::
  "bool option \<Rightarrow> tid \<Rightarrow> obj \<Rightarrow> bool \<Rightarrow> waits \<Rightarrow> ipc \<Rightarrow> (a20_err + ch_message) option \<times> ipc" where
  "recv_loop_donate don me a nonblock ws s =
     (case recv_try a nonblock s of
        (Ready m, s1) \<Rightarrow> (Some (Inr m), s1)
      | (Recv_Err e, s1) \<Rightarrow> (Some (Inl e), a20_channel_ep_release a s1)
      | (Recv_Empty, s1) \<Rightarrow> (case ws of
            Asleep \<Rightarrow> (None, donate don a (wait_queue_link a me A20_CH_WAIT_RECV s1))
          | No_Park \<Rightarrow> (Some (Inl A20_ERR_WOULD_BLOCK), a20_channel_ep_release a s1)
          | No_Link before rest \<Rightarrow> recv_loop_donate don me a nonblock rest (before s1)
          | Wait before retry during reason rest \<Rightarrow> (case recv_wait_donate don me a before during reason s1 of
                (Inl e, s2) \<Rightarrow> (Some (Inl e), a20_channel_ep_release a s2)
              | (Inr slept, s2) \<Rightarrow>
                  if slept then recv_loop_donate None me a nonblock rest s2
                  else recv_loop_donate don me a nonblock retry s2)))"

declare recv_loop_donate.simps [simp del]


definition a20_channel_recv_begin_donate ::
  "bool \<Rightarrow> tid \<Rightarrow> obj \<Rightarrow> u32 \<Rightarrow> waits \<Rightarrow> ipc \<Rightarrow> (a20_err + ch_message) option \<times> ipc" where
  "a20_channel_recv_begin_donate can_donate me a flags ws s =
     (if a = 0 then (Some (Inl A20_ERR_BAD_HANDLE), s)
      else if flags AND NOT A20_MSG_NONBLOCK \<noteq> 0 then (Some (Inl A20_ERR_INVALID_ARGUMENT), s)
      else recv_loop_donate (Some can_donate) me a (flags AND A20_MSG_NONBLOCK \<noteq> 0) ws (refcount_inc a s))"

text \<open>Delivery: \<open>data_cap\<close> and \<open>handle_cap\<close> are the sizes of the buffers, \<^const>\<open>None\<close> for a null pointer.
  The references of the handles pass to the receiver.\<close>

definition a20_channel_recv_finish ::
  "obj \<Rightarrow> nat option \<Rightarrow> nat option \<Rightarrow> ipc \<Rightarrow> (a20_err + ch_message) \<times> ipc" where
  "a20_channel_recv_finish a data_cap handle_cap s = (case ep_at s a of
       None \<Rightarrow> (Inl A20_ERR_WOULD_BLOCK, s\<lparr>ip_uaf := True\<rparr>)
     | Some ep \<Rightarrow> (case ep_queue ep of
           [] \<Rightarrow> (Inl A20_ERR_WOULD_BLOCK, a20_channel_ep_release a s)
         | m # _ \<Rightarrow>
             if msg_data m \<noteq> [] \<and> (case data_cap of None \<Rightarrow> True | Some c \<Rightarrow> c < length (msg_data m))
             then (Inl A20_ERR_NO_SPACE, a20_channel_ep_release a s)
             else if msg_handles m \<noteq> [] \<and> (case handle_cap of None \<Rightarrow> True | Some c \<Rightarrow> c < length (msg_handles m))
             then (Inl A20_ERR_NO_SPACE, a20_channel_ep_release a s)
             else (case (if msg_handles m \<noteq> [] then ch_check_recv_types (ep_chan_type ep) (msg_handles m) else None) of
                 Some e \<Rightarrow> (Inl e, a20_channel_ep_release a s)
               | None \<Rightarrow> (Inr m, a20_channel_ep_release a (ch_msg_free m False (ch_dequeue a s))))))"

definition a20_channel_recv ::
  "tid \<Rightarrow> obj \<Rightarrow> nat option \<Rightarrow> nat option \<Rightarrow> u32 \<Rightarrow> waits \<Rightarrow> ipc \<Rightarrow> (a20_err + ch_message) option \<times> ipc" where
  "a20_channel_recv me a data_cap handle_cap flags ws s =
     (case a20_channel_recv_begin me a flags ws s of
        (None, s1) \<Rightarrow> (None, s1)
      | (Some (Inl e), s1) \<Rightarrow> (Some (Inl e), s1)
      | (Some (Inr m), s1) \<Rightarrow>
          if msg_data m \<noteq> [] \<and> (case data_cap of None \<Rightarrow> True | Some c \<Rightarrow> c < length (msg_data m)) \<or>
             msg_handles m \<noteq> [] \<and> (case handle_cap of None \<Rightarrow> True | Some c \<Rightarrow> c < length (msg_handles m))
          then (Some (Inl A20_ERR_NO_SPACE), a20_channel_recv_abort a s1)
          else (case a20_channel_recv_finish a data_cap handle_cap s1 of (r, s2) \<Rightarrow> (Some r, s2)))"

subsection \<open>Readiness and shutdown\<close>

definition a20_channel_readable :: "obj \<Rightarrow> ipc \<Rightarrow> bool" where
  "a20_channel_readable a s = (a \<noteq> 0 \<and> (case ep_at s a of
       None \<Rightarrow> False | Some ep \<Rightarrow> ep_queue ep \<noteq> [] \<or> ep_peer_closed ep))"

definition a20_channel_writable :: "obj \<Rightarrow> ipc \<Rightarrow> bool \<times> ipc" where
  "a20_channel_writable a s = (case a20_channel_ep_peer_ref a s of
       (peer, s1) \<Rightarrow>
         if peer = 0 then (False, s1)
         else (case ep_at s1 peer of
             None \<Rightarrow> (False, s1\<lparr>ip_uaf := True\<rparr>)
           | Some p \<Rightarrow> (\<not> ep_peer_closed p \<and> length (ep_queue p) < ep_cap p, a20_channel_ep_release peer s1)))"

definition a20_channel_peer_closed :: "obj \<Rightarrow> ipc \<Rightarrow> bool" where
  "a20_channel_peer_closed a s = (a \<noteq> 0 \<and> (case ep_at s a of None \<Rightarrow> False | Some ep \<Rightarrow> ep_peer_closed ep))"

definition a20_channel_ep_peer_shutdown :: "obj \<Rightarrow> ipc \<Rightarrow> ipc" where
  "a20_channel_ep_peer_shutdown a s =
     (if a = 0 then s
      else case ep_at s a of
        None \<Rightarrow> s\<lparr>ip_uaf := True\<rparr>
      | Some ep \<Rightarrow>
          if ep_peer ep = 0 then s
          else ipc_log [Notify (ep_peer ep) A20_EVENT_PEER_CLOSED]
                 (wait_queue_wake_all (ep_peer ep) (ep_upd (ep_peer ep) (ep_peer_closed_update (\<lambda>_. True)) s)))"

end
