(* ===== verification/Native_Handle.thy ===== *)
theory Native_Handle
  imports Channel
begin

text \<open>
  The native system calls on handles (kernel/abi/native/sys_core.c, the handle operations of
  kernel/abi/native/sys_native_fs.c and \<^verbatim>\<open>sys_a20_vm_share\<close> of kernel/abi/native/sys_native_mm.c)
  and what a new task inherits from its parent (\<^verbatim>\<open>sys_a20_task_clone\<close>, \<^verbatim>\<open>sys_a20_task_spawn\<close>), the service
  registry (kernel/abi/native/registry.c) and the label of a process (sys_native_security.c).  They
  compose the handle tables of the processes with the objects the handles name.

  \<open>p\<close> is the calling process, \<open>clock i\<close> the tick at the \<open>i\<close>-th lookup of a call and \<open>mem i j\<close> the
  outcome of the \<open>j\<close>-th allocation of its \<open>i\<close>-th operation.
\<close>

unbundle bit_operations_syntax

subsection \<open>User memory and tables\<close>

text \<open>A pointer to an array in user memory: null, or the elements that can be read from it on.\<close>

type_synonym 'a ubuf = "'a list option"

definition copy_in :: "nat \<Rightarrow> 'a ubuf \<Rightarrow> 'a list option" where
  "copy_in n u = (case u of None \<Rightarrow> None | Some xs \<Rightarrow> if n \<le> length xs then Some (take n xs) else None)"

text \<open>A versioned argument block, and its validation (\<^verbatim>\<open>A20_VALIDATE_AND_COPY\<close>).\<close>

datatype 'a abi_arg = Arg_Null | Arg_Fault | Arg_Header | Arg 'a

definition abi_copy :: "'a abi_arg \<Rightarrow> a20_err + 'a" where
  "abi_copy u = (case u of
       Arg_Null \<Rightarrow> Inl A20_ERR_FAULT | Arg_Fault \<Rightarrow> Inl A20_ERR_FAULT
     | Arg_Header \<Rightarrow> Inl A20_ERR_INVALID_ARGUMENT | Arg x \<Rightarrow> Inr x)"

text \<open>The table of a process (\<^verbatim>\<open>task_get_a20_ht\<close>).\<close>

definition tab_of :: "nat \<Rightarrow> ipc \<Rightarrow> ht option" where
  "tab_of p s = (if p < length (ip_tabs s) then ip_tabs s ! p else None)"

definition tab_put :: "nat \<Rightarrow> ht option \<Rightarrow> ipc \<Rightarrow> ipc" where
  "tab_put p t s = s\<lparr>ip_tabs := (ip_tabs s)[p := t]\<rparr>"

fun run_event :: "ht_event \<Rightarrow> ipc \<Rightarrow> ipc" where
  "run_event (ObjRef ob ty) s = a20_object_ref ob ty s"
| "run_event (ObjRelease ob ty) s = a20_object_release ob ty s"
| "run_event (StatHandles d) s = s\<lparr>ip_stat_handles := ip_stat_handles s + d\<rparr>"
| "run_event (NoteDeadline d) s = s"

definition run_events :: "ht_event list \<Rightarrow> ipc \<Rightarrow> ipc" where
  "run_events = fold run_event"

text \<open>A table operation of process \<open>p\<close> with its events; a call that got hold of the table earlier
  and finds it destroyed uses freed memory.\<close>

definition tab_do :: "nat \<Rightarrow> (ht \<Rightarrow> (a20_err + 'r) \<times> ht \<times> ht_event list) \<Rightarrow> ipc \<Rightarrow> (a20_err + 'r) \<times> ipc" where
  "tab_do p f s = (case tab_of p s of
       None \<Rightarrow> (Inl A20_ERR_BAD_HANDLE, s\<lparr>ip_uaf := True\<rparr>)
     | Some t \<Rightarrow> (case f t of (r, t', evs) \<Rightarrow> (r, run_events evs (tab_put p (Some t') s))))"

definition silent :: "(ht \<Rightarrow> (a20_err + 'r) \<times> ht) \<Rightarrow> ht \<Rightarrow> (a20_err + 'r) \<times> ht \<times> ht_event list" where
  "silent f t = (case f t of (r, t') \<Rightarrow> (r, t', []))"

abbreviation lookup_ref :: "nat \<Rightarrow> u64 \<Rightarrow> nat \<Rightarrow> u16 \<Rightarrow> u64 \<Rightarrow> ipc \<Rightarrow> (a20_err + handle_entry) \<times> ipc" where
  "lookup_ref p now h type required \<equiv> tab_do p (a20_handle_lookup_ref_internal now h type required)"

abbreviation put_entry :: "handle_entry \<Rightarrow> ipc \<Rightarrow> ipc" where
  "put_entry e \<equiv> a20_object_release (he_object e) (he_type e)"

subsection \<open>Closing, duplicating, querying\<close>

definition sys_a20_handle_close :: "nat \<Rightarrow> nat \<Rightarrow> ipc \<Rightarrow> (a20_err + unit) \<times> ipc" where
  "sys_a20_handle_close p h s =
     (if tab_of p s = None then (Inl A20_ERR_BAD_HANDLE, s) else tab_do p (a20_handle_remove h) s)"

fun close_all :: "nat \<Rightarrow> nat list \<Rightarrow> ipc \<Rightarrow> nat \<times> ipc" where
  "close_all p [] s = (0, s)"
| "close_all p (h # hs) s = (case sys_a20_handle_close p h s of
       (r, s1) \<Rightarrow> (case close_all p hs s1 of (n, s2) \<Rightarrow> ((if isl r then n else n + 1), s2)))"

text \<open>Handles are read in blocks of 64; a block that faults ends the call.\<close>

function close_blocks :: "nat \<Rightarrow> nat list \<Rightarrow> nat \<Rightarrow> ipc \<Rightarrow> nat \<times> ipc" where
  "close_blocks p handles left s =
     (if left = 0 then (0, s)
      else
        let n = min left 64
        in case copy_in n (Some handles) of
             None \<Rightarrow> (0, s)
           | Some hs \<Rightarrow> (case close_all p hs s of
                 (c, s1) \<Rightarrow> (case close_blocks p (drop n handles) (left - n) s1 of (c', s2) \<Rightarrow> (c + c', s2))))"
  by pat_completeness auto
termination
  by (relation "measure (\<lambda>(p, handles, left, s). left)") auto

declare close_blocks.simps [simp del]

definition sys_a20_handle_close_many :: "nat \<Rightarrow> nat ubuf \<Rightarrow> nat \<Rightarrow> ipc \<Rightarrow> (a20_err + nat) \<times> ipc" where
  "sys_a20_handle_close_many p handles cnt s = (case handles of
       None \<Rightarrow> (Inl A20_ERR_FAULT, s)
     | Some hs \<Rightarrow>
         if cnt > 4096 then (Inl A20_ERR_FAULT, s)
         else (case close_blocks p hs cnt s of (c, s1) \<Rightarrow> (Inr c, s1)))"

text \<open>A handle on the object of \<open>src\<close> with the rights \<open>rights\<close> and the limits of \<open>src\<close>.\<close>

definition dup_install :: "nat \<Rightarrow> bool \<Rightarrow> handle_entry \<Rightarrow> u64 \<Rightarrow> ipc \<Rightarrow> (a20_err + nat) \<times> ipc" where
  "dup_install p mem src rights =
     tab_do p (a20_handle_install_temporal mem (he_object src) (he_type src) rights
       (he_expiry src) (he_ops src) (he_flags src) (he_label src))"

text \<open>\<open>out_fault\<close> tells whether copying the result out faults.  The new handle is installed before it gets a
  reference of its own, in two critical sections; here nobody closes the old and the new handle in between, which would free
  the object under the call.  The same holds for \<^verbatim>\<open>sys_a20_handle_replace\<close> and \<^verbatim>\<open>sys_a20_vm_share\<close>.\<close>

definition sys_a20_handle_dup ::
  "nat \<Rightarrow> u64 \<Rightarrow> bool \<Rightarrow> (nat \<times> u64) abi_arg \<Rightarrow> bool \<Rightarrow> ipc \<Rightarrow> (a20_err + nat) \<times> ipc" where
  "sys_a20_handle_dup p now mem args out_fault s = (case abi_copy args of
       Inl e \<Rightarrow> (Inl e, s)
     | Inr (source, rights_mask) \<Rightarrow>
         if tab_of p s = None then (Inl A20_ERR_BAD_HANDLE, s)
         else (case lookup_ref p now source A20_OBJ_INVALID A20_RIGHT_DUP s of
             (Inl e, s1) \<Rightarrow> (Inl e, s1)
           | (Inr src, s1) \<Rightarrow>
               if rights_mask \<noteq> 0 \<and> rights_mask AND NOT (he_rights src) \<noteq> 0
               then (Inl A20_ERR_ACCESS, put_entry src s1)
               else (case dup_install p mem src (if rights_mask \<noteq> 0 then rights_mask else he_rights src) s1 of
                   (Inl e, s2) \<Rightarrow> (Inl e, put_entry src s2)
                 | (Inr h, s2) \<Rightarrow>
                     let s3 = put_entry src (a20_object_ref (he_object src) (he_type src) s2)
                     in if out_fault then (Inl A20_ERR_FAULT, snd (tab_do p (a20_handle_remove h) s3)) else (Inr h, s3))))"

definition sys_a20_handle_query :: "nat \<Rightarrow> u64 \<Rightarrow> nat \<Rightarrow> unit uarg \<Rightarrow> ipc \<Rightarrow> (a20_err + u16 \<times> u64) \<times> ipc" where
  "sys_a20_handle_query p now h out s =
     (if out = UNull then (Inl A20_ERR_FAULT, s)
      else if tab_of p s = None then (Inl A20_ERR_BAD_HANDLE, s)
      else (case tab_do p (a20_handle_lookup_internal now h A20_OBJ_INVALID A20_RIGHT_STAT) s of
          (Inl e, s1) \<Rightarrow> (Inl e, s1)
        | (Inr e, s1) \<Rightarrow> if out = UFault then (Inl A20_ERR_FAULT, s1) else (Inr (he_type e, he_rights e), s1)))"

text \<open>\<open>out\<close> tells whether the caller wants the new handle and whether copying it out faults.\<close>

definition sys_a20_handle_replace ::
  "nat \<Rightarrow> u64 \<Rightarrow> bool \<Rightarrow> nat \<Rightarrow> u64 \<Rightarrow> unit uarg \<Rightarrow> ipc \<Rightarrow> (a20_err + nat) \<times> ipc" where
  "sys_a20_handle_replace p now mem h rights out s =
     (if tab_of p s = None then (Inl A20_ERR_BAD_HANDLE, s)
      else (case lookup_ref p now h A20_OBJ_INVALID A20_RIGHT_DUP s of
          (Inl e, s1) \<Rightarrow> (Inl e, s1)
        | (Inr src, s1) \<Rightarrow>
            if rights \<noteq> 0 \<and> rights AND NOT (he_rights src) \<noteq> 0
            then (Inl A20_ERR_ACCESS, put_entry src s1)
            else (case dup_install p mem src (if rights \<noteq> 0 then rights else he_rights src) s1 of
                (Inl e, s2) \<Rightarrow> (Inl e, put_entry src s2)
              | (Inr h', s2) \<Rightarrow>
                  let s3 = snd (tab_do p (a20_handle_remove h)
                             (put_entry src (a20_object_ref (he_object src) (he_type src) s2)))
                  in if out = UFault then (Inl A20_ERR_FAULT, snd (tab_do p (a20_handle_remove h') s3))
                     else (Inr h', s3))))"

subsection \<open>Temporal limits and labels\<close>

datatype control_op =
    Set_Temporal "(u64 \<times> u32 \<times> u32) abi_arg"
  | Get_Temporal "unit uarg"
  | Set_Label "u32 abi_arg" u64

text \<open>Nanoseconds to ticks and back; \<open>tps\<close> is \<^verbatim>\<open>TICKS_PER_SEC\<close>.\<close>

definition expiry_ticks :: "u64 \<Rightarrow> u64 \<Rightarrow> u64" where
  "expiry_ticks tps ns =
     (if ns > 0 then
        if ns div 1000000000 > (- 1) div tps then (- 1) div 2
        else (ns div 1000000000) * tps + (ns mod 1000000000) * tps div 1000000000
      else 0)"

definition expiry_ns :: "u64 \<Rightarrow> u64 \<Rightarrow> u64" where
  "expiry_ns tps tick = (if tick \<noteq> 0 then tick * (1000000000 div tps) else 0)"

definition A20_SWEEP_INTERVAL_TICKS :: "u64 \<Rightarrow> u64" where
  "A20_SWEEP_INTERVAL_TICKS tps = (if tps div 10 > 0 then tps div 10 else 1)"

definition sys_a20_handle_control ::
  "u64 \<Rightarrow> nat \<Rightarrow> u64 \<Rightarrow> nat \<Rightarrow> control_op \<Rightarrow> ipc \<Rightarrow> (a20_err + (u64 \<times> u32 \<times> u32) option) \<times> ipc" where
  "sys_a20_handle_control tps p now h op s =
     (if tab_of p s = None then (Inl A20_ERR_BAD_HANDLE, s)
      else (case lookup_ref p now h A20_OBJ_INVALID A20_RIGHT_CONTROL s of
          (Inl e, s1) \<Rightarrow> (Inl e, s1)
        | (Inr e, s1) \<Rightarrow> (case op of
              Set_Temporal args \<Rightarrow> (case abi_copy args of
                  Inl err \<Rightarrow> (Inl err, put_entry e s1)
                | Inr (ns, ops, fl) \<Rightarrow>
                    map_prod (map_sum id (\<lambda>_. None)) id
                      (tab_do p (a20_handle_set_temporal (A20_SWEEP_INTERVAL_TICKS tps) now h (expiry_ticks tps ns) ops fl)
                        (put_entry e s1)))
            | Get_Temporal out \<Rightarrow>
                if out = UNull then (Inl A20_ERR_FAULT, put_entry e s1)
                else (case tab_do p (silent (\<lambda>t. (a20_handle_get_temporal h t, t))) s1 of
                    (Inl err, s2) \<Rightarrow> (Inl err, put_entry e s2)
                  | (Inr (tick, ops, fl), s2) \<Rightarrow>
                      if out = UFault then (Inl A20_ERR_FAULT, put_entry e s2)
                      else (Inr (Some (expiry_ns tps tick, ops, fl)), put_entry e s2))
            | Set_Label args arg1 \<Rightarrow>
                if args = Arg_Null \<or> arg1 \<noteq> 0 then (Inl A20_ERR_INVALID_ARGUMENT, put_entry e s1)
                else (case abi_copy args of
                    Inl err \<Rightarrow> (Inl err, put_entry e s1)
                  | Inr v \<Rightarrow>
                      map_prod (map_sum id (\<lambda>_. None)) id
                        (tab_do p (silent (a20_handle_set_label h (ucast v))) (put_entry e s1))))))"

subsection \<open>Sharing memory with another process\<close>

text \<open>Another reference to a table, and its end (\<^verbatim>\<open>task_get_a20_ht_ref\<close>, \<^verbatim>\<open>a20_ht_put_ref\<close>).\<close>

definition tab_get_ref :: "nat \<Rightarrow> ipc \<Rightarrow> bool \<times> ipc" where
  "tab_get_ref p s = (case tab_of p s of
       None \<Rightarrow> (False, s)
     | Some t \<Rightarrow> if ht_refcount t = 0 then (False, s) else (True, tab_put p (Some (a20_ht_get_ref t)) s))"

definition tab_put_ref :: "nat \<Rightarrow> ipc \<Rightarrow> ipc" where
  "tab_put_ref p s = (case tab_of p s of
       None \<Rightarrow> s\<lparr>ip_uaf := True\<rparr>
     | Some t \<Rightarrow> (case a20_ht_put_ref t of (t', evs) \<Rightarrow> run_events evs (tab_put p t' s)))"

definition tab_label :: "nat \<Rightarrow> ipc \<Rightarrow> u8" where
  "tab_label p s = (case tab_of p s of None \<Rightarrow> 0 | Some t \<Rightarrow> ht_label t)"

text \<open>The installation in the table of \<open>q\<close>.\<close>

definition share_into :: "nat \<Rightarrow> bool \<Rightarrow> handle_entry \<Rightarrow> u64 \<Rightarrow> ipc \<Rightarrow> (a20_err + nat) \<times> ipc" where
  "share_into q mem vmo rights s =
     (if tab_label q s < he_label vmo then (Inl A20_ERR_ACCESS, s)
      else if rights AND he_rights vmo = 0 then (Inl A20_ERR_ACCESS, s)
      else (case dup_install q mem vmo (rights AND he_rights vmo) s of
          (Inl e, s1) \<Rightarrow> (Inl e, s1)
        | (Inr h, s1) \<Rightarrow> (Inr h, a20_object_ref (he_object vmo) (he_type vmo) s1)))"

text \<open>\<open>target\<close> is the handle on the target task, if any; \<open>proc_of\<close> gives the process of a task object.\<close>

definition sys_a20_vm_share ::
  "(obj \<Rightarrow> nat option) \<Rightarrow> nat \<Rightarrow> (nat \<Rightarrow> u64) \<Rightarrow> bool \<Rightarrow> nat \<Rightarrow> nat option \<Rightarrow> u64 \<Rightarrow> ipc \<Rightarrow> (a20_err + nat) \<times> ipc" where
  "sys_a20_vm_share proc_of p clock mem vmo_h target rights s =
     (if tab_of p s = None then (Inl A20_ERR_BAD_HANDLE, s)
      else (case lookup_ref p (clock 0) vmo_h A20_OBJ_MEMORY (A20_RIGHT_READ OR A20_RIGHT_TRANSFER) s of
          (Inl e, s1) \<Rightarrow> (Inl e, s1)
        | (Inr vmo, s1) \<Rightarrow> (case target of
              None \<Rightarrow> (case share_into p mem vmo rights s1 of (r, s2) \<Rightarrow> (r, put_entry vmo s2))
            | Some th \<Rightarrow> (case tab_do p (a20_handle_lookup_task_like (clock 1) th A20_RIGHT_CONTROL) s1 of
                  (Inl e, s2) \<Rightarrow> (Inl e, put_entry vmo s2)
                | (Inr tgt, s2) \<Rightarrow> (case proc_of (he_object tgt) of
                      None \<Rightarrow> (Inl A20_ERR_BAD_HANDLE, put_entry vmo s2)
                    | Some q \<Rightarrow> (case tab_get_ref q s2 of
                          (False, s3) \<Rightarrow> (Inl A20_ERR_BAD_HANDLE, put_entry vmo s3)
                        | (True, s3) \<Rightarrow> (case share_into q mem vmo rights s3 of
                              (r, s4) \<Rightarrow> (r, put_entry vmo (tab_put_ref q s4)))))))))"

subsection \<open>What a new task inherits\<close>

text \<open>A fresh table for a child, as process number \<open>length (ip_tabs s)\<close>.\<close>

definition new_table :: "u64 \<times> u64 \<Rightarrow> ipc \<Rightarrow> ipc" where
  "new_table junk s = s\<lparr>ip_tabs := ip_tabs s @ [a20_ht_create True junk]\<rparr>"

text \<open>Passing the object of \<open>src\<close> on: a second reference, the installation in the child, then the
  lookup reference is dropped, and the second one as well when the installation failed.\<close>

definition give :: "nat \<Rightarrow> (ht \<Rightarrow> (a20_err + nat) \<times> ht \<times> ht_event list) \<Rightarrow> handle_entry \<Rightarrow> ipc \<Rightarrow> nat option \<times> ipc" where
  "give q install src s = (case tab_do q install (a20_object_ref (he_object src) (he_type src) s) of
       (Inr h, s1) \<Rightarrow> (Some h, put_entry src s1)
     | (Inl _, s1) \<Rightarrow> (None, put_entry src (put_entry src s1)))"

definition child_dir :: "nat \<Rightarrow> nat \<Rightarrow> u64 \<Rightarrow> bool \<Rightarrow> nat \<Rightarrow> u64 \<Rightarrow> ipc \<Rightarrow> nat option \<times> ipc" where
  "child_dir p q now mem dir rights s =
     (case lookup_ref p now dir A20_OBJ_DIRECTORY (A20_RIGHT_READ OR A20_RIGHT_STAT) s of
        (Inl _, s1) \<Rightarrow> (None, s1)
      | (Inr e, s1) \<Rightarrow> give q (a20_handle_install mem (he_object e) A20_OBJ_DIRECTORY rights) e s1)"

definition dir_rights :: u64 where
  "dir_rights = A20_RIGHT_READ OR A20_RIGHT_STAT OR A20_RIGHT_DUP"

definition self_rights :: u64 where
  "self_rights = A20_RIGHT_WAIT OR A20_RIGHT_SIGNAL OR A20_RIGHT_STAT OR A20_RIGHT_CONTROL OR A20_RIGHT_DUP OR
     A20_RIGHT_TRANSFER"

text \<open>The root and the working directory of the child; a missing working directory is the root.\<close>

definition child_dirs :: "nat \<Rightarrow> nat \<Rightarrow> (nat \<Rightarrow> u64) \<Rightarrow> (nat \<Rightarrow> bool) \<Rightarrow> nat \<Rightarrow> nat option \<Rightarrow> ipc \<Rightarrow>
    (nat option \<times> nat option) \<times> ipc" where
  "child_dirs p q clock mem root cwd s =
     (case child_dir p q (clock 0) (mem 0) root (dir_rights OR A20_RIGHT_TRANSFER) s of
        (r, s1) \<Rightarrow> (case (case cwd of None \<Rightarrow> (None, s1) | Some d \<Rightarrow> child_dir p q (clock 1) (mem 1) d dir_rights s1) of
            (c, s2) \<Rightarrow> ((r, if c = None then r else c), s2)))"

text \<open>The manifest of \<^verbatim>\<open>task_clone\<close>: handles of the parent and the rights for the child.\<close>

fun clone_manifest :: "nat \<Rightarrow> nat \<Rightarrow> (nat \<Rightarrow> u64) \<Rightarrow> (nat \<Rightarrow> bool) \<Rightarrow> nat \<Rightarrow> (nat \<times> u64) list \<Rightarrow> ipc \<Rightarrow> nat option list \<times> ipc" where
  "clone_manifest p q clock mem i [] s = ([], s)"
| "clone_manifest p q clock mem i ((h, child_rights) # rest) s =
     (case (case lookup_ref p (clock i) h A20_OBJ_INVALID 0 s of
              (Inl _, s1) \<Rightarrow> (None, s1)
            | (Inr e, s1) \<Rightarrow> give q (a20_handle_install (mem i) (he_object e) (he_type e)
                  (if child_rights \<noteq> 0 then child_rights AND he_rights e else he_rights e)) e s1) of
        (r, s2) \<Rightarrow> (case clone_manifest p q clock mem (i + 1) rest s2 of (rs, s3) \<Rightarrow> (r # rs, s3)))"

text \<open>\<^verbatim>\<open>sys_a20_task_clone\<close> up to the memory of the child: \<open>child\<close> is the new task, if one was created,
  and the result gives the handles written to the child and the parent's handle on it.\<close>

record clone_args =
  cl_root :: nat
  cl_cwd :: "nat option"
  cl_count :: nat
  cl_manifest :: "(nat \<times> u64) ubuf"

record clone_result =
  cr_self :: "nat option"
  cr_dirs :: "nat option \<times> nat option"
  cr_manifest :: "nat option list"
  cr_task :: "nat option"

definition ok_handle :: "(a20_err + nat) \<times> ipc \<Rightarrow> nat option \<times> ipc" where
  "ok_handle x = (case fst x of Inl _ \<Rightarrow> None | Inr h \<Rightarrow> Some h, snd x)"

definition sys_a20_task_clone ::
  "nat \<Rightarrow> u64 \<times> u64 \<Rightarrow> (nat \<Rightarrow> u64) \<Rightarrow> (nat \<Rightarrow> bool) \<Rightarrow> clone_args abi_arg \<Rightarrow> obj option \<Rightarrow> ipc \<Rightarrow>
    (a20_err + clone_result) \<times> ipc" where
  "sys_a20_task_clone p junk clock mem args child s = (case abi_copy args of
       Inl e \<Rightarrow> (Inl e, s)
     | Inr a \<Rightarrow>
         if tab_of p s = None then (Inl A20_ERR_BAD_HANDLE, s)
         else if cl_count a > 64 then (Inl A20_ERR_INVALID_ARGUMENT, s)
         else (case (if cl_count a > 0 then copy_in (cl_count a) (cl_manifest a) else Some []) of
             None \<Rightarrow> (Inl A20_ERR_FAULT, s)
           | Some manifest \<Rightarrow> (case child of
                 None \<Rightarrow> (Inl A20_ERR_NO_MEMORY, s)
               | Some pid \<Rightarrow>
                   if \<not> mem 0 then (Inl A20_ERR_NO_MEMORY, s)
                   else
                     let q = length (ip_tabs s);
                         (self, s1) = ok_handle (tab_do q (a20_handle_install (mem 1) pid A20_OBJ_TASK self_rights) (new_table junk s));
                         (dirs, s2) = child_dirs p q clock (\<lambda>i. mem (2 + i)) (cl_root a) (cl_cwd a) s1;
                         (hs, s3) = clone_manifest p q (\<lambda>i. clock (2 + i)) (\<lambda>i. mem (4 + i)) 0 manifest s2;
                         (task, s4) = ok_handle (tab_do p (a20_handle_install (mem (4 + cl_count a)) pid A20_OBJ_TASK
                                        (self_rights OR A20_RIGHT_ADMIN)) s3)
                     in (Inr \<lparr>cr_self = self, cr_dirs = dirs, cr_manifest = hs, cr_task = task\<rparr>, s4))))"

text \<open>\<^verbatim>\<open>sys_a20_task_spawn\<close>: what the child \<open>q\<close> gets, standard handles (\<^const>\<open>None\<close> for \<^verbatim>\<open>A20_HANDLE_NULL\<close>) and the
  array of handles to pass on.\<close>

definition A20_NATIVE_FD_HANDLE_BASE :: nat where "A20_NATIVE_FD_HANDLE_BASE = 64"

fun spawn_stdio :: "nat \<Rightarrow> nat \<Rightarrow> (nat \<Rightarrow> u64) \<Rightarrow> (nat \<Rightarrow> bool) \<Rightarrow> nat \<Rightarrow> nat option list \<Rightarrow> ipc \<Rightarrow> nat option list \<times> ipc" where
  "spawn_stdio p q clock mem i [] s = ([], s)"
| "spawn_stdio p q clock mem i (want # rest) s =
     (case (case want of
              None \<Rightarrow> (None, s)
            | Some h \<Rightarrow> (case lookup_ref p (clock i) h A20_OBJ_INVALID A20_RIGHT_DUP s of
                (Inl _, s1) \<Rightarrow> (None, s1)
              | (Inr e, s1) \<Rightarrow> give q (a20_handle_install (mem i) (he_object e) (he_type e) (he_rights e)) e s1)) of
        (r, s2) \<Rightarrow> (case spawn_stdio p q clock mem (i + 1) rest s2 of (rs, s3) \<Rightarrow> (r # rs, s3)))"

fun spawn_array ::
  "nat \<Rightarrow> nat \<Rightarrow> (nat \<Rightarrow> u64) \<Rightarrow> (nat \<Rightarrow> nat \<Rightarrow> bool) \<Rightarrow> nat \<Rightarrow> (nat \<times> u64 \<times> nat) list \<Rightarrow> ipc \<Rightarrow> nat option list \<times> ipc" where
  "spawn_array p q clock mem i [] s = ([], s)"
| "spawn_array p q clock mem i ((h, rights, slot) # rest) s =
     (case (case lookup_ref p (clock i) h A20_OBJ_INVALID A20_RIGHT_DUP s of
              (Inl _, s1) \<Rightarrow> (None, s1)
            | (Inr e, s1) \<Rightarrow>
                let child_rights = (if rights \<noteq> 0 then rights AND he_rights e else he_rights e)
                in if child_rights = 0 then (None, put_entry e s1)
                   else if slot \<ge> A20_NATIVE_FD_HANDLE_BASE \<and> slot - A20_NATIVE_FD_HANDLE_BASE < 1024
                   then give q (a20_handle_install_at_temporal (map (mem i) [0..<8]) slot (he_object e) (he_type e)
                          child_rights (he_expiry e) (he_ops e) (he_flags e) (he_label e)) e s1
                   else give q (a20_handle_install_temporal (mem i 0) (he_object e) (he_type e)
                          child_rights (he_expiry e) (he_ops e) (he_flags e) (he_label e)) e s1) of
        (r, s2) \<Rightarrow> (case spawn_array p q clock mem (i + 1) rest s2 of (rs, s3) \<Rightarrow> (r # rs, s3)))"

text \<open>The strings for the child: an array of pointers in user memory that can be read from some address on, each
  null (\<^const>\<open>None\<close>) or a string that can be copied into the kernel or not (it is unreadable, too long or
  there is no memory for it).\<close>

type_synonym user_strings = "bool option ubuf"

record spawn_args =
  sp_image :: nat
  sp_root :: nat
  sp_cwd :: "nat option"
  sp_argc :: nat
  sp_argv :: user_strings
  sp_envc :: nat
  sp_envp :: user_strings
  sp_stdio :: "nat option list"
  sp_count :: nat
  sp_handles :: "(nat \<times> u64 \<times> nat) ubuf"

text \<open>The lookup of the working directory for the path of the child.\<close>

definition spawn_cwd :: "nat \<Rightarrow> u64 \<Rightarrow> spawn_args \<Rightarrow> ipc \<Rightarrow> ipc" where
  "spawn_cwd p now a s =
     (case lookup_ref p now (case sp_cwd a of None \<Rightarrow> sp_root a | Some d \<Rightarrow> d)
             A20_OBJ_DIRECTORY (A20_RIGHT_READ OR A20_RIGHT_STAT) s of
        (Inl _, s1) \<Rightarrow> s1
      | (Inr e, s1) \<Rightarrow> put_entry e s1)"

text \<open>The endpoint of the service registry for the clients, \<open>client\<close> (\<^verbatim>\<open>g_registry_client\<close>, zero when there is
  none), in the table of \<open>q\<close>.  The reference taken first is not dropped when the installation fails.\<close>

definition registry_rights :: u64 where
  "registry_rights = A20_RIGHT_READ OR A20_RIGHT_WRITE"

definition a20_registry_install_client :: "obj \<Rightarrow> nat \<Rightarrow> bool \<Rightarrow> ipc \<Rightarrow> nat option \<times> ipc" where
  "a20_registry_install_client client q mem s =
     (if client = 0 then (None, s)
      else ok_handle (tab_do q (a20_handle_install mem client A20_OBJ_CHANNEL_ENDPOINT registry_rights)
             (a20_object_ref client A20_OBJ_CHANNEL_ENDPOINT s)))"

text \<open>The end: handles on the child for itself and for the parent, who is told the number of its handle, and
  the endpoint of the registry.\<close>

definition spawn_finish :: "nat \<Rightarrow> nat \<Rightarrow> (nat \<Rightarrow> bool) \<Rightarrow> bool \<Rightarrow> obj \<Rightarrow> obj \<Rightarrow> ipc \<Rightarrow> (a20_err + nat) \<times> ipc" where
  "spawn_finish p q mem out_fault client pid s =
     (let s1 = snd (tab_do q (a20_handle_install (mem 0) pid A20_OBJ_TASK self_rights) s)
      in case tab_do p (a20_handle_install (mem 1) pid A20_OBJ_TASK
                (self_rights OR A20_RIGHT_ADMIN OR A20_RIGHT_READ OR A20_RIGHT_WRITE)) s1 of
           (Inl e, s2) \<Rightarrow> (Inl e, s2)
         | (Inr h, s2) \<Rightarrow>
             if out_fault then (Inl A20_ERR_FAULT, snd (tab_do p (a20_handle_remove h) s2))
             else (Inr h, snd (a20_registry_install_client client q (mem 2) s2)))"

text \<open>From the creation of the table of the child on.\<close>

definition task_spawn_handles ::
  "nat \<Rightarrow> u64 \<times> u64 \<Rightarrow> (nat \<Rightarrow> nat \<Rightarrow> u64) \<Rightarrow> (nat \<Rightarrow> nat \<Rightarrow> bool) \<Rightarrow> (nat \<Rightarrow> nat \<Rightarrow> bool) \<Rightarrow> spawn_args \<Rightarrow> bool \<Rightarrow> obj \<Rightarrow> obj \<Rightarrow> ipc \<Rightarrow>
    (a20_err + nat) \<times> ipc" where
  "task_spawn_handles p junk clock mem grow a out_fault client pid s =
     (if \<not> mem 0 0 then (Inl A20_ERR_NO_MEMORY, s)
      else
        let q = length (ip_tabs s);
            (dirs, s1) = child_dirs p q (clock 0) (mem 1) (sp_root a) (sp_cwd a) (new_table junk s);
            s2 = spawn_cwd p (clock 1 0) a s1;
            (stdio, s3) = spawn_stdio p q (clock 2) (mem 2) 0 (take 3 (sp_stdio a)) s2
        in if sp_count a > 0 \<and> sp_handles a \<noteq> None then
             (case copy_in (min (sp_count a) 64) (sp_handles a) of
                None \<Rightarrow> (Inl A20_ERR_FAULT, s3)
              | Some hs \<Rightarrow> spawn_finish p q (mem 3) out_fault client pid (snd (spawn_array p q (clock 3) grow 0 hs s3)))
           else spawn_finish p q (mem 3) out_fault client pid s3)"

text \<open>Before that the image is loaded.  A descriptor takes the reference of the lookup over, where one is free
  (\<open>fd_free\<close>); closing it drops that reference, and then \<^verbatim>\<open>a20_object_release\<close> drops one more.  \<open>load\<close> is the
  outcome of the loader: \<^const>\<open>None\<close> for an error, otherwise whether the image is a native one.  No other
  thread closes the descriptor meanwhile.\<close>

definition spawn_image :: "nat \<Rightarrow> u64 \<Rightarrow> nat \<Rightarrow> bool \<Rightarrow> bool option \<Rightarrow> ipc \<Rightarrow> (a20_err + unit) \<times> ipc" where
  "spawn_image p now img_h fd_free load s =
     (case lookup_ref p now img_h A20_OBJ_FILE (A20_RIGHT_READ OR A20_RIGHT_EXEC) s of
        (Inl e, s1) \<Rightarrow> (Inl e, s1)
      | (Inr img, s1) \<Rightarrow>
          if he_object img = 0 then (Inl A20_ERR_BAD_HANDLE, put_entry img s1)
          else if \<not> fd_free then (Inl A20_ERR_BAD_HANDLE, put_entry img s1)
          else
            let s2 = put_entry img (put_entry img s1)
            in (case load of
                  None \<Rightarrow> (Inl A20_ERR_IO, s2)
                | Some False \<Rightarrow> (Inl A20_ERR_NOT_SUPPORTED, s2)
                | Some True \<Rightarrow> (Inr (), s2)))"

text \<open>Copying an array of strings: how many were copied, and \<open>- 1\<close> when there are more than \<open>max_count\<close>.\<close>

definition MAX_ARG_STRINGS :: nat where "MAX_ARG_STRINGS = 256"

fun copy_strings :: "nat \<Rightarrow> bool option list \<Rightarrow> nat" where
  "copy_strings (Suc n) (Some True # src) = Suc (copy_strings n src)"
| "copy_strings n src = 0"

definition copy_arg_vector :: "user_strings \<Rightarrow> nat \<Rightarrow> int" where
  "copy_arg_vector src max_count = (case src of
       None \<Rightarrow> 0
     | Some ps \<Rightarrow>
         let n = copy_strings max_count ps
         in if n = max_count \<and> n < length ps \<and> ps ! n \<noteq> None then - 1 else int n)"

text \<open>The argument and environment strings: the error, if any.\<close>

definition spawn_strings :: "spawn_args \<Rightarrow> a20_err option" where
  "spawn_strings a =
     (let fails = \<lambda>n v. n > 0 \<and> v \<noteq> None \<and> copy_arg_vector v MAX_ARG_STRINGS \<noteq> int n;
          error = \<lambda>v. if copy_arg_vector v MAX_ARG_STRINGS < 0 then A20_ERR_FAULT else A20_ERR_INVALID_ARGUMENT
      in if sp_argc a > MAX_ARG_STRINGS \<or> sp_envc a > MAX_ARG_STRINGS then Some A20_ERR_INVALID_ARGUMENT
         else if fails (sp_argc a) (sp_argv a) then Some (error (sp_argv a))
         else if fails (sp_envc a) (sp_envp a) then Some (error (sp_envp a))
         else None)"

text \<open>The whole call: \<open>child\<close> is the new task, if one was created, and \<open>stack\<close> tells whether its stack could be
  built, which is the last step.\<close>

definition sys_a20_task_spawn ::
  "nat \<Rightarrow> u64 \<times> u64 \<Rightarrow> (nat \<Rightarrow> nat \<Rightarrow> u64) \<Rightarrow> (nat \<Rightarrow> nat \<Rightarrow> bool) \<Rightarrow> (nat \<Rightarrow> nat \<Rightarrow> bool) \<Rightarrow> spawn_args abi_arg \<Rightarrow>
    bool \<Rightarrow> bool option \<Rightarrow> obj option \<Rightarrow> bool \<Rightarrow> bool \<Rightarrow> obj \<Rightarrow> ipc \<Rightarrow> (a20_err + nat) \<times> ipc" where
  "sys_a20_task_spawn p junk clock mem grow args fd_free load child out_fault stack client s = (case abi_copy args of
       Inl e \<Rightarrow> (Inl e, s)
     | Inr a \<Rightarrow>
         if tab_of p s = None then (Inl A20_ERR_BAD_HANDLE, s)
         else (case spawn_image p (clock 4 0) (sp_image a) fd_free load s of
             (Inl e, s1) \<Rightarrow> (Inl e, s1)
           | (Inr _, s1) \<Rightarrow> (case spawn_strings a of
                 Some e \<Rightarrow> (Inl e, s1)
               | None \<Rightarrow> (case child of
                     None \<Rightarrow> (Inl A20_ERR_NO_MEMORY, s1)
                   | Some pid \<Rightarrow> (case task_spawn_handles p junk clock mem grow a out_fault client pid s1 of
                         (Inl e, s2) \<Rightarrow> (Inl e, s2)
                       | (Inr h, s2) \<Rightarrow> (if stack then Inr h else Inl A20_ERR_NO_MEMORY, s2))))))"

text \<open>What \<^verbatim>\<open>execve\<close> of a native image does to the table (\<^verbatim>\<open>exec_setup_native_abi\<close> in kernel/proc/exec.c).  A process
  without a table gets one.  Unless the process has declared its standard handles (\<open>adopted\<close>), it gets
  handles on its files \<open>files\<close> (the open ones of descriptors 0 to 2, or the console, \<^const>\<open>None\<close> where neither can be had), on itself
  and on the root directory \<open>root\<close>; the client endpoint of the registry is always added.\<close>

definition exec_install :: "nat \<Rightarrow> bool \<Rightarrow> u16 \<Rightarrow> u64 \<Rightarrow> obj \<Rightarrow> ipc \<Rightarrow> nat option \<times> ipc" where
  "exec_install p mem type rights vf s =
     (case tab_do p (a20_handle_install mem vf type rights) (a20_object_ref vf type s) of
        (Inr h, s1) \<Rightarrow> (Some h, s1)
      | (Inl _, s1) \<Rightarrow> (None, a20_object_release vf type s1))"

fun exec_stdio :: "nat \<Rightarrow> (nat \<Rightarrow> bool) \<Rightarrow> nat \<Rightarrow> obj option list \<Rightarrow> ipc \<Rightarrow> ipc" where
  "exec_stdio p mem i [] s = s"
| "exec_stdio p mem i (None # files) s = exec_stdio p mem (i + 1) files s"
| "exec_stdio p mem i (Some vf # files) s =
     exec_stdio p mem (i + 1) files (snd (exec_install p (mem i) A20_OBJ_FILE
       ((if i = 0 then A20_RIGHT_READ else A20_RIGHT_WRITE) OR A20_RIGHT_SEEK OR A20_RIGHT_DUP OR A20_RIGHT_CONTROL) vf s))"

definition exec_setup_native_abi ::
  "nat \<Rightarrow> u64 \<times> u64 \<Rightarrow> (nat \<Rightarrow> bool) \<Rightarrow> bool \<Rightarrow> obj option list \<Rightarrow> obj option \<Rightarrow> obj \<Rightarrow> obj \<Rightarrow> ipc \<Rightarrow> ipc" where
  "exec_setup_native_abi p junk mem adopted files root client pid s =
     (let preserve = (tab_of p s \<noteq> None);
          s1 = (if preserve then s else tab_put p (a20_ht_create (mem 0) junk) s)
      in if tab_of p s1 = None then s1
         else
           let s2 = (if preserve \<and> adopted then s1
                else
                  let a1 = exec_stdio p (\<lambda>i. mem (1 + i)) 0 (take 3 files) s1;
                      a2 = snd (tab_do p (a20_handle_install (mem 4) pid A20_OBJ_TASK
                             (A20_RIGHT_WAIT OR A20_RIGHT_SIGNAL OR A20_RIGHT_STAT OR A20_RIGHT_DUP)) a1)
                  in case root of
                       None \<Rightarrow> a2
                     | Some vf \<Rightarrow> (case exec_install p (mem 5) A20_OBJ_DIRECTORY (dir_rights OR A20_RIGHT_TRANSFER) vf a2 of
                           (None, a3) \<Rightarrow> a3
                         | (Some _, a3) \<Rightarrow> snd (exec_install p (mem 6) A20_OBJ_DIRECTORY dir_rights vf a3)))
           in snd (a20_registry_install_client client p (mem 7) s2))"

subsection \<open>The service registry\<close>

text \<open>A pair of endpoints made at start-up, one for the supervisor and one for the clients.\<close>

record registry =
  rg_server :: obj
  rg_client :: obj
  rg_owner :: nat

definition a20_registry_init :: "bool \<Rightarrow> registry \<Rightarrow> ipc \<Rightarrow> registry \<times> ipc" where
  "a20_registry_init mem rg s = (case a20_channel_create mem 0 None s of
       (ep0, s1) \<Rightarrow>
         if ep0 = 0 then (rg, s1)
         else (case ep_at s1 ep0 of
             None \<Rightarrow> (rg, s1\<lparr>ip_uaf := True\<rparr>)
           | Some ep \<Rightarrow> (rg\<lparr>rg_server := ep0, rg_client := ep_peer ep\<rparr>, s1)))"

text \<open>The loop of a claim on the owner: each time around the owner that was read is found \<open>alive\<close> or not, and
  \<open>f\<close> is what others do to the owner before it is compared.  Where the script ends the loop is still
  running.\<close>

fun claim_loop :: "nat \<Rightarrow> (bool \<times> (nat \<Rightarrow> nat)) list \<Rightarrow> nat \<Rightarrow> bool option \<times> nat" where
  "claim_loop pid [] owner = (None, owner)"
| "claim_loop pid ((alive, f) # rest) owner =
     (if owner > 0 \<and> alive then (Some False, owner)
      else if f owner = owner then (Some True, pid)
      else claim_loop pid rest (f owner))"

text \<open>\<open>during\<close> is what others do to the owner while the endpoint is installed.\<close>

definition sys_a20_registry_claim ::
  "nat \<Rightarrow> nat \<Rightarrow> bool \<Rightarrow> (bool \<times> (nat \<Rightarrow> nat)) list \<Rightarrow> (nat \<Rightarrow> nat) \<Rightarrow> registry \<Rightarrow> ipc \<Rightarrow>
    ((a20_err + nat) \<times> registry) option \<times> ipc" where
  "sys_a20_registry_claim p pid mem script during rg s =
     (if rg_server rg = 0 then (Some (Inl A20_ERR_NOT_SUPPORTED, rg), s)
      else if tab_of p s = None then (Some (Inl A20_ERR_BAD_HANDLE, rg), s)
      else (case claim_loop pid script (rg_owner rg) of
          (None, owner) \<Rightarrow> (None, s)
        | (Some False, owner) \<Rightarrow> (Some (Inl A20_ERR_ACCESS, rg\<lparr>rg_owner := owner\<rparr>), s)
        | (Some True, owner) \<Rightarrow>
            (case tab_do p (a20_handle_install mem (rg_server rg) A20_OBJ_CHANNEL_ENDPOINT registry_rights)
                    (a20_object_ref (rg_server rg) A20_OBJ_CHANNEL_ENDPOINT s) of
               (Inl e, s1) \<Rightarrow>
                 (Some (Inl e, rg\<lparr>rg_owner := (if during owner = pid then 0 else during owner)\<rparr>),
                  a20_object_release (rg_server rg) A20_OBJ_CHANNEL_ENDPOINT s1)
             | (Inr h, s1) \<Rightarrow> (Some (Inr h, rg\<lparr>rg_owner := during owner\<rparr>), s1))))"

definition a20_registry_task_exit :: "nat \<Rightarrow> registry \<Rightarrow> registry" where
  "a20_registry_task_exit pid rg = (if rg_owner rg = pid then rg\<lparr>rg_owner := 0\<rparr> else rg)"

subsection \<open>The label of a process\<close>

definition sys_a20_security_set_context :: "nat \<Rightarrow> u32 abi_arg \<Rightarrow> ipc \<Rightarrow> (a20_err + unit) \<times> ipc" where
  "sys_a20_security_set_context p args s = (case abi_copy args of
       Inl e \<Rightarrow> (Inl e, s)
     | Inr label \<Rightarrow>
         if tab_of p s = None then (Inl A20_ERR_BAD_HANDLE, s)
         else if label > 2 then (Inl A20_ERR_INVALID_ARGUMENT, s)
         else if label < ucast (tab_label p s) then (Inl A20_ERR_ACCESS, s)
         else tab_do p (silent (\<lambda>t. (Inr (), a20_ht_set_label (ucast label) t))) s)"

subsection \<open>The sweeper over all tables\<close>

definition sweep_op :: "(nat \<Rightarrow> u64) \<Rightarrow> ht \<Rightarrow> (a20_err + unit) \<times> ht \<times> ht_event list" where
  "sweep_op clock t = (case a20_temporal_sweep clock 0 t of (t', evs) \<Rightarrow> (Inr (), t', evs))"

text \<open>The tables are visited in the order of the registry; one whose reference count has dropped to
  zero ends the pass.\<close>

fun a20_temporal_sweep_all :: "(nat \<Rightarrow> nat \<Rightarrow> u64) \<Rightarrow> nat list \<Rightarrow> ipc \<Rightarrow> ipc" where
  "a20_temporal_sweep_all clock [] s = s"
| "a20_temporal_sweep_all clock (p # registry) s = (case tab_get_ref p s of
       (False, s1) \<Rightarrow> s1
     | (True, s1) \<Rightarrow> a20_temporal_sweep_all clock registry (tab_put_ref p (snd (tab_do p (sweep_op (clock p)) s1))))"

end
