(* ===== verification/Native_Ipc.thy ===== *)
theory Native_Ipc
  imports Native_Handle
begin

text \<open>
  The native system calls on channels (kernel/abi/native/sys_native_ipc.c): creation of a pair of
  endpoints, sending, receiving with atomic delivery of the handles of a message, and the fused
  call that sends a request and waits for the reply.  \<open>me\<close> is the calling task.  A call that
  sleeps takes the script of its waits, and has no result while it is asleep.
\<close>

unbundle bit_operations_syntax

subsection \<open>Creation\<close>

definition A20_CHAN_TYPE_ORDERED :: u32 where "A20_CHAN_TYPE_ORDERED = 1"
definition A20_CHAN_TYPE_STRICT :: u32 where "A20_CHAN_TYPE_STRICT = 2"
definition A20_CHAN_TYPE_REMOTE :: u32 where "A20_CHAN_TYPE_REMOTE = 4"

text \<open>The type signature from user space; \<^const>\<open>UNull\<close> is an untyped channel.\<close>

definition chan_type_in :: "channel_type uarg \<Rightarrow> a20_err + channel_type option" where
  "chan_type_in u = (case u of
       UNull \<Rightarrow> Inr None
     | UFault \<Rightarrow> Inl A20_ERR_FAULT
     | UOk c \<Rightarrow>
         if ct_version c > 1 then Inl A20_ERR_INVALID_ARGUMENT
         else if ct_flags c AND NOT (A20_CHAN_TYPE_ORDERED OR A20_CHAN_TYPE_STRICT) \<noteq> 0
         then Inl A20_ERR_INVALID_ARGUMENT
         else Inr (Some (c\<lparr>
           ct_max_data := (if ct_max_data c = 0 \<or> ct_max_data c > A20_CH_MAX_DATA then A20_CH_MAX_DATA else ct_max_data c),
           ct_max_handles := (if ct_max_handles c = 0 \<or> ct_max_handles c > A20_CH_MAX_HANDLES then A20_CH_MAX_HANDLES
                              else ct_max_handles c)\<rparr>)))"

definition channel_rights :: u64 where
  "channel_rights = A20_RIGHT_READ OR A20_RIGHT_WRITE OR A20_RIGHT_STAT OR A20_RIGHT_DUP OR A20_RIGHT_TRANSFER"

definition sys_a20_channel_create ::
  "nat \<Rightarrow> (nat \<Rightarrow> bool) \<Rightarrow> (nat \<times> channel_type uarg) abi_arg \<Rightarrow> bool \<Rightarrow> ipc \<Rightarrow> (a20_err + nat \<times> nat) \<times> ipc" where
  "sys_a20_channel_create p mem args out_fault s = (case abi_copy args of
       Inl e \<Rightarrow> (Inl e, s)
     | Inr (msg_capacity, utype) \<Rightarrow> (case chan_type_in utype of
           Inl e \<Rightarrow> (Inl e, s)
         | Inr ct \<Rightarrow> (case a20_channel_create (mem 0) msg_capacity ct s of
               (ep0, s1) \<Rightarrow>
                 if ep0 = 0 then (Inl A20_ERR_NO_MEMORY, s1)
                 else
                   let ep1 = (case ep_at s1 ep0 of None \<Rightarrow> 0 | Some ep \<Rightarrow> ep_peer ep)
                   in if tab_of p s1 = None
                      then (Inl A20_ERR_BAD_HANDLE, a20_channel_ep_release ep1 (a20_channel_ep_release ep0 s1))
                      else (case tab_do p (a20_handle_install (mem 1) ep0 A20_OBJ_CHANNEL_ENDPOINT channel_rights) s1 of
                          (Inl e, s2) \<Rightarrow> (Inl e, a20_channel_ep_release ep1 (a20_channel_ep_release ep0 s2))
                        | (Inr h0, s2) \<Rightarrow>
                            (case tab_do p (a20_handle_install (mem 2) ep1 A20_OBJ_CHANNEL_ENDPOINT channel_rights) s2 of
                               (Inl e, s3) \<Rightarrow> (Inl e, a20_channel_ep_release ep1 (snd (tab_do p (a20_handle_remove h0) s3)))
                             | (Inr h1, s3) \<Rightarrow>
                                 if out_fault
                                 then (Inl A20_ERR_FAULT,
                                       snd (tab_do p (a20_handle_remove h1) (snd (tab_do p (a20_handle_remove h0) s3))))
                                 else (Inr (h0, h1), s3))))))"

subsection \<open>The send stage\<close>

record msg_args =
  ma_channel :: nat
  ma_flags :: u32
  ma_data :: "u8 ubuf"
  ma_data_len :: nat
  ma_handles :: "nat ubuf"
  ma_handle_count :: nat
  ma_transfer_rights :: "u64 ubuf"

definition read_data :: "bool \<Rightarrow> msg_args \<Rightarrow> a20_err + u8 list" where
  "read_data mem a =
     (if ma_data_len a > 0 then
        if ma_data a = None \<or> ma_data_len a > A20_CH_MAX_DATA
        then Inl (if ma_data_len a > A20_CH_MAX_DATA then A20_ERR_INVALID_ARGUMENT else A20_ERR_FAULT)
        else if \<not> mem then Inl A20_ERR_NO_MEMORY
        else (case copy_in (ma_data_len a) (ma_data a) of None \<Rightarrow> Inl A20_ERR_FAULT | Some bs \<Rightarrow> Inr bs)
      else Inr [])"

text \<open>The handles to send, each with the mask of its rights if one is given.\<close>

definition read_handles :: "msg_args \<Rightarrow> a20_err + (nat \<times> u64 option) list" where
  "read_handles a =
     (if ma_handle_count a > 0 \<and> ma_handles a \<noteq> None then
        if ma_handle_count a > A20_CH_MAX_HANDLES then Inl A20_ERR_INVALID_ARGUMENT
        else (case copy_in (ma_handle_count a) (ma_handles a) of
            None \<Rightarrow> Inl A20_ERR_FAULT
          | Some hs \<Rightarrow>
              if ma_transfer_rights a = None then Inr (map (\<lambda>h. (h, None)) hs)
              else (case copy_in (ma_handle_count a) (ma_transfer_rights a) of
                  None \<Rightarrow> Inl A20_ERR_FAULT
                | Some rs \<Rightarrow> Inr (zip hs (map Some rs))))
      else if ma_handle_count a > 0 \<or> ma_handles a \<noteq> None then Inl A20_ERR_INVALID_ARGUMENT
      else Inr [])"

definition info_of :: "handle_entry \<Rightarrow> u64 option \<Rightarrow> handle_info" where
  "info_of he xm = \<lparr>hi_object = he_object he, hi_type = he_type he,
     hi_rights = he_rights he AND (case xm of None \<Rightarrow> he_rights he | Some m \<Rightarrow> m),
     hi_expiry = he_expiry he, hi_ops = he_ops he, hi_flags = he_flags he, hi_label = he_label he\<rparr>"

text \<open>Looking the handles up: the first error if there is one, and the handles referenced so far.\<close>

fun collect_handles ::
  "nat \<Rightarrow> (nat \<Rightarrow> u64) \<Rightarrow> nat \<Rightarrow> (nat \<times> u64 option) list \<Rightarrow> ipc \<Rightarrow> a20_err option \<times> handle_info list \<times> ipc" where
  "collect_handles p clock i [] s = (None, [], s)"
| "collect_handles p clock i ((h, xm) # rest) s =
     (case lookup_ref p (clock i) h A20_OBJ_INVALID A20_RIGHT_TRANSFER s of
        (Inl e, s1) \<Rightarrow> (Some e, [], s1)
      | (Inr he, s1) \<Rightarrow>
          if hi_rights (info_of he xm) = 0 then (Some A20_ERR_ACCESS, [info_of he xm], s1)
          else (case collect_handles p clock (i + 1) rest s1 of (r, his, s2) \<Rightarrow> (r, info_of he xm # his, s2)))"

definition a20_clx_map_send_err :: "a20_err + 'r \<Rightarrow> channel_type option \<Rightarrow> a20_err + 'r" where
  "a20_clx_map_send_err r ct =
     (case (r, ct) of
        (Inl A20_ERR_TYPE_MISMATCH, Some c) \<Rightarrow>
          if ct_flags c AND A20_CHAN_TYPE_REMOTE \<noteq> 0 then Inl A20_ERR_CLUSTER_UNSUPPORTED else r
      | _ \<Rightarrow> r)"

text \<open>The stage that \<open>channel_send\<close> and \<open>channel_call\<close> share, on the endpoint \<open>a\<close>.\<close>

definition send_stage ::
  "nat \<Rightarrow> tid \<Rightarrow> (nat \<Rightarrow> u64) \<Rightarrow> (nat \<Rightarrow> bool) \<Rightarrow> obj \<Rightarrow> msg_args \<Rightarrow> bool \<Rightarrow> waits \<Rightarrow> ipc \<Rightarrow>
    (a20_err + unit) option \<times> ipc" where
  "send_stage p me clock mem a args defer_wake ws s = (case read_data (mem 0) args of
       Inl e \<Rightarrow> (Some (Inl e), s)
     | Inr data \<Rightarrow> (case read_handles args of
           Inl e \<Rightarrow> (Some (Inl e), s)
         | Inr hs \<Rightarrow> (case collect_handles p clock 1 hs s of
               (Some e, his, s1) \<Rightarrow> (Some (Inl e), release_all his s1)
             | (None, his, s1) \<Rightarrow>
                 (case a20_channel_send_dwc (mem 1) me a data his (ma_flags args) defer_wake ws s1 of
                    (None, s2) \<Rightarrow> (None, s2)
                  | (Some r, s2) \<Rightarrow> (Some (a20_clx_map_send_err r (ep_type_of a s2)), release_all his s2)))))"

definition sys_a20_channel_send ::
  "nat \<Rightarrow> tid \<Rightarrow> (nat \<Rightarrow> u64) \<Rightarrow> (nat \<Rightarrow> bool) \<Rightarrow> msg_args abi_arg \<Rightarrow> waits \<Rightarrow> ipc \<Rightarrow>
    (a20_err + unit) option \<times> ipc" where
  "sys_a20_channel_send p me clock mem args ws s = (case abi_copy args of
       Inl e \<Rightarrow> (Some (Inl e), s)
     | Inr a \<Rightarrow>
         if tab_of p s = None then (Some (Inl A20_ERR_BAD_HANDLE), s)
         else (case lookup_ref p (clock 0) (ma_channel a) A20_OBJ_CHANNEL_ENDPOINT A20_RIGHT_WRITE s of
             (Inl e, s1) \<Rightarrow> (Some (Inl e), s1)
           | (Inr entry, s1) \<Rightarrow>
               if tab_label p s1 > he_label entry then (Some (Inl A20_ERR_ACCESS), put_entry entry s1)
               else (case send_stage p me clock mem (he_object entry) a False ws s1 of
                   (None, s2) \<Rightarrow> (None, s2)
                 | (Some r, s2) \<Rightarrow> (Some r, put_entry entry s2))))"

subsection \<open>The receive stage\<close>

text \<open>The buffers of the caller: their sizes, \<^const>\<open>None\<close> for a null pointer, whether a buffer for the
  rights is given, and which of the four copies to user space fault.\<close>

record recv_bufs =
  rb_data :: "nat option"
  rb_handles :: "nat option"
  rb_rights :: bool
  rb_data_fault :: bool
  rb_handles_fault :: bool
  rb_rights_fault :: bool
  rb_args_fault :: bool

definition too_small :: "recv_bufs \<Rightarrow> ch_message \<Rightarrow> bool" where
  "too_small b m \<longleftrightarrow>
     msg_data m \<noteq> [] \<and> (case rb_data b of None \<Rightarrow> True | Some n \<Rightarrow> n < length (msg_data m)) \<or>
     msg_handles m \<noteq> [] \<and> (case rb_handles b of None \<Rightarrow> True | Some n \<Rightarrow> n < length (msg_handles m))"

definition copy_out_faults :: "recv_bufs \<Rightarrow> ch_message \<Rightarrow> bool" where
  "copy_out_faults b m \<longleftrightarrow>
     msg_data m \<noteq> [] \<and> rb_data_fault b \<or> msg_handles m \<noteq> [] \<and> rb_handles_fault b \<or>
     rb_rights b \<and> msg_handles m \<noteq> [] \<and> rb_rights_fault b \<or> rb_args_fault b"

fun remove_all :: "nat \<Rightarrow> nat list \<Rightarrow> ipc \<Rightarrow> ipc" where
  "remove_all p [] s = s"
| "remove_all p (h # hs) s = remove_all p hs (snd (tab_do p (a20_handle_remove h) s))"

definition abort_op :: "nat list \<Rightarrow> ht \<Rightarrow> (a20_err + unit) \<times> ht \<times> ht_event list" where
  "abort_op slots t = (Inr (), a20_handle_abort_reserved slots t, [])"

definition commit_op :: "nat \<Rightarrow> handle_info \<Rightarrow> ht \<Rightarrow> (a20_err + unit) \<times> ht \<times> ht_event list" where
  "commit_op slot hi = silent (a20_handle_commit_reserved_temporal slot (hi_object hi) (hi_type hi) (hi_rights hi)
     (hi_expiry hi) (hi_ops hi) (hi_flags hi) (hi_label hi))"

text \<open>Installing the received handles; a failure undoes the whole delivery.\<close>

fun commit_all :: "nat \<Rightarrow> (nat \<times> handle_info) list \<Rightarrow> nat list \<Rightarrow> ipc \<Rightarrow> (a20_err + nat list) \<times> ipc" where
  "commit_all p [] done s = (Inr done, s)"
| "commit_all p ((slot, hi) # rest) done s = (case tab_do p (commit_op slot hi) s of
       (Inr _, s1) \<Rightarrow> commit_all p rest (done @ [slot]) s1
     | (Inl e, s1) \<Rightarrow>
         (Inl e, snd (tab_do p (abort_op (slot # map fst rest))
                   (remove_all p done (release_all (hi # map snd rest) s1)))))"

text \<open>The result of a delivery: the data, and the handles with their rights.\<close>

type_synonym delivery = "u8 list \<times> (nat \<times> u64) list"

text \<open>The delivery of the message \<open>m\<close> at the head of the queue of \<open>a\<close>, whose lock is held: slots are
  reserved first, then the message is taken off the queue, the handles are installed, and the
  results are copied out.\<close>

definition deliver :: "nat \<Rightarrow> (nat \<Rightarrow> bool) \<Rightarrow> obj \<Rightarrow> recv_bufs \<Rightarrow> ch_message \<Rightarrow> ipc \<Rightarrow> (a20_err + delivery) \<times> ipc" where
  "deliver p mem a b m s =
     (if too_small b m then (Inl A20_ERR_NO_SPACE, a20_channel_recv_abort a s)
      else (case tab_do p (silent (a20_handle_reserve_many (mem 2) (length (msg_handles m)))) s of
          (Inl e, s1) \<Rightarrow> (Inl e, a20_channel_recv_abort a s1)
        | (Inr slots, s1) \<Rightarrow>
            if msg_data m \<noteq> [] \<and> \<not> mem 3
            then (Inl A20_ERR_NO_MEMORY, a20_channel_recv_abort a (snd (tab_do p (abort_op slots) s1)))
            else (case a20_channel_recv_finish a (if msg_data m = [] then None else Some (length (msg_data m)))
                         (Some (length (msg_handles m))) s1 of
                (Inl e, s2) \<Rightarrow> (Inl e, snd (tab_do p (abort_op slots) s2))
              | (Inr m', s2) \<Rightarrow> (case commit_all p (zip slots (msg_handles m')) [] s2 of
                    (Inl e, s3) \<Rightarrow> (Inl e, s3)
                  | (Inr installed, s3) \<Rightarrow>
                      if copy_out_faults b m' then (Inl A20_ERR_FAULT, remove_all p installed s3)
                      else (Inr (msg_data m', zip installed (map hi_rights (msg_handles m'))), s3)))))"

definition sys_a20_channel_recv ::
  "nat \<Rightarrow> tid \<Rightarrow> (nat \<Rightarrow> u64) \<Rightarrow> (nat \<Rightarrow> bool) \<Rightarrow> (nat \<times> u32) abi_arg \<Rightarrow> recv_bufs \<Rightarrow> waits \<Rightarrow> ipc \<Rightarrow>
    (a20_err + delivery) option \<times> ipc" where
  "sys_a20_channel_recv p me clock mem args b ws s = (case abi_copy args of
       Inl e \<Rightarrow> (Some (Inl e), s)
     | Inr (channel, flags) \<Rightarrow>
         if tab_of p s = None then (Some (Inl A20_ERR_BAD_HANDLE), s)
         else (case lookup_ref p (clock 0) channel A20_OBJ_CHANNEL_ENDPOINT A20_RIGHT_READ s of
             (Inl e, s1) \<Rightarrow> (Some (Inl e), s1)
           | (Inr entry, s1) \<Rightarrow>
               if tab_label p s1 < he_label entry then (Some (Inl A20_ERR_ACCESS), put_entry entry s1)
               else (case a20_channel_recv_begin me (he_object entry) flags ws s1 of
                   (None, s2) \<Rightarrow> (None, s2)
                 | (Some (Inl e), s2) \<Rightarrow> (Some (Inl e), put_entry entry s2)
                 | (Some (Inr m), s2) \<Rightarrow> (case deliver p mem (he_object entry) b m s2 of
                       (r, s3) \<Rightarrow> (Some r, put_entry entry s3)))))"

subsection \<open>The fused call\<close>

text \<open>The waits of the send stage and those of the reply stage are given separately.\<close>

definition sys_a20_channel_call ::
  "nat \<Rightarrow> tid \<Rightarrow> (nat \<Rightarrow> u64) \<Rightarrow> (nat \<Rightarrow> bool) \<Rightarrow> bool \<Rightarrow> msg_args abi_arg \<Rightarrow> recv_bufs \<Rightarrow> waits \<Rightarrow> waits \<Rightarrow>
    ipc \<Rightarrow> (a20_err + delivery) option \<times> ipc" where
  "sys_a20_channel_call p me clock mem can_donate args b ws1 ws2 s = (case abi_copy args of
       Inl e \<Rightarrow> (Some (Inl e), s)
     | Inr a \<Rightarrow>
         if ma_flags a AND NOT A20_MSG_NONBLOCK \<noteq> 0 then (Some (Inl A20_ERR_INVALID_ARGUMENT), s)
         else if tab_of p s = None then (Some (Inl A20_ERR_BAD_HANDLE), s)
         else (case lookup_ref p (clock 0) (ma_channel a) A20_OBJ_CHANNEL_ENDPOINT (A20_RIGHT_READ OR A20_RIGHT_WRITE) s of
             (Inl e, s1) \<Rightarrow> (Some (Inl e), s1)
           | (Inr entry, s1) \<Rightarrow>
               if tab_label p s1 \<noteq> he_label entry then (Some (Inl A20_ERR_ACCESS), put_entry entry s1)
               else (case send_stage p me clock mem (he_object entry) a True ws1 s1 of
                   (None, s2) \<Rightarrow> (None, s2)
                 | (Some (Inl e), s2) \<Rightarrow> (Some (Inl e), put_entry entry s2)
                 | (Some (Inr _), s2) \<Rightarrow>
                     (case a20_channel_recv_begin_donate can_donate me (he_object entry) (ma_flags a) ws2 s2 of
                        (None, s3) \<Rightarrow> (None, s3)
                      | (Some (Inl e), s3) \<Rightarrow> (Some (Inl e), put_entry entry s3)
                      | (Some (Inr m), s3) \<Rightarrow> (case deliver p mem (he_object entry) b m s3 of
                            (r, s4) \<Rightarrow> (Some r, put_entry entry s4))))))"

end
