(* ===== verification/Ipc_Refs.thy ===== *)
theory Ipc_Refs
  imports Native_Ipc Handle_Table_Theorems "HOL-Library.Multiset"
begin

text \<open>
  Accounting of references in the native interface.  A reference to an object is held by a handle,
  by a handle queued in a message, or by a call in progress; a reference to a table by a thread or
  a call.  The multiset \<open>P\<close> holds those of threads and calls, \<open>refs s\<close> those in the state, and the
  counts kept by the kernel must agree with their sum.  The invariant also carries a predicate \<open>C\<close>
  on capabilities that holds for every handle and for every handle in flight.
\<close>

unbundle bit_operations_syntax

subsection \<open>The references held in a state\<close>

datatype holding = Ref obj u16 | Tab nat

definition okey :: "handle_entry \<Rightarrow> holding multiset" where
  "okey e = (if he_object e = 0 then {#} else {#Ref (he_object e) (he_type e)#})"

definition fkeys :: "(nat \<Rightarrow> handle_entry) \<Rightarrow> holding multiset" where
  "fkeys f = (\<Sum>h<A20_HT_MAX_CAP. okey (f h))"

definition tab_keys :: "ht option \<Rightarrow> holding multiset" where
  "tab_keys x = (case x of None \<Rightarrow> {#} | Some t \<Rightarrow> fkeys (ent t))"

definition info_key :: "handle_info \<Rightarrow> holding" where
  "info_key hi = Ref (hi_object hi) (hi_type hi)"

definition infos :: "channel_ep \<Rightarrow> handle_info list" where
  "infos ep = concat (map msg_handles (ep_queue ep))"

definition ep_keys :: "channel_ep option \<Rightarrow> holding multiset" where
  "ep_keys x = (case x of None \<Rightarrow> {#} | Some ep \<Rightarrow> mset (map info_key (infos ep)))"

definition refs :: "ipc \<Rightarrow> holding multiset" where
  "refs s = sum_list (map tab_keys (ip_tabs s)) + sum_list (map ep_keys (ip_eps s))"

definition counted :: "obj \<Rightarrow> holding \<Rightarrow> bool" where
  "counted ob x = (case x of Ref o' ty \<Rightarrow> o' = ob \<and> counted_type ty | Tab _ \<Rightarrow> False)"

lemma keys_simps [simp]:
  "tab_keys None = {#}" "tab_keys (Some t) = fkeys (ent t)" "ep_keys None = {#}"
  "ep_keys (Some ep) = mset (map info_key (infos ep))"
  by (simp_all add: tab_keys_def ep_keys_def)

lemma counted_simps [simp]: "counted ob (Ref o' ty) \<longleftrightarrow> o' = ob \<and> counted_type ty" "\<not> counted ob (Tab p)"
  by (simp_all add: counted_def)

lemma okey_simps [simp]: "he_object e = 0 \<Longrightarrow> okey e = {#}"
  "he_object e \<noteq> 0 \<Longrightarrow> okey e = {#Ref (he_object e) (he_type e)#}"
  by (simp_all add: okey_def)

lemma fkeys_update:
  assumes "h < A20_HT_MAX_CAP"
  shows "fkeys (f(h := e)) + okey (f h) = fkeys f + okey e"
proof -
  have "fkeys g = okey (g h) + (\<Sum>i\<in>{..<A20_HT_MAX_CAP} - {h}. okey (g i))" for g
    using assms by (simp add: fkeys_def sum.remove [of "{..<A20_HT_MAX_CAP}" h])
  from this [of f] this [of "f(h := e)"] show ?thesis by (simp add: ac_simps)
qed

lemma fkeys_cong: "(\<And>h. okey (f h) = okey (g h)) \<Longrightarrow> fkeys f = fkeys g"
  by (simp add: fkeys_def)

lemma fkeys_list:
  assumes "ht_ok t"
  shows "fkeys (ent t) = sum_list (map okey (ht_entries t))"
proof -
  have "ht_capacity t \<le> A20_HT_MAX_CAP" using assms by (simp add: ht_ok_def)
  then have "fkeys (ent t) = (\<Sum>h<ht_capacity t. okey (ent t h))"
    unfolding fkeys_def
    by (intro sum.mono_neutral_right) (auto simp: ent_def okey_def entry_zero_def)
  also have "\<dots> = sum_list (map okey (ht_entries t))"
    by (simp add: sum_list_sum_nth atLeast0LessThan ent_def)
  finally show ?thesis .
qed

lemma refs_ep_upd:
  assumes "ep_at s a = Some ep"
  shows "refs (ep_upd a f s) + ep_keys (Some ep) = refs s + ep_keys (Some (f ep))"
  using sum_list_update_add [of "a - 1" "ip_eps s" ep_keys "Some (f ep)"] ep_at_SomeD [OF assms] assms
  by (simp add: refs_def ep_upd_def ac_simps)

lemma refs_free:
  assumes "ep_at s a = Some ep"
  shows "refs (s\<lparr>ip_eps := (ip_eps s)[a - 1 := None]\<rparr>) + ep_keys (Some ep) = refs s"
  using sum_list_update_add [of "a - 1" "ip_eps s" ep_keys None] ep_at_SomeD [OF assms]
  by (simp add: refs_def ac_simps)

lemma refs_tab_put:
  assumes "p < length (ip_tabs s)"
  shows "refs (tab_put p x s) + tab_keys (tab_of p s) = refs s + tab_keys x"
  using sum_list_update_add [of p "ip_tabs s" tab_keys x] assms
  by (simp add: refs_def tab_put_def tab_of_def ac_simps)

lemma tab_of_put: "tab_of q (tab_put p x s) = (if q = p \<and> p < length (ip_tabs s) then x else tab_of q s)"
  by (auto simp: tab_of_def tab_put_def nth_list_update)

lemma tab_of_less: "tab_of p s = Some t \<Longrightarrow> p < length (ip_tabs s)"
  by (simp add: tab_of_def split: if_splits)

lemma same_tabs [simp]:
  "tab_of p (ipc_log evs s) = tab_of p s" "tab_of p (ep_upd a f s) = tab_of p s"
  "tab_of p (s\<lparr>ip_stat_eps := i\<rparr>) = tab_of p s" "tab_of p (s\<lparr>ip_orefs := g\<rparr>) = tab_of p s"
  "tab_of p (s\<lparr>ip_progs := k\<rparr>) = tab_of p s" "tab_of p (s\<lparr>ip_eps := es\<rparr>) = tab_of p s"
  "tab_of p (s\<lparr>ip_stat_handles := i\<rparr>) = tab_of p s" "tab_of p (s\<lparr>ip_uaf := b\<rparr>) = tab_of p s"
  by (auto simp: tab_of_def ipc_log_def ep_upd_def split: option.splits)

lemma same_refs [simp]:
  "refs (ipc_log evs s) = refs s" "refs (s\<lparr>ip_stat_eps := i\<rparr>) = refs s" "refs (s\<lparr>ip_orefs := g\<rparr>) = refs s"
  "refs (s\<lparr>ip_progs := k\<rparr>) = refs s" "refs (s\<lparr>ip_stat_handles := i\<rparr>) = refs s"
  by (simp_all add: refs_def ipc_log_def)

lemma ep_at_tab [simp]: "ep_at (tab_put p x s) a = ep_at s a" "ep_at (s\<lparr>ip_stat_handles := i\<rparr>) a = ep_at s a"
  by (simp_all add: ep_at_def tab_put_def)

subsection \<open>The invariant\<close>

definition hi_entry :: "handle_info \<Rightarrow> handle_entry" where
  "hi_entry hi = \<lparr>he_object = hi_object hi, he_type = hi_type hi, he_rights = hi_rights hi, he_expiry = hi_expiry hi,
     he_ops = hi_ops hi, he_flags = hi_flags hi, he_label = hi_label hi, he_state = A20_HS_ACTIVE\<rparr>"

definition limits_ok :: "handle_entry \<Rightarrow> bool" where
  "limits_ok e \<longleftrightarrow> he_object e \<noteq> 0 \<and> (he_expiry e > 0 \<longrightarrow> he_flags e AND A20_TEMPORAL_EXPIRY_ABSOLUTE \<noteq> 0)"

definition hi_ok :: "(handle_entry \<Rightarrow> bool) \<Rightarrow> handle_info \<Rightarrow> bool" where
  "hi_ok C hi \<longleftrightarrow> limits_ok (hi_entry hi) \<and> C (hi_entry hi)"

text \<open>A bound on capabilities that weaker ones meet as well, and the endpoints after the first \<open>N\<close>.\<close>

definition cap_bound :: "(handle_entry \<Rightarrow> bool) \<Rightarrow> nat \<Rightarrow> bool" where
  "cap_bound C N \<longleftrightarrow>
     (\<forall>e e'. C e \<longrightarrow> cap_le e' e \<longrightarrow> C e') \<and>
     (\<forall>e. he_type e = A20_OBJ_CHANNEL_ENDPOINT \<longrightarrow> he_object e > N \<longrightarrow> C e)"

definition tab_ok :: "(handle_entry \<Rightarrow> bool) \<Rightarrow> ht \<Rightarrow> bool" where
  "tab_ok C t \<longleftrightarrow> ht_ok t \<and> (\<forall>h. he_object (ent t h) \<noteq> 0 \<longrightarrow> C (ent t h))"

definition eps_ok :: "holding multiset \<Rightarrow> ipc \<Rightarrow> bool" where
  "eps_ok M s \<longleftrightarrow>
     (\<forall>a. ep_at s a = None \<longrightarrow> count M (Ref a A20_OBJ_CHANNEL_ENDPOINT) = 0) \<and>
     (\<forall>a ep. ep_at s a = Some ep \<longrightarrow> ep_refcount ep = int (count M (Ref a A20_OBJ_CHANNEL_ENDPOINT)) \<and>
        0 < count M (Ref a A20_OBJ_CHANNEL_ENDPOINT))"

definition orefs_ok :: "(obj \<Rightarrow> int) \<Rightarrow> holding multiset \<Rightarrow> ipc \<Rightarrow> bool" where
  "orefs_ok B M s \<longleftrightarrow> (\<forall>ob. ip_orefs s ob = B ob + int (size (filter_mset (counted ob) M)))"

definition tabs_ok :: "(handle_entry \<Rightarrow> bool) \<Rightarrow> holding multiset \<Rightarrow> ipc \<Rightarrow> bool" where
  "tabs_ok C P s \<longleftrightarrow>
     (\<forall>p. tab_of p s = None \<longrightarrow> count P (Tab p) = 0) \<and>
     (\<forall>p t. tab_of p s = Some t \<longrightarrow> tab_ok C t \<and> ht_refcount t = int (count P (Tab p)) \<and> 0 < count P (Tab p))"

definition queues_ok :: "(handle_entry \<Rightarrow> bool) \<Rightarrow> ipc \<Rightarrow> bool" where
  "queues_ok C s \<longleftrightarrow> (\<forall>a ep. ep_at s a = Some ep \<longrightarrow> (\<forall>hi \<in> set (infos ep). hi_ok C hi))"

definition peers_ok :: "ipc \<Rightarrow> bool" where
  "peers_ok s \<longleftrightarrow> (\<forall>a ep. ep_at s a = Some ep \<longrightarrow> ep_peer ep \<noteq> 0 \<longrightarrow>
     ep_peer ep \<noteq> a \<and> (\<exists>q. ep_at s (ep_peer ep) = Some q \<and> ep_peer q = a))"

definition ipc_ok :: "(handle_entry \<Rightarrow> bool) \<Rightarrow> nat \<Rightarrow> (obj \<Rightarrow> int) \<Rightarrow> holding multiset \<Rightarrow> ipc \<Rightarrow> bool" where
  "ipc_ok C N B P s \<longleftrightarrow>
     \<not> ip_uaf s \<and> N \<le> length (ip_eps s) \<and> eps_ok (refs s + P) s \<and> orefs_ok B (refs s + P) s \<and>
     tabs_ok C P s \<and> queues_ok C s \<and> peers_ok s"

lemma ipc_ok_quiet [simp]:
  "ipc_ok C N B P (ipc_log evs s) = ipc_ok C N B P s"
  "ipc_ok C N B P (s\<lparr>ip_stat_eps := i\<rparr>) = ipc_ok C N B P s"
  "ipc_ok C N B P (s\<lparr>ip_stat_handles := i\<rparr>) = ipc_ok C N B P s"
  "ipc_ok C N B P (s\<lparr>ip_progs := k\<rparr>) = ipc_ok C N B P s"
  by (simp_all add: ipc_ok_def eps_ok_def orefs_ok_def tabs_ok_def queues_ok_def peers_ok_def)
     (simp_all add: ipc_log_def)

lemma ipc_ok_tab: "ipc_ok C N B P s \<Longrightarrow> Tab p \<in># P \<Longrightarrow> \<exists>t. tab_of p s = Some t \<and> tab_ok C t"
  by (cases "tab_of p s") (auto simp: ipc_ok_def tabs_ok_def count_eq_zero_iff)

lemma ipc_ok_ep:
  assumes "ipc_ok C N B P s" "Ref a A20_OBJ_CHANNEL_ENDPOINT \<in># refs s + P"
  shows "\<exists>ep. ep_at s a = Some ep"
proof (rule ccontr)
  assume "\<nexists>ep. ep_at s a = Some ep"
  then have "count (refs s + P) (Ref a A20_OBJ_CHANNEL_ENDPOINT) = 0"
    using assms(1) by (simp add: ipc_ok_def eps_ok_def)
  with assms(2) show False by (simp add: count_eq_zero_iff del: count_union)
qed

text \<open>Changing the queue and the waiters of an endpoint: the references move between \<open>P\<close> and the state.\<close>

lemma ipc_ok_ep_upd:
  assumes ok: "ipc_ok C N B P s" and ep: "ep_at s a = Some ep"
    and same: "ep_refcount (f ep) = ep_refcount ep" "ep_peer (f ep) = ep_peer ep"
    and keys: "mset (map info_key (infos (f ep))) + P' = mset (map info_key (infos ep)) + P"
    and tabs: "\<And>p. count P' (Tab p) = count P (Tab p)"
    and his: "\<And>hi. hi \<in> set (infos (f ep)) \<Longrightarrow> hi_ok C hi"
  shows "ipc_ok C N B P' (ep_upd a f s)"
proof -
  let ?s = "ep_upd a f s"
  have "refs ?s + P' + ep_keys (Some ep) = refs s + P + ep_keys (Some ep)"
    using refs_ep_upd [OF ep, of f] keys by (simp add: ac_simps)
  then have M: "refs ?s + P' = refs s + P" by simp
  have at: "ep_at ?s b = (if b = a then Some (f ep) else ep_at s b)" for b
    using ep by (simp add: ep_at_upd)
  have "eps_ok (refs s + P) ?s"
    using ok ep same(1) by (auto simp: ipc_ok_def eps_ok_def at split: if_splits)
  moreover have "orefs_ok B (refs s + P) ?s"
    using ok ep by (simp add: ipc_ok_def orefs_ok_def ep_upd_def)
  moreover have "tabs_ok C P' ?s" using ok by (simp add: ipc_ok_def tabs_ok_def tabs)
  moreover have "queues_ok C ?s" using ok his by (auto simp: ipc_ok_def queues_ok_def at)
  moreover have "peers_ok ?s"
    using ok ep same(2) by (fastforce simp: ipc_ok_def peers_ok_def at)
  moreover have "\<not> ip_uaf ?s" "N \<le> length (ip_eps ?s)"
    using ok ep by (simp_all add: ipc_ok_def ep_upd_def)
  ultimately show ?thesis by (simp add: ipc_ok_def M)
qed

lemma ipc_ok_ep_cosmetic:
  assumes "ipc_ok C N B P s" "ep_at s a \<noteq> None"
    and "\<And>ep. ep_refcount (f ep) = ep_refcount ep \<and> ep_peer (f ep) = ep_peer ep \<and> ep_queue (f ep) = ep_queue ep"
  shows "ipc_ok C N B P (ep_upd a f s)"
proof -
  obtain ep where ep: "ep_at s a = Some ep" using assms(2) by blast
  have "infos (f ep) = infos ep" using assms(3) by (simp add: infos_def)
  with ipc_ok_ep_upd [OF assms(1) ep, of f P] assms(1,3) ep show ?thesis
    by (simp add: ipc_ok_def queues_ok_def)
qed

text \<open>Changing the table of a process.\<close>

lemma ipc_ok_tab_put:
  assumes ok: "ipc_ok C N B P s" and t: "tab_of p s = Some t" and t': "tab_ok C t'"
    and rc: "ht_refcount t' + int (count P (Tab p)) = ht_refcount t + int (count P' (Tab p))" "0 < count P' (Tab p)"
    and keys: "fkeys (ent t') + filter_mset (\<lambda>x. \<forall>q. x \<noteq> Tab q) P' = fkeys (ent t) + filter_mset (\<lambda>x. \<forall>q. x \<noteq> Tab q) P"
    and tabs: "\<And>q. q \<noteq> p \<Longrightarrow> count P' (Tab q) = count P (Tab q)"
  shows "ipc_ok C N B P' (tab_put p (Some t') s)"
proof -
  let ?s = "tab_put p (Some t') s" and ?r = "filter_mset (\<lambda>x. \<forall>q. x \<noteq> Tab q)"
  have p: "p < length (ip_tabs s)" using tab_of_less [OF t] .
  have "refs ?s + ?r P' + fkeys (ent t) = (refs ?s + fkeys (ent t)) + ?r P'" by (simp add: ac_simps)
  also have "\<dots> = refs s + (fkeys (ent t') + ?r P')"
    using refs_tab_put [OF p, of "Some t'"] t by (simp add: ac_simps)
  also have "\<dots> = refs s + ?r P + fkeys (ent t)" by (simp add: keys ac_simps)
  finally have M: "refs ?s + ?r P' = refs s + ?r P" by simp
  have cnt: "count (refs ?s + P') (Ref a ty) = count (refs s + P) (Ref a ty)" for a ty
    using arg_cong [OF M, of "\<lambda>m. count m (Ref a ty)"] by simp
  have flt: "filter_mset (counted ob) (refs ?s + P') = filter_mset (counted ob) (refs s + P)" for ob
  proof -
    have "filter_mset (counted ob) (?r Q) = filter_mset (counted ob) Q" for Q
      by (auto simp: filter_filter_mset intro!: filter_mset_cong)
    with arg_cong [OF M, of "filter_mset (counted ob)"] show ?thesis by simp
  qed
  have "eps_ok (refs ?s + P') ?s"
    using ok unfolding ipc_ok_def eps_ok_def cnt by simp
  moreover have "orefs_ok B (refs ?s + P') ?s"
    using ok unfolding ipc_ok_def orefs_ok_def flt by (simp add: tab_put_def)
  moreover have "tabs_ok C P' ?s"
    using ok t t' rc p by (auto simp: ipc_ok_def tabs_ok_def tab_of_put tabs simp del: count_greater_zero_iff split: if_splits)
  ultimately show ?thesis
    using ok by (simp add: ipc_ok_def queues_ok_def peers_ok_def) (simp add: tab_put_def)
qed

end
