(* ===== verification/Ipc_Release.thy ===== *)
theory Ipc_Release
  imports Ipc_Refs
begin

text \<open>
  Taking and dropping references keeps the invariant of \<^verbatim>\<open>Ipc_Refs\<close>.  Dropping the last
  reference of an endpoint frees it, closes its peer and drops the references in its queue in turn.
\<close>

unbundle bit_operations_syntax

lemma counted_type_channel [simp]: "\<not> counted_type A20_OBJ_CHANNEL_ENDPOINT"
  by (simp add: counted_type_def a20_object_is_vfile_backed_def a20_obj_defs)

lemma infos_same: "ep_queue ep' = ep_queue ep \<Longrightarrow> infos ep' = infos ep"
  by (simp add: infos_def)

subsection \<open>Counting one endpoint\<close>

lemma ipc_ok_refcount:
  assumes ok: "ipc_ok C N B P s" and ep: "ep_at s a = Some ep"
    and same: "ep_peer (f ep) = ep_peer ep" "ep_queue (f ep) = ep_queue ep"
    and diff: "\<And>x. x \<noteq> Ref a A20_OBJ_CHANNEL_ENDPOINT \<Longrightarrow> count P' x = count P x"
    and cnt: "ep_refcount (f ep) = int (count (refs s + P') (Ref a A20_OBJ_CHANNEL_ENDPOINT))"
      "0 < ep_refcount (f ep)"
  shows "ipc_ok C N B P' (ep_upd a f s)"
proof -
  let ?s = "ep_upd a f s"
  note inf = infos_same [OF same(2)]
  have r: "refs ?s = refs s" using refs_ep_upd [OF ep, of f] inf by simp
  have at: "ep_at ?s b = (if b = a then Some (f ep) else ep_at s b)" for b
    using ep by (simp add: ep_at_upd)
  have flt: "filter_mset (counted ob) P' = filter_mset (counted ob) P" for ob
  proof (rule multiset_eqI)
    show "count (filter_mset (counted ob) P') x = count (filter_mset (counted ob) P) x" for x
      using diff [of x] by (cases "x = Ref a A20_OBJ_CHANNEL_ENDPOINT") simp_all
  qed
  have pos: "0 < count (refs s + P') (Ref a A20_OBJ_CHANNEL_ENDPOINT)"
    using cnt by linarith
  have "eps_ok (refs s + P') ?s"
    using ok ep cnt(1) pos
    by (auto simp: ipc_ok_def eps_ok_def at diff simp del: count_greater_zero_iff split: if_splits)
  moreover have "orefs_ok B (refs s + P') ?s"
    using ok ep by (simp add: ipc_ok_def orefs_ok_def ep_upd_def flt)
  moreover have "tabs_ok C P' ?s"
    using ok by (simp add: ipc_ok_def tabs_ok_def diff del: count_greater_zero_iff)
  moreover have "queues_ok C ?s" using ok ep inf by (auto simp: ipc_ok_def queues_ok_def at)
  moreover have "peers_ok ?s" using ok ep same(1) by (fastforce simp: ipc_ok_def peers_ok_def at)
  moreover have "\<not> ip_uaf ?s" "N \<le> length (ip_eps ?s)" using ok ep by (simp_all add: ipc_ok_def ep_upd_def)
  ultimately show ?thesis by (simp add: ipc_ok_def r)
qed

lemma ipc_ok_count:
  assumes "ipc_ok C N B P s" "ep_at s a = Some ep"
  shows "ep_refcount ep = int (count (refs s + P) (Ref a A20_OBJ_CHANNEL_ENDPOINT))"
    "0 < count (refs s + P) (Ref a A20_OBJ_CHANNEL_ENDPOINT)"
  using assms by (auto simp: ipc_ok_def eps_ok_def simp del: count_greater_zero_iff)

lemma refcount_inc_ok:
  assumes "ipc_ok C N B P s" "ep_at s a \<noteq> None"
  shows "ipc_ok C N B (add_mset (Ref a A20_OBJ_CHANNEL_ENDPOINT) P) (refcount_inc a s)"
proof -
  obtain ep where ep: "ep_at s a = Some ep" using assms(2) by blast
  show ?thesis
    unfolding refcount_inc_def
    using ipc_ok_count [OF assms(1) ep] by (intro ipc_ok_refcount [OF assms(1) ep]) simp_all
qed

subsection \<open>Freeing an endpoint\<close>

definition peer_freed :: "channel_ep \<Rightarrow> channel_ep" where
  "peer_freed q = q\<lparr>ep_peer_closed := True, ep_peer := 0, ep_waiters := []\<rparr>"

lemma ep_upd_twice: "ep_upd a g (ep_upd a f s) = ep_upd a (g \<circ> f) s"
proof (cases "ep_at s a")
  case (Some ep)
  then have "ep_at (ep_upd a f s) a = Some (f ep)" by (simp add: ep_at_upd)
  with Some show ?thesis by (simp add: ep_upd_def [of a g] ep_upd_def [of a "g \<circ> f"]) (simp add: ep_upd_def)
qed (simp add: ep_upd_def)

lemma ep_upd_cong: "ep_at s a = Some ep \<Longrightarrow> f ep = g ep \<Longrightarrow> ep_upd a f s = ep_upd a g s"
  by (simp add: ep_upd_def)

lemma close_peer:
  assumes "ep_at s b = Some q" "ep_peer q = a"
  shows "ip_eps (wait_queue_wake_all b (ep_upd b (\<lambda>p. p\<lparr>ep_peer_closed := True,
      ep_peer := (if ep_peer p = a then 0 else ep_peer p)\<rparr>) s)) = ip_eps (ep_upd b peer_freed s)"
proof -
  let ?f = "\<lambda>p. p\<lparr>ep_peer_closed := True, ep_peer := (if ep_peer p = a then 0 else ep_peer p)\<rparr>"
  have "ep_upd b (ep_waiters_update (\<lambda>_. [])) (ep_upd b ?f s) = ep_upd b peer_freed s"
    unfolding ep_upd_twice using assms by (intro ep_upd_cong) (auto simp: peer_freed_def)
  with assms show ?thesis by (simp add: wait_queue_wake_all_def ep_at_upd ipc_log_def)
qed

lemma wake_all_rest:
  assumes "ep_at s b \<noteq> None"
  shows "ip_tabs (wait_queue_wake_all b s) = ip_tabs s" "ip_orefs (wait_queue_wake_all b s) = ip_orefs s"
    "ip_uaf (wait_queue_wake_all b s) = ip_uaf s"
  using assms by (auto simp: wait_queue_wake_all_def ipc_log_def ep_upd_def)

lemma ep_upd_rest:
  assumes "ep_at s b \<noteq> None"
  shows "ip_tabs (ep_upd b f s) = ip_tabs s" "ip_orefs (ep_upd b f s) = ip_orefs s" "ip_uaf (ep_upd b f s) = ip_uaf s"
  using assms by (auto simp: ep_upd_def)

lemma ep_put_last:
  assumes ep: "ep_at s a = Some ep" "ep_refcount ep = 1" and peers: "peers_ok s"
    and run: "ep_put a s = (hs, s')"
  shows "hs = infos ep" "refs s' + mset (map info_key (infos ep)) = refs s"
    "ep_at s' b = (if b = a then None else if b = ep_peer ep then map_option peer_freed (ep_at s b) else ep_at s b)"
    "tab_of p s' = tab_of p s" "ip_orefs s' = ip_orefs s" "ip_uaf s' = ip_uaf s"
    "length (ip_eps s') = length (ip_eps s)"
proof -
  define s2 where "s2 = (if ep_peer ep \<noteq> 0 then ep_upd (ep_peer ep) peer_freed s else s)"
  have q: "\<exists>q. ep_at s (ep_peer ep) = Some q \<and> ep_peer q = a \<and> ep_peer ep \<noteq> a" if "ep_peer ep \<noteq> 0"
    using peers ep(1) that by (auto simp: peers_ok_def)
  have s': "hs = infos ep \<and> ip_eps s' = (ip_eps s2)[a - 1 := None] \<and> ip_tabs s' = ip_tabs s \<and>
      ip_orefs s' = ip_orefs s \<and> ip_uaf s' = ip_uaf s"
  proof (cases "ep_peer ep = 0")
    case True
    with run ep show ?thesis by (auto simp: ep_put_def Let_def s2_def infos_def ipc_log_def)
  next
    case False
    from q [OF False] obtain q where q: "ep_at s (ep_peer ep) = Some q" "ep_peer q = a" "ep_peer ep \<noteq> a" by blast
    let ?s = "s\<lparr>ip_stat_eps := ip_stat_eps s - 1\<rparr>"
    let ?f = "\<lambda>p. p\<lparr>ep_peer_closed := True, ep_peer := (if ep_peer p = a then 0 else ep_peer p)\<rparr>"
    have at: "ep_at ?s (ep_peer ep) = Some q" using q by simp
    have n: "ep_at (ep_upd (ep_peer ep) ?f ?s) (ep_peer ep) \<noteq> None" using q by (simp add: ep_at_upd)
    have "ip_eps (ep_upd (ep_peer ep) peer_freed ?s) = ip_eps (ep_upd (ep_peer ep) peer_freed s)"
      using q by (simp add: ep_upd_def)
    with run ep False close_peer [OF at q(2)] wake_all_rest [OF n] ep_upd_rest [of ?s "ep_peer ep" ?f] at
    show ?thesis by (auto simp: ep_put_def Let_def s2_def infos_def ipc_log_def)
  qed
  have at2: "ep_at s2 b = (if b = ep_peer ep then map_option peer_freed (ep_at s b) else ep_at s b)" for b
    by (auto simp: s2_def ep_at_upd) (simp_all add: ep_at_def)
  have len: "length (ip_eps s2) = length (ip_eps s)"
    by (auto simp: s2_def ep_upd_def split: option.splits)
  have refs2: "refs s2 = refs s"
  proof (cases "ep_peer ep = 0")
    case False
    from q [OF False] obtain q where "ep_at s (ep_peer ep) = Some q" by blast
    from refs_ep_upd [OF this, of peer_freed] False show ?thesis by (simp add: s2_def peer_freed_def infos_def)
  qed (simp add: s2_def)
  have a2: "ep_at s2 a = Some ep" using q ep(1) ep_at_SomeD [OF ep(1)] by (auto simp: at2)
  have "refs s' = refs (s2\<lparr>ip_eps := (ip_eps s2)[a - 1 := None]\<rparr>)"
    using s' by (auto simp: refs_def s2_def ep_upd_def split: option.splits)
  with refs_free [OF a2] refs2 show "refs s' + mset (map info_key (infos ep)) = refs s" by simp
  have la: "a - 1 < length (ip_eps s2)" "0 < a" using ep_at_SomeD [OF a2] by simp_all
  have "ep_at s' b = (if b = a then None else ep_at s2 b)"
    using s' la by (auto simp: ep_at_def nth_list_update)
  with at2 show "ep_at s' b = (if b = a then None else if b = ep_peer ep then map_option peer_freed (ep_at s b) else ep_at s b)"
    by simp
  from s' show "hs = infos ep" "tab_of p s' = tab_of p s" "ip_orefs s' = ip_orefs s" "ip_uaf s' = ip_uaf s"
    "length (ip_eps s') = length (ip_eps s)" by (simp_all add: tab_of_def len)
qed

subsection \<open>Dropping references\<close>

lemma ep_put_ok:
  assumes ok: "ipc_ok C N B (add_mset (Ref a A20_OBJ_CHANNEL_ENDPOINT) P) s" and run: "ep_put a s = (hs, s')"
  shows "ipc_ok C N B (mset (map info_key hs) + P) s'" "hi \<in> set hs \<Longrightarrow> hi_ok C hi"
proof -
  let ?r = "Ref a A20_OBJ_CHANNEL_ENDPOINT"
  obtain ep where ep: "ep_at s a = Some ep" using ipc_ok_ep [OF ok, of a] by auto
  note c = ipc_ok_count [OF ok ep]
  have "ipc_ok C N B (mset (map info_key hs) + P) s' \<and> (\<forall>hi \<in> set hs. hi_ok C hi)"
  proof (cases "ep_refcount ep = 1")
    case False
    with ep run have s': "hs = []" "s' = ep_upd a (ep_refcount_update (\<lambda>n. n - 1)) s" by (simp_all add: ep_put_def)
    have "ipc_ok C N B P s'"
      unfolding s'(2) using c False by (intro ipc_ok_refcount [OF ok ep]) simp_all
    with s' show ?thesis by simp
  next
    case True
    have peers: "peers_ok s" using ok by (simp add: ipc_ok_def)
    note f = ep_put_last [OF ep True peers run]
    have tot: "refs s' + (mset (map info_key hs) + P) = refs s + P" using f(1,2) by (simp add: ac_simps)
    have zero: "count (refs s + P) ?r = 0" using c(1) True by simp
    have old: "ep_at s b = None \<Longrightarrow> count (refs s + P) (Ref b A20_OBJ_CHANNEL_ENDPOINT) = 0"
      "ep_at s b = Some e \<Longrightarrow> ep_refcount e = int (count (refs s + P) (Ref b A20_OBJ_CHANNEL_ENDPOINT)) \<and>
         0 < count (refs s + P) (Ref b A20_OBJ_CHANNEL_ENDPOINT)" if "b \<noteq> a" for b e
    proof -
      have e: "count (refs s + add_mset ?r P) (Ref b A20_OBJ_CHANNEL_ENDPOINT) =
          count (refs s + P) (Ref b A20_OBJ_CHANNEL_ENDPOINT)" using that by simp
      show "ep_at s b = None \<Longrightarrow> count (refs s + P) (Ref b A20_OBJ_CHANNEL_ENDPOINT) = 0"
        "ep_at s b = Some e \<Longrightarrow> ep_refcount e = int (count (refs s + P) (Ref b A20_OBJ_CHANNEL_ENDPOINT)) \<and>
         0 < count (refs s + P) (Ref b A20_OBJ_CHANNEL_ENDPOINT)"
        using ok unfolding ipc_ok_def eps_ok_def e [symmetric] by blast+
    qed
    have "eps_ok (refs s + P) s'"
      unfolding eps_ok_def f(3) using zero old
      by (auto simp: peer_freed_def simp del: count_greater_zero_iff count_union split: if_splits)
    moreover have "orefs_ok B (refs s + P) s'" using ok by (simp add: ipc_ok_def orefs_ok_def f(5))
    moreover have "tabs_ok C (mset (map info_key hs) + P) s'"
    proof -
      have "count (mset (map info_key hs)) (Tab p) = 0" for p
        by (auto simp: count_eq_zero_iff info_key_def)
      with ok show ?thesis by (simp add: ipc_ok_def tabs_ok_def f(4) del: mset_map count_greater_zero_iff)
    qed
    moreover have "queues_ok C s'"
      using ok by (auto simp: ipc_ok_def queues_ok_def f(3) peer_freed_def infos_def split: if_splits)
    moreover have "peers_ok s'"
      unfolding peers_ok_def
    proof (intro allI impI)
      fix b e
      assume "ep_at s' b = Some e" "ep_peer e \<noteq> 0"
      then have b: "b \<noteq> a" "b \<noteq> ep_peer ep" "ep_at s b = Some e"
        by (auto simp: f(3) peer_freed_def split: if_splits)
      with peers \<open>ep_peer e \<noteq> 0\<close> obtain q where q: "ep_peer e \<noteq> b" "ep_at s (ep_peer e) = Some q" "ep_peer q = b"
        unfolding peers_ok_def by blast
      moreover have "ep_peer e \<noteq> a" using q ep b by auto
      moreover have "ep_peer e \<noteq> ep_peer ep"
        using peers ep q b \<open>ep_peer e \<noteq> 0\<close> unfolding peers_ok_def by (metis option.inject)
      ultimately show "ep_peer e \<noteq> b \<and> (\<exists>q. ep_at s' (ep_peer e) = Some q \<and> ep_peer q = b)" by (simp add: f(3))
    qed
    moreover have "\<not> ip_uaf s'" "N \<le> length (ip_eps s')" using ok f(6,7) by (simp_all add: ipc_ok_def)
    moreover have "\<forall>hi \<in> set hs. hi_ok C hi" using ok ep f(1) by (auto simp: ipc_ok_def queues_ok_def)
    ultimately show ?thesis unfolding ipc_ok_def tot by simp
  qed
  then show "ipc_ok C N B (mset (map info_key hs) + P) s'" "hi \<in> set hs \<Longrightarrow> hi_ok C hi" by simp_all
qed

definition pin :: "obj \<times> u16 \<Rightarrow> holding" where
  "pin x = Ref (fst x) (snd x)"

lemma pin_info [simp]: "pin (hi_object h, hi_type h) = info_key h"
  by (simp add: pin_def info_key_def)

lemma ipc_ok_orefs:
  assumes ok: "ipc_ok C N B P s" and ty: "ty \<noteq> A20_OBJ_CHANNEL_ENDPOINT"
    and P': "P' = add_mset (Ref ob ty) P \<and> d = 1 \<or> P = add_mset (Ref ob ty) P' \<and> d = - 1"
    and g: "g = (if counted_type ty then (ip_orefs s)(ob := ip_orefs s ob + d) else ip_orefs s)"
  shows "ipc_ok C N B P' (s\<lparr>ip_orefs := g\<rparr>)"
proof -
  have cnt: "count P' (Ref a A20_OBJ_CHANNEL_ENDPOINT) = count P (Ref a A20_OBJ_CHANNEL_ENDPOINT)"
      "count P' (Tab q) = count P (Tab q)" for a q
    using ty P' by auto
  have "eps_ok (refs s + P') s" using ok by (simp add: ipc_ok_def eps_ok_def cnt del: count_greater_zero_iff)
  moreover have "orefs_ok B (refs s + P') (s\<lparr>ip_orefs := g\<rparr>)"
    using ok P' unfolding g by (auto simp: ipc_ok_def orefs_ok_def)
  moreover have "tabs_ok C P' s" using ok by (simp add: ipc_ok_def tabs_ok_def cnt del: count_greater_zero_iff)
  ultimately show ?thesis
    using ok by (simp add: ipc_ok_def eps_ok_def tabs_ok_def queues_ok_def peers_ok_def)
qed

lemma ipc_ok_uncounted:
  assumes "ipc_ok C N B P s" "ty \<noteq> A20_OBJ_CHANNEL_ENDPOINT" "\<not> counted_type ty"
    and "P' = add_mset (Ref ob ty) P \<or> P = add_mset (Ref ob ty) P'"
  shows "ipc_ok C N B P' s"
  using ipc_ok_orefs [OF assms(1,2), of P' ob _ "ip_orefs s"] assms(3,4) by auto

lemma release_refs_ok:
  "ipc_ok C N B (mset (map pin work) + P) s \<Longrightarrow> (\<forall>x \<in> set work. fst x \<noteq> 0) \<Longrightarrow>
   ipc_ok C N B P (release_refs work s)"
proof (induction work s rule: release_refs.induct)
  case (2 ob type rest s)
  let ?R = "mset (map pin rest) + P"
  have pre: "ipc_ok C N B (add_mset (Ref ob type) ?R) s" and ob: "ob \<noteq> 0" and nz: "\<forall>x \<in> set rest. fst x \<noteq> 0"
    using "2.prems" by (simp_all add: pin_def [of "(ob, type)"])
  consider (ch) "type = A20_OBJ_CHANNEL_ENDPOINT" | (cnt) "type \<noteq> A20_OBJ_CHANNEL_ENDPOINT" "counted_type type"
    | (prog) "type \<noteq> A20_OBJ_CHANNEL_ENDPOINT" "\<not> counted_type type" "type = A20_OBJ_EXT_PROG"
    | (none) "type \<noteq> A20_OBJ_CHANNEL_ENDPOINT" "\<not> counted_type type" "type \<noteq> A20_OBJ_EXT_PROG" by blast
  then show ?case
  proof cases
    case ch
    obtain hs s1 where put: "ep_put ob s = (hs, s1)" by force
    note e = ep_put_ok [OF pre [unfolded ch] put]
    have "\<forall>x \<in> set (map (\<lambda>h. (hi_object h, hi_type h)) hs @ rest). fst x \<noteq> 0"
      using e(2) nz by (auto simp: hi_ok_def limits_ok_def hi_entry_def)
    moreover have "ipc_ok C N B (mset (map pin (map (\<lambda>h. (hi_object h, hi_type h)) hs @ rest)) + P) s1"
      using e(1) by (simp add: comp_def ac_simps del: mset_map)
    ultimately show ?thesis
      using "2.IH"(2) [OF ob ch put [symmetric]] ob ch put by (simp add: release_refs.simps(2))
  next
    case cnt
    have "ipc_ok C N B ?R (drop_count ob type s)"
      using ipc_ok_orefs [OF pre cnt(1), of ?R ob "- 1"] cnt(2) by (simp add: drop_count_def Let_def)
    with "2.IH"(3) [OF ob cnt] nz ob cnt show ?thesis by (simp add: release_refs.simps(2))
  next
    case prog
    have "ipc_ok C N B ?R (s\<lparr>ip_progs := (ip_progs s)(ob := ip_progs s ob + 1)\<rparr>)"
      using ipc_ok_uncounted [OF pre prog(1,2)] by simp
    with "2.IH"(4) [OF ob prog] nz ob prog show ?thesis by (simp add: release_refs.simps(2))
  next
    case none
    with "2.IH"(5) [OF ob none] ipc_ok_uncounted [OF pre none(1,2), of ?R ob] nz ob show ?thesis
      by (simp add: release_refs.simps(2))
  qed
qed simp

lemma object_release_ok:
  assumes "ipc_ok C N B (add_mset (Ref ob ty) P) s" "ob \<noteq> 0"
  shows "ipc_ok C N B P (a20_object_release ob ty s)"
  using release_refs_ok [of C N B "[(ob, ty)]" P s] assms by (simp add: a20_object_release_def pin_def)

lemma ep_release_ok:
  assumes "ipc_ok C N B (add_mset (Ref a A20_OBJ_CHANNEL_ENDPOINT) P) s" "a \<noteq> 0"
  shows "ipc_ok C N B P (a20_channel_ep_release a s)"
  using release_refs_ok [of C N B "[(a, A20_OBJ_CHANNEL_ENDPOINT)]" P s] assms
  by (simp add: a20_channel_ep_release_def pin_def)

lemma release_all_ok:
  assumes "ipc_ok C N B (mset (map info_key his) + P) s" "\<forall>hi \<in> set his. hi_ok C hi"
  shows "ipc_ok C N B P (release_all his s)"
  using release_refs_ok [of C N B "map (\<lambda>h. (hi_object h, hi_type h)) his" P s] assms
  by (simp add: release_all_def comp_def hi_ok_def limits_ok_def hi_entry_def)

subsection \<open>Taking references\<close>

lemma object_ref_ok:
  assumes ok: "ipc_ok C N B P s" and r: "Ref ob ty \<in># refs s + P" and ob: "ob \<noteq> 0"
  shows "ipc_ok C N B (add_mset (Ref ob ty) P) (a20_object_ref ob ty s)"
proof (cases "ty = A20_OBJ_CHANNEL_ENDPOINT")
  case True
  with refcount_inc_ok [OF ok, of ob] ipc_ok_ep [OF ok, of ob] r ob show ?thesis
    by (auto simp: a20_object_ref_def)
next
  case False
  with ipc_ok_orefs [OF ok False, of "add_mset (Ref ob ty) P" ob 1] ipc_ok_uncounted [OF ok False] ob show ?thesis
    by (auto simp: a20_object_ref_def)
qed

lemma refs_object_ref [simp]: "refs (a20_object_ref ob ty s) = refs s"
proof (cases "ep_at s ob")
  case None
  then show ?thesis by (simp add: a20_object_ref_def refcount_inc_def ep_upd_def refs_def)
next
  case (Some ep)
  from refs_ep_upd [OF this, of "ep_refcount_update (\<lambda>n. n + 1)"] show ?thesis
    by (simp add: a20_object_ref_def refcount_inc_def infos_def)
qed

lemma ref_all_ok:
  assumes "ipc_ok C N B P s" "\<forall>hi \<in> set his. hi_ok C hi \<and> info_key hi \<in># refs s + P"
  shows "ipc_ok C N B (mset (map info_key his) + P) (ref_all his s)"
  using assms
proof (induction his arbitrary: s P)
  case (Cons hi his)
  have "ipc_ok C N B (add_mset (info_key hi) P) (a20_object_ref (hi_object hi) (hi_type hi) s)"
    unfolding info_key_def
    by (rule object_ref_ok [OF Cons.prems(1)])
      (use Cons.prems(2) in \<open>simp_all add: info_key_def hi_ok_def limits_ok_def hi_entry_def\<close>)
  from Cons.IH [OF this] Cons.prems(2) show ?case by (simp add: ref_all_def)
qed (simp add: ref_all_def)

end
