(* ===== verification/Ipc_Channel_Safety.thy ===== *)
theory Ipc_Channel_Safety
  imports Ipc_Release
begin

text \<open>
  The channel operations keep the invariant of \<^verbatim>\<open>Ipc_Refs\<close>.  The others act while a call
  sleeps: they hold the references \<open>W\<close> before and \<open>W'\<close> after an action, and whatever else is held
  (\<open>F\<close>, the references of the sleeping call among it) is not theirs to drop.
\<close>

unbundle bit_operations_syntax

abbreviation ch_ref :: "obj \<Rightarrow> holding" where
  "ch_ref a \<equiv> Ref a A20_OBJ_CHANNEL_ENDPOINT"

definition acts ::
  "(handle_entry \<Rightarrow> bool) \<Rightarrow> nat \<Rightarrow> (obj \<Rightarrow> int) \<Rightarrow> holding multiset \<Rightarrow> holding multiset \<Rightarrow> (ipc \<Rightarrow> ipc) \<Rightarrow> bool" where
  "acts C N B W W' f \<longleftrightarrow> (\<forall>F s. ipc_ok C N B (W + F) s \<longrightarrow> ipc_ok C N B (W' + F) (f s))"

text \<open>A script of waits is admissible from the holdings \<open>W\<close> of the others, which stay in \<open>S\<close>.\<close>

inductive env_ok ::
  "(handle_entry \<Rightarrow> bool) \<Rightarrow> nat \<Rightarrow> (obj \<Rightarrow> int) \<Rightarrow> holding multiset set \<Rightarrow> holding multiset \<Rightarrow> waits \<Rightarrow> bool"
  for C N B S where
  asleep: "W \<in> S \<Longrightarrow> env_ok C N B S W Asleep"
| no_park: "W \<in> S \<Longrightarrow> env_ok C N B S W No_Park"
| no_link: "W \<in> S \<Longrightarrow> acts C N B W W1 before \<Longrightarrow> env_ok C N B S W1 rest \<Longrightarrow> env_ok C N B S W (No_Link before rest)"
| wait: "W \<in> S \<Longrightarrow> acts C N B W W1 before \<Longrightarrow> env_ok C N B S W1 retry \<Longrightarrow>
    acts C N B W1 W2 during \<Longrightarrow> env_ok C N B S W2 rest \<Longrightarrow> env_ok C N B S W (Wait before retry during reason rest)"

inductive_cases env_ok_No_LinkE: "env_ok C N B S W (No_Link before rest)"
inductive_cases env_ok_WaitE: "env_ok C N B S W (Wait before retry during reason rest)"

lemma env_ok_in: "env_ok C N B S W ws \<Longrightarrow> W \<in> S"
  by (erule env_ok.cases) auto

text \<open>The outcome of a call: a call that has returned holds nothing any more.\<close>

definition settled ::
  "(handle_entry \<Rightarrow> bool) \<Rightarrow> nat \<Rightarrow> (obj \<Rightarrow> int) \<Rightarrow> holding multiset set \<Rightarrow> holding multiset \<Rightarrow> 'r option \<times> ipc \<Rightarrow> bool" where
  "settled C N B S F res \<longleftrightarrow> (\<exists>W \<in> S. \<exists>own. ipc_ok C N B (own + (W + F)) (snd res) \<and>
     (fst res \<noteq> None \<longrightarrow> own = {#}))"

lemma settledI: "ipc_ok C N B (W + F) s \<Longrightarrow> W \<in> S \<Longrightarrow> settled C N B S F (r, s)"
  by (auto simp: settled_def intro!: bexI [of _ W] exI [of _ "{#}"])

lemma settled_None: "ipc_ok C N B (own + (W + F)) s \<Longrightarrow> W \<in> S \<Longrightarrow> settled C N B S F (None, s)"
  by (auto simp: settled_def)

subsection \<open>Wait queues\<close>

lemma wake_one_ok: "ipc_ok C N B P s \<Longrightarrow> ep_at s a \<noteq> None \<Longrightarrow> ipc_ok C N B P (wait_queue_wake_one a k s)"
  by (auto simp: wait_queue_wake_one_def split: option.splits prod.splits intro!: ipc_ok_ep_cosmetic)

lemma wake_all_ok: "ipc_ok C N B P s \<Longrightarrow> ep_at s a \<noteq> None \<Longrightarrow> ipc_ok C N B P (wait_queue_wake_all a s)"
  by (auto simp: wait_queue_wake_all_def intro!: ipc_ok_ep_cosmetic)

lemma link_ok: "ipc_ok C N B P s \<Longrightarrow> ep_at s a \<noteq> None \<Longrightarrow> ipc_ok C N B P (wait_queue_link a t k s)"
  unfolding wait_queue_link_def by (intro ipc_ok_ep_cosmetic) simp_all

lemma unlink_ok: "ipc_ok C N B P s \<Longrightarrow> ep_at s a \<noteq> None \<Longrightarrow> ipc_ok C N B P (wait_queue_unlink a t s)"
  unfolding wait_queue_unlink_def by (intro ipc_ok_ep_cosmetic) simp_all

lemma held_ep: "ipc_ok C N B P s \<Longrightarrow> ch_ref a \<in># P \<Longrightarrow> ep_at s a \<noteq> None"
  using ipc_ok_ep [of C N B P s a] by auto

lemma ep_at_wake_one:
  "ep_at (wait_queue_wake_one a k s) b = None \<longleftrightarrow> ep_at s b = None"
  by (auto simp: wait_queue_wake_one_def ep_at_upd split: option.splits prod.splits)

subsection \<open>Peers\<close>

lemma peer_alive:
  assumes "ipc_ok C N B P s" "ep_at s a = Some ep" "ep_peer ep \<noteq> 0"
  obtains q where "ep_at s (ep_peer ep) = Some q" "ep_peer q = a" "0 < ep_refcount q"
proof -
  from assms obtain q where q: "ep_at s (ep_peer ep) = Some q" "ep_peer q = a"
    by (auto simp: ipc_ok_def peers_ok_def)
  moreover from ipc_ok_count [OF assms(1) q(1)] have "0 < ep_refcount q" by linarith
  ultimately show ?thesis by (rule that)
qed

lemma peer_ref_ok:
  assumes ok: "ipc_ok C N B P s" and a: "ch_ref a \<in># P" "a \<noteq> 0"
    and run: "a20_channel_ep_peer_ref a s = (peer, s1)"
  shows "peer = 0 \<and> s1 = s \<or>
    peer \<noteq> 0 \<and> ipc_ok C N B (add_mset (ch_ref peer) P) s1 \<and> s1 = refcount_inc peer s \<and> ep_at s peer \<noteq> None"
proof -
  obtain ep where ep: "ep_at s a = Some ep" using held_ep [OF ok a(1)] by blast
  show ?thesis
  proof (cases "ep_peer ep = 0")
    case True
    with run ep a(2) show ?thesis by (simp add: a20_channel_ep_peer_ref_def)
  next
    case False
    from peer_alive [OF ok ep False] obtain q where q: "ep_at s (ep_peer ep) = Some q" "0 < ep_refcount q" by metis
    with run ep a(2) False have "peer = ep_peer ep" "s1 = refcount_inc peer s"
      by (auto simp: a20_channel_ep_peer_ref_def)
    with refcount_inc_ok [OF ok, of peer] q False show ?thesis by simp
  qed
qed

text \<open>Taking a reference and dropping it again changes nothing.\<close>

lemma ref_release_id:
  assumes "ipc_ok C N B P s" "ep_at s b \<noteq> None"
  shows "a20_channel_ep_release b (refcount_inc b s) = s"
proof -
  obtain q where q: "ep_at s b = Some q" using assms(2) by blast
  have pos: "0 < ep_refcount q" using ipc_ok_count [OF assms(1) q] by linarith
  have b: "b \<noteq> 0" using ep_at_SomeD [OF q] by simp
  have at: "ep_at (refcount_inc b s) b = Some (q\<lparr>ep_refcount := ep_refcount q + 1\<rparr>)"
    using q by (simp add: refcount_inc_def ep_at_upd)
  have "ep_put b (refcount_inc b s) = ([], ep_upd b ((ep_refcount_update (\<lambda>n. n - 1)) \<circ> (ep_refcount_update (\<lambda>n. n + 1))) s)"
    using at pos by (simp add: ep_put_def) (simp add: refcount_inc_def ep_upd_twice)
  moreover have "ep_upd b ((ep_refcount_update (\<lambda>n. n - 1)) \<circ> (ep_refcount_update (\<lambda>n. n + 1))) s = s"
    using q ep_at_SomeD [OF q] by (simp add: ep_upd_def list_update_same_conv)
  ultimately show ?thesis using b by (simp add: a20_channel_ep_release_def release_refs.simps(2))
qed

subsection \<open>Queues\<close>

lemma infos_append: "infos (ep\<lparr>ep_queue := ep_queue ep @ [m], ep_total_data := n\<rparr>) = infos ep @ msg_handles m"
  by (simp add: infos_def)

lemma enqueue_ok:
  assumes ok: "ipc_ok C N B (mset (map info_key (msg_handles m)) + P) s" and b: "ep_at s b \<noteq> None"
    and his: "\<forall>hi \<in> set (msg_handles m). hi_ok C hi"
  shows "ipc_ok C N B P (ep_upd b (\<lambda>p. p\<lparr>ep_queue := ep_queue p @ [m],
    ep_total_data := ep_total_data p + length (msg_data m)\<rparr>) s)"
proof -
  obtain q where q: "ep_at s b = Some q" using b by blast
  show ?thesis
  proof (rule ipc_ok_ep_upd [OF ok q])
    show "count P (Tab p) = count (mset (map info_key (msg_handles m)) + P) (Tab p)" for p
      by (auto simp: count_eq_zero_iff info_key_def simp del: mset_map)
    show "hi_ok C hi" if "hi \<in> set (infos (q\<lparr>ep_queue := ep_queue q @ [m],
        ep_total_data := ep_total_data q + length (msg_data m)\<rparr>))" for hi
      using that his ok q by (auto simp: infos_append ipc_ok_def queues_ok_def)
  qed (simp_all add: infos_append)
qed

lemma dequeue_ok:
  assumes ok: "ipc_ok C N B P s" and a: "ep_at s a = Some ep" "ep_queue ep = m # ms"
  shows "ipc_ok C N B (mset (map info_key (msg_handles m)) + P) (ch_dequeue a s)"
    "\<forall>hi \<in> set (msg_handles m). hi_ok C hi"
proof -
  let ?f = "\<lambda>ep. ep\<lparr>ep_queue := tl (ep_queue ep),
        ep_total_data := ep_total_data ep - length (msg_data (hd (ep_queue ep)))\<rparr>"
  have inf: "infos ep = msg_handles m @ infos (?f ep)" using a(2) by (simp add: infos_def)
  have qs: "\<forall>hi \<in> set (infos ep). hi_ok C hi" using ok a(1) by (auto simp: ipc_ok_def queues_ok_def)
  then show "\<forall>hi \<in> set (msg_handles m). hi_ok C hi" using inf by auto
  have "ipc_ok C N B (mset (map info_key (msg_handles m)) + P) (ep_upd a ?f s)"
  proof (rule ipc_ok_ep_upd [OF ok a(1)])
    show "count (mset (map info_key (msg_handles m)) + P) (Tab p) = count P (Tab p)" for p
      by (auto simp: count_eq_zero_iff info_key_def simp del: mset_map)
    show "mset (map info_key (infos (?f ep))) + (mset (map info_key (msg_handles m)) + P) =
        mset (map info_key (infos ep)) + P"
      unfolding inf by simp
    show "hi_ok C hi" if "hi \<in> set (infos (?f ep))" for hi using that qs inf by simp
  qed simp_all
  then show "ipc_ok C N B (mset (map info_key (msg_handles m)) + P) (ch_dequeue a s)"
    unfolding ch_dequeue_def using a(1) by (intro wake_one_ok) (simp_all add: ep_at_upd)
qed

subsection \<open>Sending\<close>

lemma try_enqueue_ok:
  assumes ok: "ipc_ok C N B (mset (map info_key (msg_handles m)) + P) s" and a: "ch_ref a \<in># P" "a \<noteq> 0"
    and his: "\<forall>hi \<in> set (msg_handles m). hi_ok C hi" and run: "ch_try_enqueue a m dw s = (r, s')"
  shows "if r = Enqueued then ipc_ok C N B P s' else s' = s"
    "r = Queue_Full \<Longrightarrow> \<exists>ep. ep_at s a = Some ep \<and> ep_peer ep \<noteq> 0"
proof -
  let ?K = "mset (map info_key (msg_handles m)) + P"
  have a': "ch_ref a \<in># ?K" using a(1) by simp
  obtain peer s1 where pr: "a20_channel_ep_peer_ref a s = (peer, s1)" by force
  note p = peer_ref_ok [OF ok a' a(2) pr]
  have "(if r = Enqueued then ipc_ok C N B P s' else s' = s) \<and>
    (r = Queue_Full \<longrightarrow> (\<exists>ep. ep_at s a = Some ep \<and> ep_peer ep \<noteq> 0))"
  proof (cases "peer = 0")
    case True
    with p run pr show ?thesis by (auto simp: ch_try_enqueue_def)
  next
    case False
    with p have ok1: "ipc_ok C N B (add_mset (ch_ref peer) ?K) s1" and s1: "s1 = refcount_inc peer s"
      and alive: "ep_at s peer \<noteq> None" by blast+
    have undo: "a20_channel_ep_release peer s1 = s" unfolding s1 by (rule ref_release_id [OF ok alive])
    have full: "\<exists>ep. ep_at s a = Some ep \<and> ep_peer ep \<noteq> 0"
      using pr False by (auto simp: a20_channel_ep_peer_ref_def split: if_splits option.splits)
    obtain q where q: "ep_at s1 peer = Some q" using held_ep [OF ok1, of peer] by auto
    show ?thesis
    proof (cases "ep_peer_closed q \<or> length (ep_queue q) \<ge> ep_cap q")
      case True
      with run pr False q undo full show ?thesis by (auto simp: ch_try_enqueue_def split: if_splits)
    next
      case ok2: False
      let ?s2 = "ep_upd peer (\<lambda>p. p\<lparr>ep_queue := ep_queue p @ [m],
                           ep_total_data := ep_total_data p + length (msg_data m)\<rparr>) s1"
      have e: "ipc_ok C N B (add_mset (ch_ref peer) P) ?s2"
        using ok1 q his by (intro enqueue_ok) simp_all
      then have "ipc_ok C N B (add_mset (ch_ref peer) P) (if dw then ?s2 else wait_queue_wake_one peer A20_CH_WAIT_RECV ?s2)"
        using wake_one_ok [OF e, of peer] q by (simp add: ep_at_upd)
      with run pr False q ok2 ep_release_ok [OF _ False] show ?thesis
        by (auto simp: ch_try_enqueue_def Let_def)
    qed
  qed
  then show "if r = Enqueued then ipc_ok C N B P s' else s' = s"
    "r = Queue_Full \<Longrightarrow> \<exists>ep. ep_at s a = Some ep \<and> ep_peer ep \<noteq> 0" by simp_all
qed

lemma actsD: "acts C N B W W' f \<Longrightarrow> ipc_ok C N B (K + (W + F)) s \<Longrightarrow> ipc_ok C N B (K + (W' + F)) (f s)"
  unfolding acts_def by (simp add: add.left_commute [of K])

lemma send_wait_ok:
  assumes ok: "ipc_ok C N B (K + (W + F)) s" and a: "ch_ref a \<in># F" "a \<noteq> 0"
    and env: "acts C N B W W1 before" "acts C N B W1 W2 during" and run: "send_wait me a before during reason s = (r, s')"
  shows "ipc_ok C N B (K + (W1 + F)) s' \<and> r \<noteq> Inr True \<or> ipc_ok C N B (K + (W2 + F)) s' \<and> r \<noteq> Inr False"
proof -
  have ok1: "ipc_ok C N B (K + (W1 + F)) (before s)" by (rule actsD [OF env(1) ok])
  obtain peer s1 where pr: "a20_channel_ep_peer_ref a (before s) = (peer, s1)" by force
  have a': "ch_ref a \<in># K + (W1 + F)" using a(1) by simp
  note p = peer_ref_ok [OF ok1 a' a(2) pr]
  show ?thesis
  proof (cases "peer = 0")
    case True
    with p run pr ok1 show ?thesis by (auto simp: send_wait_def)
  next
    case False
    with p have ok2: "ipc_ok C N B (add_mset (ch_ref peer) K + (W1 + F)) s1" by auto
    show ?thesis
    proof (cases "peer_full peer s1")
      case True
      let ?s2 = "wait_queue_link peer me A20_CH_WAIT_SEND s1"
      have "ipc_ok C N B (add_mset (ch_ref peer) K + (W1 + F)) ?s2"
        using ok2 held_ep [OF ok2, of peer] by (intro link_ok) simp_all
      from actsD [OF env(2) this]
      have d: "ipc_ok C N B (add_mset (ch_ref peer) (K + (W2 + F))) (during ?s2)" by simp
      have "ipc_ok C N B (add_mset (ch_ref peer) (K + (W2 + F))) (wait_queue_unlink peer me (during ?s2))"
        using d held_ep [OF d, of peer] by (intro unlink_ok) simp_all
      from ep_release_ok [OF this False] run pr False True show ?thesis
        by (auto simp: send_wait_def Let_def split: if_splits)
    next
      case full: False
      with ep_release_ok [of C N B peer "K + (W1 + F)" s1] ok2 run pr False show ?thesis by (auto simp: send_wait_def)
    qed
  qed
qed

lemma send_no_link_ok:
  assumes ok: "ipc_ok C N B (K + (W + F)) s" and a: "ch_ref a \<in># F" "a \<noteq> 0" and env: "acts C N B W W1 before"
    and run: "send_no_link a before s = (r, s')"
  shows "ipc_ok C N B (K + (W1 + F)) s'"
proof -
  obtain peer s1 where pr: "a20_channel_ep_peer_ref a (before s) = (peer, s1)" by force
  have ok1: "ipc_ok C N B (K + (W1 + F)) (before s)" using actsD [OF env ok] .
  have "ch_ref a \<in># K + (W1 + F)" using a(1) by simp
  from peer_ref_ok [OF ok1 this a(2) pr] ep_release_ok [of C N B peer "K + (W1 + F)" s1] ok1 run pr show ?thesis
    by (auto simp: send_no_link_def split: if_splits)
qed

lemma send_asleep_ok:
  assumes "ipc_ok C N B P s" "ch_ref a \<in># P" "a \<noteq> 0" "ep_at s a = Some ep" "ep_peer ep \<noteq> 0"
  shows "\<exists>peer. ipc_ok C N B (add_mset (ch_ref peer) P) (send_asleep me a s)"
proof -
  obtain peer s1 where pr: "a20_channel_ep_peer_ref a s = (peer, s1)" by force
  obtain q where "ep_at s (ep_peer ep) = Some q" "0 < ep_refcount q" using peer_alive [OF assms(1,4,5)] by blast
  with pr assms(3,4,5) have "peer \<noteq> 0" by (auto simp: a20_channel_ep_peer_ref_def)
  with peer_ref_ok [OF assms(1-3) pr] have ok: "ipc_ok C N B (add_mset (ch_ref peer) P) s1" by blast
  have "ipc_ok C N B (add_mset (ch_ref peer) P) (wait_queue_link peer me A20_CH_WAIT_SEND s1)"
    using ok held_ep [OF ok, of peer] by (intro link_ok) simp_all
  with pr show ?thesis by (auto simp: send_asleep_def)
qed

lemma send_fail:
  assumes "ipc_ok C N B (mset (map info_key (msg_handles m)) + (W + F)) s" "\<forall>hi \<in> set (msg_handles m). hi_ok C hi" "W \<in> S"
  shows "settled C N B S F (x, ch_msg_free m True s)"
  using release_all_ok [OF assms(1,2)] assms(3) by (auto simp: ch_msg_free_def intro: settledI)

text \<open>One attempt: it settles the call, or the queue is full and nothing has changed.\<close>

lemma send_attempt:
  assumes ok: "ipc_ok C N B (mset (map info_key (msg_handles m)) + (W + F)) s" and a: "ch_ref a \<in># F" "a \<noteq> 0"
    and his: "\<forall>hi \<in> set (msg_handles m). hi_ok C hi" and W: "W \<in> S"
  shows "settled C N B S F (send_loop me a m nb dw ws s) \<or>
    \<not> nb \<and> ch_try_enqueue a m dw s = (Queue_Full, s) \<and> (\<exists>ep. ep_at s a = Some ep \<and> ep_peer ep \<noteq> 0)"
proof -
  obtain r s1 where tr: "ch_try_enqueue a m dw s = (r, s1)" by force
  have a': "ch_ref a \<in># W + F" using a by simp
  note e = try_enqueue_ok [OF ok a' a(2) his tr]
  note unf = send_loop.simps [of me a m nb dw ws s] tr
  show ?thesis
  proof (cases r)
    case Enqueued
    with e(1) W show ?thesis unfolding unf by (auto intro: settledI)
  next
    case (Enqueue_Err x)
    with e(1) send_fail [OF ok his W] show ?thesis unfolding unf by simp
  next
    case Queue_Full
    with e send_fail [OF ok his W] tr show ?thesis unfolding unf by (cases nb) auto
  qed
qed

lemma send_loop_ok:
  assumes "ipc_ok C N B (mset (map info_key (msg_handles m)) + (W + F)) s" "ch_ref a \<in># F" "a \<noteq> 0"
    "\<forall>hi \<in> set (msg_handles m). hi_ok C hi" "env_ok C N B S W ws"
  shows "settled C N B S F (send_loop me a m nb dw ws s)"
  using assms(1,5)
proof (induction ws arbitrary: W s)
  case Asleep
  note W = env_ok_in [OF Asleep(2)]
  from send_attempt [OF Asleep(1) assms(2-4) W, of me nb dw "waits.Asleep"] show ?case
  proof
    assume full: "\<not> nb \<and> ch_try_enqueue a m dw s = (Queue_Full, s) \<and> (\<exists>ep. ep_at s a = Some ep \<and> ep_peer ep \<noteq> 0)"
    with send_asleep_ok [OF Asleep(1) _ assms(3)] assms(2)
    obtain peer where
      "ipc_ok C N B (add_mset (ch_ref peer) (mset (map info_key (msg_handles m))) + (W + F)) (send_asleep me a s)"
      by auto
    from settled_None [OF this W] full show ?thesis by (simp add: send_loop.simps)
  qed
next
  case No_Park
  note W = env_ok_in [OF No_Park(2)]
  from send_attempt [OF No_Park(1) assms(2-4) W, of me nb dw "waits.No_Park"] send_fail [OF No_Park(1) assms(4) W]
  show ?case by (auto simp: send_loop.simps)
next
  case (No_Link before rest)
  note ok = No_Link.prems(1) and W = env_ok_in [OF No_Link.prems(2)]
  from No_Link.prems(2) obtain W1 where env: "acts C N B W W1 before" "env_ok C N B S W1 rest" by (rule env_ok_No_LinkE)
  obtain w s2 where sw: "send_no_link a before s = (w, s2)" by force
  note d = send_no_link_ok [OF ok assms(2,3) env(1) sw]
  from send_attempt [OF ok assms(2-4) W, of me nb dw "waits.No_Link before rest"] show ?case
    using d sw send_fail [OF d assms(4) env_ok_in [OF env(2)]] No_Link.IH [OF d env(2)]
    by (cases w) (auto simp: send_loop.simps [of _ _ _ _ _ "waits.No_Link before rest"])
next
  case (Wait before retry during reason rest)
  note ok = Wait.prems(1) and W = env_ok_in [OF Wait.prems(2)]
  from Wait.prems(2) obtain W1 W2 where env: "acts C N B W W1 before" "env_ok C N B S W1 retry"
    "acts C N B W1 W2 during" "env_ok C N B S W2 rest" by (rule env_ok_WaitE)
  obtain w s2 where sw: "send_wait me a before during reason s = (w, s2)" by force
  note d = send_wait_ok [OF ok assms(2,3) env(1,3) sw]
  from send_attempt [OF ok assms(2-4) W, of me nb dw "waits.Wait before retry during reason rest"] show ?case
  proof
    assume full: "\<not> nb \<and> ch_try_enqueue a m dw s = (Queue_Full, s) \<and> (\<exists>ep. ep_at s a = Some ep \<and> ep_peer ep \<noteq> 0)"
    show ?thesis
    proof (cases w)
      case (Inl x)
      from d show ?thesis
      proof (elim disjE conjE)
        assume "ipc_ok C N B (mset (map info_key (msg_handles m)) + (W1 + F)) s2"
        from send_fail [OF this assms(4) env_ok_in [OF env(2)]] full sw Inl show ?thesis
          by (simp add: send_loop.simps [of _ _ _ _ _ "waits.Wait before retry during reason rest"])
      next
        assume "ipc_ok C N B (mset (map info_key (msg_handles m)) + (W2 + F)) s2"
        from send_fail [OF this assms(4) env_ok_in [OF env(4)]] full sw Inl show ?thesis
          by (simp add: send_loop.simps [of _ _ _ _ _ "waits.Wait before retry during reason rest"])
      qed
    next
      case (Inr slept)
      with d full sw Wait.IH(1) [OF _ env(2), of s2] Wait.IH(2) [OF _ env(4), of s2] show ?thesis
        by (cases slept) (auto simp: send_loop.simps [of _ _ _ _ _ "waits.Wait before retry during reason rest"])
    qed
  qed
qed

lemma finish_call_ok:
  assumes "settled C N B S (add_mset (ch_ref a) F) res" "a \<noteq> 0"
  shows "settled C N B S F (finish_call a res)"
proof -
  obtain r s where res: "res = (r, s)" by force
  from assms(1) obtain W own where W: "W \<in> S" "ipc_ok C N B (own + (W + add_mset (ch_ref a) F)) s" "r \<noteq> None \<longrightarrow> own = {#}"
    by (auto simp: settled_def res)
  show ?thesis
  proof (cases r)
    case None
    with W settled_None [of C N B "add_mset (ch_ref a) own" W F s S] show ?thesis
      by (simp add: finish_call_def res)
  next
    case (Some x)
    with W ep_release_ok [of C N B a "W + F" s] assms(2) show ?thesis
      by (auto simp: finish_call_def res intro: settledI)
  qed
qed

lemma send_dwc_ok:
  assumes ok: "ipc_ok C N B (W + F) s" and a: "ch_ref a \<in># F" "a \<noteq> 0"
    and his: "\<forall>hi \<in> set his. hi_ok C hi \<and> info_key hi \<in># F" and env: "env_ok C N B S W ws"
  shows "settled C N B S F (a20_channel_send_dwc mem me a data his flags dw ws s)"
proof -
  note W = env_ok_in [OF env]
  let ?F = "add_mset (ch_ref a) F" and ?s1 = "refcount_inc a s"
  have ok1: "ipc_ok C N B (W + ?F) ?s1"
    using refcount_inc_ok [OF ok, of a] held_ep [OF ok, of a] a(1) by simp
  have ok2: "ipc_ok C N B (mset (map info_key his) + (W + ?F)) (ref_all his ?s1)"
    using his by (intro ref_all_ok [OF ok1]) auto
  have hi: "\<forall>hi \<in> set his. hi_ok C hi" using his by blast
  have nomem: "settled C N B S ?F (Some (Inl A20_ERR_NO_MEMORY), release_all his (ref_all his ?s1))"
    using release_all_ok [OF ok2 hi] W by (rule settledI)
  have loop: "settled C N B S ?F (send_loop me a \<lparr>msg_data = data, msg_handles = his\<rparr> nb dw ws (ref_all his ?s1))" for nb
    using ok2 a hi env by (intro send_loop_ok) simp_all
  have "settled C N B S F (finish_call a (case send_type_check (ep_type_of a ?s1) (length data) his of
             Some e \<Rightarrow> (Some (Inl e), ?s1)
           | None \<Rightarrow>
               let s2 = ref_all his ?s1
               in if \<not> mem then (Some (Inl A20_ERR_NO_MEMORY), release_all his s2)
                  else send_loop me a \<lparr>msg_data = data, msg_handles = his\<rparr> (flags AND A20_MSG_NONBLOCK \<noteq> 0)
                         dw ws s2))"
    by (rule finish_call_ok [OF _ a(2)])
      (use nomem loop settledI [OF ok1 W] in \<open>auto simp: Let_def split: option.splits\<close>)
  then show ?thesis
    using a(2) by (simp add: a20_channel_send_dwc_def Let_def settledI [OF ok W])
qed

subsection \<open>Receiving\<close>

lemma recv_try_ok:
  assumes ok: "ipc_ok C N B P s" and a: "ch_ref a \<in># P" and run: "recv_try a nb s = (r, s1)"
  shows "case r of
      Ready m \<Rightarrow> s1 = s \<and> (\<exists>ep ms. ep_at s a = Some ep \<and> ep_queue ep = m # ms)
    | Recv_Err e \<Rightarrow> ipc_ok C N B P s1
    | Recv_Empty \<Rightarrow> s1 = s"
proof -
  obtain ep where ep: "ep_at s a = Some ep" using held_ep [OF ok a] by blast
  show ?thesis
  proof (cases "ep_queue ep")
    case Nil
    with run ep ok show ?thesis by (auto simp: recv_try_def split: if_splits)
  next
    case (Cons m ms)
    note d = dequeue_ok [OF ok ep Cons]
    from release_all_ok [OF d] run ep Cons show ?thesis
      by (auto simp: recv_try_def ch_msg_free_def split: option.splits)
  qed
qed

definition received ::
  "(handle_entry \<Rightarrow> bool) \<Rightarrow> nat \<Rightarrow> (obj \<Rightarrow> int) \<Rightarrow> holding multiset set \<Rightarrow> holding multiset \<Rightarrow> obj \<Rightarrow>
    (a20_err + ch_message) option \<times> ipc \<Rightarrow> bool" where
  "received C N B S F a res \<longleftrightarrow> (case fst res of
       Some (Inr m) \<Rightarrow> (\<exists>W \<in> S. ipc_ok C N B (add_mset (ch_ref a) (W + F)) (snd res)) \<and>
         (\<exists>ep ms. ep_at (snd res) a = Some ep \<and> ep_queue ep = m # ms)
     | _ \<Rightarrow> settled C N B S F res)"

lemma recv_idle_ok:
  assumes "ipc_ok C N B (add_mset (ch_ref a) (W + F)) s" "acts C N B W W' during"
    and "\<And>P s. ipc_ok C N B P s \<Longrightarrow> ch_ref a \<in># P \<Longrightarrow> ipc_ok C N B P (g s)"
  shows "ipc_ok C N B (add_mset (ch_ref a) (W' + F)) (wait_queue_unlink a me (during (g (wait_queue_link a me k s))))"
proof -
  have "ipc_ok C N B (add_mset (ch_ref a) (W + F)) (wait_queue_link a me k s)"
    using assms(1) held_ep [OF assms(1), of a] by (intro link_ok) simp_all
  from assms(3) [OF this] have "ipc_ok C N B ({#ch_ref a#} + (W + F)) (g (wait_queue_link a me k s))" by simp
  from actsD [OF assms(2) this]
  have d: "ipc_ok C N B (add_mset (ch_ref a) (W' + F)) (during (g (wait_queue_link a me k s)))" by simp
  show ?thesis using d held_ep [OF d, of a] by (intro unlink_ok) simp_all
qed

lemma recv_end: "ipc_ok C N B (add_mset (ch_ref a) (W + F)) s \<Longrightarrow> a \<noteq> 0 \<Longrightarrow> W \<in> S \<Longrightarrow>
  received C N B S F a (Some (Inl e), a20_channel_ep_release a s)"
  by (auto simp: received_def intro: settledI ep_release_ok)

lemma donate_ok:
  assumes ok: "ipc_ok C N B P s" and a: "ch_ref a \<in># P"
  shows "ipc_ok C N B P (donate don a s)"
proof -
  obtain ep where ep: "ep_at s a = Some ep" using held_ep [OF ok a] by blast
  then show ?thesis
    using ok wake_one_ok [OF ok, of "ep_peer ep"]
    by (auto simp: donate_def Let_def split: option.splits)
qed

lemma recv_attempt:
  assumes ok: "ipc_ok C N B (add_mset (ch_ref a) (W + F)) s" and a: "a \<noteq> 0" and W: "W \<in> S"
    and run: "recv_try a nb s = (r, s1)"
  shows "r = Ready m \<Longrightarrow> received C N B S F a (Some (Inr m), s1)"
    "r = Recv_Err e \<Longrightarrow> received C N B S F a (Some (Inl e), a20_channel_ep_release a s1)"
    "r = Recv_Empty \<Longrightarrow> s1 = s"
  using recv_try_ok [OF ok _ run] recv_end [OF _ a W, of C N B F s1] ok W
  by (auto simp: received_def)

text \<open>Both receive loops: \<open>g\<close> is what the task does after it has linked itself.\<close>

lemma recv_step:
  assumes ok: "ipc_ok C N B (add_mset (ch_ref a) (W + F)) s" and a: "a \<noteq> 0"
    and env: "acts C N B W W1 before" "acts C N B W1 W2 during"
    and g: "\<And>P s. ipc_ok C N B P s \<Longrightarrow> ch_ref a \<in># P \<Longrightarrow> ipc_ok C N B P (g s)"
    and run: "(r, s') = (let s1 = before s
      in if ep_idle a s1 then
           let s2 = wait_queue_unlink a me (during (g (wait_queue_link a me A20_CH_WAIT_RECV s1)))
           in if proc_wake_reason_is_task_interrupt reason then (Inl A20_ERR_INTERRUPTED, s2) else (Inr True, s2)
         else (Inr False, s1))"
  shows "r = Inr False \<and> ipc_ok C N B (add_mset (ch_ref a) (W1 + F)) s' \<or>
    r \<noteq> Inr False \<and> ipc_ok C N B (add_mset (ch_ref a) (W2 + F)) s'"
proof -
  have ok1: "ipc_ok C N B (add_mset (ch_ref a) (W1 + F)) (before s)"
    using actsD [OF env(1), of "{#ch_ref a#}"] ok by simp
  show ?thesis
    using run recv_idle_ok [OF ok1 env(2) g] ok1 by (auto simp: Let_def split: if_splits)
qed

lemma recv_loop_ok:
  assumes "ipc_ok C N B (add_mset (ch_ref a) (W + F)) s" "a \<noteq> 0" "env_ok C N B S W ws"
  shows "received C N B S F a (recv_loop me a nb ws s)"
  using assms(1,3)
proof (induction ws arbitrary: W s)
  case Asleep
  obtain r s1 where tr: "recv_try a nb s = (r, s1)" by force
  note t = recv_attempt [OF Asleep(1) assms(2) env_ok_in [OF Asleep(2)] tr]
  have "ipc_ok C N B ({#ch_ref a#} + (W + F)) (wait_queue_link a me A20_CH_WAIT_RECV s)"
    using Asleep(1) held_ep [OF Asleep(1), of a] by (intro link_ok) simp_all
  from settled_None [OF this env_ok_in [OF Asleep(2)]] t tr show ?case
    by (cases r) (auto simp: recv_loop.simps received_def)
next
  case No_Park
  obtain r s1 where tr: "recv_try a nb s = (r, s1)" by force
  from recv_attempt [OF No_Park(1) assms(2) env_ok_in [OF No_Park(2)] tr] tr
    recv_end [OF No_Park(1) assms(2) env_ok_in [OF No_Park(2)]]
  show ?case by (cases r) (auto simp: recv_loop.simps)
next
  case (No_Link before rest)
  obtain r s1 where tr: "recv_try a nb s = (r, s1)" by force
  note t = recv_attempt [OF No_Link.prems(1) assms(2) env_ok_in [OF No_Link.prems(2)] tr]
  from No_Link.prems(2) obtain W1 where env: "acts C N B W W1 before" "env_ok C N B S W1 rest" by (rule env_ok_No_LinkE)
  have "ipc_ok C N B (add_mset (ch_ref a) (W1 + F)) (before s)"
    using actsD [OF env(1), of "{#ch_ref a#}"] No_Link.prems(1) by simp
  from No_Link.IH [OF this env(2)] t tr show ?case
    by (cases r) (auto simp: recv_loop.simps [of _ _ _ "waits.No_Link before rest"])
next
  case (Wait before retry during reason rest)
  obtain r s1 where tr: "recv_try a nb s = (r, s1)" by force
  note t = recv_attempt [OF Wait.prems(1) assms(2) env_ok_in [OF Wait.prems(2)] tr]
  from Wait.prems(2) obtain W1 W2 where env: "acts C N B W W1 before" "env_ok C N B S W1 retry"
    "acts C N B W1 W2 during" "env_ok C N B S W2 rest" by (rule env_ok_WaitE)
  obtain w s2 where sw: "(w, s2) = recv_wait me a before during reason s" by (metis surj_pair)
  note d = recv_step [where g = "\<lambda>s. s", OF Wait.prems(1) assms(2) env(1,3) _ sw [unfolded recv_wait_def]]
  show ?case
    using t tr d sw [symmetric] recv_end [OF _ assms(2) env_ok_in [OF env(4)], of C N B F s2]
      Wait.IH(1) [OF _ env(2), of s2] Wait.IH(2) [OF _ env(4), of s2]
    by (cases r; cases w) (auto simp: recv_loop.simps [of _ _ _ "waits.Wait before retry during reason rest"])
qed

lemma recv_loop_donate_ok:
  assumes "ipc_ok C N B (add_mset (ch_ref a) (W + F)) s" "a \<noteq> 0" "env_ok C N B S W ws"
  shows "received C N B S F a (recv_loop_donate don me a nb ws s)"
  using assms(1,3)
proof (induction ws arbitrary: W s don)
  case Asleep
  obtain r s1 where tr: "recv_try a nb s = (r, s1)" by force
  note t = recv_attempt [OF Asleep(1) assms(2) env_ok_in [OF Asleep(2)] tr]
  have l: "ipc_ok C N B ({#ch_ref a#} + (W + F)) (wait_queue_link a me A20_CH_WAIT_RECV s)"
    using Asleep(1) held_ep [OF Asleep(1), of a] by (intro link_ok) simp_all
  have "ipc_ok C N B ({#ch_ref a#} + (W + F)) (donate don a (wait_queue_link a me A20_CH_WAIT_RECV s))"
    by (rule donate_ok [OF l]) simp
  from settled_None [OF this env_ok_in [OF Asleep(2)]] t tr show ?case
    by (cases r) (auto simp: recv_loop_donate.simps received_def)
next
  case No_Park
  obtain r s1 where tr: "recv_try a nb s = (r, s1)" by force
  from recv_attempt [OF No_Park(1) assms(2) env_ok_in [OF No_Park(2)] tr] tr
    recv_end [OF No_Park(1) assms(2) env_ok_in [OF No_Park(2)]]
  show ?case by (cases r) (auto simp: recv_loop_donate.simps)
next
  case (No_Link before rest)
  obtain r s1 where tr: "recv_try a nb s = (r, s1)" by force
  note t = recv_attempt [OF No_Link.prems(1) assms(2) env_ok_in [OF No_Link.prems(2)] tr]
  from No_Link.prems(2) obtain W1 where env: "acts C N B W W1 before" "env_ok C N B S W1 rest" by (rule env_ok_No_LinkE)
  have "ipc_ok C N B (add_mset (ch_ref a) (W1 + F)) (before s)"
    using actsD [OF env(1), of "{#ch_ref a#}"] No_Link.prems(1) by simp
  from No_Link.IH [OF this env(2), of don] t tr show ?case
    by (cases r) (auto simp: recv_loop_donate.simps [of _ _ _ _ "waits.No_Link before rest"])
next
  case (Wait before retry during reason rest)
  obtain r s1 where tr: "recv_try a nb s = (r, s1)" by force
  note t = recv_attempt [OF Wait.prems(1) assms(2) env_ok_in [OF Wait.prems(2)] tr]
  from Wait.prems(2) obtain W1 W2 where env: "acts C N B W W1 before" "env_ok C N B S W1 retry"
    "acts C N B W1 W2 during" "env_ok C N B S W2 rest" by (rule env_ok_WaitE)
  obtain w s2 where sw: "(w, s2) = recv_wait_donate don me a before during reason s" by (metis surj_pair)
  note d = recv_step [where g = "donate don a", OF Wait.prems(1) assms(2) env(1,3) donate_ok sw [unfolded recv_wait_donate_def]]
  show ?case
    using t tr d sw [symmetric] recv_end [OF _ assms(2) env_ok_in [OF env(4)], of C N B F s2]
      Wait.IH(1) [OF _ env(2), of s2 don] Wait.IH(2) [OF _ env(4), of s2 None]
    by (cases r; cases w) (auto simp: recv_loop_donate.simps [of _ _ _ _ "waits.Wait before retry during reason rest"])
qed

lemma recv_begin_ok:
  assumes ok: "ipc_ok C N B (W + F) s" and a: "ch_ref a \<in># F" "a \<noteq> 0" and env: "env_ok C N B S W ws"
  shows "received C N B S F a (a20_channel_recv_begin me a flags ws s)"
    "received C N B S F a (a20_channel_recv_begin_donate cd me a flags ws s)"
proof -
  have "ipc_ok C N B (add_mset (ch_ref a) (W + F)) (refcount_inc a s)"
    using refcount_inc_ok [OF ok, of a] held_ep [OF ok, of a] a(1) by simp
  note l = recv_loop_ok [OF this a(2) env] recv_loop_donate_ok [OF this a(2) env]
  have early: "received C N B S F a (Some (Inl e), s)" for e
    using settledI [OF ok env_ok_in [OF env], of "Some (Inl e)"] by (simp add: received_def)
  show "received C N B S F a (a20_channel_recv_begin me a flags ws s)"
    using l(1) early a(2) by (simp add: a20_channel_recv_begin_def)
  show "received C N B S F a (a20_channel_recv_begin_donate cd me a flags ws s)"
    using l(2) early a(2) by (simp add: a20_channel_recv_begin_donate_def)
qed

lemma tab_of_release [simp]: "tab_of p (release_refs work s) = tab_of p s"
proof (induction work s rule: release_refs.induct)
  case (2 ob type rest s)
  have ep: "tab_of p (snd (ep_put a s)) = tab_of p s" for a
    by (auto simp: ep_put_def Let_def wait_queue_wake_all_def tab_of_def ipc_log_def ep_upd_def split: option.splits)
  have d: "tab_of p (drop_count ob type s) = tab_of p s"
    by (simp add: drop_count_def Let_def)
  show ?case
    using 2 ep [of ob] d by (auto simp: release_refs.simps(2) split: prod.splits)
qed simp

lemma tab_of_quiet [simp]:
  "tab_of p (a20_channel_ep_release a s) = tab_of p s" "tab_of p (a20_object_release ob ty s) = tab_of p s"
  "tab_of p (release_all his s) = tab_of p s" "tab_of p (ch_msg_free m b s) = tab_of p s"
  "tab_of p (a20_object_ref ob ty s) = tab_of p s" "tab_of p (wait_queue_wake_one a k s) = tab_of p s"
  "tab_of p (ch_dequeue a s) = tab_of p s"
  by (auto simp: a20_channel_ep_release_def a20_object_release_def release_all_def ch_msg_free_def
      a20_object_ref_def refcount_inc_def wait_queue_wake_one_def ch_dequeue_def split: option.splits prod.splits)

lemma recv_finish_ok:
  assumes ok: "ipc_ok C N B (add_mset (ch_ref a) P) s" and a: "a \<noteq> 0"
    and q: "ep_at s a = Some ep" "ep_queue ep = m # ms" and run: "a20_channel_recv_finish a dc hc s = (r, s')"
  shows "case r of Inl e \<Rightarrow> ipc_ok C N B P s'
    | Inr m' \<Rightarrow> m' = m \<and> ipc_ok C N B (mset (map info_key (msg_handles m)) + P) s' \<and> (\<forall>hi \<in> set (msg_handles m). hi_ok C hi)"
    "tab_of p s' = tab_of p s"
proof -
  note d = dequeue_ok [OF ok q]
  have fin: "ipc_ok C N B (mset (map info_key (msg_handles m)) + P) (a20_channel_ep_release a (ch_dequeue a s))"
    using d(1) a by (intro ep_release_ok) simp_all
  have "\<exists>x. r = Inl x \<and> s' = a20_channel_ep_release a s \<or> r = Inr m \<and> s' = a20_channel_ep_release a (ch_dequeue a s)"
    using run q by (auto simp: a20_channel_recv_finish_def ch_msg_free_def split: if_splits option.splits)
  with fin d(2) ep_release_ok [OF ok a]
  show "case r of Inl e \<Rightarrow> ipc_ok C N B P s'
    | Inr m' \<Rightarrow> m' = m \<and> ipc_ok C N B (mset (map info_key (msg_handles m)) + P) s' \<and> (\<forall>hi \<in> set (msg_handles m). hi_ok C hi)"
    "tab_of p s' = tab_of p s" by auto
qed

end
