(* ===== verification/Ipc_Table_Safety.thy ===== *)
theory Ipc_Table_Safety
  imports Ipc_Channel_Safety
begin

text \<open>
  The operations on handle tables keep the invariant of \<^verbatim>\<open>Ipc_Refs\<close>: installing a handle takes
  over one reference from the caller, removing one drops it, and a lookup takes a reference.
\<close>

unbundle bit_operations_syntax

subsection \<open>Tables keep their own reference count\<close>

lemma refcount_slots [simp]:
  "ht_refcount (ht_put h e t) = ht_refcount t" "ht_refcount (ht_free_slot h t) = ht_refcount t"
  "ht_refcount (ht_detach h t) = ht_refcount t" "ht_refcount (abort_one h t) = ht_refcount t"
  by (simp_all add: ht_put_def ht_free_slot_def ht_detach_def abort_one_def Let_def)

lemma refcount_alloc: "ht_alloc_slot t = (r, t') \<Longrightarrow> ht_refcount t' = ht_refcount t"
  by (auto simp: ht_alloc_slot_def split: option.splits)

lemma refcount_grow: "ht_grow mem t = Inr t' \<Longrightarrow> ht_refcount t' = ht_refcount t"
  by (auto simp: ht_grow_def Let_def split: if_splits)

lemma refcount_take: "ht_take_slot mem t = (r, t') \<Longrightarrow> ht_refcount t' = ht_refcount t"
  by (auto simp: ht_take_slot_def dest!: refcount_alloc refcount_grow split: if_splits option.splits prod.splits sum.splits)

lemma refcount_install:
  "a20_handle_install_temporal mem ob ty ri ex ops fl lb t = (r, t', evs) \<Longrightarrow> ht_refcount t' = ht_refcount t"
  by (auto simp: a20_handle_install_temporal_def dest!: refcount_take split: option.splits prod.splits)

lemma refcount_grow_until: "grow_until slot mems t = (r, t') \<Longrightarrow> ht_refcount t' = ht_refcount t"
proof (induction slot mems t arbitrary: r t' rule: grow_until.induct)
  case (1 slot mems t)
  show ?case
  proof (cases "slot < ht_capacity t \<or> mems = []")
    case True
    with "1.prems" show ?thesis by (auto split: list.splits if_splits)
  next
    case False
    then obtain m ms where mems: "mems = m # ms" by (cases mems) auto
    show ?thesis
    proof (cases "ht_grow m t")
      case (Inl e)
      with False mems "1.prems" show ?thesis by simp
    next
      case (Inr t1)
      with False mems "1.prems" "1.IH" [of m ms t1] refcount_grow [OF Inr] show ?thesis by simp
    qed
  qed
qed

lemma refcount_install_at:
  "a20_handle_install_at_temporal mems s ob ty ri ex ops fl lb t = (r, t', evs) \<Longrightarrow> ht_refcount t' = ht_refcount t"
  by (auto simp: a20_handle_install_at_temporal_def simp del: grow_until.simps dest!: refcount_grow_until split: if_splits sum.splits prod.splits)

lemma refcount_reserve_loop: "reserve_loop n t = (hs, t') \<Longrightarrow> ht_refcount t' = ht_refcount t"
proof (induction n arbitrary: t hs t')
  case (Suc n)
  obtain r t1 where a: "ht_alloc_slot t = (r, t1)" by force
  note rc = refcount_alloc [OF a]
  show ?case
  proof (cases r)
    case None
    with Suc.prems a rc show ?thesis by simp
  next
    case (Some slot)
    let ?t = "(ht_put slot ((ht_entries t1 ! slot)\<lparr>he_state := A20_HS_CLOSING\<rparr>) t1)\<lparr>ht_count := ht_count t1 + 1\<rparr>"
    obtain hs2 t2 where "reserve_loop n ?t = (hs2, t2)" by force
    with Suc.prems a Some rc Suc.IH [OF this] show ?thesis by simp
  qed
qed simp

lemma refcount_abort: "ht_refcount (a20_handle_abort_reserved hs t) = ht_refcount t"
  unfolding a20_handle_abort_reserved_def by (induction hs arbitrary: t) simp_all

lemma refcount_reserve: "a20_handle_reserve_many mem n t = (r, t') \<Longrightarrow> ht_refcount t' = ht_refcount t"
  by (auto simp: a20_handle_reserve_many_def Let_def refcount_abort dest!: refcount_grow refcount_reserve_loop
      split: if_splits sum.splits prod.splits)

lemma refcount_sweep_pass: "sweep_pass now is objs t = (objs', t') \<Longrightarrow> ht_refcount t' = ht_refcount t"
  by (induction now "is" objs t rule: sweep_pass.induct) (auto simp: Let_def split: if_splits)

lemma refcount_sweep: "a20_temporal_sweep now k t = (t', evs) \<Longrightarrow> ht_refcount t' = ht_refcount t"
proof (induction now k t arbitrary: t' evs rule: a20_temporal_sweep.induct)
  case (1 now k t)
  obtain objs t1 where p: "sweep_pass (now k) [0..<ht_capacity t] [] t = (objs, t1)" by force
  obtain t2 ev2 where r: "a20_temporal_sweep now (k + 1) t1 = (t2, ev2)" by force
  show ?case
    using "1.prems" "1.IH" [OF p [symmetric] refl _ r] p r refcount_sweep_pass [OF p]
    by (simp add: a20_temporal_sweep.simps [of now k t] Let_def split: if_splits)
qed

lemmas refcount_kept = refcount_install refcount_install_at refcount_reserve refcount_abort refcount_sweep

subsection \<open>Changing a table\<close>

text \<open>Multisets of references to objects only.\<close>

definition objs_only :: "holding multiset \<Rightarrow> bool" where
  "objs_only R \<longleftrightarrow> (\<forall>p. Tab p \<notin># R)"

lemma objs_only_simps [simp]:
  "objs_only {#}" "objs_only (add_mset x R) \<longleftrightarrow> (\<forall>p. x \<noteq> Tab p) \<and> objs_only R"
  "objs_only (R + R') \<longleftrightarrow> objs_only R \<and> objs_only R'" "objs_only (okey e)"
  "objs_only (mset (map info_key his))" "objs_only (image_mset info_key (mset his))"
  "objs_only (mset (map pin objs))" "objs_only (image_mset pin (mset objs))"
  by (auto simp: objs_only_def okey_def info_key_def pin_def)

lemma count_objs_only: "objs_only R \<Longrightarrow> count R (Tab p) = 0"
  by (simp add: objs_only_def count_eq_zero_iff)

lemma filter_objs_only: "objs_only R \<Longrightarrow> filter_mset (\<lambda>x. \<forall>q. x \<noteq> Tab q) R = R"
proof (rule multiset_eqI)
  fix x
  assume "objs_only R"
  then show "count (filter_mset (\<lambda>x. \<forall>q. x \<noteq> Tab q) R) x = count R x" by (cases x) (simp_all add: count_objs_only)
qed

lemma table_step:
  assumes ok: "ipc_ok C N B (R + Q) s" and t: "tab_of p s = Some t" and p: "Tab p \<in># Q"
    and objs: "objs_only R" "objs_only R'" and t': "ht_ok t'" "ht_refcount t' = ht_refcount t"
    and C: "\<And>h. he_object (ent t' h) \<noteq> 0 \<Longrightarrow> C (ent t' h)"
    and keys: "fkeys (ent t') + R' = fkeys (ent t) + R"
  shows "ipc_ok C N B (R' + Q) (tab_put p (Some t') s)"
proof (rule ipc_ok_tab_put [OF ok t])
  show "tab_ok C t'" using t'(1) C by (simp add: tab_ok_def)
  show "ht_refcount t' + int (count (R + Q) (Tab p)) = ht_refcount t + int (count (R' + Q) (Tab p))"
    using objs t'(2) by (simp add: count_objs_only)
  show "0 < count (R' + Q) (Tab p)" using p by simp
  show "fkeys (ent t') + filter_mset (\<lambda>x. \<forall>q. x \<noteq> Tab q) (R' + Q) = fkeys (ent t) + filter_mset (\<lambda>x. \<forall>q. x \<noteq> Tab q) (R + Q)"
    using keys objs by (simp add: filter_objs_only add.assoc [symmetric])
  show "count (R' + Q) (Tab q) = count (R + Q) (Tab q)" for q using objs by (simp add: count_objs_only)
qed

lemma tab_put_same:
  assumes "tab_of p s = Some t"
  shows "tab_put p (Some t) s = s"
proof -
  have "Some t = ip_tabs s ! p" using assms by (simp add: tab_of_def split: if_splits)
  then show ?thesis by (simp add: tab_put_def)
qed

lemma key_in_refs:
  assumes "tab_of p s = Some t" "ht_ok t" "he_object (ent t h) \<noteq> 0"
  shows "Ref (he_object (ent t h)) (he_type (ent t h)) \<in># refs s"
proof -
  have "live_entry (ent t h)" using assms by (simp add: live_iff)
  then have "h < A20_HT_MAX_CAP" using ent_live_less assms(2) by (fastforce simp: ht_ok_def)
  then have "fkeys (ent t) = okey (ent t h) + (\<Sum>i\<in>{..<A20_HT_MAX_CAP} - {h}. okey (ent t i))"
    by (simp add: fkeys_def sum.remove [of "{..<A20_HT_MAX_CAP}" h])
  then have "Ref (he_object (ent t h)) (he_type (ent t h)) \<in># fkeys (ent t)" using assms(3) by simp
  moreover have "refs s = fkeys (ent t) + refs (tab_put p None s)"
    using refs_tab_put [OF tab_of_less [OF assms(1)], of None] assms(1) by (simp add: ac_simps)
  ultimately show ?thesis by simp
qed

lemma ent_less_max: "ht_ok t \<Longrightarrow> h < ht_capacity t \<Longrightarrow> h < A20_HT_MAX_CAP"
  by (simp add: ht_ok_def)

text \<open>A change of one slot.\<close>

lemma slot_change:
  assumes ok: "ipc_ok C N B (R + Q) s" and t: "tab_of p s = Some t" and p: "Tab p \<in># Q"
    and objs: "objs_only R" "objs_only R'" and t': "ht_ok t'" "ht_refcount t' = ht_refcount t"
    and ent: "ent t' = (ent t)(h := e)" "h < A20_HT_MAX_CAP"
    and keys: "okey e + R' = okey (ent t h) + R" and C: "he_object e \<noteq> 0 \<Longrightarrow> C e"
  shows "ipc_ok C N B (R' + Q) (tab_put p (Some t') s)"
proof (rule table_step [OF ok t p objs t'])
  have tk: "tab_ok C t" using ipc_ok_tab [OF ok, of p] t p by simp
  show "C (ent t' i)" if "he_object (ent t' i) \<noteq> 0" for i
    using that C tk by (auto simp: ent(1) tab_ok_def split: if_splits)
  have "fkeys (ent t') + R' + okey (ent t h) = (fkeys (ent t) + okey e) + R'"
    using fkeys_update [OF ent(2), of "ent t" e] ent(1) by (simp add: ac_simps)
  also have "\<dots> = fkeys (ent t) + (okey e + R')" by (simp add: ac_simps)
  also have "\<dots> = fkeys (ent t) + R + okey (ent t h)" by (simp only: keys) (simp add: ac_simps)
  finally show "fkeys (ent t') + R' = fkeys (ent t) + R" by simp
qed

subsection \<open>The operations\<close>

lemma cap_boundD: "cap_bound C N \<Longrightarrow> C e \<Longrightarrow> cap_le e' e \<Longrightarrow> C e'"
  by (auto simp: cap_bound_def)

lemma limits_live: "ht_ok t \<Longrightarrow> he_object (ent t h) \<noteq> 0 \<Longrightarrow> limits_ok (ent t h)"
  using ent_ok [of t h] live_iff [of t h] by (auto simp: limits_ok_def entry_ok_def)

lemma effective_le: "cap_le (e\<lparr>he_rights := a20_effective_rights now e\<rparr>) e"
  by (auto simp: cap_le_def a20_effective_rights_def)

lemma looked_up_le: "cap_le ((use_op e)\<lparr>he_rights := a20_effective_rights now e\<rparr>) e"
proof -
  have "cap_le ((use_op e)\<lparr>he_rights := a20_effective_rights now e\<rparr>) (e\<lparr>he_rights := a20_effective_rights now e\<rparr>)"
    using use_op_props(1) [of e] by (auto simp: cap_le_def)
  then show ?thesis using effective_le cap_le_trans by blast
qed

text \<open>A capability the caller may use: it meets the bound and names an object.\<close>

definition cap_ok :: "(handle_entry \<Rightarrow> bool) \<Rightarrow> handle_entry \<Rightarrow> bool" where
  "cap_ok C e \<longleftrightarrow> C e \<and> limits_ok e"

lemma lookup_mode_ok:
  assumes ok: "ipc_ok C N B P s" and p: "Tab p \<in># P" and C: "cap_bound C N"
    and run: "tab_do p (a20_handle_lookup_ref_mode now h ty req ref) s = (r, s')"
  shows "case r of
      Inl _ \<Rightarrow> s' = s
    | Inr e \<Rightarrow> cap_ok C e \<and> (ty \<noteq> A20_OBJ_INVALID \<longrightarrow> he_type e = ty) \<and>
        ipc_ok C N B (if ref then add_mset (Ref (he_object e) (he_type e)) P else P) s'"
proof -
  obtain t where t: "tab_of p s = Some t" "tab_ok C t" using ipc_ok_tab [OF ok p] by blast
  then have hok: "ht_ok t" by (simp add: tab_ok_def)
  obtain r' t' evs where l: "a20_handle_lookup_ref_mode now h ty req ref t = (r', t', evs)" by (metis prod_cases3)
  note sp = lookup_spec [OF l] and lo = lookup_ok [OF hok l]
  show ?thesis
  proof (cases r')
    case (Inl e)
    with sp run l t tab_put_same [OF t(1)] show ?thesis by (auto simp: tab_do_def run_events_def)
  next
    case (Inr e)
    with sp have adm: "lookup_admits now ty req (ent t h)" and cap: "h < ht_capacity t" and
      e: "e = (use_op (ent t h))\<lparr>he_rights := a20_effective_rights now (ent t h)\<rparr>" and
      t': "t' = ht_put h (use_op (ent t h)) t" and
      evs: "evs = (if ref then [ObjRef (he_object (ent t h)) (he_type (ent t h))] else [])" by simp_all
    have nz: "he_object (ent t h) \<noteq> 0" using adm by (simp add: lookup_admits_def)
    have "C (ent t h)" using t(2) nz by (simp add: tab_ok_def)
    then have Ce: "C e" "C (use_op (ent t h))"
      unfolding e using cap_boundD [OF C] looked_up_le use_op_props(1) by blast+
    have "limits_ok e"
      using limits_live [OF hok nz] by (simp add: e limits_ok_def use_op_props)
    have ok': "ipc_ok C N B ({#} + P) (tab_put p (Some t') s)"
    proof (rule slot_change [OF _ t(1) p _ _ lo(1)])
      show "ipc_ok C N B ({#} + P) s" using ok by simp
      show "ent t' = (ent t)(h := use_op (ent t h))" using lo(2) Inr by simp
      show "okey (use_op (ent t h)) + {#} = okey (ent t h) + {#}" by (simp add: okey_def use_op_props)
      show "ht_refcount t' = ht_refcount t" by (simp add: t')
    qed (use cap hok Ce in \<open>simp_all add: ent_less_max\<close>)
    let ?k = "Ref (he_object (ent t h)) (he_type (ent t h))"
    have "?k \<in># refs (tab_put p (Some t') s)"
      using key_in_refs [of p "tab_put p (Some t') s" t' h] lo t tab_of_less [OF t(1)] nz Inr
      by (simp add: tab_of_put use_op_props)
    with object_ref_ok [of C N B P "tab_put p (Some t') s"] ok' nz
    have "ipc_ok C N B (add_mset ?k P) (a20_object_ref (he_object (ent t h)) (he_type (ent t h)) (tab_put p (Some t') s))"
      by simp
    with ok' run l t(1) Inr evs Ce(1) \<open>limits_ok e\<close> adm show ?thesis
      by (auto simp: tab_do_def run_events_def e cap_ok_def lookup_admits_def use_op_props split: if_splits)
  qed
qed

lemma lookup_ref_ok:
  assumes "ipc_ok C N B P s" "Tab p \<in># P" "cap_bound C N"
    and "lookup_ref p now h ty req s = (r, s')"
  shows "case r of
      Inl _ \<Rightarrow> s' = s
    | Inr e \<Rightarrow> cap_ok C e \<and> (ty \<noteq> A20_OBJ_INVALID \<longrightarrow> he_type e = ty) \<and>
        ipc_ok C N B (add_mset (Ref (he_object e) (he_type e)) P) s'"
  using lookup_mode_ok [OF assms(1-3), of now h ty req True r s'] assms(4)
  by (simp add: a20_handle_lookup_ref_internal_def [abs_def] cong: sum.case_cong)

lemma cap_ok_object [simp]: "cap_ok C e \<Longrightarrow> he_object e \<noteq> 0"
  by (simp add: cap_ok_def limits_ok_def)

lemma put_entry_ok:
  "ipc_ok C N B (add_mset (Ref (he_object e) (he_type e)) P) s \<Longrightarrow> cap_ok C e \<Longrightarrow> ipc_ok C N B P (put_entry e s)"
  by (rule object_release_ok) simp_all

lemma handle_remove_ok:
  assumes ok: "ipc_ok C N B P s" and p: "Tab p \<in># P" and run: "tab_do p (a20_handle_remove h) s = (r, s')"
  shows "ipc_ok C N B P s'"
proof -
  obtain t where t: "tab_of p s = Some t" "tab_ok C t" using ipc_ok_tab [OF ok p] by blast
  then have hok: "ht_ok t" by (simp add: tab_ok_def)
  obtain r' t' evs where l: "a20_handle_remove h t = (r', t', evs)" by (metis prod_cases3)
  note sp = remove_spec [OF hok l]
  show ?thesis
  proof (cases r')
    case (Inl e)
    with sp run l t tab_put_same [OF t(1)] ok show ?thesis by (auto simp: tab_do_def run_events_def)
  next
    case (Inr u)
    with sp have live: "live_entry (ent t h)" and ent: "ent t' = (ent t)(h := freed (ent t h))" and
      evs: "evs = [StatHandles (- 1), ObjRelease (he_object (ent t h)) (he_type (ent t h))]" by simp_all
    have nz: "he_object (ent t h) \<noteq> 0" using live live_iff [OF hok] by simp
    have cap: "h < ht_capacity t" by (rule ent_live_less [OF live])
    let ?k = "Ref (he_object (ent t h)) (he_type (ent t h))"
    have "ipc_ok C N B ({#?k#} + P) (tab_put p (Some t') s)"
    proof (rule slot_change [OF _ t(1) p _ _ sp(1) _ ent])
      show "ipc_ok C N B ({#} + P) s" using ok by simp
      show "okey (freed (ent t h)) + {#?k#} = okey (ent t h) + {#}" using nz by simp
      show "ht_refcount t' = ht_refcount t" using l Inr by (auto simp: a20_handle_remove_def split: if_splits)
    qed (use cap hok in \<open>simp_all add: ent_less_max\<close>)
    with object_release_ok [of C N B "he_object (ent t h)" "he_type (ent t h)" P
        "tab_put p (Some t') s\<lparr>ip_stat_handles := ip_stat_handles (tab_put p (Some t') s) + - 1\<rparr>"] nz run l t(1) evs
    show ?thesis by (simp add: tab_do_def run_events_def)
  qed
qed

text \<open>Any of the installing operations, by its specification.\<close>

lemma install_any_ok:
  assumes ok: "ipc_ok C N B (add_mset (Ref ob ty) P) s" and p: "Tab p \<in># P" and ob: "ob \<noteq> 0"
    and spec: "\<And>t r t' evs. ht_ok t \<Longrightarrow> f t = (r, t', evs) \<Longrightarrow>
      installed t e r t' \<and> ht_refcount t' = ht_refcount t \<and> (evs = [] \<or> evs = [StatHandles 1])"
    and e: "he_object e = ob" "he_type e = ty" "C e"
    and run: "tab_do p f s = (r, s')"
  shows "case r of Inl _ \<Rightarrow> ipc_ok C N B (add_mset (Ref ob ty) P) s' | Inr h \<Rightarrow> ipc_ok C N B P s' \<and> Ref ob ty \<in># refs s'"
proof -
  have p': "Tab p \<in># add_mset (Ref ob ty) P" using p by simp
  obtain t where t: "tab_of p s = Some t" "tab_ok C t" using ipc_ok_tab [OF ok p'] by blast
  then have hok: "ht_ok t" by (simp add: tab_ok_def)
  obtain r' t' evs where l: "f t = (r', t', evs)" by (metis prod_cases3)
  from spec [OF hok l] have sp: "installed t e r' t'" "ht_refcount t' = ht_refcount t"
    and evs: "evs = [] \<or> evs = [StatHandles 1]" by simp_all
  show ?thesis
  proof (cases r')
    case (Inl x)
    with sp have "ht_ok t'" "ent t' = ent t" by (simp_all add: installed_def)
    with t sp have "ipc_ok C N B ({#Ref ob ty#} + P) (tab_put p (Some t') s)"
      using ok by (intro table_step [where R = "{#Ref ob ty#}", OF _ t(1) p]) (simp_all add: tab_ok_def)
    with run l t(1) evs Inl show ?thesis by (auto simp: tab_do_def run_events_def)
  next
    case (Inr h)
    with sp have t': "ht_ok t'" "free_entry (ent t h)" "ent t' = (ent t)(h := e)" by (simp_all add: installed_def)
    have zero: "he_object (ent t h) = 0" using t'(2) live_iff [OF hok, of h] by simp
    have "he_object (ent t' h) \<noteq> 0" using t'(3) e(1) ob by simp
    then have "h < ht_capacity t'" using live_iff [OF t'(1), of h] ent_live_less by blast
    then have h: "h < A20_HT_MAX_CAP" by (rule ent_less_max [OF t'(1)])
    have "ipc_ok C N B ({#} + P) (tab_put p (Some t') s)"
      using ok zero e ob by (intro slot_change [where R = "{#Ref ob ty#}", OF _ t(1) p _ _ t'(1) sp(2) t'(3) h]) simp_all
    moreover have "Ref ob ty \<in># refs (tab_put p (Some t') s)"
      using key_in_refs [of p "tab_put p (Some t') s" t' h] t'(1,3) tab_of_less [OF t(1)] e ob by (simp add: tab_of_put)
    ultimately show ?thesis using run l t(1) evs Inr by (auto simp: tab_do_def run_events_def)
  qed
qed

definition new_cap :: "obj \<Rightarrow> u16 \<Rightarrow> u64 \<Rightarrow> u64 \<Rightarrow> u32 \<Rightarrow> u32 \<Rightarrow> u8 \<Rightarrow> handle_entry" where
  "new_cap ob ty ri ex ops fl lb = \<lparr>he_object = ob, he_type = ty, he_rights = valid_rights ty ri, he_expiry = ex,
     he_ops = ops, he_flags = fl, he_label = lb, he_state = A20_HS_ACTIVE\<rparr>"

lemma new_cap_le:
  assumes "bits_within rights (he_rights src)"
  shows "cap_le (new_cap (he_object src) (he_type src) rights (he_expiry src) (he_ops src) (he_flags src) (he_label src)) src"
  using bits_within_trans [OF valid_rights_within(2) assms] by (simp add: cap_le_def new_cap_def)

lemma install_temporal_ok:
  assumes "ipc_ok C N B (add_mset (Ref ob ty) P) s" "Tab p \<in># P" "ob \<noteq> 0"
    "ex > 0 \<longrightarrow> fl AND A20_TEMPORAL_EXPIRY_ABSOLUTE \<noteq> 0" "C (new_cap ob ty ri ex ops fl lb)"
    "tab_do p (a20_handle_install_temporal mem ob ty ri ex ops fl lb) s = (r, s')"
  shows "case r of Inl _ \<Rightarrow> ipc_ok C N B (add_mset (Ref ob ty) P) s' | Inr h \<Rightarrow> ipc_ok C N B P s' \<and> Ref ob ty \<in># refs s'"
proof (rule install_any_ok [OF assms(1-3) _ _ _ assms(5,6)])
  fix t r t' evs
  assume "ht_ok t" and run: "a20_handle_install_temporal mem ob ty ri ex ops fl lb t = (r, t', evs)"
  moreover have "evs = [] \<or> evs = [StatHandles 1]"
    using run by (auto simp: a20_handle_install_temporal_def split: option.splits prod.splits)
  ultimately show "installed t (new_cap ob ty ri ex ops fl lb) r t' \<and> ht_refcount t' = ht_refcount t \<and>
      (evs = [] \<or> evs = [StatHandles 1])"
    using install_temporal_spec [OF _ run assms(3,4)] refcount_install [OF run] by (simp add: new_cap_def)
qed (simp_all add: new_cap_def)

lemma install_plain_ok:
  assumes "ipc_ok C N B (add_mset (Ref ob ty) P) s" "Tab p \<in># P" "ob \<noteq> 0" "C (new_cap ob ty ri 0 0 0 0)"
    "tab_do p (a20_handle_install mem ob ty ri) s = (r, s')"
  shows "case r of Inl _ \<Rightarrow> ipc_ok C N B (add_mset (Ref ob ty) P) s' | Inr h \<Rightarrow> ipc_ok C N B P s' \<and> Ref ob ty \<in># refs s'"
  using install_temporal_ok [OF assms(1-3) _ assms(4)] assms(5) by (simp add: install_eq_temporal [abs_def])

lemma install_at_ok:
  assumes "ipc_ok C N B (add_mset (Ref ob ty) P) s" "Tab p \<in># P" "ob \<noteq> 0"
    "ex > 0 \<longrightarrow> fl AND A20_TEMPORAL_EXPIRY_ABSOLUTE \<noteq> 0" "C (new_cap ob ty ri ex ops fl lb)"
    "tab_do p (a20_handle_install_at_temporal mems slot ob ty ri ex ops fl lb) s = (r, s')"
  shows "case r of Inl _ \<Rightarrow> ipc_ok C N B (add_mset (Ref ob ty) P) s' | Inr h \<Rightarrow> ipc_ok C N B P s' \<and> Ref ob ty \<in># refs s'"
proof (rule install_any_ok [OF assms(1-3) _ _ _ assms(5,6)])
  fix t r t' evs
  assume "ht_ok t" and run: "a20_handle_install_at_temporal mems slot ob ty ri ex ops fl lb t = (r, t', evs)"
  moreover have "evs = [] \<or> evs = [StatHandles 1]"
    using run by (auto simp: a20_handle_install_at_temporal_def simp del: grow_until.simps split: if_splits sum.splits prod.splits)
  ultimately show "installed t (new_cap ob ty ri ex ops fl lb) r t' \<and> ht_refcount t' = ht_refcount t \<and>
      (evs = [] \<or> evs = [StatHandles 1])"
    using install_at_spec [OF _ run assms(3,4)] refcount_install_at [OF run] by (simp add: new_cap_def)
qed (simp_all add: new_cap_def)

lemma dup_install_ok:
  assumes "ipc_ok C N B (add_mset (Ref (he_object src) (he_type src)) P) s" "Tab p \<in># P" "cap_bound C N" "cap_ok C src"
    "bits_within rights (he_rights src)" "dup_install p mem src rights s = (r, s')"
  shows "case r of Inl _ \<Rightarrow> ipc_ok C N B (add_mset (Ref (he_object src) (he_type src)) P) s' | Inr h \<Rightarrow> ipc_ok C N B P s' \<and> Ref (he_object src) (he_type src) \<in># refs s'"
  by (rule install_temporal_ok [OF assms(1,2) _ _ _ assms(6) [unfolded dup_install_def]])
    (use assms(3-5) cap_boundD [OF assms(3) _ new_cap_le] in \<open>auto simp: cap_ok_def limits_ok_def\<close>)

text \<open>Operations that change one live entry, without events that matter.\<close>

lemma quiet_op_ok:
  assumes ok: "ipc_ok C N B P s" and p: "Tab p \<in># P" and C: "cap_bound C N"
    and spec: "\<And>t r t' evs. ht_ok t \<Longrightarrow> f t = (r, t', evs) \<Longrightarrow> ht_ok t' \<and> ht_refcount t' = ht_refcount t \<and>
      (\<forall>h. he_object (ent t' h) = he_object (ent t h) \<and> he_type (ent t' h) = he_type (ent t h) \<and>
        (he_object (ent t h) \<noteq> 0 \<longrightarrow> cap_le (ent t' h) (ent t h))) \<and> (\<forall>ev \<in> set evs. \<exists>d. ev = NoteDeadline d)"
    and run: "tab_do p f s = (r, s')"
  shows "ipc_ok C N B P s'"
proof -
  obtain t where t: "tab_of p s = Some t" "tab_ok C t" using ipc_ok_tab [OF ok p] by blast
  then have hok: "ht_ok t" by (simp add: tab_ok_def)
  obtain r' t' evs where l: "f t = (r', t', evs)" by (metis prod_cases3)
  note sp = spec [OF hok l]
  have "ipc_ok C N B ({#} + P) (tab_put p (Some t') s)"
  proof (rule table_step [OF _ t(1) p])
    show "ipc_ok C N B ({#} + P) s" using ok by simp
    show "C (ent t' h)" if "he_object (ent t' h) \<noteq> 0" for h
      using that sp t(2) cap_boundD [OF C, of "ent t h" "ent t' h"] by (simp add: tab_ok_def)
    show "fkeys (ent t') + {#} = fkeys (ent t) + {#}"
      using sp by (auto simp: okey_def intro: fkeys_cong)
  qed (use sp in simp_all)
  moreover have "run_events evs x = x" for x
  proof -
    have "\<forall>ev \<in> set evs. \<exists>d. ev = NoteDeadline d \<Longrightarrow> fold run_event evs x = x" for evs x
      by (induction evs) auto
    with sp show ?thesis by (simp add: run_events_def)
  qed
  ultimately show ?thesis using run l t(1) by (simp add: tab_do_def)
qed

lemma set_temporal_ok:
  assumes "ipc_ok C N B P s" "Tab p \<in># P" "cap_bound C N"
    "tab_do p (a20_handle_set_temporal st now h ex ops fl) s = (r, s')"
  shows "ipc_ok C N B P s'"
proof (rule quiet_op_ok [OF assms(1-3) _ assms(4)])
  fix t r t' evs
  assume ok: "ht_ok t" and run: "a20_handle_set_temporal st now h ex ops fl t = (r, t', evs)"
  have "ht_refcount t' = ht_refcount t" "\<forall>ev \<in> set evs. \<exists>d. ev = NoteDeadline d"
    using run by (auto simp: a20_handle_set_temporal_def Let_def split: if_splits)
  with set_temporal_spec [OF ok run]
  show "ht_ok t' \<and> ht_refcount t' = ht_refcount t \<and>
      (\<forall>h. he_object (ent t' h) = he_object (ent t h) \<and> he_type (ent t' h) = he_type (ent t h) \<and>
        (he_object (ent t h) \<noteq> 0 \<longrightarrow> cap_le (ent t' h) (ent t h))) \<and> (\<forall>ev \<in> set evs. \<exists>d. ev = NoteDeadline d)"
    by (cases r) (auto simp: cap_le_def)
qed

lemma set_label_ok:
  assumes "ipc_ok C N B P s" "Tab p \<in># P" "cap_bound C N"
    "tab_do p (silent (a20_handle_set_label h lb)) s = (r, s')"
  shows "ipc_ok C N B P s'"
proof (rule quiet_op_ok [OF assms(1-3) _ assms(4)])
  fix t r t' evs
  assume ok: "ht_ok t" and run: "silent (a20_handle_set_label h lb) t = (r, t', evs)"
  then have run': "a20_handle_set_label h lb t = (r, t')" "evs = []" by (auto simp: silent_def split: prod.splits)
  have "ht_refcount t' = ht_refcount t"
    using run'(1) by (auto simp: a20_handle_set_label_def Let_def split: if_splits)
  with set_label_spec [OF ok run'(1)] run'(2)
  show "ht_ok t' \<and> ht_refcount t' = ht_refcount t \<and>
      (\<forall>h. he_object (ent t' h) = he_object (ent t h) \<and> he_type (ent t' h) = he_type (ent t h) \<and>
        (he_object (ent t h) \<noteq> 0 \<longrightarrow> cap_le (ent t' h) (ent t h))) \<and> (\<forall>ev \<in> set evs. \<exists>d. ev = NoteDeadline d)"
    by (cases r) (auto simp: cap_le_def)
qed

lemma get_temporal_same:
  assumes "ipc_ok C N B P s" "Tab p \<in># P" "tab_do p (silent (\<lambda>t. (a20_handle_get_temporal h t, t))) s = (r, s')"
  shows "s' = s"
proof -
  obtain t where "tab_of p s = Some t" using ipc_ok_tab [OF assms(1,2)] by blast
  with assms(3) tab_put_same show ?thesis by (auto simp: tab_do_def silent_def run_events_def)
qed

text \<open>Reservation, commitment and abortion.\<close>

lemma reserve_ok:
  assumes ok: "ipc_ok C N B P s" and p: "Tab p \<in># P"
    and run: "tab_do p (silent (a20_handle_reserve_many mem n)) s = (r, s')"
  shows "ipc_ok C N B P s'"
    "r = Inr hs \<Longrightarrow> length hs = n \<and> distinct hs \<and>
      (\<exists>t t'. tab_of p s = Some t \<and> tab_of p s' = Some t' \<and> ent t' = reserved hs (ent t) \<and> (\<forall>h \<in> set hs. free_entry (ent t h)))"
proof -
  obtain t where t: "tab_of p s = Some t" "tab_ok C t" using ipc_ok_tab [OF ok p] by blast
  then have hok: "ht_ok t" by (simp add: tab_ok_def)
  obtain r' t' where l: "a20_handle_reserve_many mem n t = (r', t')" by force
  note sp = reserve_many_spec [OF hok l]
  have s': "r = r'" "s' = tab_put p (Some t') s" using run l t(1) by (simp_all add: tab_do_def silent_def run_events_def)
  have same: "he_object (ent t' h) = he_object (ent t h) \<and> he_type (ent t' h) = he_type (ent t h) \<and>
      (he_object (ent t h) \<noteq> 0 \<longrightarrow> ent t' h = ent t h)" for h
    using sp(2) live_iff [OF hok, of h] by (cases r') (auto simp: reserved_def)
  show "ipc_ok C N B P s'"
  proof -
    have "ipc_ok C N B ({#} + P) (tab_put p (Some t') s)"
    proof (rule table_step [OF _ t(1) p _ _ sp(1)])
      show "ipc_ok C N B ({#} + P) s" using ok by simp
      show "C (ent t' h)" if "he_object (ent t' h) \<noteq> 0" for h using that same [of h] t(2) by (simp add: tab_ok_def)
      show "fkeys (ent t') + {#} = fkeys (ent t) + {#}" using same by (auto simp: okey_def intro: fkeys_cong)
    qed (use refcount_reserve [OF l] in simp_all)
    with s'(2) show ?thesis by simp
  qed
  show "r = Inr hs \<Longrightarrow> length hs = n \<and> distinct hs \<and>
      (\<exists>t t'. tab_of p s = Some t \<and> tab_of p s' = Some t' \<and> ent t' = reserved hs (ent t) \<and> (\<forall>h \<in> set hs. free_entry (ent t h)))"
    using sp(2) s' t(1) tab_of_less [OF t(1)] by (auto simp: tab_of_put)
qed

lemma abort_ok:
  assumes ok: "ipc_ok C N B P s" and p: "Tab p \<in># P" and run: "tab_do p (abort_op hs) s = (r, s')"
  shows "ipc_ok C N B P s'"
proof -
  obtain t where t: "tab_of p s = Some t" "tab_ok C t" using ipc_ok_tab [OF ok p] by blast
  then have hok: "ht_ok t" by (simp add: tab_ok_def)
  let ?t = "a20_handle_abort_reserved hs t"
  note sp = abort_reserved_spec [OF hok, of hs]
  have same: "he_object (ent ?t h) = he_object (ent t h) \<and> he_type (ent ?t h) = he_type (ent t h) \<and>
      (he_object (ent t h) \<noteq> 0 \<longrightarrow> ent ?t h = ent t h)" for h
    using sp live_iff [OF hok, of h] by (auto simp: live_entry_def)
  have "ipc_ok C N B ({#} + P) (tab_put p (Some ?t) s)"
  proof (rule table_step [OF _ t(1) p])
    show "ipc_ok C N B ({#} + P) s" using ok by simp
    show "C (ent ?t h)" if "he_object (ent ?t h) \<noteq> 0" for h using that same [of h] t(2) by (simp add: tab_ok_def)
    show "fkeys (ent ?t) + {#} = fkeys (ent t) + {#}" using same by (auto simp: okey_def intro: fkeys_cong)
  qed (use sp refcount_abort in simp_all)
  with run t(1) show ?thesis by (simp add: tab_do_def abort_op_def run_events_def)
qed

lemma commit_ok:
  assumes ok: "ipc_ok C N B (add_mset (info_key hi) P) s" and p: "Tab p \<in># P" and C: "cap_bound C N" and hi: "hi_ok C hi"
    and run: "tab_do p (commit_op slot hi) s = (r, s')"
  shows "case r of Inl _ \<Rightarrow> ipc_ok C N B (add_mset (info_key hi) P) s' | Inr _ \<Rightarrow> ipc_ok C N B P s'"
proof -
  have p': "Tab p \<in># add_mset (info_key hi) P" using p by simp
  obtain t where t: "tab_of p s = Some t" "tab_ok C t" using ipc_ok_tab [OF ok p'] by blast
  then have hok: "ht_ok t" by (simp add: tab_ok_def)
  let ?e = "new_cap (hi_object hi) (hi_type hi) (hi_rights hi) (hi_expiry hi) (hi_ops hi) (hi_flags hi) (hi_label hi)"
  obtain r' t' where l: "a20_handle_commit_reserved_temporal slot (hi_object hi) (hi_type hi) (hi_rights hi)
     (hi_expiry hi) (hi_ops hi) (hi_flags hi) (hi_label hi) t = (r', t')" by force
  have lim: "hi_object hi \<noteq> 0" "hi_expiry hi > 0 \<longrightarrow> hi_flags hi AND A20_TEMPORAL_EXPIRY_ABSOLUTE \<noteq> 0" "C (hi_entry hi)"
    using hi by (simp_all add: hi_ok_def limits_ok_def hi_entry_def)
  have "cap_le ?e (hi_entry hi)" using new_cap_le [of "hi_rights hi" "hi_entry hi"] by (simp add: hi_entry_def)
  with cap_boundD [OF C lim(3)] have Ce: "C ?e" by blast
  note sp = commit_spec [OF hok l lim(1,2)]
  have s': "r = r'" "s' = tab_put p (Some t') s"
    using run l t(1) by (simp_all add: tab_do_def commit_op_def silent_def run_events_def)
  show ?thesis
  proof (cases r')
    case (Inl e)
    with sp s' ok tab_put_same [OF t(1)] show ?thesis by simp
  next
    case (Inr u)
    with sp have ent: "he_state (ent t slot) = A20_HS_CLOSING" "ent t' = (ent t)(slot := ?e)" by (simp_all add: new_cap_def)
    have zero: "he_object (ent t slot) = 0" using ent(1) live_iff [OF hok, of slot] by (simp add: live_entry_def)
    have "slot < ht_capacity t" using ent(1) by (simp add: ent_def entry_zero_def split: if_splits)
    then have h: "slot < A20_HT_MAX_CAP" by (rule ent_less_max [OF hok])
    have rc: "ht_refcount t' = ht_refcount t"
      using l by (auto simp: a20_handle_commit_reserved_temporal_def split: if_splits)
    have "ipc_ok C N B ({#} + P) (tab_put p (Some t') s)"
      using ok zero lim(1) Ce
      by (intro slot_change [where R = "{#info_key hi#}", OF _ t(1) p _ _ sp(1) rc ent(2) h])
        (simp_all add: info_key_def new_cap_def)
    with s' Inr show ?thesis by simp
  qed
qed

subsection \<open>Events that release objects\<close>

fun released :: "ht_event list \<Rightarrow> holding multiset" where
  "released [] = {#}"
| "released (ObjRelease ob ty # evs) = add_mset (Ref ob ty) (released evs)"
| "released (ev # evs) = released evs"

fun releases :: "ht_event \<Rightarrow> bool" where
  "releases (ObjRef ob ty) = False"
| "releases (ObjRelease ob ty) = (ob \<noteq> 0)"
| "releases ev = True"

lemma released_append [simp]: "released (xs @ ys) = released xs + released ys"
  by (induction xs rule: released.induct) simp_all

lemma released_objs_only [simp]: "objs_only (released evs)"
  by (induction evs rule: released.induct) simp_all

lemma released_map: "released (map (\<lambda>(ob, ty). ObjRelease ob ty) objs) = mset (map pin objs)"
  by (induction objs) (auto simp: pin_def)

lemma run_released_ok:
  "ipc_ok C N B (released evs + P) s \<Longrightarrow> \<forall>ev \<in> set evs. releases ev \<Longrightarrow> ipc_ok C N B P (run_events evs s)"
proof (induction evs arbitrary: s rule: released.induct)
  case (2 ob ty evs)
  have "ipc_ok C N B (released evs + P) (a20_object_release ob ty s)"
    using "2.prems" by (intro object_release_ok) simp_all
  from "2.IH" [OF this] "2.prems"(2) show ?case by (simp add: run_events_def)
qed (simp_all add: run_events_def)

text \<open>An operation that closes entries and hands their references to its events.\<close>

lemma releasing_op_ok:
  assumes ok: "ipc_ok C N B P s" and p: "Tab p \<in># P" and t: "tab_of p s = Some t"
    and t': "ht_ok t'" "ht_refcount t' = ht_refcount t" and C: "\<And>h. he_object (ent t' h) \<noteq> 0 \<Longrightarrow> C (ent t' h)"
    and keys: "fkeys (ent t') + released evs = fkeys (ent t)" and evs: "\<forall>ev \<in> set evs. releases ev"
  shows "ipc_ok C N B P (run_events evs (tab_put p (Some t') s))"
proof -
  have "ipc_ok C N B ({#} + P) s" using ok by simp
  from table_step [OF this t p _ _ t' C, of "released evs"] keys
  have "ipc_ok C N B (released evs + P) (tab_put p (Some t') s)" by simp
  then show ?thesis by (rule run_released_ok [OF _ evs])
qed

lemma sweep_pass_keys:
  "ht_ok t \<Longrightarrow> (\<forall>i \<in> set is. i < ht_capacity t) \<Longrightarrow> sweep_pass now is objs t = (objs', t') \<Longrightarrow> (\<forall>x \<in> set objs. fst x \<noteq> 0) \<Longrightarrow>
   fkeys (ent t') + mset (map pin objs') = fkeys (ent t) + mset (map pin objs) \<and> (\<forall>x \<in> set objs'. fst x \<noteq> 0)"
proof (induction now "is" objs t rule: sweep_pass.induct)
  case (2 now i "is" objs t)
  let ?e = "ht_entries t ! i"
  have i: "i < ht_capacity t" using "2.prems"(2) by simp
  then have e: "?e = ent t i" by (rule ent_nth)
  have im: "i < A20_HT_MAX_CAP" by (rule ent_less_max [OF "2.prems"(1) i])
  consider "A20_SWEEP_BATCH \<le> length objs"
    | "\<not> A20_SWEEP_BATCH \<le> length objs" "he_object ?e = 0 \<or> he_state ?e \<noteq> A20_HS_ACTIVE \<or> \<not> entry_expired now ?e"
    | "\<not> A20_SWEEP_BATCH \<le> length objs" "\<not> (he_object ?e = 0 \<or> he_state ?e \<noteq> A20_HS_ACTIVE \<or> \<not> entry_expired now ?e)"
      "he_flags ?e AND A20_TEMPORAL_AUTO_CLOSE \<noteq> 0"
    | "\<not> A20_SWEEP_BATCH \<le> length objs" "\<not> (he_object ?e = 0 \<or> he_state ?e \<noteq> A20_HS_ACTIVE \<or> \<not> entry_expired now ?e)"
      "he_flags ?e AND A20_TEMPORAL_AUTO_CLOSE = 0" by argo
  then show ?case
  proof cases
    case 1
    with "2.prems" show ?thesis by auto
  next
    case c: 2
    with "2.prems" "2.IH"(1) [OF c(1) refl c(2)] show ?thesis by (simp add: Let_def)
  next
    case c: 3
    have d: "ht_ok (ht_detach i t)" "ent (ht_detach i t) = (ent t)(i := freed (ent t i))"
      using detach_ok [OF "2.prems"(1) i] c(2) e by auto
    have k: "fkeys (ent (ht_detach i t)) + okey (ent t i) = fkeys (ent t)"
      using fkeys_update [OF im, of "ent t" "freed (ent t i)"] d(2) by simp
    have ob: "okey (ent t i) = {#pin (he_object ?e, he_type ?e)#}" using c(2) e by (simp add: pin_def)
    have run: "sweep_pass now is (objs @ [(he_object ?e, he_type ?e)]) (ht_detach i t) = (objs', t')"
      using "2.prems"(3) c by (simp add: Let_def)
    have "fkeys (ent t') + mset (map pin objs') =
        fkeys (ent (ht_detach i t)) + mset (map pin (objs @ [(he_object ?e, he_type ?e)])) \<and> (\<forall>x \<in> set objs'. fst x \<noteq> 0)"
      using "2.prems" c by (intro "2.IH"(2) [OF c(1) refl c(2) c(3) d(1) _ run]) auto
    with k ob show ?thesis by (metis add.assoc add.commute map_append list.map mset_append mset_single_iff_right mset.simps)
  next
    case c: 4
    let ?x = "?e\<lparr>he_state := A20_HS_EXPIRED, he_rights := 0\<rparr>"
    have x: "entry_ok ?x"
      using ent_ok [OF "2.prems"(1), of i] c(2) e by (simp add: entry_ok_def live_entry_def)
    have k: "ht_ok (ht_put i ?x t)" using keep_ok [OF "2.prems"(1) i _ x] c(2) by simp
    have "fkeys (ent (ht_put i ?x t)) = fkeys (ent t)"
      using fkeys_update [OF im, of "ent t" ?x] i e c(2) by (simp add: ent_put okey_def)
    with "2.prems" "2.IH"(3) [OF c(1) refl c(2) _ k] c show ?thesis by (simp add: Let_def)
  qed
qed simp

lemma sweep_keys:
  "ht_ok t \<Longrightarrow> a20_temporal_sweep now k t = (t', evs) \<Longrightarrow>
   fkeys (ent t') + released evs = fkeys (ent t) \<and> (\<forall>ev \<in> set evs. releases ev)"
proof (induction now k t arbitrary: t' evs rule: a20_temporal_sweep.induct)
  case (1 now k t)
  obtain objs t1 where p: "sweep_pass (now k) [0..<ht_capacity t] [] t = (objs, t1)" by force
  have s: "fkeys (ent t1) + mset (map pin objs) = fkeys (ent t)" "\<forall>x \<in> set objs. fst x \<noteq> 0" "ht_ok t1"
    using sweep_pass_keys [OF "1.prems"(1) _ p] sweep_pass_spec [OF "1.prems"(1) _ p] by simp_all
  let ?ev = "map (\<lambda>(ob, ty). ObjRelease ob ty) objs"
  have ev: "\<forall>ev \<in> set ?ev. releases ev" using s(2) by auto
  show ?case
  proof (cases "length objs < A20_SWEEP_BATCH")
    case True
    with "1.prems"(2) p s ev show ?thesis
      by (auto simp: a20_temporal_sweep.simps [of now k t] Let_def released_map)
  next
    case False
    obtain t2 ev2 where r: "a20_temporal_sweep now (k + 1) t1 = (t2, ev2)" by force
    with "1.prems"(2) p False have "t' = t2" "evs = ?ev @ ev2"
      by (simp_all add: a20_temporal_sweep.simps [of now k t] Let_def)
    moreover have "fkeys (ent t2) + released ev2 = fkeys (ent t1)" "\<forall>ev \<in> set ev2. releases ev"
      using "1.IH" [OF p [symmetric] refl False s(3) r] by simp_all
    moreover have "fkeys (ent t2) + released (?ev @ ev2) = fkeys (ent t)"
      unfolding released_append released_map s(1) [symmetric] calculation(3) [symmetric] by (simp only: ac_simps)
    ultimately show ?thesis using ev by auto
  qed
qed

lemma sweep_ok:
  assumes ok: "ipc_ok C N B P s" and p: "Tab p \<in># P" and C: "cap_bound C N"
    and run: "tab_do p (sweep_op clock) s = (r, s')"
  shows "ipc_ok C N B P s'"
proof -
  obtain t where t: "tab_of p s = Some t" "tab_ok C t" using ipc_ok_tab [OF ok p] by blast
  then have hok: "ht_ok t" by (simp add: tab_ok_def)
  obtain t' evs where l: "a20_temporal_sweep clock 0 t = (t', evs)" by force
  note sp = temporal_sweep_spec [OF hok l] and k = sweep_keys [OF hok l]
  have "C (ent t' h)" if "he_object (ent t' h) \<noteq> 0" for h
  proof -
    from sp have "ent t' h = ent t h \<or> ent t' h = freed (ent t h) \<or>
        ent t' h = (ent t h)\<lparr>he_state := A20_HS_EXPIRED, he_rights := 0\<rparr>" by (auto simp: swept_def)
    then have "cap_le (ent t' h) (ent t h)" using that expired_le by (auto simp: freed_def)
    moreover have "C (ent t h)" using t(2) that calculation by (simp add: tab_ok_def cap_le_def)
    ultimately show ?thesis using cap_boundD [OF C] by blast
  qed
  then have "ipc_ok C N B P (run_events evs (tab_put p (Some t') s))"
    using sp k by (intro releasing_op_ok [OF ok p t(1) _ refcount_sweep [OF l]]) simp_all
  with run l t(1) show ?thesis by (auto simp: tab_do_def sweep_op_def)
qed

subsection \<open>References to tables\<close>

lemma ipc_ok_tab_drop:
  assumes ok: "ipc_ok C N B (add_mset (Tab p) P) s" and t: "tab_of p s = Some t" and last: "count P (Tab p) = 0"
    and objs: "objs_only (fkeys (ent t))"
  shows "ipc_ok C N B (fkeys (ent t) + P) (tab_put p None s)"
proof -
  let ?s = "tab_put p None s"
  have p: "p < length (ip_tabs s)" by (rule tab_of_less [OF t])
  have M: "refs ?s + (fkeys (ent t) + P) = refs s + P"
    using refs_tab_put [OF p, of None] t by (simp add: add.assoc [symmetric])
  have flt: "filter_mset (counted ob) (refs s + add_mset (Tab p) P) = filter_mset (counted ob) (refs s + P)" for ob by simp
  have "eps_ok (refs s + P) ?s"
    using ok by (simp add: ipc_ok_def eps_ok_def)
  moreover have "orefs_ok B (refs s + P) ?s"
    using ok unfolding ipc_ok_def orefs_ok_def flt by (simp add: tab_put_def)
  moreover have "tabs_ok C (fkeys (ent t) + P) ?s"
    unfolding tabs_ok_def
  proof (intro conjI allI impI)
    fix q u
    have none: "tab_of q s = None \<Longrightarrow> count (add_mset (Tab p) P) (Tab q) = 0"
      and some: "tab_of q s = Some u \<Longrightarrow> tab_ok C u \<and> ht_refcount u = int (count (add_mset (Tab p) P) (Tab q)) \<and>
        0 < count (add_mset (Tab p) P) (Tab q)"
      using ok by (simp_all only: ipc_ok_def tabs_ok_def)
    show "count (fkeys (ent t) + P) (Tab q) = 0" if "tab_of q ?s = None"
      using that p last none count_objs_only [OF objs] by (auto simp: tab_of_put split: if_splits)
    assume "tab_of q ?s = Some u"
    then show "tab_ok C u" "ht_refcount u = int (count (fkeys (ent t) + P) (Tab q))" "0 < count (fkeys (ent t) + P) (Tab q)"
      using p some count_objs_only [OF objs] by (auto simp: tab_of_put simp del: count_greater_zero_iff split: if_splits)
  qed
  ultimately show ?thesis
    using ok unfolding ipc_ok_def M by (simp add: queues_ok_def peers_ok_def) (simp add: tab_put_def)
qed

lemma fkeys_objs_only [simp]: "objs_only (fkeys f)"
proof -
  have "objs_only (sum g A)" if "\<And>x. objs_only (g x)" "finite A" for g :: "nat \<Rightarrow> holding multiset" and A
    using that(2,1) by (induction A) simp_all
  then show ?thesis by (simp add: fkeys_def)
qed

lemma destroy_released:
  assumes "\<forall>e \<in> set es. entry_ok e"
  shows "released (concat (map (\<lambda>e. if he_object e \<noteq> 0 \<and> he_state e \<noteq> A20_HS_FREE
     then [StatHandles (- 1), ObjRelease (he_object e) (he_type e)] else []) es)) = sum_list (map okey es)"
  using assms
proof (induction es)
  case (Cons e es)
  then have "he_object e \<noteq> 0 \<Longrightarrow> he_state e \<noteq> A20_HS_FREE"
    by (auto simp: entry_ok_def live_entry_def split: if_splits)
  with Cons show ?case by (auto simp: okey_def)
qed simp

lemma put_ref_ok:
  assumes ok: "ipc_ok C N B (add_mset (Tab p) P) s"
  shows "ipc_ok C N B P (tab_put_ref p s)"
proof -
  obtain t where t: "tab_of p s = Some t" "tab_ok C t" using ipc_ok_tab [OF ok, of p] by auto
  then have hok: "ht_ok t" by (simp add: tab_ok_def)
  have rc: "ht_refcount t = int (count P (Tab p)) + 1"
    using ok t(1) by (auto simp: ipc_ok_def tabs_ok_def)
  show ?thesis
  proof (cases "count P (Tab p) = 0")
    case True
    have "released (a20_ht_destroy t) = fkeys (ent t)"
      using destroy_released [of "ht_entries t"] hok by (simp add: a20_ht_destroy_def fkeys_list ht_ok_def)
    moreover have "\<forall>ev \<in> set (a20_ht_destroy t). releases ev" by (auto simp: a20_ht_destroy_def)
    ultimately have "ipc_ok C N B P (run_events (a20_ht_destroy t) (tab_put p None s))"
      using ipc_ok_tab_drop [OF ok t(1) True] by (intro run_released_ok) simp_all
    with t(1) rc True show ?thesis by (simp add: tab_put_ref_def a20_ht_put_ref_def)
  next
    case False
    have q: "ht_ok (t\<lparr>ht_refcount := n\<rparr>) \<and> ent (t\<lparr>ht_refcount := n\<rparr>) = ent t" for n
      by (rule ht_ok_fields [OF _ _ _ hok]) simp_all
    have "ipc_ok C N B P (tab_put p (Some (t\<lparr>ht_refcount := ht_refcount t - 1\<rparr>)) s)"
    proof (rule ipc_ok_tab_put [OF ok t(1)])
      show "tab_ok C (t\<lparr>ht_refcount := ht_refcount t - 1\<rparr>)" using t(2) q by (simp add: tab_ok_def)
      show "0 < count P (Tab p)" using False by blast
    qed (use q in simp_all)
    moreover have "ht_refcount t - 1 \<noteq> 0" using False rc by linarith
    ultimately show ?thesis using t(1) by (simp add: tab_put_ref_def a20_ht_put_ref_def run_events_def)
  qed
qed

lemma get_ref_ok:
  assumes ok: "ipc_ok C N B P s" and run: "tab_get_ref p s = (b, s')"
  shows "if b then ipc_ok C N B (add_mset (Tab p) P) s' else s' = s"
proof (cases "tab_of p s")
  case None
  with run show ?thesis by (simp add: tab_get_ref_def)
next
  case (Some t)
  have rc: "ht_refcount t = int (count P (Tab p))" "0 < count P (Tab p)" and tk: "tab_ok C t"
    using ok Some by (auto simp: ipc_ok_def tabs_ok_def simp del: count_greater_zero_iff)
  have q: "ht_ok (t\<lparr>ht_refcount := n\<rparr>) \<and> ent (t\<lparr>ht_refcount := n\<rparr>) = ent t" for n
    using tk by (intro ht_ok_fields) (simp_all add: tab_ok_def)
  have "ipc_ok C N B (add_mset (Tab p) P) (tab_put p (Some (t\<lparr>ht_refcount := ht_refcount t + 1\<rparr>)) s)"
  proof (rule ipc_ok_tab_put [OF ok Some])
    show "tab_ok C (t\<lparr>ht_refcount := ht_refcount t + 1\<rparr>)" using tk q by (simp add: tab_ok_def)
  qed (use q in simp_all)
  with run Some rc show ?thesis by (auto simp: tab_get_ref_def a20_ht_get_ref_def split: if_splits)
qed

lemma add_table_ok:
  assumes ok: "ipc_ok C N B P s" and t: "ht_ok t" "ht_refcount t = 1" "\<And>h. he_object (ent t h) = 0"
  shows "ipc_ok C N B (add_mset (Tab (length (ip_tabs s))) P) (s\<lparr>ip_tabs := ip_tabs s @ [Some t]\<rparr>)" (is "ipc_ok _ _ _ _ ?s")
proof -
  let ?n = "length (ip_tabs s)"
  have keys: "refs ?s = refs s" using t(3) by (simp add: refs_def fkeys_def)
  have tabs: "tab_of q ?s = (if q = ?n then Some t else tab_of q s)" for q by (auto simp: tab_of_def nth_append)
  have none: "count P (Tab ?n) = 0" using ok by (simp add: ipc_ok_def tabs_ok_def tab_of_def)
  have at: "ep_at ?s a = ep_at s a" for a by (simp add: ep_at_def)
  have "tabs_ok C (add_mset (Tab ?n) P) ?s"
    using ok t none
    by (auto simp: ipc_ok_def tabs_ok_def tabs tab_ok_def simp del: count_greater_zero_iff split: if_splits)
  moreover have "filter_mset (counted ob) (refs s + add_mset (Tab ?n) P) = filter_mset (counted ob) (refs s + P)" for ob by simp
  ultimately show ?thesis
    using ok by (simp add: ipc_ok_def eps_ok_def orefs_ok_def queues_ok_def peers_ok_def keys at)
qed

lemma new_table_ok:
  assumes ok: "ipc_ok C N B P s"
  shows "ipc_ok C N B (add_mset (Tab (length (ip_tabs s))) P) (new_table junk s)"
proof -
  obtain t where t: "a20_ht_create True junk = Some t" by (simp add: a20_ht_create_def)
  have "ht_refcount t = 1" using t by (auto simp: a20_ht_create_def)
  with add_table_ok [OF ok ht_create_ok(1) [OF t]] ht_create_ok(2) [OF t] t show ?thesis
    by (simp add: new_table_def entry_zero_def)
qed

end
