(* ===== verification/Ipc_Call_Safety.thy ===== *)
theory Ipc_Call_Safety
  imports Ipc_Channel_Safety Ipc_Table_Safety
begin

text \<open>
  The native system calls keep the invariant of \<^verbatim>\<open>Ipc_Refs\<close>.  A call of process \<open>p\<close> runs while a
  thread of \<open>p\<close> holds the table of \<open>p\<close>, and it returns every reference it takes, on every path.
\<close>

unbundle bit_operations_syntax

subsection \<open>Calls on handles\<close>

lemma held_tab: "ipc_ok C N B P s \<Longrightarrow> Tab p \<in># P \<Longrightarrow> tab_of p s \<noteq> None"
  using ipc_ok_tab by fastforce

lemma close_ok:
  assumes "ipc_ok C N B P s" "Tab p \<in># P" "sys_a20_handle_close p h s = (r, s')"
  shows "ipc_ok C N B P s'"
  using assms(3) held_tab [OF assms(1,2)] handle_remove_ok [OF assms(1,2), of h r s']
  by (simp add: sys_a20_handle_close_def)

lemma close_all_ok:
  "ipc_ok C N B P s \<Longrightarrow> Tab p \<in># P \<Longrightarrow> close_all p hs s = (c, s') \<Longrightarrow> ipc_ok C N B P s'"
proof (induction hs arbitrary: s c s')
  case (Cons h hs)
  obtain r s1 where h: "sys_a20_handle_close p h s = (r, s1)" by force
  obtain c1 s2 where hs: "close_all p hs s1 = (c1, s2)" by force
  from Cons.IH [OF close_ok [OF Cons.prems(1,2) h] Cons.prems(2) hs] Cons.prems(3) h hs show ?case by simp
qed simp

lemma close_blocks_ok:
  "ipc_ok C N B P s \<Longrightarrow> Tab p \<in># P \<Longrightarrow> close_blocks p hs n s = (c, s') \<Longrightarrow> ipc_ok C N B P s'"
proof (induction p hs n s arbitrary: c s' rule: close_blocks.induct)
  case (1 p hs n s)
  show ?case
  proof (cases "n = 0 \<or> copy_in (min n 64) (Some hs) = None")
    case True
    with "1.prems" show ?thesis by (auto simp: close_blocks.simps [of p hs n s] Let_def split: if_splits)
  next
    case False
    then obtain xs where xs: "copy_in (min n 64) (Some hs) = Some xs" and n: "n \<noteq> 0" by blast
    obtain c1 s1 where a: "close_all p xs s = (c1, s1)" by force
    obtain c2 s2 where b: "close_blocks p (drop (min n 64) hs) (n - min n 64) s1 = (c2, s2)" by force
    have "ipc_ok C N B P s2"
      by (rule "1.IH" [OF n refl xs a [symmetric] close_all_ok [OF "1.prems"(1,2) a] "1.prems"(2) b])
    with "1.prems"(3) n xs a b show ?thesis by (simp add: close_blocks.simps [of p hs n s] Let_def)
  qed
qed

lemma close_many_ok:
  assumes "ipc_ok C N B P s" "Tab p \<in># P" "sys_a20_handle_close_many p hs n s = (r, s')"
  shows "ipc_ok C N B P s'"
  using assms(1,3) close_blocks_ok [OF assms(1,2)]
  by (auto simp: sys_a20_handle_close_many_def split: option.splits if_splits prod.splits)

lemma remove_all_ok: "ipc_ok C N B P s \<Longrightarrow> Tab p \<in># P \<Longrightarrow> ipc_ok C N B P (remove_all p hs s)"
proof (induction hs arbitrary: s)
  case (Cons h hs)
  from Cons.IH [OF handle_remove_ok [OF Cons.prems surjective_pairing] Cons.prems(2)] show ?case by simp
qed simp

text \<open>Rights that a mask admits.\<close>

lemma masked_within:
  fixes m r :: u64
  assumes "\<not> (m \<noteq> 0 \<and> m AND NOT r \<noteq> 0)"
  shows "bits_within (if m \<noteq> 0 then m else r) r"
proof (cases "m = 0")
  case False
  with assms have "m AND NOT r = 0" by blast
  then have none: "\<not> bit (m AND NOT r) n" for n by simp
  have "bit r n" if "bit m n" for n
    using that none [of n] bit_imp_le_length [OF that] by (simp add: bit_simps)
  with False show ?thesis by (simp add: bits_within_iff)
qed simp

text \<open>A second handle on a looked-up object; the reference of the lookup pays for it until another
  one is taken.\<close>

lemma second_handle_ok:
  assumes ok: "ipc_ok C N B (add_mset (Ref (he_object src) (he_type src)) P) s" and p: "Tab p \<in># P"
    and C: "cap_bound C N" "cap_ok C src" and within: "bits_within rights (he_rights src)"
    and run: "dup_install p mem src rights s = (r, s')"
  shows "case r of
      Inl _ \<Rightarrow> ipc_ok C N B (add_mset (Ref (he_object src) (he_type src)) P) s'
    | Inr h \<Rightarrow> ipc_ok C N B (add_mset (Ref (he_object src) (he_type src)) P) (a20_object_ref (he_object src) (he_type src) s')"
  using dup_install_ok [OF ok p C within run] object_ref_ok [of C N B P s' "he_object src" "he_type src"] C(2)
  by (auto split: sum.splits)

lemma dup_ok:
  assumes ok: "ipc_ok C N B P s" and p: "Tab p \<in># P" and C: "cap_bound C N"
    and run: "sys_a20_handle_dup p now mem args out_fault s = (r, s')"
  shows "ipc_ok C N B P s'"
proof (cases "abi_copy args")
  case (Inl e)
  with run ok show ?thesis by (simp add: sys_a20_handle_dup_def)
next
  case (Inr a)
  obtain source m where a: "a = (source, m)" by force
  obtain r1 s1 where l: "lookup_ref p now source A20_OBJ_INVALID A20_RIGHT_DUP s = (r1, s1)" by force
  note lo = lookup_ref_ok [OF ok p C l]
  show ?thesis
  proof (cases r1)
    case (Inl e)
    with run Inr a l lo ok held_tab [OF ok p] show ?thesis by (simp add: sys_a20_handle_dup_def)
  next
    case r1: (Inr src)
    with lo have src: "cap_ok C src" and ok1: "ipc_ok C N B (add_mset (Ref (he_object src) (he_type src)) P) s1" by simp_all
    let ?m = "if m \<noteq> 0 then m else he_rights src"
    obtain r2 s2 where d: "dup_install p mem src ?m s1 = (r2, s2)" by force
    have dup: "case r2 of
        Inl _ \<Rightarrow> ipc_ok C N B P (put_entry src s2)
      | Inr h \<Rightarrow> ipc_ok C N B P (put_entry src (a20_object_ref (he_object src) (he_type src) s2))"
      if "\<not> (m \<noteq> 0 \<and> m AND NOT (he_rights src) \<noteq> 0)"
      using second_handle_ok [OF ok1 p C src masked_within [OF that] d] put_entry_ok [OF _ src] by (auto split: sum.splits)
    have "ipc_ok C N B P (snd (tab_do p (a20_handle_remove h) x))" if "ipc_ok C N B P x" for h x
      by (rule handle_remove_ok [OF that p surjective_pairing])
    with run Inr a l r1 d dup held_tab [OF ok p] put_entry_ok [OF ok1 src] show ?thesis
      by (cases r2) (auto simp: sys_a20_handle_dup_def Let_def split: if_splits)
  qed
qed

lemma replace_ok:
  assumes ok: "ipc_ok C N B P s" and p: "Tab p \<in># P" and C: "cap_bound C N"
    and run: "sys_a20_handle_replace p now mem h m out s = (r, s')"
  shows "ipc_ok C N B P s'"
proof -
  obtain r1 s1 where l: "lookup_ref p now h A20_OBJ_INVALID A20_RIGHT_DUP s = (r1, s1)" by force
  note lo = lookup_ref_ok [OF ok p C l]
  show ?thesis
  proof (cases r1)
    case (Inl e)
    with run l lo ok held_tab [OF ok p] show ?thesis by (simp add: sys_a20_handle_replace_def)
  next
    case r1: (Inr src)
    with lo have src: "cap_ok C src" and ok1: "ipc_ok C N B (add_mset (Ref (he_object src) (he_type src)) P) s1" by simp_all
    let ?m = "if m \<noteq> 0 then m else he_rights src"
    obtain r2 s2 where d: "dup_install p mem src ?m s1 = (r2, s2)" by force
    have dup: "case r2 of
        Inl _ \<Rightarrow> ipc_ok C N B P (put_entry src s2)
      | Inr h \<Rightarrow> ipc_ok C N B P (put_entry src (a20_object_ref (he_object src) (he_type src) s2))"
      if "\<not> (m \<noteq> 0 \<and> m AND NOT (he_rights src) \<noteq> 0)"
      using second_handle_ok [OF ok1 p C src masked_within [OF that] d] put_entry_ok [OF _ src] by (auto split: sum.splits)
    have "ipc_ok C N B P (snd (tab_do p (a20_handle_remove h) x))" if "ipc_ok C N B P x" for h x
      by (rule handle_remove_ok [OF that p surjective_pairing])
    with run l r1 d dup held_tab [OF ok p] put_entry_ok [OF ok1 src] show ?thesis
      by (cases r2) (auto simp: sys_a20_handle_replace_def Let_def split: if_splits)
  qed
qed

lemma query_ok:
  assumes ok: "ipc_ok C N B P s" and p: "Tab p \<in># P" and C: "cap_bound C N"
    and run: "sys_a20_handle_query p now h out s = (r, s')"
  shows "ipc_ok C N B P s'"
proof -
  obtain r1 s1 where l: "tab_do p (a20_handle_lookup_internal now h A20_OBJ_INVALID A20_RIGHT_STAT) s = (r1, s1)" by force
  have "ipc_ok C N B P s1"
    using lookup_mode_ok [OF ok p C, of now h A20_OBJ_INVALID A20_RIGHT_STAT False r1 s1] l ok
    by (cases r1) (simp_all add: a20_handle_lookup_internal_def [abs_def])
  with run l ok show ?thesis
    by (cases r1) (auto simp: sys_a20_handle_query_def split: if_splits)
qed

lemma control_ok:
  assumes ok: "ipc_ok C N B P s" and p: "Tab p \<in># P" and C: "cap_bound C N"
    and run: "sys_a20_handle_control tps p now h op s = (r, s')"
  shows "ipc_ok C N B P s'"
proof -
  obtain r1 s1 where l: "lookup_ref p now h A20_OBJ_INVALID A20_RIGHT_CONTROL s = (r1, s1)" by force
  note lo = lookup_ref_ok [OF ok p C l]
  show ?thesis
  proof (cases r1)
    case (Inl e)
    with run l lo ok held_tab [OF ok p] show ?thesis by (simp add: sys_a20_handle_control_def)
  next
    case r1: (Inr e)
    let ?P = "add_mset (Ref (he_object e) (he_type e)) P"
    from r1 lo have e: "cap_ok C e" and ok1: "ipc_ok C N B ?P s1" by simp_all
    note put = put_entry_ok [OF ok1 e]
    have st: "ipc_ok C N B P (snd (tab_do p (a20_handle_set_temporal st now h ex ops fl) (put_entry e s1)))" for st ex ops fl
      by (rule set_temporal_ok [OF put p C surjective_pairing])
    have sl: "ipc_ok C N B P (snd (tab_do p (silent (a20_handle_set_label h lb)) (put_entry e s1)))" for lb
      by (rule set_label_ok [OF put p C surjective_pairing])
    have gt: "snd (tab_do p (silent (\<lambda>t. (a20_handle_get_temporal h t, t))) s1) = s1"
      by (rule get_temporal_same [OF ok1 _ surjective_pairing]) (simp add: p)
    note unf = sys_a20_handle_control_def l r1
    show ?thesis
    proof (cases op)
      case (Set_Temporal args)
      with run held_tab [OF ok p] put st show ?thesis
        by (auto simp: unf split: sum.splits prod.splits) (metis snd_conv id_apply snd_map_prod)+
    next
      case (Get_Temporal out)
      with run held_tab [OF ok p] put gt show ?thesis
        by (auto simp: unf split: sum.splits prod.splits if_splits)
    next
      case (Set_Label args arg1)
      with run held_tab [OF ok p] put sl show ?thesis
        by (auto simp: unf split: sum.splits prod.splits if_splits) (metis snd_conv id_apply snd_map_prod)+
    qed
  qed
qed

subsection \<open>Sharing memory and sweeping\<close>

lemma task_like_ok:
  assumes ok: "ipc_ok C N B P s" and p: "Tab p \<in># P" and C: "cap_bound C N"
    and run: "tab_do p (a20_handle_lookup_task_like now h req) s = (r, s')"
  shows "ipc_ok C N B P s'"
proof -
  obtain t where t: "tab_of p s = Some t" using held_tab [OF ok p] by blast
  obtain r1 t1 evs where l: "a20_handle_lookup_internal now h A20_OBJ_TASK req t = (r1, t1, evs)" by (metis prod_cases3)
  have each: "ipc_ok C N B P (snd (tab_do p (a20_handle_lookup_internal now h ty req) s))" for ty
    using lookup_mode_ok [OF ok p C surjective_pairing, of now h ty req False] ok
    by (auto simp: a20_handle_lookup_internal_def [abs_def] split: sum.splits)
  have "t1 = t" if "isl r1"
    using lookup_spec [OF l [unfolded a20_handle_lookup_internal_def]] that by (cases r1) auto
  then have "snd (tab_do p (a20_handle_lookup_task_like now h req) s) =
      snd (tab_do p (a20_handle_lookup_internal now h (if isl r1 then A20_OBJ_THREAD else A20_OBJ_TASK) req) s)"
    using l t by (cases r1) (simp_all add: tab_do_def a20_handle_lookup_task_like_def)
  with each run show ?thesis by (metis snd_conv)
qed

lemma share_into_ok:
  assumes ok: "ipc_ok C N B (add_mset (Ref (he_object e) (he_type e)) P) s" and q: "Tab q \<in># P"
    and C: "cap_bound C N" "cap_ok C e" and run: "share_into q mem e rights s = (r, s')"
  shows "ipc_ok C N B (add_mset (Ref (he_object e) (he_type e)) P) s'"
proof -
  obtain r1 s1 where d: "dup_install q mem e (rights AND he_rights e) s = (r1, s1)" by force
  have "bits_within (rights AND he_rights e) (he_rights e)" by (simp add: bits_within_iff bit_simps)
  from second_handle_ok [OF ok q C this d] run ok d show ?thesis
    by (cases r1) (auto simp: share_into_def split: if_splits)
qed

lemma vm_share_ok:
  assumes ok: "ipc_ok C N B P s" and p: "Tab p \<in># P" and C: "cap_bound C N"
    and run: "sys_a20_vm_share proc_of p clock mem h target rights s = (r, s')"
  shows "ipc_ok C N B P s'"
proof -
  obtain r1 s1 where l: "lookup_ref p (clock 0) h A20_OBJ_MEMORY (A20_RIGHT_READ OR A20_RIGHT_TRANSFER) s = (r1, s1)" by force
  note lo = lookup_ref_ok [OF ok p C l]
  show ?thesis
  proof (cases r1)
    case (Inl e)
    with run l lo ok held_tab [OF ok p] show ?thesis by (simp add: sys_a20_vm_share_def)
  next
    case r1: (Inr e)
    let ?P = "add_mset (Ref (he_object e) (he_type e)) P"
    from r1 lo have e: "cap_ok C e" and ok1: "ipc_ok C N B ?P s1" by simp_all
    have p': "Tab p \<in># ?P" using p by simp
    have here: "ipc_ok C N B P (put_entry e (snd (share_into p mem e rights s1)))"
      by (rule put_entry_ok [OF share_into_ok [OF ok1 p C e surjective_pairing] e])
    have there: "ipc_ok C N B P (put_entry e (tab_put_ref q (snd (share_into q mem e rights s3))))"
      if "ipc_ok C N B (add_mset (Tab q) ?P) s3" for q s3
    proof -
      have "ipc_ok C N B (add_mset (Ref (he_object e) (he_type e)) (add_mset (Tab q) P)) s3"
        using that by (simp add: add_mset_commute)
      from share_into_ok [OF this _ C e surjective_pairing]
      have "ipc_ok C N B (add_mset (Tab q) ?P) (snd (share_into q mem e rights s3))" by (simp add: add_mset_commute)
      from put_entry_ok [OF put_ref_ok [OF this] e] show ?thesis .
    qed
    show ?thesis
    proof (cases target)
      case None
      with run l r1 held_tab [OF ok p] here show ?thesis by (auto simp: sys_a20_vm_share_def split: prod.splits)
    next
      case (Some th)
      obtain r2 s2 where tl: "tab_do p (a20_handle_lookup_task_like (clock 1) th A20_RIGHT_CONTROL) s1 = (r2, s2)" by force
      note ok2 = task_like_ok [OF ok1 p' C tl]
      have remote: "ipc_ok C N B P (snd (case tab_get_ref q s2 of
          (False, s3) \<Rightarrow> (Inl A20_ERR_BAD_HANDLE :: a20_err + nat, put_entry e s3)
        | (True, s3) \<Rightarrow> (case share_into q mem e rights s3 of (r, s4) \<Rightarrow> (r, put_entry e (tab_put_ref q s4)))))" for q
        using get_ref_ok [OF ok2, of q] there [of q] put_entry_ok [OF ok2 e]
        by (cases "tab_get_ref q s2") (auto split: bool.splits prod.splits, metis snd_conv)
      have "ipc_ok C N B P s'" if "proc_of (he_object tgt) = Some q" "r2 = Inr tgt" for q tgt
      proof -
        have "(case tab_get_ref q s2 of
            (False, s3) \<Rightarrow> (Inl A20_ERR_BAD_HANDLE, put_entry e s3)
          | (True, s3) \<Rightarrow> (case share_into q mem e rights s3 of (r, s4) \<Rightarrow> (r, put_entry e (tab_put_ref q s4)))) = (r, s')"
          using that run l r1 Some tl held_tab [OF ok p] by (simp add: sys_a20_vm_share_def)
        with remote [of q] show ?thesis by simp
      qed
      with run l r1 Some tl held_tab [OF ok p] put_entry_ok [OF ok2 e] show ?thesis
        by (cases r2) (auto simp: sys_a20_vm_share_def split: option.splits)
    qed
  qed
qed

lemma sweep_all_ok:
  assumes "cap_bound C N"
  shows "ipc_ok C N B P s \<Longrightarrow> ipc_ok C N B P (a20_temporal_sweep_all clock registry s)"
proof (induction registry arbitrary: s)
  case (Cons p registry)
  obtain b s1 where g: "tab_get_ref p s = (b, s1)" by force
  note gr = get_ref_ok [OF Cons.prems g]
  have "ipc_ok C N B P (tab_put_ref p (snd (tab_do p (sweep_op (clock p)) s1)))" if b
    using gr that by (intro put_ref_ok sweep_ok [OF _ _ assms surjective_pairing]) simp_all
  with Cons gr g show ?case by (cases b) simp_all
qed simp

subsection \<open>Creating channels\<close>

lemma channel_new_ok:
  assumes ok: "ipc_ok C N B P s" and run: "a20_channel_create mem cap ct s = (a, s')" and a: "a \<noteq> 0"
  shows "ipc_ok C N B (add_mset (ch_ref a) (add_mset (ch_ref (a + 1)) P)) s'"
    "a > N" "\<exists>ep. ep_at s' a = Some ep \<and> ep_peer ep = a + 1"
proof -
  let ?n = "length (ip_eps s)" and ?P = "add_mset (ch_ref a) (add_mset (ch_ref (a + 1)) P)"
  define k where "k = (if cap = 0 then A20_CH_DEFAULT_CAP else cap)"
  have r: "a = ?n + 1"
    "s' = s\<lparr>ip_eps := ip_eps s @ [Some (new_ep (a + 1) k ct), Some (new_ep a k ct)], ip_stat_eps := ip_stat_eps s + 2\<rparr>"
    using run a by (auto simp: a20_channel_create_def Let_def k_def split: if_splits)
  have at: "ep_at s' b = (if b = a then Some (new_ep (a + 1) k ct) else if b = a + 1 then Some (new_ep a k ct) else ep_at s b)" for b
    by (auto simp: ep_at_def r nth_append nth_Cons split: nat.splits)
  have none: "ep_at s a = None" "ep_at s (a + 1) = None" by (simp_all add: ep_at_def r(1))
  have tabs: "tab_of p s' = tab_of p s" for p by (simp add: tab_of_def r)
  have keys: "refs s' = refs s" by (simp add: refs_def r new_ep_def infos_def)
  have zero: "count (refs s) (ch_ref a) = 0" "count P (ch_ref a) = 0" "count (refs s) (ch_ref (a + 1)) = 0" "count P (ch_ref (a + 1)) = 0"
    using ok none by (simp_all add: ipc_ok_def eps_ok_def)
  show "a > N" using ok r(1) by (simp add: ipc_ok_def)
  show "\<exists>ep. ep_at s' a = Some ep \<and> ep_peer ep = a + 1" by (simp add: at new_ep_def)
  have "eps_ok (refs s + ?P) s'"
    using ok zero by (auto simp: ipc_ok_def eps_ok_def at new_ep_def simp del: count_greater_zero_iff split: if_splits)
  moreover have "filter_mset (counted ob) (refs s + ?P) = filter_mset (counted ob) (refs s + P)" for ob by simp
  then have "orefs_ok B (refs s + ?P) s'" using ok by (simp add: ipc_ok_def orefs_ok_def r)
  moreover have "tabs_ok C ?P s'" using ok by (simp add: ipc_ok_def tabs_ok_def tabs del: count_greater_zero_iff)
  moreover have "queues_ok C s'" using ok by (auto simp: ipc_ok_def queues_ok_def at new_ep_def infos_def split: if_splits)
  moreover have "peers_ok s'"
    unfolding peers_ok_def
  proof (intro allI impI)
    fix b ep
    assume b: "ep_at s' b = Some ep" "ep_peer ep \<noteq> 0"
    show "ep_peer ep \<noteq> b \<and> (\<exists>q. ep_at s' (ep_peer ep) = Some q \<and> ep_peer q = b)"
    proof (cases "b = a \<or> b = a + 1")
      case True
      then have "b = a \<and> ep_peer ep = a + 1 \<or> b = a + 1 \<and> ep_peer ep = a" using b(1) by (auto simp: at new_ep_def)
      then show ?thesis by (auto simp: at new_ep_def)
    next
      case False
      with b have "ep_at s b = Some ep" by (simp add: at)
      with ok b(2) none show ?thesis by (fastforce simp: ipc_ok_def peers_ok_def at)
    qed
  qed
  ultimately show "ipc_ok C N B ?P s'" using ok by (simp add: ipc_ok_def keys) (simp add: r)
qed

lemma cap_new_ep: "cap_bound C N \<Longrightarrow> a > N \<Longrightarrow> C (new_cap a A20_OBJ_CHANNEL_ENDPOINT ri ex ops fl lb)"
  by (simp add: cap_bound_def new_cap_def)

lemma channel_create_ok:
  assumes ok: "ipc_ok C N B P s" and p: "Tab p \<in># P" and C: "cap_bound C N"
    and run: "sys_a20_channel_create p mem args out_fault s = (r, s')"
  shows "ipc_ok C N B P s'"
proof (cases "\<exists>cap u ct a s1. abi_copy args = Inr (cap, u) \<and> chan_type_in u = Inr ct \<and>
    a20_channel_create (mem 0) cap ct s = (a, s1) \<and> a \<noteq> 0")
  case False
  have "s1 = s" if "a20_channel_create (mem 0) cap ct s = (0, s1)" for cap ct s1
    using that by (auto simp: a20_channel_create_def Let_def split: if_splits)
  with False run ok show ?thesis
    by (auto simp: sys_a20_channel_create_def split: sum.splits prod.splits if_splits)
next
  case True
  then obtain cap u ct a s1 where args: "abi_copy args = Inr (cap, u)" "chan_type_in u = Inr ct"
    "a20_channel_create (mem 0) cap ct s = (a, s1)" "a \<noteq> 0" by blast
  let ?ch = A20_OBJ_CHANNEL_ENDPOINT
  note new = channel_new_ok [OF ok args(3,4)]
  obtain ep where peer: "ep_at s1 a = Some ep" "ep_peer ep = a + 1" using new(3) by blast
  have held: "tab_of p s1 \<noteq> None" using held_tab [OF new(1)] p by simp
  obtain r1 s2 where i1: "tab_do p (a20_handle_install (mem 1) a ?ch channel_rights) s1 = (r1, s2)" by force
  have c: "C (new_cap a ?ch channel_rights 0 0 0 0)" "C (new_cap (a + 1) ?ch channel_rights 0 0 0 0)"
    using cap_new_ep [OF C] new(2) by simp_all
  have p1: "Tab p \<in># add_mset (ch_ref (a + 1)) P" using p by simp
  note ok1 = install_plain_ok [OF new(1) p1 args(4) c(1) i1]
  obtain r2 s3 where i2: "tab_do p (a20_handle_install (mem 2) (a + 1) ?ch channel_rights) s2 = (r2, s3)" by force
  have ok2: "case r2 of Inl _ \<Rightarrow> ipc_ok C N B (add_mset (ch_ref (a + 1)) P) s3 | Inr h \<Rightarrow> ipc_ok C N B P s3" if "r1 = Inr h0" for h0
    using install_plain_ok [of C N B "a + 1" ?ch P s2 p channel_rights "mem 2" r2 s3] p c(2) i2 ok1 that by (cases r2) auto
  have both: "ipc_ok C N B P (a20_channel_ep_release (a + 1) (a20_channel_ep_release a x))"
    if "ipc_ok C N B (add_mset (ch_ref a) (add_mset (ch_ref (a + 1)) P)) x" for x
    using that args(4) by (intro ep_release_ok) simp_all
  have undo: "ipc_ok C N B Q (snd (tab_do p (a20_handle_remove h) x))" if "ipc_ok C N B Q x" "Tab p \<in># Q" for h x Q
    by (rule handle_remove_ok [OF that surjective_pairing])
  have one: "ipc_ok C N B P (a20_channel_ep_release (a + 1) (snd (tab_do p (a20_handle_remove h0) x)))"
    if "ipc_ok C N B (add_mset (ch_ref (a + 1)) P) x" for h0 x
    by (rule ep_release_ok [OF undo [OF that p1]]) simp
  note unf = sys_a20_channel_create_def args peer Let_def
  show ?thesis
  proof (cases r1)
    case (Inl e)
    with run held i1 ok1 both show ?thesis by (auto simp: unf)
  next
    case (Inr h0)
    with run held i1 i2 ok2 one undo [OF undo] p show ?thesis
      by (cases r2) (auto simp: unf split: if_splits)
  qed
qed

subsection \<open>Sending and receiving\<close>

lemma info_ok:
  assumes "cap_bound C N" "cap_ok C he"
  shows "hi_ok C (info_of he xm)" "info_key (info_of he xm) = Ref (he_object he) (he_type he)"
proof -
  have "cap_le (hi_entry (info_of he xm)) he"
    by (simp add: cap_le_def hi_entry_def info_of_def bits_within_iff bit_simps)
  with cap_boundD [OF assms(1)] assms(2) show "hi_ok C (info_of he xm)"
    by (auto simp: hi_ok_def cap_ok_def limits_ok_def hi_entry_def info_of_def)
qed (simp add: info_key_def info_of_def)

lemma collect_handles_ok:
  assumes C: "cap_bound C N"
  shows "ipc_ok C N B P s \<Longrightarrow> Tab p \<in># P \<Longrightarrow> collect_handles p clock i hs s = (r, his, s') \<Longrightarrow>
    ipc_ok C N B (mset (map info_key his) + P) s' \<and> (\<forall>hi \<in> set his. hi_ok C hi)"
proof (induction hs arbitrary: i s P r his s')
  case (Cons x hs)
  obtain h xm where x: "x = (h, xm)" by force
  obtain r1 s1 where l: "lookup_ref p (clock i) h A20_OBJ_INVALID A20_RIGHT_TRANSFER s = (r1, s1)" by force
  note lo = lookup_ref_ok [OF Cons.prems(1,2) C l]
  show ?case
  proof (cases r1)
    case (Inl e)
    with Cons.prems l lo x show ?thesis by simp
  next
    case (Inr he)
    let ?P = "add_mset (Ref (he_object he) (he_type he)) P"
    from Inr lo have he: "cap_ok C he" and ok1: "ipc_ok C N B ?P s1" by simp_all
    obtain r2 his2 s2 where rest: "collect_handles p clock (i + 1) hs s1 = (r2, his2, s2)" by (metis prod_cases3)
    have "Tab p \<in># ?P" using Cons.prems(2) by simp
    from Cons.IH [OF ok1 this rest] Cons.prems(3) l x Inr rest info_ok [OF C he] ok1 show ?thesis
      by (auto split: if_splits)
  qed
qed simp

text \<open>Dropping references once a call has returned.\<close>

lemma settled_release:
  assumes "settled C N B S (mset (map info_key his) + F) (r, s)" "\<forall>hi \<in> set his. hi_ok C hi"
  shows "settled C N B S F (case r of None \<Rightarrow> (None, s) | Some x \<Rightarrow> (Some (g x), release_all his s))"
proof -
  from assms(1) obtain W own where W: "W \<in> S" "ipc_ok C N B (own + (W + (mset (map info_key his) + F))) s" "r \<noteq> None \<longrightarrow> own = {#}"
    by (auto simp: settled_def)
  show ?thesis
  proof (cases r)
    case None
    have "own + (W + (mset (map info_key his) + F)) = (own + mset (map info_key his)) + (W + F)" by (simp only: ac_simps)
    with W(2) have "ipc_ok C N B ((own + mset (map info_key his)) + (W + F)) s" by (simp only:)
    from settled_None [OF this W(1)] None show ?thesis by simp
  next
    case (Some x)
    have "own + (W + (mset (map info_key his) + F)) = own + (mset (map info_key his) + (W + F))" by (simp only: ac_simps)
    then have "ipc_ok C N B (own + (mset (map info_key his) + (W + F))) s" using W(2) by (simp only:)
    then have "ipc_ok C N B (mset (map info_key his) + (W + F)) s" using W(3) Some by simp
    from release_all_ok [OF this assms(2)] W(1) Some show ?thesis by (auto intro: settledI)
  qed
qed

lemma settled_put:
  assumes "settled C N B S (add_mset (Ref (he_object e) (he_type e)) F) (r, s)" "cap_ok C e"
  shows "settled C N B S F (case r of None \<Rightarrow> (None, s) | Some x \<Rightarrow> (Some (g x), put_entry e s))"
proof -
  from assms(1) obtain W own where W: "W \<in> S"
    "ipc_ok C N B (own + (W + add_mset (Ref (he_object e) (he_type e)) F)) s" "r \<noteq> None \<longrightarrow> own = {#}"
    by (auto simp: settled_def)
  show ?thesis
  proof (cases r)
    case None
    with W settled_None [of C N B "add_mset (Ref (he_object e) (he_type e)) own" W F s S] show ?thesis by simp
  next
    case (Some x)
    with W have "ipc_ok C N B (add_mset (Ref (he_object e) (he_type e)) (W + F)) s" by simp
    from put_entry_ok [OF this assms(2)] W(1) Some show ?thesis by (auto intro: settledI)
  qed
qed

lemma send_stage_ok:
  assumes ok: "ipc_ok C N B (W + F) s" and p: "Tab p \<in># F" and C: "cap_bound C N"
    and a: "ch_ref a \<in># F" "a \<noteq> 0" and env: "env_ok C N B S W ws"
  shows "settled C N B S F (send_stage p me clock mem a args dw ws s)"
proof -
  note W = env_ok_in [OF env] and early = settledI [OF ok env_ok_in [OF env]]
  show ?thesis
  proof (cases "\<exists>data hs. read_data (mem 0) args = Inr data \<and> read_handles args = Inr hs")
    case False
    with early show ?thesis by (auto simp: send_stage_def split: sum.splits)
  next
    case True
    then obtain data hs where args: "read_data (mem 0) args = Inr data" "read_handles args = Inr hs" by blast
    obtain r his s1 where c: "collect_handles p clock 1 hs s = (r, his, s1)" by (metis prod_cases3)
    have "Tab p \<in># W + F" using p by simp
    from collect_handles_ok [OF C ok this c]
    have ok1: "ipc_ok C N B (mset (map info_key his) + (W + F)) s1" and his: "\<forall>hi \<in> set his. hi_ok C hi" by simp_all
    then have ok1': "ipc_ok C N B (W + (mset (map info_key his) + F)) s1" by (simp add: ac_simps)
    show ?thesis
    proof (cases r)
      case (Some e)
      with release_all_ok [OF ok1 his] W args c show ?thesis by (auto simp: send_stage_def intro: settledI)
    next
      case None
      obtain r2 s2 where d: "a20_channel_send_dwc (mem 1) me a data his (ma_flags args) dw ws s1 = (r2, s2)" by force
      have "settled C N B S (mset (map info_key his) + F) (r2, s2)"
        unfolding d [symmetric] using his a by (intro send_dwc_ok [OF ok1' _ _ _ env]) auto
      from settled_release [OF this his, of "\<lambda>r. a20_clx_map_send_err r (ep_type_of a s2)"] args c None d
      show ?thesis by (auto simp: send_stage_def split: option.splits)
    qed
  qed
qed

lemma channel_send_ok:
  assumes ok: "ipc_ok C N B (W + F) s" and p: "Tab p \<in># F" and C: "cap_bound C N" and env: "env_ok C N B S W ws"
  shows "settled C N B S F (sys_a20_channel_send p me clock mem args ws s)"
proof -
  note W = env_ok_in [OF env] and early = settledI [OF ok env_ok_in [OF env]]
  have p': "Tab p \<in># W + F" using p by simp
  show ?thesis
  proof (cases "abi_copy args")
    case (Inl e)
    with early show ?thesis by (simp add: sys_a20_channel_send_def)
  next
    case (Inr a)
    obtain r1 s1 where l: "lookup_ref p (clock 0) (ma_channel a) A20_OBJ_CHANNEL_ENDPOINT A20_RIGHT_WRITE s = (r1, s1)" by force
    note lo = lookup_ref_ok [OF ok p' C l]
    show ?thesis
    proof (cases r1)
      case e: (Inl e)
      with early Inr l lo held_tab [OF ok p'] show ?thesis by (auto simp: sys_a20_channel_send_def)
    next
      case e: (Inr e)
      let ?F = "add_mset (Ref (he_object e) (he_type e)) F"
      have ty: "he_type e = A20_OBJ_CHANNEL_ENDPOINT" using lo e by (simp add: A20_OBJ_CHANNEL_ENDPOINT_def A20_OBJ_INVALID_def)
      from e lo have ce: "cap_ok C e" and ok1: "ipc_ok C N B (W + ?F) s1" by simp_all
      obtain r2 s2 where st: "send_stage p me clock mem (he_object e) a False ws s1 = (r2, s2)" by force
      have "settled C N B S ?F (r2, s2)"
        unfolding st [symmetric] using p ce by (intro send_stage_ok [OF ok1 _ C _ _ env]) (simp_all add: ty)
      note fin = settled_put [OF this ce, of id]
      have "settled C N B S F (Some (Inl A20_ERR_ACCESS), put_entry e s1)"
        using put_entry_ok [of C N B e "W + F" s1] ok1 ce W by (auto intro: settledI)
      with fin Inr l e st held_tab [OF ok p'] show ?thesis
        by (auto simp: sys_a20_channel_send_def split: option.splits)
    qed
  qed
qed

lemma commit_all_ok:
  assumes C: "cap_bound C N" and p: "Tab p \<in># P"
  shows "ipc_ok C N B (mset (map info_key (map snd xs)) + P) s \<Longrightarrow> \<forall>hi \<in> set (map snd xs). hi_ok C hi \<Longrightarrow>
    commit_all p xs got s = (r, s') \<Longrightarrow> ipc_ok C N B P s'"
proof (induction xs arbitrary: got s)
  case (Cons x xs)
  obtain slot hi where x: "x = (slot, hi)" by force
  let ?P = "mset (map info_key (map snd xs)) + P"
  obtain r1 s1 where c: "tab_do p (commit_op slot hi) s = (r1, s1)" by force
  have hi: "hi_ok C hi" "\<forall>hi \<in> set (map snd xs). hi_ok C hi" using Cons.prems(2) x by simp_all
  have ok: "ipc_ok C N B (add_mset (info_key hi) ?P) s" using Cons.prems(1) x by simp
  have p': "Tab p \<in># ?P" using p by simp
  note cm = commit_ok [OF ok p' C hi(1) c]
  show ?case
  proof (cases r1)
    case (Inl e)
    with cm have "ipc_ok C N B (mset (map info_key (hi # map snd xs)) + P) s1" by simp
    then have "ipc_ok C N B P (release_all (hi # map snd xs) s1)"
      using hi by (intro release_all_ok) simp_all
    from abort_ok [OF remove_all_ok [OF this p] p surjective_pairing] Cons.prems(3) c x Inl show ?thesis by auto
  next
    case (Inr u)
    with cm Cons.IH [OF _ hi(2)] Cons.prems(3) c x show ?thesis by simp
  qed
qed simp

lemma ep_at_silent: "ep_at (snd (tab_do p (silent f) s)) a = ep_at s a"
  by (auto simp: tab_do_def silent_def run_events_def ep_at_def tab_put_def split: option.splits prod.splits)

lemma deliver_ok:
  assumes ok: "ipc_ok C N B (add_mset (ch_ref a) P) s" and p: "Tab p \<in># P" and C: "cap_bound C N" and a: "a \<noteq> 0"
    and q: "ep_at s a = Some ep" "ep_queue ep = m # ms" and run: "deliver p mem a b m s = (r, s')"
  shows "ipc_ok C N B P s'"
proof -
  let ?n = "length (msg_handles m)" and ?d = "if msg_data m = [] then None else Some (length (msg_data m))"
  have p': "Tab p \<in># add_mset (ch_ref a) P" using p by simp
  have drop: "ipc_ok C N B P (a20_channel_recv_abort a x)" if "ipc_ok C N B (add_mset (ch_ref a) P) x" for x
    using ep_release_ok [OF that a] by (simp add: a20_channel_recv_abort_def)
  obtain r1 s1 where rs: "tab_do p (silent (a20_handle_reserve_many (mem 2) ?n)) s = (r1, s1)" by force
  note res = reserve_ok [OF ok p' rs]
  have abort: "ipc_ok C N B Q (snd (tab_do p (abort_op hs) x))" if "ipc_ok C N B Q x" "Tab p \<in># Q" for hs Q x
    by (rule abort_ok [OF that surjective_pairing])
  show ?thesis
  proof (cases "too_small b m \<or> isl r1 \<or> msg_data m \<noteq> [] \<and> \<not> mem 3")
    case True
    with run rs drop [OF ok] drop [OF res(1)] drop [OF abort [OF res(1) p']] show ?thesis
      by (cases "too_small b m"; cases r1) (auto simp: deliver_def)
  next
    case False
    then obtain slots where slots: "r1 = Inr slots" by (cases r1) auto
    have q1: "ep_at s1 a = Some ep" using q(1) rs ep_at_silent [of p _ s a] by (metis snd_conv)
    obtain r2 s2 where fin: "a20_channel_recv_finish a ?d (Some ?n) s1 = (r2, s2)" by force
    note f = recv_finish_ok [OF res(1) a q1 q(2) fin]
    show ?thesis
    proof (cases r2)
      case (Inl e)
      with f abort p run rs False slots fin show ?thesis by (auto simp: deliver_def)
    next
      case (Inr m')
      with f have m': "m' = m" and ok2: "ipc_ok C N B (mset (map info_key (msg_handles m)) + P) s2"
        and his: "\<forall>hi \<in> set (msg_handles m). hi_ok C hi" by simp_all
      obtain r3 s3 where cm: "commit_all p (zip slots (msg_handles m)) [] s2 = (r3, s3)" by force
      have "map snd (zip slots (msg_handles m)) = msg_handles m" using res(2) [OF slots] by simp
      then have "ipc_ok C N B P s3" using commit_all_ok [OF C p _ _ cm] ok2 his by simp
      with remove_all_ok [OF this p] run rs False slots fin Inr m' cm show ?thesis
        by (cases r3) (auto simp: deliver_def split: if_splits)
    qed
  qed
qed

text \<open>The end of a receiving call that holds a reference to the endpoint of \<open>e\<close>.\<close>

lemma recv_end_ok:
  assumes rec: "received C N B S (add_mset (ch_ref a) F) a (r, s)" and p: "Tab p \<in># F" and C: "cap_bound C N"
    and e: "cap_ok C e" "he_object e = a" "he_type e = A20_OBJ_CHANNEL_ENDPOINT"
  shows "settled C N B S F (case r of
      None \<Rightarrow> (None, s)
    | Some (Inl x) \<Rightarrow> (Some (Inl x), put_entry e s)
    | Some (Inr m) \<Rightarrow> (case deliver p mem a b m s of (r, s3) \<Rightarrow> (Some r, put_entry e s3)))"
proof (cases "\<exists>m. r = Some (Inr m)")
  case False
  then have "settled C N B S (add_mset (Ref (he_object e) (he_type e)) F) (r, s)"
    using rec by (auto simp: received_def e split: option.splits sum.splits)
  with settled_put [OF this e(1), of "\<lambda>x. Inl (projl x)"] False show ?thesis
    by (auto split: option.splits sum.splits)
next
  case True
  then obtain m where m: "r = Some (Inr m)" by blast
  with rec obtain W ep ms where W: "W \<in> S" "ipc_ok C N B (add_mset (ch_ref a) (W + add_mset (ch_ref a) F)) s"
    and q: "ep_at s a = Some ep" "ep_queue ep = m # ms" by (auto simp: received_def)
  obtain r3 s3 where d: "deliver p mem a b m s = (r3, s3)" by force
  have a: "a \<noteq> 0" using e by (metis cap_ok_object)
  have "ipc_ok C N B (W + add_mset (ch_ref a) F) s3"
    by (rule deliver_ok [OF W(2) _ C a q d]) (simp add: p)
  with put_entry_ok [of C N B e "W + F" s3] e W(1) m d show ?thesis by (auto intro: settledI)
qed

lemma channel_recv_ok:
  assumes ok: "ipc_ok C N B (W + F) s" and p: "Tab p \<in># F" and C: "cap_bound C N" and env: "env_ok C N B S W ws"
  shows "settled C N B S F (sys_a20_channel_recv p me clock mem args b ws s)"
proof -
  note W = env_ok_in [OF env] and early = settledI [OF ok env_ok_in [OF env]]
  have p': "Tab p \<in># W + F" using p by simp
  show ?thesis
  proof (cases "abi_copy args")
    case (Inl e)
    with early show ?thesis by (simp add: sys_a20_channel_recv_def)
  next
    case (Inr a)
    obtain ch fl where a: "a = (ch, fl)" by force
    obtain r1 s1 where l: "lookup_ref p (clock 0) ch A20_OBJ_CHANNEL_ENDPOINT A20_RIGHT_READ s = (r1, s1)" by force
    note lo = lookup_ref_ok [OF ok p' C l]
    show ?thesis
    proof (cases r1)
      case e: (Inl e)
      with early Inr a l lo held_tab [OF ok p'] show ?thesis by (auto simp: sys_a20_channel_recv_def)
    next
      case e: (Inr e)
      have ty: "he_type e = A20_OBJ_CHANNEL_ENDPOINT" using lo e by (simp add: A20_OBJ_CHANNEL_ENDPOINT_def A20_OBJ_INVALID_def)
      let ?F = "add_mset (ch_ref (he_object e)) F"
      from e lo ty have ce: "cap_ok C e" and ok1: "ipc_ok C N B (W + ?F) s1" by simp_all
      obtain r2 s2 where b: "a20_channel_recv_begin me (he_object e) fl ws s1 = (r2, s2)" by force
      have "received C N B S ?F (he_object e) (r2, s2)"
        unfolding b [symmetric] using ce by (intro recv_begin_ok(1) [OF ok1 _ _ env]) simp_all
      note fin = recv_end_ok [OF this p C ce refl ty, of mem b]
      have "settled C N B S F (Some (Inl A20_ERR_ACCESS), put_entry e s1)"
        using put_entry_ok [of C N B e "W + F" s1] ok1 ce W ty by (auto intro: settledI)
      with fin Inr a l e b held_tab [OF ok p'] show ?thesis
        by (auto simp: sys_a20_channel_recv_def split: option.splits)
    qed
  qed
qed

lemma channel_call_ok:
  assumes ok: "ipc_ok C N B (W + F) s" and p: "Tab p \<in># F" and C: "cap_bound C N" and env: "env_ok C N B S W ws1"
    and env2: "\<And>W'. W' \<in> S \<Longrightarrow> env_ok C N B S W' ws2"
  shows "settled C N B S F (sys_a20_channel_call p me clock mem cd args b ws1 ws2 s)"
proof -
  note W = env_ok_in [OF env] and early = settledI [OF ok env_ok_in [OF env]]
  have p': "Tab p \<in># W + F" using p by simp
  show ?thesis
  proof (cases "abi_copy args")
    case (Inl e)
    with early show ?thesis by (simp add: sys_a20_channel_call_def)
  next
    case (Inr a)
    obtain r1 s1 where l: "lookup_ref p (clock 0) (ma_channel a) A20_OBJ_CHANNEL_ENDPOINT (A20_RIGHT_READ OR A20_RIGHT_WRITE) s = (r1, s1)"
      by force
    note lo = lookup_ref_ok [OF ok p' C l]
    show ?thesis
    proof (cases r1)
      case e: (Inl e)
      with early Inr l lo held_tab [OF ok p'] show ?thesis by (auto simp: sys_a20_channel_call_def)
    next
      case e: (Inr e)
      have ty: "he_type e = A20_OBJ_CHANNEL_ENDPOINT" using lo e by (simp add: A20_OBJ_CHANNEL_ENDPOINT_def A20_OBJ_INVALID_def)
      let ?F = "add_mset (ch_ref (he_object e)) F"
      from e lo ty have ce: "cap_ok C e" and ok1: "ipc_ok C N B (W + ?F) s1" by simp_all
      have access: "settled C N B S F (Some (Inl A20_ERR_ACCESS), put_entry e s1)"
        using put_entry_ok [of C N B e "W + F" s1] ok1 ce W ty by (auto intro: settledI)
      obtain r2 s2 where st: "send_stage p me clock mem (he_object e) a True ws1 s1 = (r2, s2)" by force
      have sent: "settled C N B S ?F (r2, s2)"
        unfolding st [symmetric] using p ce by (intro send_stage_ok [OF ok1 _ C _ _ env]) simp_all
      obtain r3 s3 where bg: "a20_channel_recv_begin_donate cd me (he_object e) (ma_flags a) ws2 s2 = (r3, s3)" by force
      show ?thesis
      proof (cases "\<exists>u. r2 = Some (Inr u)")
        case False
        have "settled C N B S (add_mset (Ref (he_object e) (he_type e)) F) (r2, s2)" using sent ty by simp
        from settled_put [OF this ce, of "\<lambda>x. Inl (projl x)"] False access early Inr l e st held_tab [OF ok p'] show ?thesis
          by (auto simp: sys_a20_channel_call_def split: option.splits sum.splits)
      next
        case True
        with sent obtain W' where W': "W' \<in> S" "ipc_ok C N B (W' + ?F) s2" by (auto simp: settled_def)
        have "received C N B S ?F (he_object e) (r3, s3)"
          unfolding bg [symmetric] using ce by (intro recv_begin_ok(2) [OF W'(2) _ _ env2 [OF W'(1)]]) simp_all
        from recv_end_ok [OF this p C ce refl ty, of mem b] True access early Inr l e st bg held_tab [OF ok p'] show ?thesis
          by (auto simp: sys_a20_channel_call_def)
      qed
    qed
  qed
qed

subsection \<open>What a new task inherits\<close>

text \<open>A child's table is filled from the parent's; here the bound on capabilities is the trivial one.\<close>

abbreviation any_cap :: "handle_entry \<Rightarrow> bool" where
  "any_cap \<equiv> \<lambda>_. True"

lemma any_bound [simp]: "cap_bound any_cap N"
  by (simp add: cap_bound_def)

lemma give_ok:
  assumes ok: "ipc_ok any_cap N B (add_mset (Ref (he_object e) (he_type e)) P) s" and e: "cap_ok any_cap e" and q: "Tab q \<in># P"
    and inst: "\<And>P s r s'. ipc_ok any_cap N B (add_mset (Ref (he_object e) (he_type e)) P) s \<Longrightarrow> Tab q \<in># P \<Longrightarrow> tab_do q f s = (r, s') \<Longrightarrow>
      case r of Inl _ \<Rightarrow> ipc_ok any_cap N B (add_mset (Ref (he_object e) (he_type e)) P) s'
      | Inr h \<Rightarrow> ipc_ok any_cap N B P s' \<and> Ref (he_object e) (he_type e) \<in># refs s'"
  shows "ipc_ok any_cap N B P (snd (give q f e s))"
proof -
  let ?k = "Ref (he_object e) (he_type e)" and ?s = "a20_object_ref (he_object e) (he_type e) s"
  have ok1: "ipc_ok any_cap N B (add_mset ?k (add_mset ?k P)) ?s"
    by (rule object_ref_ok [OF ok _ cap_ok_object [OF e]]) simp
  obtain r s' where r: "tab_do q f ?s = (r, s')" by force
  have q': "Tab q \<in># add_mset ?k P" using q by simp
  note i = inst [OF ok1 q' r]
  have two: "ipc_ok any_cap N B P (put_entry e (put_entry e s'))" if "ipc_ok any_cap N B (add_mset ?k (add_mset ?k P)) s'"
    by (rule put_entry_ok [OF put_entry_ok [OF that e] e])
  from i two put_entry_ok [OF _ e] r show ?thesis by (auto simp: give_def split: sum.splits)
qed

lemma give_plain_ok:
  assumes "ipc_ok any_cap N B (add_mset (Ref (he_object e) (he_type e)) P) s" "cap_ok any_cap e" "Tab q \<in># P"
  shows "ipc_ok any_cap N B P (snd (give q (a20_handle_install mem (he_object e) (he_type e) ri) e s))"
  by (rule give_ok [OF assms], rule install_plain_ok) (use assms(2) in simp_all)

lemma give_temporal_ok:
  assumes "ipc_ok any_cap N B (add_mset (Ref (he_object e) (he_type e)) P) s" "cap_ok any_cap e" "Tab q \<in># P"
  shows "ipc_ok any_cap N B P (snd (give q (a20_handle_install_temporal mem (he_object e) (he_type e) ri
      (he_expiry e) (he_ops e) (he_flags e) (he_label e)) e s))"
    "ipc_ok any_cap N B P (snd (give q (a20_handle_install_at_temporal mems slot (he_object e) (he_type e) ri
      (he_expiry e) (he_ops e) (he_flags e) (he_label e)) e s))"
  by (rule give_ok [OF assms], rule install_temporal_ok install_at_ok;
      use assms(2) in \<open>simp add: cap_ok_def limits_ok_def\<close>)+

lemma child_dir_ok:
  assumes ok: "ipc_ok any_cap N B P s" and pq: "Tab p \<in># P" "Tab q \<in># P"
  shows "ipc_ok any_cap N B P (snd (child_dir p q now mem dir ri s))"
proof -
  obtain r s1 where l: "lookup_ref p now dir A20_OBJ_DIRECTORY (A20_RIGHT_READ OR A20_RIGHT_STAT) s = (r, s1)" by force
  note lo = lookup_ref_ok [OF ok pq(1) any_bound l]
  show ?thesis
  proof (cases r)
    case (Inl e)
    with lo l ok show ?thesis by (simp add: child_dir_def)
  next
    case (Inr e)
    then have "he_type e = A20_OBJ_DIRECTORY" using lo by (simp add: A20_OBJ_DIRECTORY_def A20_OBJ_INVALID_def)
    with give_plain_ok [of N B e P s1 q] lo l Inr pq show ?thesis by (auto simp: child_dir_def)
  qed
qed

lemma child_dirs_ok:
  assumes ok: "ipc_ok any_cap N B P s" and pq: "Tab p \<in># P" "Tab q \<in># P"
  shows "ipc_ok any_cap N B P (snd (child_dirs p q clock mem root cwd s))"
proof -
  obtain r s1 where d: "child_dir p q (clock 0) (mem 0) root (dir_rights OR A20_RIGHT_TRANSFER) s = (r, s1)" by force
  have "ipc_ok any_cap N B P s1" using child_dir_ok [OF ok pq, of "clock 0" "mem 0" root] d by (metis snd_conv)
  with child_dir_ok [OF this pq] d show ?thesis
    by (auto simp: child_dirs_def split: option.splits prod.splits) (metis snd_conv)
qed

lemma inherit_one:
  assumes ok: "ipc_ok any_cap N B P s" and p: "Tab p \<in># P"
    and g: "\<And>e s1. cap_ok any_cap e \<Longrightarrow> ipc_ok any_cap N B (add_mset (Ref (he_object e) (he_type e)) P) s1 \<Longrightarrow>
      ipc_ok any_cap N B P (snd (g e s1))"
  shows "ipc_ok any_cap N B P (snd (case lookup_ref p now h ty req s of (Inl _, s1) \<Rightarrow> (None, s1) | (Inr e, s1) \<Rightarrow> g e s1))"
proof -
  obtain r s1 where l: "lookup_ref p now h ty req s = (r, s1)" by force
  from lookup_ref_ok [OF ok p any_bound l] l ok g show ?thesis by (cases r) auto
qed

text \<open>Walks over a list whose steps keep the invariant.\<close>

lemma snd_case_Cons: "snd (case x of (r, s2) \<Rightarrow> (case f s2 of (rs, s3) \<Rightarrow> (g r rs, s3))) = snd (f (snd x))"
  by (simp split: prod.splits)

lemma clone_manifest_ok:
  "ipc_ok any_cap N B P s \<Longrightarrow> Tab p \<in># P \<Longrightarrow> Tab q \<in># P \<Longrightarrow> ipc_ok any_cap N B P (snd (clone_manifest p q clock mem i hs s))"
proof (induction hs arbitrary: i s)
  case (Cons x hs)
  obtain h ri where x: "x = (h, ri)" by force
  show ?case
    unfolding x clone_manifest.simps snd_case_Cons
    by (rule Cons.IH [OF inherit_one [OF Cons.prems(1,2)] Cons.prems(2,3)], rule give_plain_ok) (use Cons.prems(3) in simp_all)
qed simp

lemma spawn_stdio_ok:
  "ipc_ok any_cap N B P s \<Longrightarrow> Tab p \<in># P \<Longrightarrow> Tab q \<in># P \<Longrightarrow> ipc_ok any_cap N B P (snd (spawn_stdio p q clock mem i wants s))"
proof (induction wants arbitrary: i s)
  case (Cons w wants)
  show ?case
  proof (cases w)
    case None
    show ?thesis
      unfolding None spawn_stdio.simps snd_case_Cons option.case using Cons by simp
  next
    case (Some h)
    show ?thesis
      unfolding Some spawn_stdio.simps snd_case_Cons option.case
      by (rule Cons.IH [OF inherit_one [OF Cons.prems(1,2)] Cons.prems(2,3)], rule give_plain_ok) (use Cons.prems(3) in simp_all)
  qed
qed simp

lemma spawn_array_ok:
  "ipc_ok any_cap N B P s \<Longrightarrow> Tab p \<in># P \<Longrightarrow> Tab q \<in># P \<Longrightarrow> ipc_ok any_cap N B P (snd (spawn_array p q clock grow i arr s))"
proof (induction arr arbitrary: i s)
  case (Cons x arr)
  obtain h ri slot where x: "x = (h, ri, slot)" by (metis prod_cases3)
  show ?case
    unfolding x spawn_array.simps snd_case_Cons Let_def
    by (rule Cons.IH [OF inherit_one [OF Cons.prems(1,2)] Cons.prems(2,3)])
      (use Cons.prems(3) in \<open>auto intro: give_temporal_ok put_entry_ok\<close>)
qed simp

text \<open>A first reference to the object of the child itself, which is not counted.\<close>

lemma install_task_ok:
  assumes ok: "ipc_ok any_cap N B P s" and p: "Tab p \<in># P" and pid: "pid \<noteq> 0"
  shows "ipc_ok any_cap N B P (snd (tab_do p (a20_handle_install mem pid A20_OBJ_TASK ri) s))"
proof -
  have ty: "A20_OBJ_TASK \<noteq> A20_OBJ_CHANNEL_ENDPOINT" "\<not> counted_type A20_OBJ_TASK" by code_simp+
  obtain r s' where r: "tab_do p (a20_handle_install mem pid A20_OBJ_TASK ri) s = (r, s')" by force
  have ok': "ipc_ok any_cap N B (add_mset (Ref pid A20_OBJ_TASK) P) s" by (rule ipc_ok_uncounted [OF ok ty]) simp
  have "ipc_ok any_cap N B P s'" if "ipc_ok any_cap N B (add_mset (Ref pid A20_OBJ_TASK) P) s'"
    by (rule ipc_ok_uncounted [OF that ty]) simp
  with install_plain_ok [OF ok' p pid TrueI r] r show ?thesis by (cases r) auto
qed

text \<open>A child that was created brings a reference to its table with it.\<close>

lemma ok_handle_snd [simp]: "snd (ok_handle x) = snd x"
  by (simp add: ok_handle_def)

lemma task_clone_ok:
  assumes ok: "ipc_ok any_cap N B P s" and p: "Tab p \<in># P" and child: "child \<noteq> Some 0"
    and run: "sys_a20_task_clone p junk clock mem args child s = (r, s')"
  shows "ipc_ok any_cap N B (if isl r then P else add_mset (Tab (length (ip_tabs s))) P) s'"
proof (cases "\<exists>a manifest pid. abi_copy args = Inr a \<and> \<not> cl_count a > 64 \<and>
    (if cl_count a > 0 then copy_in (cl_count a) (cl_manifest a) else Some []) = Some manifest \<and> child = Some pid \<and> mem 0")
  case False
  then have "isl r \<and> s' = s"
    using run held_tab [OF ok p] by (auto simp: sys_a20_task_clone_def split: sum.splits option.splits if_splits)
  with ok show ?thesis by simp
next
  case True
  then obtain a manifest pid where args: "abi_copy args = Inr a" "\<not> cl_count a > 64"
    "(if cl_count a > 0 then copy_in (cl_count a) (cl_manifest a) else Some []) = Some manifest" "child = Some pid" "mem 0"
    by blast
  let ?q = "length (ip_tabs s)"
  let ?Q = "add_mset (Tab ?q) P"
  have pq: "Tab p \<in># ?Q" "Tab ?q \<in># ?Q" "pid \<noteq> 0" using p child args(4) by auto
  obtain self s1 where i: "ok_handle (tab_do ?q (a20_handle_install (mem 1) pid A20_OBJ_TASK self_rights) (new_table junk s)) = (self, s1)"
    by force
  have ok1: "ipc_ok any_cap N B ?Q s1"
    using install_task_ok [OF new_table_ok [OF ok] pq(2,3)] i by (metis ok_handle_snd snd_conv)
  obtain dirs s2 where d: "child_dirs p ?q clock (\<lambda>i. mem (2 + i)) (cl_root a) (cl_cwd a) s1 = (dirs, s2)" by (metis surj_pair)
  have ok2: "ipc_ok any_cap N B ?Q s2" using child_dirs_ok [OF ok1 pq(1,2)] d by (metis snd_conv)
  obtain hs s3 where m: "clone_manifest p ?q (\<lambda>i. clock (2 + i)) (\<lambda>i. mem (4 + i)) 0 manifest s2 = (hs, s3)" by force
  have ok3: "ipc_ok any_cap N B ?Q s3" using clone_manifest_ok [OF ok2 pq(1,2)] m by (metis snd_conv)
  obtain task s4 where t: "ok_handle (tab_do p (a20_handle_install (mem (4 + cl_count a)) pid A20_OBJ_TASK
      (self_rights OR A20_RIGHT_ADMIN)) s3) = (task, s4)" by force
  have "ipc_ok any_cap N B ?Q s4" using install_task_ok [OF ok3 pq(1,3)] t by (metis ok_handle_snd snd_conv)
  moreover have "s' = s4" "\<not> isl r"
    using run args held_tab [OF ok p] i d m t by (auto simp: sys_a20_task_clone_def Let_def)
  ultimately show ?thesis by simp
qed

lemma spawn_cwd_ok:
  assumes ok: "ipc_ok any_cap N B P s" and p: "Tab p \<in># P"
  shows "ipc_ok any_cap N B P (spawn_cwd p now a s)"
proof -
  obtain r s1 where l: "lookup_ref p now (case sp_cwd a of None \<Rightarrow> sp_root a | Some d \<Rightarrow> d)
      A20_OBJ_DIRECTORY (A20_RIGHT_READ OR A20_RIGHT_STAT) s = (r, s1)" by force
  from lookup_ref_ok [OF ok p any_bound l] ok put_entry_ok l show ?thesis by (cases r) (auto simp: spawn_cwd_def)
qed

text \<open>The endpoint of the registry is installed, or a reference to it is left with nobody.\<close>

lemma install_client_ok:
  assumes ok: "ipc_ok any_cap N B P s" and q: "Tab q \<in># P" and client: "client = 0 \<or> ch_ref client \<in># P"
    and run: "a20_registry_install_client client q mem s = (r, s')"
  shows "ipc_ok any_cap N B (if client \<noteq> 0 \<and> r = None then add_mset (ch_ref client) P else P) s'"
proof (cases "client = 0")
  case True
  with ok run show ?thesis by (simp add: a20_registry_install_client_def)
next
  case False
  let ?s = "a20_object_ref client A20_OBJ_CHANNEL_ENDPOINT s"
  have ok1: "ipc_ok any_cap N B (add_mset (ch_ref client) P) ?s" using client False by (intro object_ref_ok [OF ok]) auto
  obtain r1 s1 where i: "tab_do q (a20_handle_install mem client A20_OBJ_CHANNEL_ENDPOINT registry_rights) ?s = (r1, s1)" by force
  from install_plain_ok [OF ok1 q False TrueI i] run i False show ?thesis
    by (cases r1) (auto simp: a20_registry_install_client_def ok_handle_def)
qed

lemma spawn_finish_ok:
  assumes ok: "ipc_ok any_cap N B P s" and pq: "Tab p \<in># P" "Tab q \<in># P" and pid: "pid \<noteq> 0"
    and client: "client = 0 \<or> ch_ref client \<in># P"
    and run: "spawn_finish p q mem out_fault client pid s = (r, s')"
  shows "\<exists>L \<in> {{#}, {#ch_ref client#}}. ipc_ok any_cap N B (L + P) s'"
proof -
  let ?i = "a20_handle_install (mem 1) pid A20_OBJ_TASK (self_rights OR A20_RIGHT_ADMIN OR A20_RIGHT_READ OR A20_RIGHT_WRITE)"
  let ?s1 = "snd (tab_do q (a20_handle_install (mem 0) pid A20_OBJ_TASK self_rights) s)"
  have ok1: "ipc_ok any_cap N B P ?s1" by (rule install_task_ok [OF ok pq(2) pid])
  obtain r2 s2 where i: "tab_do p ?i ?s1 = (r2, s2)" by force
  have ok2: "ipc_ok any_cap N B P s2" using install_task_ok [OF ok1 pq(1) pid] i by (metis snd_conv)
  obtain r3 s3 where c: "a20_registry_install_client client q (mem 2) s2 = (r3, s3)" by force
  from install_client_ok [OF ok2 pq(2) client c] handle_remove_ok [OF ok2 pq(1) surjective_pairing] ok2 run i c show ?thesis
    by (cases r2) (auto simp: spawn_finish_def Let_def split: if_splits)
qed

lemma task_spawn_ok:
  assumes ok: "ipc_ok any_cap N B P s" and p: "Tab p \<in># P" and pid: "pid \<noteq> 0"
    and client: "client = 0 \<or> ch_ref client \<in># P"
    and run: "task_spawn_handles p junk clock mem grow a out_fault client pid s = (r, s')"
  shows "\<exists>L \<in> {{#}, {#ch_ref client#}}. ipc_ok any_cap N B (L + (if mem 0 0 then add_mset (Tab (length (ip_tabs s))) P else P)) s'"
proof (cases "mem 0 0")
  case False
  with run ok show ?thesis by (simp add: task_spawn_handles_def)
next
  case True
  let ?q = "length (ip_tabs s)"
  let ?Q = "add_mset (Tab ?q) P"
  have pq: "Tab p \<in># ?Q" "Tab ?q \<in># ?Q" using p by auto
  obtain dirs s1 where d: "child_dirs p ?q (clock 0) (mem 1) (sp_root a) (sp_cwd a) (new_table junk s) = (dirs, s1)" by (metis surj_pair)
  have ok1: "ipc_ok any_cap N B ?Q s1" using child_dirs_ok [OF new_table_ok [OF ok] pq] d by (metis snd_conv)
  let ?s2 = "spawn_cwd p (clock 1 0) a s1"
  have ok2: "ipc_ok any_cap N B ?Q ?s2" by (rule spawn_cwd_ok [OF ok1 pq(1)])
  obtain std s3 where i: "spawn_stdio p ?q (clock 2) (mem 2) 0 (take 3 (sp_stdio a)) ?s2 = (std, s3)" by force
  have ok3: "ipc_ok any_cap N B ?Q s3" using spawn_stdio_ok [OF ok2 pq] i by (metis snd_conv)
  have arr: "ipc_ok any_cap N B ?Q (snd (spawn_array p ?q (clock 3) grow 0 hs s3))" for hs
    by (rule spawn_array_ok [OF ok3 pq])
  have client': "client = 0 \<or> ch_ref client \<in># ?Q" using client by auto
  note fin = spawn_finish_ok [OF _ pq pid client', of N B]
  have "s' = s3 \<or> (\<exists>x. ipc_ok any_cap N B ?Q x \<and> spawn_finish p ?q (mem 3) out_fault client pid x = (r, s'))"
    using run True d i ok3 arr by (auto simp: task_spawn_handles_def Let_def split: option.splits prod.splits if_splits)
  then have "\<exists>L \<in> {{#}, {#ch_ref client#}}. ipc_ok any_cap N B (L + ?Q) s'"
  proof
    assume "s' = s3"
    with ok3 show ?thesis by simp
  next
    assume "\<exists>x. ipc_ok any_cap N B ?Q x \<and> spawn_finish p ?q (mem 3) out_fault client pid x = (r, s')"
    then show ?thesis using fin by blast
  qed
  with True show ?thesis by simp
qed

text \<open>The release too many of the image: the count falls by one against the references there are.\<close>

lemma ipc_ok_short:
  assumes "ipc_ok C N B P s" "counted_type ty" "ty \<noteq> A20_OBJ_CHANNEL_ENDPOINT"
  shows "ipc_ok C N (B(ob := B ob - 1)) (add_mset (Ref ob ty) P) s"
proof -
  have "eps_ok (refs s + add_mset (Ref ob ty) P) s"
    using assms(1,3) by (simp add: ipc_ok_def eps_ok_def cong: option.case_cong)
  moreover have "orefs_ok (B(ob := B ob - 1)) (refs s + add_mset (Ref ob ty) P) s"
    using assms(1,2) by (auto simp: ipc_ok_def orefs_ok_def)
  moreover have "tabs_ok C (add_mset (Ref ob ty) P) s" using assms(1) by (simp add: ipc_ok_def tabs_ok_def)
  ultimately show ?thesis using assms(1) by (simp add: ipc_ok_def)
qed

text \<open>The image that a spawn has handed to the loader.\<close>

definition image_released :: "nat \<Rightarrow> u64 \<Rightarrow> nat \<Rightarrow> bool \<Rightarrow> ipc \<Rightarrow> obj option" where
  "image_released p now img_h fd_free s =
     (case lookup_ref p now img_h A20_OBJ_FILE (A20_RIGHT_READ OR A20_RIGHT_EXEC) s of
        (Inl _, _) \<Rightarrow> None | (Inr img, _) \<Rightarrow> if fd_free then Some (he_object img) else None)"

definition one_short :: "obj option \<Rightarrow> (obj \<Rightarrow> int) \<Rightarrow> obj \<Rightarrow> int" where
  "one_short x B = (case x of None \<Rightarrow> B | Some ob \<Rightarrow> B(ob := B ob - 1))"

lemma spawn_image_ok:
  assumes ok: "ipc_ok any_cap N B P s" and p: "Tab p \<in># P" and run: "spawn_image p now img_h fd_free load s = (r, s')"
  shows "ipc_ok any_cap N (one_short (image_released p now img_h fd_free s) B) P s'"
proof -
  obtain r1 s1 where l: "lookup_ref p now img_h A20_OBJ_FILE (A20_RIGHT_READ OR A20_RIGHT_EXEC) s = (r1, s1)" by force
  note lo = lookup_ref_ok [OF ok p any_bound l]
  show ?thesis
  proof (cases r1)
    case (Inl e)
    with lo ok run l show ?thesis by (simp add: spawn_image_def image_released_def one_short_def)
  next
    case (Inr img)
    with lo have img: "cap_ok any_cap img" "ipc_ok any_cap N B (add_mset (Ref (he_object img) (he_type img)) P) s1" by simp_all
    have one: "ipc_ok any_cap N B P (put_entry img s1)" by (rule put_entry_ok [OF img(2,1)])
    have "A20_OBJ_FILE \<noteq> A20_OBJ_INVALID" by code_simp
    with lo Inr have ty: "he_type img = A20_OBJ_FILE" by simp
    have "ipc_ok any_cap N (B(he_object img := B (he_object img) - 1)) P (put_entry img (put_entry img s1))"
      by (rule put_entry_ok [OF ipc_ok_short [OF one] img(1)]) (unfold ty, code_simp+)
    with one run l Inr img(1) show ?thesis
      by (auto simp: spawn_image_def image_released_def one_short_def Let_def split: if_splits option.splits bool.splits)
  qed
qed

lemma spawn_whole_ok:
  assumes ok: "ipc_ok any_cap N B P s" and p: "Tab p \<in># P" and child: "child \<noteq> Some 0"
    and client: "client = 0 \<or> ch_ref client \<in># P" and args: "abi_copy args = Inr a"
    and run: "sys_a20_task_spawn p junk clock mem grow args fd_free load child out_fault stack client s = (r, s')"
  shows "\<exists>L \<in> {{#}, {#ch_ref client#}}. \<exists>T. (T = {#} \<or> (\<exists>q. T = {#Tab q#})) \<and> (T = {#} \<longrightarrow> L = {#}) \<and>
    ipc_ok any_cap N (one_short (image_released p (clock 4 0) (sp_image a) fd_free s) B) (L + (T + P)) s'"
proof -
  let ?B = "one_short (image_released p (clock 4 0) (sp_image a) fd_free s) B"
  obtain r1 s1 where i: "spawn_image p (clock 4 0) (sp_image a) fd_free load s = (r1, s1)" by force
  note ok1 = spawn_image_ok [OF ok p i]
  show ?thesis
  proof (cases "isl r1 \<or> spawn_strings a \<noteq> None \<or> child = None")
    case True
    then have "s' = s1"
      using run args i held_tab [OF ok p] by (auto simp: sys_a20_task_spawn_def split: sum.splits option.splits)
    with ok1 show ?thesis by (intro bexI [of _ "{#}"] exI [of _ "{#}"]) simp_all
  next
    case False
    then obtain pid where pid: "child = Some pid" "pid \<noteq> 0" using child by auto
    obtain r2 s2 where h: "task_spawn_handles p junk clock mem grow a out_fault client pid s1 = (r2, s2)" by force
    have "s' = s2"
      using run args i False pid h held_tab [OF ok p]
      by (auto simp: sys_a20_task_spawn_def split: sum.splits)
    with task_spawn_ok [OF ok1 p pid(2) client h] obtain L where
      L: "L \<in> {{#}, {#ch_ref client#}}" "ipc_ok any_cap N ?B (L + (if mem 0 0 then add_mset (Tab (length (ip_tabs s1))) P else P)) s'"
      by blast
    show ?thesis
    proof (cases "mem 0 0")
      case True
      with L show ?thesis by (intro bexI [of _ L] exI [of _ "{#Tab (length (ip_tabs s1))#}"]) auto
    next
      case no: False
      then have "s' = s1" using h \<open>s' = s2\<close> by (simp add: task_spawn_handles_def)
      with ok1 show ?thesis by (intro bexI [of _ "{#}"] exI [of _ "{#}"]) simp_all
    qed
  qed
qed

text \<open>A file that a handle gets a reference of its own to.\<close>

lemma file_ref_ok:
  assumes "ipc_ok C N B P s" "counted_type ty" "ty \<noteq> A20_OBJ_CHANNEL_ENDPOINT" "ob \<noteq> 0"
  shows "ipc_ok C N B (add_mset (Ref ob ty) P) (a20_object_ref ob ty s)"
  using ipc_ok_orefs [OF assms(1,3), of "add_mset (Ref ob ty) P" ob 1] assms(2-4) by (simp add: a20_object_ref_def)

lemma file_types: "counted_type A20_OBJ_FILE" "A20_OBJ_FILE \<noteq> A20_OBJ_CHANNEL_ENDPOINT"
  "counted_type A20_OBJ_DIRECTORY" "A20_OBJ_DIRECTORY \<noteq> A20_OBJ_CHANNEL_ENDPOINT"
  by code_simp+

lemma exec_install_ok:
  assumes ok: "ipc_ok any_cap N B P s" and p: "Tab p \<in># P" and ty: "counted_type ty" "ty \<noteq> A20_OBJ_CHANNEL_ENDPOINT"
    and vf: "vf \<noteq> 0"
  shows "ipc_ok any_cap N B P (snd (exec_install p mem ty ri vf s))"
proof -
  obtain r s1 where i: "tab_do p (a20_handle_install mem vf ty ri) (a20_object_ref vf ty s) = (r, s1)" by force
  from install_plain_ok [OF file_ref_ok [OF ok ty vf] p vf TrueI i] object_release_ok [OF _ vf] i show ?thesis
    by (cases r) (auto simp: exec_install_def)
qed

lemma exec_stdio_ok:
  "ipc_ok any_cap N B P s \<Longrightarrow> Tab p \<in># P \<Longrightarrow> Some 0 \<notin> set files \<Longrightarrow> ipc_ok any_cap N B P (exec_stdio p mem i files s)"
proof (induction p mem i files s rule: exec_stdio.induct)
  case (3 p mem i vf files s)
  then have "vf \<noteq> 0" "Some 0 \<notin> set files" by auto
  with 3 show ?case unfolding exec_stdio.simps by (intro "3.IH" exec_install_ok file_types)
qed simp_all

lemma exec_setup_ok:
  assumes ok: "ipc_ok any_cap N B P s" and p: "Tab p \<in># P" and files: "Some 0 \<notin> set files" "root \<noteq> Some 0" and pid: "pid \<noteq> 0"
    and client: "client = 0 \<or> ch_ref client \<in># P"
  shows "\<exists>L \<in> {{#}, {#ch_ref client#}}. ipc_ok any_cap N B (L + P) (exec_setup_native_abi p junk mem adopted files root client pid s)"
proof -
  define a1 where "a1 = exec_stdio p (\<lambda>i. mem (1 + i)) 0 (take 3 files) s"
  define a2 where "a2 = snd (tab_do p (a20_handle_install (mem 4) pid A20_OBJ_TASK
    (A20_RIGHT_WAIT OR A20_RIGHT_SIGNAL OR A20_RIGHT_STAT OR A20_RIGHT_DUP)) a1)"
  have "Some 0 \<notin> set (take 3 files)" using files(1) by (meson in_set_takeD)
  then have ok2: "ipc_ok any_cap N B P a2"
    unfolding a1_def a2_def by (intro install_task_ok exec_stdio_ok ok p pid)
  define s2 where "s2 = (if adopted then s else case root of
      None \<Rightarrow> a2
    | Some vf \<Rightarrow> (case exec_install p (mem 5) A20_OBJ_DIRECTORY (dir_rights OR A20_RIGHT_TRANSFER) vf a2 of
          (None, a3) \<Rightarrow> a3
        | (Some _, a3) \<Rightarrow> snd (exec_install p (mem 6) A20_OBJ_DIRECTORY dir_rights vf a3)))"
  have dirs: "ipc_ok any_cap N B P x \<Longrightarrow> vf \<noteq> 0 \<Longrightarrow> exec_install p m A20_OBJ_DIRECTORY ri vf x = (r, y) \<Longrightarrow> ipc_ok any_cap N B P y"
    for m ri vf x r y using exec_install_ok [OF _ p file_types(3,4)] by (metis snd_conv)
  have "ipc_ok any_cap N B P s2"
  proof (cases root)
    case None
    with ok ok2 show ?thesis by (simp add: s2_def)
  next
    case (Some vf)
    obtain r3 a3 where i3: "exec_install p (mem 5) A20_OBJ_DIRECTORY (dir_rights OR A20_RIGHT_TRANSFER) vf a2 = (r3, a3)" by force
    obtain r4 a4 where i4: "exec_install p (mem 6) A20_OBJ_DIRECTORY dir_rights vf a3 = (r4, a4)" by force
    have vf: "vf \<noteq> 0" using Some files(2) by simp
    from dirs [OF ok2 vf i3] dirs [OF _ vf i4] Some i3 i4 ok show ?thesis by (cases r3) (simp_all add: s2_def)
  qed
  from install_client_ok [OF this p client surjective_pairing [of "a20_registry_install_client client p (mem 7) s2"]]
  have "\<exists>L \<in> {{#}, {#ch_ref client#}}. ipc_ok any_cap N B (L + P) (snd (a20_registry_install_client client p (mem 7) s2))"
    by (auto split: if_splits)
  moreover have "exec_setup_native_abi p junk mem adopted files root client pid s = snd (a20_registry_install_client client p (mem 7) s2)"
    using held_tab [OF ok p] unfolding exec_setup_native_abi_def Let_def s2_def a2_def a1_def by auto
  ultimately show ?thesis by simp
qed

subsection \<open>The registry and the label of a process\<close>

lemma registry_claim_ok:
  assumes ok: "ipc_ok any_cap N B P s" and p: "Tab p \<in># P" and server: "rg_server rg = 0 \<or> ch_ref (rg_server rg) \<in># P"
    and run: "sys_a20_registry_claim p pid mem script during rg s = (r, s')"
  shows "ipc_ok any_cap N B P s'"
proof (cases "rg_server rg = 0 \<or> fst (claim_loop pid script (rg_owner rg)) \<noteq> Some True")
  case True
  with run ok show ?thesis
    by (auto simp: sys_a20_registry_claim_def split: if_splits prod.splits option.splits bool.splits)
next
  case False
  then obtain owner where l: "claim_loop pid script (rg_owner rg) = (Some True, owner)" by (metis prod.collapse)
  let ?a = "rg_server rg"
  let ?s = "a20_object_ref ?a A20_OBJ_CHANNEL_ENDPOINT s"
  from False have a: "?a \<noteq> 0" by simp
  have ok1: "ipc_ok any_cap N B (add_mset (ch_ref ?a) P) ?s" using server a by (intro object_ref_ok [OF ok]) auto
  obtain r1 s1 where i: "tab_do p (a20_handle_install mem ?a A20_OBJ_CHANNEL_ENDPOINT registry_rights) ?s = (r1, s1)" by force
  from install_plain_ok [OF ok1 p a TrueI i] object_release_ok a run i l held_tab [OF ok p] show ?thesis
    by (cases r1) (auto simp: sys_a20_registry_claim_def)
qed

lemma set_context_ok:
  assumes ok: "ipc_ok C N B P s" and p: "Tab p \<in># P" and C: "cap_bound C N"
    and run: "sys_a20_security_set_context p args s = (r, s')"
  shows "ipc_ok C N B P s'"
proof -
  have rc: "ht_refcount (a20_ht_set_label lb t) = ht_refcount t" for lb t by (simp add: a20_ht_set_label_def)
  have "ipc_ok C N B P (snd (tab_do p (silent (\<lambda>t. (Inr (), a20_ht_set_label lb t))) s))" for lb
    by (rule quiet_op_ok [OF ok p C _ surjective_pairing]) (auto simp: silent_def quiet_fields(1) rc cap_le_def)
  with ok run held_tab [OF ok p] show ?thesis
    by (auto simp: sys_a20_security_set_context_def split: sum.splits if_splits) (metis snd_conv)+
qed

end
