(* ===== verification/Ipc_Delivery.thy ===== *)
theory Ipc_Delivery
  imports Ipc_Call_Safety
begin

text \<open>
  What the channel calls do to the queues, the sleepers and the table of the caller.  A call that only
  takes and returns references leaves the state \<open>still\<close>: every queue, every sleeper, the wake-ups
  issued so far and the references held are the same, only counts may differ.
\<close>

unbundle bit_operations_syntax

subsection \<open>Still states\<close>

definition eview :: "obj \<Rightarrow> ipc \<Rightarrow> channel_ep option" where
  "eview c s = map_option (ep_refcount_update (\<lambda>_. 0)) (ep_at s c)"

definition queue_of :: "obj \<Rightarrow> ipc \<Rightarrow> ch_message list option" where
  "queue_of c s = map_option ep_queue (ep_at s c)"

definition waiters_of :: "obj \<Rightarrow> ipc \<Rightarrow> (tid \<times> nat) list option" where
  "waiters_of c s = map_option ep_waiters (ep_at s c)"

definition wakes :: "ipc \<Rightarrow> ipc_event list" where
  "wakes s = filter (\<lambda>ev. case ev of Wake _ \<Rightarrow> True | _ \<Rightarrow> False) (ip_log s)"

definition still :: "ipc \<Rightarrow> ipc \<Rightarrow> bool" where
  "still s s' \<longleftrightarrow> (\<forall>c. eview c s' = eview c s) \<and> wakes s' = wakes s \<and> refs s' = refs s"

lemma still_refl [simp]: "still s s"
  by (simp add: still_def)

lemma still_trans: "still s s1 \<Longrightarrow> still s1 s2 \<Longrightarrow> still s s2"
  by (simp add: still_def)

lemma view_fields:
  "queue_of c s = map_option ep_queue (eview c s)" "waiters_of c s = map_option ep_waiters (eview c s)"
  by (simp_all add: queue_of_def waiters_of_def eview_def option.map_comp comp_def)

lemma still_queue: "still s s' \<Longrightarrow> queue_of c s' = queue_of c s"
  by (simp add: still_def view_fields)

lemma still_waiters: "still s s' \<Longrightarrow> waiters_of c s' = waiters_of c s"
  by (simp add: still_def view_fields)

lemma still_wakes: "still s s' \<Longrightarrow> wakes s' = wakes s"
  by (simp add: still_def)

lemma still_refs: "still s s' \<Longrightarrow> refs s' = refs s"
  by (simp add: still_def)

lemma still_ep:
  assumes "still s s'" "ep_at s a = Some ep"
  shows "\<exists>ep'. ep_at s' a = Some ep' \<and> ep' = ep\<lparr>ep_refcount := ep_refcount ep'\<rparr>"
proof -
  have "map_option (ep_refcount_update (\<lambda>_. 0)) (ep_at s' a) = Some (ep\<lparr>ep_refcount := 0\<rparr>)"
    using assms by (simp add: still_def eview_def)
  then obtain ep' where ep': "ep_at s' a = Some ep'" "ep'\<lparr>ep_refcount := 0\<rparr> = ep\<lparr>ep_refcount := 0\<rparr>" by auto
  then have "ep'\<lparr>ep_refcount := 0, ep_refcount := ep_refcount ep'\<rparr> = ep\<lparr>ep_refcount := 0, ep_refcount := ep_refcount ep'\<rparr>"
    by simp
  with ep'(1) show ?thesis by simp
qed

lemma wakes_log [simp]: "wakes (ipc_log evs s) = wakes s @ filter (\<lambda>ev. case ev of Wake _ \<Rightarrow> True | _ \<Rightarrow> False) evs"
  "wakes (ep_upd a f s) = wakes s" "wakes (tab_put p t s) = wakes s" "wakes (s\<lparr>ip_stat_handles := i\<rparr>) = wakes s"
  "wakes (s\<lparr>ip_orefs := g\<rparr>) = wakes s" "wakes (s\<lparr>ip_progs := h\<rparr>) = wakes s"
  by (auto simp: wakes_def ipc_log_def ep_upd_def tab_put_def split: option.splits)

lemma still_refcount:
  assumes "\<And>ep. f ep = ep\<lparr>ep_refcount := g ep\<rparr>"
  shows "still s (ep_upd a f s)"
proof (cases "ep_at s a")
  case None
  then have "eview c (ep_upd a f s) = eview c s" for c by (simp add: ep_upd_def eview_def ep_at_def)
  with None show ?thesis by (simp add: still_def ep_upd_def wakes_def refs_def)
next
  case (Some ep)
  have "eview c (ep_upd a f s) = eview c s" for c using Some assms by (simp add: eview_def ep_at_upd)
  with refs_ep_upd [OF Some, of f] Some assms show ?thesis by (simp add: still_def infos_def)
qed

lemma still_same_eps:
  "ip_eps s' = ip_eps s \<Longrightarrow> wakes s' = wakes s \<Longrightarrow> ip_tabs s' = ip_tabs s \<Longrightarrow> still s s'"
  by (simp add: still_def eview_def ep_at_def refs_def)

lemma still_refcount_inc: "still s (refcount_inc a s)"
  unfolding refcount_inc_def by (rule still_refcount [where g = "\<lambda>ep. ep_refcount ep + 1"]) simp

lemma still_object_ref: "still s (a20_object_ref ob ty s)"
  by (auto simp: a20_object_ref_def intro: still_refcount_inc still_same_eps)

lemma still_ref_all: "still s (ref_all his s)"
proof (induction his arbitrary: s)
  case (Cons h his)
  from still_trans [OF still_object_ref Cons] show ?case by (simp add: ref_all_def)
qed (simp add: ref_all_def)

text \<open>Dropping references that are not the last ones.\<close>

lemma release_shared:
  "ipc_ok C N B (mset (map pin work) + P) s \<Longrightarrow> \<forall>x \<in> set work. fst x \<noteq> 0 \<and> pin x \<in># refs s + P \<Longrightarrow>
   still s (release_refs work s)"
proof (induction work s rule: release_refs.induct)
  case (2 ob type rest s)
  let ?R = "mset (map pin rest) + P" and ?k = "Ref ob type"
  have pre: "ipc_ok C N B (add_mset ?k ?R) s" and ob: "ob \<noteq> 0" and k: "?k \<in># refs s + P"
    and rest: "\<forall>x \<in> set rest. fst x \<noteq> 0 \<and> pin x \<in># refs s + P"
    using "2.prems" by (simp_all add: pin_def [of "(ob, type)"])
  show ?case
  proof (cases "type = A20_OBJ_CHANNEL_ENDPOINT")
    case True
    obtain ep where ep: "ep_at s ob = Some ep" using ipc_ok_ep [OF pre, of ob] True by auto
    have "ep_refcount ep = int (count (refs s + add_mset ?k ?R) ?k)"
      using pre ep True by (simp add: ipc_ok_def eps_ok_def del: count_union)
    moreover have "0 < count (refs s + P) ?k" using k by (simp only: count_greater_zero_iff)
    moreover have "count (refs s + add_mset ?k ?R) ?k = 1 + count (refs s + P) ?k + count (mset (map pin rest)) ?k" by simp
    ultimately have "ep_refcount ep - 1 \<noteq> 0" by linarith
    then have put: "ep_put ob s = ([], ep_upd ob (ep_refcount_update (\<lambda>n. n - 1)) s)" (is "_ = (_, ?s)")
      using ep by (simp add: ep_put_def)
    have st: "still s ?s" by (rule still_refcount [where g = "\<lambda>ep. ep_refcount ep - 1"]) simp
    have "ipc_ok C N B ?R ?s" using ep_put_ok [OF pre [unfolded True] put] by simp
    then have "still ?s (release_refs rest ?s)"
      using "2.IH"(2) [OF ob True put [symmetric]] rest st by (simp add: still_def)
    with st still_trans ob True put show ?thesis by (auto simp: release_refs.simps(2))
  next
    case False
    have one: "ipc_ok C N B ?R s1 \<Longrightarrow> still s s1 \<Longrightarrow>
        (ipc_ok C N B ?R s1 \<Longrightarrow> \<forall>x \<in> set rest. fst x \<noteq> 0 \<and> pin x \<in># refs s1 + P \<Longrightarrow> still s1 (release_refs rest s1)) \<Longrightarrow>
        still s (release_refs rest s1)" for s1
      using rest still_trans by (simp add: still_refs)
    have "ipc_ok C N B ?R (drop_count ob type s)" if "counted_type type"
      using ipc_ok_orefs [OF pre False, of ?R ob "- 1"] that by (simp add: drop_count_def Let_def)
    moreover have "still s (drop_count ob type s)"
      by (auto simp: drop_count_def Let_def ipc_log_def wakes_def intro: still_same_eps)
    moreover have "ipc_ok C N B ?R s" "ipc_ok C N B ?R (s\<lparr>ip_progs := g\<rparr>)" if "\<not> counted_type type" for g
      using ipc_ok_uncounted [OF pre False that, of ?R ob] by simp_all
    moreover have "still s (s\<lparr>ip_progs := g\<rparr>)" for g by (simp add: still_same_eps)
    ultimately show ?thesis
      using ob False one [of "drop_count ob type s"] one [of s] one [of "s\<lparr>ip_progs := (ip_progs s)(ob := ip_progs s ob + 1)\<rparr>"]
        "2.IH"(3-5)
      by (auto simp: release_refs.simps(2))
  qed
qed simp

lemma still_release_all:
  assumes "ipc_ok C N B (mset (map info_key his) + P) s" "\<forall>hi \<in> set his. hi_ok C hi \<and> info_key hi \<in># refs s + P"
  shows "still s (release_all his s)"
  unfolding release_all_def
  by (rule release_shared [of C N B _ P]) (use assms in \<open>auto simp: comp_def hi_ok_def limits_ok_def hi_entry_def\<close>)

lemma still_put_entry:
  assumes "ipc_ok C N B (add_mset (Ref (he_object e) (he_type e)) P) s" "cap_ok C e" "Ref (he_object e) (he_type e) \<in># refs s + P"
  shows "still s (put_entry e s)"
  unfolding a20_object_release_def
  by (rule release_shared [of C N B _ P]) (use assms cap_ok_object [OF assms(2)] in \<open>auto simp: pin_def\<close>)

lemma still_ep_release:
  assumes "ipc_ok C N B (add_mset (ch_ref a) P) s" "ch_ref a \<in># refs s + P" "a \<noteq> 0"
  shows "still s (a20_channel_ep_release a s)"
  using release_shared [of C N B "[(a, A20_OBJ_CHANNEL_ENDPOINT)]" P s] assms
  by (simp add: a20_channel_ep_release_def pin_def)

lemma live_ref:
  assumes "ipc_ok C N B P s" "ep_at s a = Some ep"
  shows "ch_ref a \<in># refs s + P"
proof -
  have "0 < count (refs s + P) (ch_ref a)" using assms by (simp only: ipc_ok_def eps_ok_def)
  then show ?thesis by (simp only: count_greater_zero_iff)
qed

subsection \<open>What a send does\<close>

definition woken :: "obj \<Rightarrow> ipc \<Rightarrow> ipc_event list" where
  "woken peer s = (case wait_queue_peek_key peer A20_CH_WAIT_RECV s of None \<Rightarrow> [] | Some t \<Rightarrow> [Wake t])"

text \<open>The message \<open>m\<close> is at the end of the queue of \<open>peer\<close> and nowhere else, and the receiver that slept
  there is woken unless the wake is deferred.\<close>

definition sent :: "obj \<Rightarrow> ch_message \<Rightarrow> bool \<Rightarrow> ipc \<Rightarrow> ipc \<Rightarrow> bool" where
  "sent peer m dw s s' \<longleftrightarrow>
     (\<forall>c. queue_of c s' = (if c = peer then map_option (\<lambda>q. q @ [m]) (queue_of c s) else queue_of c s)) \<and>
     (\<forall>c. waiters_of c s' = (if c = peer \<and> \<not> dw then map_option (\<lambda>w. snd (collect_one A20_CH_WAIT_RECV w)) (waiters_of c s)
        else waiters_of c s)) \<and>
     wakes s' = wakes s @ (if dw then [] else woken peer s) \<and>
     refs s' = refs s + mset (map info_key (msg_handles m))"

lemma collect_one_None: "fst (collect_one k w) = None \<Longrightarrow> snd (collect_one k w) = w"
  by (induction w) (auto split: prod.splits if_splits)

lemma sent_still:
  assumes "still s s1" "sent peer m dw s1 s2" "still s2 s3"
  shows "sent peer m dw s s3"
proof -
  have "woken peer s1 = woken peer s"
    using still_waiters [OF assms(1), of peer]
    by (auto simp: woken_def wait_queue_peek_key_def waiters_of_def split: option.splits)
  with assms show ?thesis
    by (simp add: sent_def still_queue still_waiters still_wakes still_refs)
qed

lemma enqueue_sent:
  assumes q: "ep_at s peer = Some q"
  shows "sent peer m dw s (ipc_log [Notify peer A20_EVENT_MESSAGE_READY]
    (let s2 = ep_upd peer (\<lambda>p. p\<lparr>ep_queue := ep_queue p @ [m], ep_total_data := ep_total_data p + length (msg_data m)\<rparr>) s
     in if dw then s2 else wait_queue_wake_one peer A20_CH_WAIT_RECV s2))"
    (is "sent _ _ _ _ (ipc_log _ (let s2 = ep_upd peer ?f s in _))")
proof -
  let ?s2 = "ep_upd peer ?f s"
  have keys: "refs ?s2 = refs s + mset (map info_key (msg_handles m))"
    using refs_ep_upd [OF q, of ?f] by (simp add: infos_append ac_simps)
  have logged: "ep_at (ipc_log evs x) c = ep_at x c" "refs (ipc_log evs x) = refs x" for evs x c
    by (simp_all add: ipc_log_def ep_at_def refs_def)
  have at: "ep_at ?s2 c = (if c = peer then Some (?f q) else ep_at s c)" for c using q by (simp add: ep_at_upd)
  show ?thesis
  proof (cases "dw \<or> fst (collect_one A20_CH_WAIT_RECV (ep_waiters q)) = None")
    case True
    then have "(if dw then ?s2 else wait_queue_wake_one peer A20_CH_WAIT_RECV ?s2) = ?s2"
      by (auto simp: wait_queue_wake_one_def at split: prod.splits)
    with True q keys show ?thesis
      by (auto simp: sent_def Let_def queue_of_def waiters_of_def logged at woken_def wait_queue_peek_key_def collect_one_None)
  next
    case False
    then obtain t ws where c: "collect_one A20_CH_WAIT_RECV (ep_waiters q) = (Some t, ws)" by (cases "collect_one A20_CH_WAIT_RECV (ep_waiters q)") auto
    let ?s3 = "ep_upd peer (ep_waiters_update (\<lambda>_. ws)) ?s2"
    have w: "wait_queue_wake_one peer A20_CH_WAIT_RECV ?s2 = ipc_log [Wake t] ?s3"
      using c by (simp add: wait_queue_wake_one_def at)
    have at3: "ep_at ?s3 c = (if c = peer then Some (ep_waiters_update (\<lambda>_. ws) (?f q)) else ep_at s c)" for c
      using q by (simp add: ep_at_upd)
    have "refs ?s3 = refs ?s2"
      using refs_ep_upd [of ?s2 peer "?f q" "ep_waiters_update (\<lambda>_. ws)"] by (simp add: at infos_def)
    with False q c keys w show ?thesis
      by (auto simp: sent_def Let_def queue_of_def waiters_of_def logged at3 woken_def wait_queue_peek_key_def)
  qed
qed

lemma try_enqueue_sent:
  assumes ok: "ipc_ok C N B (mset (map info_key (msg_handles m)) + P) s" and a: "ch_ref a \<in># P" "a \<noteq> 0"
    and his: "\<forall>hi \<in> set (msg_handles m). hi_ok C hi" and run: "ch_try_enqueue a m dw s = (Enqueued, s')"
  shows "\<exists>ep. ep_at s a = Some ep \<and> ep_peer ep \<noteq> 0 \<and> ep_peer ep \<noteq> a \<and> sent (ep_peer ep) m dw s s'"
proof -
  let ?K = "mset (map info_key (msg_handles m)) + P"
  have a': "ch_ref a \<in># ?K" using a(1) by simp
  obtain ep where ep: "ep_at s a = Some ep" using held_ep [OF ok a'] by blast
  have peer: "ep_peer ep \<noteq> 0"
    using run ep a(2) by (cases "ep_peer ep = 0") (auto simp: ch_try_enqueue_def a20_channel_ep_peer_ref_def)
  let ?b = "ep_peer ep"
  let ?s1 = "refcount_inc ?b s"
  obtain q where q: "ep_at s ?b = Some q" "0 < ep_refcount q" using peer_alive [OF ok ep peer] by metis
  have pr: "a20_channel_ep_peer_ref a s = (?b, ?s1)"
    using ep peer q a(2) by (simp add: a20_channel_ep_peer_ref_def)
  have q1: "ep_at ?s1 ?b = Some (q\<lparr>ep_refcount := ep_refcount q + 1\<rparr>)" using q by (simp add: refcount_inc_def ep_at_upd)
  have ok1: "ipc_ok C N B (add_mset (ch_ref ?b) ?K) ?s1" using refcount_inc_ok [OF ok, of ?b] q by simp
  let ?s2 = "ep_upd ?b (\<lambda>p. p\<lparr>ep_queue := ep_queue p @ [m], ep_total_data := ep_total_data p + length (msg_data m)\<rparr>) ?s1"
  let ?s4 = "ipc_log [Notify ?b A20_EVENT_MESSAGE_READY] (let s2 = ?s2 in if dw then s2 else wait_queue_wake_one ?b A20_CH_WAIT_RECV s2)"
  have s': "s' = a20_channel_ep_release ?b ?s4"
    using run pr peer q1 by (auto simp: ch_try_enqueue_def Let_def split: if_splits)
  have ok2: "ipc_ok C N B (add_mset (ch_ref ?b) P) ?s2" using ok1 q1 his by (intro enqueue_ok) simp_all
  then have ok4: "ipc_ok C N B (add_mset (ch_ref ?b) P) ?s4"
    using wake_one_ok [OF ok2, of ?b] q1 by (simp add: ep_at_upd Let_def)
  have sent: "sent ?b m dw ?s1 ?s4" by (rule enqueue_sent [OF q1])
  have "ch_ref ?b \<in># refs s + ?K" by (rule live_ref [OF ok q(1)])
  then have "ch_ref ?b \<in># refs ?s4 + P"
    using sent still_refs [OF still_refcount_inc [of s ?b]] by (auto simp: sent_def)
  from still_ep_release [OF ok4 this peer] sent_still [OF still_refcount_inc sent] s'
  have "sent ?b m dw s s'" by simp
  moreover have "?b \<noteq> a" using ok ep peer by (auto simp: ipc_ok_def peers_ok_def)
  ultimately show ?thesis using ep peer by blast
qed

text \<open>The outcome of a send that does not sleep.\<close>

definition send_outcome :: "obj \<Rightarrow> ch_message \<Rightarrow> bool \<Rightarrow> ipc \<Rightarrow> (a20_err + unit) option \<times> ipc \<Rightarrow> bool" where
  "send_outcome a m dw s res \<longleftrightarrow> (case fst res of
       None \<Rightarrow> False
     | Some (Inl e) \<Rightarrow> still s (snd res)
     | Some (Inr _) \<Rightarrow> (\<exists>ep. ep_at s a = Some ep \<and> ep_peer ep \<noteq> 0 \<and> ep_peer ep \<noteq> a \<and> sent (ep_peer ep) m dw s (snd res)))"

lemma send_outcome_still:
  assumes "send_outcome a m dw s1 (r, s2)" "still s s1" "still s2 s3"
  shows "send_outcome a m dw s (r, s3)"
proof -
  have "\<exists>ep. ep_at s a = Some ep \<and> ep_peer ep = ep_peer ep1" if "ep_at s1 a = Some ep1" for ep1
  proof -
    have "still s1 s" using assms(2) by (simp add: still_def)
    from still_ep [OF this that] obtain ep where "ep_at s a = Some ep" "ep = ep1\<lparr>ep_refcount := ep_refcount ep\<rparr>" by blast
    then show ?thesis by (metis channel_ep.select_convs(3) channel_ep.surjective channel_ep.update_convs(1))
  qed
  with assms still_trans sent_still [OF assms(2) _ assms(3)] show ?thesis
    unfolding send_outcome_def by (fastforce split: option.splits sum.splits)
qed

lemma send_once:
  assumes ok: "ipc_ok C N B (mset (map info_key (msg_handles m)) + P) s" and a: "ch_ref a \<in># P" "a \<noteq> 0"
    and his: "\<forall>hi \<in> set (msg_handles m). hi_ok C hi \<and> info_key hi \<in># refs s + P" and one: "nb \<or> ws = No_Park"
  shows "send_outcome a m dw s (send_loop me a m nb dw ws s) \<and> ipc_ok C N B P (snd (send_loop me a m nb dw ws s))"
proof -
  have hi: "\<forall>hi \<in> set (msg_handles m). hi_ok C hi" using his by blast
  obtain r s1 where tr: "ch_try_enqueue a m dw s = (r, s1)" by force
  note e = try_enqueue_ok [OF ok a hi tr]
  have fr: "still s (ch_msg_free m True s)" "ipc_ok C N B P (ch_msg_free m True s)"
    using still_release_all [OF ok his] release_all_ok [OF ok hi] by (simp_all add: ch_msg_free_def)
  show ?thesis
  proof (cases r)
    case Enqueued
    with tr e(1) try_enqueue_sent [OF ok a hi] show ?thesis
      by (simp add: send_loop.simps [of me a m nb dw ws s] send_outcome_def)
  next
    case Queue_Full
    with tr e(1) fr one show ?thesis
      by (auto simp: send_loop.simps [of me a m nb dw ws s] send_outcome_def)
  next
    case (Enqueue_Err x)
    with tr e(1) fr show ?thesis by (simp add: send_loop.simps [of me a m nb dw ws s] send_outcome_def)
  qed
qed

lemma send_dwc_spec:
  assumes ok: "ipc_ok C N B P s" and a: "ch_ref a \<in># P" "a \<noteq> 0"
    and his: "\<forall>hi \<in> set his. hi_ok C hi \<and> info_key hi \<in># P" and one: "flags AND A20_MSG_NONBLOCK \<noteq> 0 \<or> ws = No_Park"
  shows "send_outcome a \<lparr>msg_data = data, msg_handles = his\<rparr> dw s (a20_channel_send_dwc mem me a data his flags dw ws s) \<and>
    ipc_ok C N B P (snd (a20_channel_send_dwc mem me a data his flags dw ws s))"
proof -
  let ?m = "\<lparr>msg_data = data, msg_handles = his\<rparr>" and ?s1 = "refcount_inc a s" and ?P = "add_mset (ch_ref a) P"
  let ?s2 = "ref_all his ?s1"
  have hi: "\<forall>hi \<in> set his. hi_ok C hi" using his by blast
  have ok1: "ipc_ok C N B ?P ?s1" using refcount_inc_ok [OF ok, of a] held_ep [OF ok a(1)] by simp
  have ok2: "ipc_ok C N B (mset (map info_key his) + ?P) ?s2" using his by (intro ref_all_ok [OF ok1]) auto
  have st1: "still s ?s1" by (rule still_refcount_inc)
  have st2: "still s ?s2" by (rule still_trans [OF st1 still_ref_all])
  define good where "good res \<longleftrightarrow> send_outcome a ?m dw s res \<and> ipc_ok C N B P (snd res)" for res
  have fin: "good (finish_call a (r, x))"
    if out: "send_outcome a ?m dw y (r, x)" and y: "still s y" and x: "ipc_ok C N B ?P x" for r x y
  proof -
    obtain v where v: "r = Some v" using out by (cases r) (auto simp: send_outcome_def)
    have "still x (a20_channel_ep_release a x)" using still_ep_release [OF x _ a(2)] a(1) by simp
    from send_outcome_still [OF out y this] ep_release_ok [OF x a(2)] v show ?thesis by (simp add: good_def finish_call_def)
  qed
  have err: "send_outcome a ?m dw x (Some (Inl e), x')" if "still x x'" for x x' e using that by (simp add: send_outcome_def)
  have early: "good (Some (Inl e), s)" for e using ok err [OF still_refl] by (simp add: good_def)
  have nomem: "still ?s2 (release_all his ?s2)" "ipc_ok C N B ?P (release_all his ?s2)"
    using his still_release_all [OF ok2] release_all_ok [OF ok2 hi] by auto
  obtain r s3 where l: "send_loop me a ?m (flags AND A20_MSG_NONBLOCK \<noteq> 0) dw ws ?s2 = (r, s3)" by force
  have "send_outcome a ?m dw ?s2 (r, s3) \<and> ipc_ok C N B ?P s3"
    using send_once [of C N B ?m ?P ?s2 a "flags AND A20_MSG_NONBLOCK \<noteq> 0" ws dw me] ok2 a his one l by simp
  then have loop: "good (finish_call a (r, s3))" using fin [OF _ st2] by blast
  have "good (finish_call a (Some (Inl e), ?s1))" for e
    using fin [OF err [OF still_refl] st1 ok1] .
  moreover have "good (finish_call a (Some (Inl A20_ERR_NO_MEMORY), release_all his ?s2))"
    by (rule fin [OF err [OF nomem(1)] st2 nomem(2)])
  ultimately have "good (a20_channel_send_dwc mem me a data his flags dw ws s)"
    using loop l early a(2) by (simp add: a20_channel_send_dwc_def Let_def split: option.split)
  then show ?thesis by (simp add: good_def)
qed

subsection \<open>Queues of held endpoints\<close>

lemma queue_of_log [simp]: "queue_of a (ipc_log evs s) = queue_of a s" "queue_of a (s\<lparr>ip_stat_eps := i\<rparr>) = queue_of a s"
  "queue_of a (s\<lparr>ip_stat_handles := i\<rparr>) = queue_of a s" "queue_of a (s\<lparr>ip_orefs := g\<rparr>) = queue_of a s"
  "queue_of a (s\<lparr>ip_progs := k\<rparr>) = queue_of a s" "queue_of a (s\<lparr>ip_uaf := b\<rparr>) = queue_of a s"
  "queue_of a (tab_put p t s) = queue_of a s"
  by (simp_all add: queue_of_def ep_at_def ipc_log_def tab_put_def)

lemma queue_of_upd: "(\<And>ep. ep_queue (f ep) = ep_queue ep) \<Longrightarrow> queue_of a (ep_upd c f s) = queue_of a s"
  by (cases "ep_at s c") (auto simp: queue_of_def ep_at_upd option.map_comp comp_def)

lemma queue_of_wake [simp]: "queue_of a (wait_queue_wake_all c s) = queue_of a s" "queue_of a (wait_queue_wake_one c k s) = queue_of a s"
  by (auto simp: wait_queue_wake_all_def wait_queue_wake_one_def queue_of_upd split: option.splits prod.splits)

lemma queue_of_ep_put:
  assumes put: "ep_put ob s = (hs, s1)" and ob: "ep_at s ob = Some ep" and a: "ob = a \<Longrightarrow> ep_refcount ep \<noteq> 1"
  shows "queue_of a s1 = queue_of a s"
proof (cases "ep_refcount ep - 1 \<noteq> 0")
  case True
  with put ob show ?thesis by (auto simp: ep_put_def queue_of_upd)
next
  case False
  let ?s1 = "s\<lparr>ip_stat_eps := ip_stat_eps s - 1\<rparr>"
  let ?s2 = "if ep_peer ep \<noteq> 0 then ipc_log [Notify (ep_peer ep) A20_EVENT_PEER_CLOSED] (wait_queue_wake_all (ep_peer ep)
      (ep_upd (ep_peer ep) (\<lambda>p. p\<lparr>ep_peer_closed := True, ep_peer := (if ep_peer p = ob then 0 else ep_peer p)\<rparr>) ?s1)) else ?s1"
  let ?s3 = "ipc_log [Notify ob A20_EVENT_CLOSED, Unwatch ob] ?s2"
  have s1: "s1 = ?s3\<lparr>ip_eps := (ip_eps ?s3)[ob - 1 := None]\<rparr>"
    using put ob False by (simp add: ep_put_def Let_def)
  have "ob \<noteq> a" using a False by auto
  then have "ep_at s1 a = ep_at ?s3 a"
    using ep_at_SomeD [OF ob] unfolding s1 by (auto simp: ep_at_def nth_list_update)
  then have "queue_of a s1 = queue_of a ?s3" by (simp add: queue_of_def)
  also have "\<dots> = queue_of a s" by (simp add: queue_of_upd)
  finally show ?thesis .
qed

lemma queue_of_release:
  "ipc_ok C N B (mset (map pin work) + P) s \<Longrightarrow> \<forall>x \<in> set work. fst x \<noteq> 0 \<Longrightarrow> ch_ref a \<in># P \<Longrightarrow>
   queue_of a (release_refs work s) = queue_of a s"
proof (induction work s rule: release_refs.induct)
  case (2 ob type rest s)
  let ?R = "mset (map pin rest) + P" and ?k = "Ref ob type"
  have pre: "ipc_ok C N B (add_mset ?k ?R) s" and ob: "ob \<noteq> 0" and nz: "\<forall>x \<in> set rest. fst x \<noteq> 0"
    using "2.prems" by (simp_all add: pin_def [of "(ob, type)"])
  show ?case
  proof (cases "type = A20_OBJ_CHANNEL_ENDPOINT")
    case True
    obtain ep where ep: "ep_at s ob = Some ep" using ipc_ok_ep [OF pre, of ob] True by auto
    obtain hs s1 where put: "ep_put ob s = (hs, s1)" by force
    note e = ep_put_ok [OF pre [unfolded True] put]
    have "ep_refcount ep \<noteq> 1" if "ob = a"
    proof -
      have "ep_refcount ep = int (count (refs s + add_mset ?k ?R) ?k)"
        using pre ep True by (simp add: ipc_ok_def eps_ok_def del: count_union)
      moreover have "count (refs s + add_mset ?k ?R) ?k = 1 + count P ?k + count (refs s + mset (map pin rest)) ?k" by simp
      moreover have "0 < count P ?k" using "2.prems"(3) that True by simp
      ultimately show ?thesis by linarith
    qed
    with queue_of_ep_put [OF put ep, of a] have q: "queue_of a s1 = queue_of a s" by blast
    have "\<forall>x \<in> set (map (\<lambda>h. (hi_object h, hi_type h)) hs @ rest). fst x \<noteq> 0"
      using e(2) nz by (auto simp: hi_ok_def limits_ok_def hi_entry_def)
    moreover have "ipc_ok C N B (mset (map pin (map (\<lambda>h. (hi_object h, hi_type h)) hs @ rest)) + P) s1"
      using e(1) by (simp add: comp_def ac_simps del: mset_map)
    ultimately show ?thesis
      using "2.IH"(2) [OF ob True put [symmetric]] ob True put q "2.prems"(3) by (simp add: release_refs.simps(2))
  next
    case False
    have "ipc_ok C N B ?R (drop_count ob type s)" if "counted_type type"
      using ipc_ok_orefs [OF pre False, of ?R ob "- 1"] that by (simp add: drop_count_def Let_def)
    moreover have "queue_of a (drop_count ob type s) = queue_of a s" by (simp add: drop_count_def Let_def)
    moreover have "ipc_ok C N B ?R s" "ipc_ok C N B ?R (s\<lparr>ip_progs := g\<rparr>)" if "\<not> counted_type type" for g
      using ipc_ok_uncounted [OF pre False that, of ?R ob] by simp_all
    ultimately show ?thesis
      using ob False nz "2.IH"(3-5) "2.prems"(3) by (auto simp: release_refs.simps(2))
  qed
qed simp

lemma queue_of_ep_release:
  assumes "ipc_ok C N B (add_mset (ch_ref a) P) s" "ch_ref a \<in># P" "a \<noteq> 0"
  shows "queue_of a (a20_channel_ep_release a s) = queue_of a s"
  using still_ep_release [OF assms(1) _ assms(3)] assms(2) still_queue by auto

subsection \<open>The table of the receiver\<close>

lemma handle_remove_spec:
  assumes ok: "ipc_ok C N B P s" and p: "Tab p \<in># P" and t: "tab_of p s = Some t"
    and run: "tab_do p (a20_handle_remove h) s = (r, s')"
  shows "\<exists>t'. tab_of p s' = Some t' \<and> ent t' = (if live_entry (ent t h) then (ent t)(h := freed (ent t h)) else ent t)"
    "ch_ref a \<in># P \<Longrightarrow> queue_of a s' = queue_of a s"
proof -
  have tk: "tab_ok C t" using ipc_ok_tab [OF ok p] t by simp
  then have hok: "ht_ok t" by (simp add: tab_ok_def)
  obtain r' t' evs where l: "a20_handle_remove h t = (r', t', evs)" by (metis prod_cases3)
  note sp = remove_spec [OF hok l]
  have s': "s' = run_events evs (tab_put p (Some t') s)" using run t l by (simp add: tab_do_def)
  have tp: "tab_of p (tab_put p (Some t') s) = Some t'" using tab_of_less [OF t] by (simp add: tab_of_put)
  show "\<exists>t'. tab_of p s' = Some t' \<and> ent t' = (if live_entry (ent t h) then (ent t)(h := freed (ent t h)) else ent t)"
    using sp tp s' by (cases r') (auto simp: run_events_def)
  assume a: "ch_ref a \<in># P"
  show "queue_of a s' = queue_of a s"
  proof (cases r')
    case (Inl e)
    with sp s' show ?thesis by (simp add: run_events_def)
  next
    case (Inr u)
    with sp have live: "live_entry (ent t h)" and ent: "ent t' = (ent t)(h := freed (ent t h))" and
      evs: "evs = [StatHandles (- 1), ObjRelease (he_object (ent t h)) (he_type (ent t h))]" by simp_all
    have nz: "he_object (ent t h) \<noteq> 0" using live live_iff [OF hok] by simp
    let ?k = "Ref (he_object (ent t h)) (he_type (ent t h))"
    have "ipc_ok C N B ({#?k#} + P) (tab_put p (Some t') s)"
    proof (rule slot_change [OF _ t p _ _ sp(1) _ ent])
      show "ipc_ok C N B ({#} + P) s" using ok by simp
      show "okey (freed (ent t h)) + {#?k#} = okey (ent t h) + {#}" using nz by simp
      show "ht_refcount t' = ht_refcount t" using l Inr by (auto simp: a20_handle_remove_def split: if_splits)
    qed (use ent_live_less [OF live] hok in \<open>simp_all add: ent_less_max\<close>)
    with queue_of_release [of C N B "[(he_object (ent t h), he_type (ent t h))]" P
        "tab_put p (Some t') s\<lparr>ip_stat_handles := ip_stat_handles (tab_put p (Some t') s) + - 1\<rparr>" a] nz a s' evs
    show ?thesis by (simp add: run_events_def pin_def a20_object_release_def)
  qed
qed

lemma remove_all_spec:
  "ipc_ok C N B P s \<Longrightarrow> Tab p \<in># P \<Longrightarrow> ch_ref a \<in># P \<Longrightarrow> tab_of p s = Some t \<Longrightarrow>
   queue_of a (remove_all p hs s) = queue_of a s \<and>
   (\<exists>t'. tab_of p (remove_all p hs s) = Some t' \<and> (\<forall>h. ent t' h = (if h \<in> set hs \<and> live_entry (ent t h) then freed (ent t h) else ent t h)))"
proof (induction hs arbitrary: s t)
  case (Cons h hs)
  obtain r s1 where r: "tab_do p (a20_handle_remove h) s = (r, s1)" by force
  from handle_remove_spec [OF Cons.prems(1,2,4) r] Cons.prems(3) obtain t1 where
    t1: "tab_of p s1 = Some t1" "ent t1 = (if live_entry (ent t h) then (ent t)(h := freed (ent t h)) else ent t)"
    "queue_of a s1 = queue_of a s" by blast
  have "\<not> live_entry (freed e)" for e by (simp add: freed_def live_entry_def)
  with Cons.IH [OF handle_remove_ok [OF Cons.prems(1,2) r] Cons.prems(2,3) t1(1)] t1(2,3) r show ?case by auto
qed simp

definition hi_cap :: "handle_info \<Rightarrow> handle_entry" where
  "hi_cap hi = new_cap (hi_object hi) (hi_type hi) (hi_rights hi) (hi_expiry hi) (hi_ops hi) (hi_flags hi) (hi_label hi)"

text \<open>Committing reserved slots cannot fail.\<close>

lemma commit_all_spec:
  assumes "tab_of p s = Some t" "ht_ok t" "distinct (map fst xs)"
    "\<forall>(slot, hi) \<in> set xs. he_state (ent t slot) = A20_HS_CLOSING \<and> hi_ok C hi"
  shows "\<exists>s' t'. commit_all p xs got s = (Inr (got @ map fst xs), s') \<and> queue_of a s' = queue_of a s \<and> tab_of p s' = Some t' \<and>
    (\<forall>h. ent t' h = (case map_of xs h of None \<Rightarrow> ent t h | Some hi \<Rightarrow> hi_cap hi))"
  using assms
proof (induction xs arbitrary: s t got)
  case (Cons x xs)
  obtain slot hi where x: "x = (slot, hi)" by force
  obtain r t1 where l: "a20_handle_commit_reserved_temporal slot (hi_object hi) (hi_type hi) (hi_rights hi)
     (hi_expiry hi) (hi_ops hi) (hi_flags hi) (hi_label hi) t = (r, t1)" by force
  have lim: "hi_object hi \<noteq> 0" "hi_expiry hi > 0 \<longrightarrow> hi_flags hi AND A20_TEMPORAL_EXPIRY_ABSOLUTE \<noteq> 0"
    using Cons.prems(4) x by (auto simp: hi_ok_def limits_ok_def hi_entry_def)
  note sp = commit_spec [OF Cons.prems(2) l lim]
  have closing: "he_state (ent t slot) = A20_HS_CLOSING" using Cons.prems(4) x by simp
  then have r: "r = Inr ()" and ent: "ent t1 = (ent t)(slot := hi_cap hi)"
    using sp(2) by (cases r; simp add: hi_cap_def new_cap_def)+
  let ?s1 = "tab_put p (Some t1) s"
  have t1: "tab_of p ?s1 = Some t1" using tab_of_less [OF Cons.prems(1)] by (simp add: tab_of_put)
  have c: "tab_do p (commit_op slot hi) s = (Inr (), ?s1)"
    using Cons.prems(1) l r by (simp add: tab_do_def commit_op_def silent_def run_events_def)
  have "\<forall>(slot', hi) \<in> set xs. he_state (ent t1 slot') = A20_HS_CLOSING \<and> hi_ok C hi"
    using Cons.prems(3,4) x by (force simp: ent)
  from Cons.IH [OF t1 sp(1) _ this, of "got @ [slot]"] Cons.prems(3) x
  obtain s' t' where n: "commit_all p xs (got @ [slot]) ?s1 = (Inr (got @ slot # map fst xs), s')" "queue_of a s' = queue_of a s"
    "tab_of p s' = Some t'" "\<forall>h. ent t' h = (case map_of xs h of None \<Rightarrow> ent t1 h | Some hi \<Rightarrow> hi_cap hi)" by auto
  have "map_of xs slot = None" using Cons.prems(3) x by (simp add: map_of_eq_None_iff)
  with n c x ent show ?case by (intro exI [of _ s'] exI [of _ t']) (auto split: option.splits)
qed simp

lemma abort_op_spec:
  assumes "tab_of p s = Some t" "ht_ok t"
  shows "\<exists>t'. tab_of p (snd (tab_do p (abort_op hs) s)) = Some t' \<and>
    (\<forall>h. ent t' h = (if h \<in> set hs \<and> he_state (ent t h) = A20_HS_CLOSING then (ent t h)\<lparr>he_state := A20_HS_FREE\<rparr> else ent t h))"
    "queue_of a (snd (tab_do p (abort_op hs) s)) = queue_of a s"
  using assms abort_reserved_spec [OF assms(2), of hs] tab_of_less [OF assms(1)]
  by (simp_all add: tab_do_def abort_op_def run_events_def tab_of_put)

text \<open>A table whose handles in use are those of \<open>t\<close>.\<close>

definition same_handles :: "ht \<Rightarrow> ht \<Rightarrow> bool" where
  "same_handles t t' \<longleftrightarrow> (\<forall>h. live_entry (ent t h) \<or> live_entry (ent t' h) \<longrightarrow> ent t' h = ent t h)"

lemma same_handles_abort:
  assumes t1: "tab_of p s = Some t1" "ht_ok t1" "ent t1 = reserved hs (ent t)" "\<forall>h \<in> set hs. free_entry (ent t h)"
  shows "\<exists>t'. tab_of p (snd (tab_do p (abort_op hs) s)) = Some t' \<and> same_handles t t'"
proof -
  obtain t' where t': "tab_of p (snd (tab_do p (abort_op hs) s)) = Some t'"
    "\<forall>h. ent t' h = (if h \<in> set hs \<and> he_state (ent t1 h) = A20_HS_CLOSING then (ent t1 h)\<lparr>he_state := A20_HS_FREE\<rparr> else ent t1 h)"
    using abort_op_spec(1) [OF t1(1,2)] by blast
  then have "same_handles t t'" using t1(4) by (auto simp: same_handles_def t1(3) reserved_def live_entry_def)
  with t'(1) show ?thesis by blast
qed

end
