(* ===== verification/Native_Calls.thy ===== *)
theory Native_Calls
  imports Ipc_Delivery
begin

text \<open>
  The calls of the native interface as one type, with the contract that all of them share.  The
  calls that do not sleep fulfil the contract \<open>native_action\<close>: they keep the accounting of references
  and every bound on capabilities, and they may therefore run while another call is asleep.
\<close>

unbundle bit_operations_syntax

subsection \<open>The contract of a call that does not sleep\<close>

locale native_action =
  fixes p :: nat and f :: "ipc \<Rightarrow> 'r \<times> ipc"
  assumes keeps: "cap_bound C N \<Longrightarrow> ipc_ok C N B P s \<Longrightarrow> Tab p \<in># P \<Longrightarrow> ipc_ok C N B P (snd (f s))"
begin

lemma action_acts: "cap_bound C N \<Longrightarrow> Tab p \<in># W \<Longrightarrow> acts C N B W W (\<lambda>s. snd (f s))"
  by (simp add: acts_def keeps)

text \<open>It may run before a sleeper is linked and while it sleeps.\<close>

lemma action_wait:
  assumes "cap_bound C N" "Tab p \<in># W" "env_ok C N B S W retry" "env_ok C N B S W rest"
  shows "env_ok C N B S W (Wait (\<lambda>s. snd (f s)) retry (\<lambda>s. snd (f s)) reason rest)"
  using assms env_ok_in [OF assms(3)] by (blast intro: env_ok.wait action_acts)

lemma action_settles:
  assumes "cap_bound C N" "ipc_ok C N B (W + F) s" "Tab p \<in># F" "W \<in> S"
  shows "settled C N B S F (Some r, snd (f s))"
  using keeps [OF assms(1,2)] assms(3,4) by (auto intro: settledI)

end

lemma acts_id: "acts C N B W W (\<lambda>s. s)"
  by (simp add: acts_def)

interpretation close: native_action p "sys_a20_handle_close p h" for p h
  by unfold_locales (metis close_ok surj_pair snd_conv)

interpretation close_many: native_action p "sys_a20_handle_close_many p hs n" for p hs n
  by unfold_locales (metis close_many_ok surj_pair snd_conv)

interpretation dup: native_action p "sys_a20_handle_dup p now mem args out_fault" for p now mem args out_fault
  by unfold_locales (metis dup_ok surj_pair snd_conv)

interpretation query: native_action p "sys_a20_handle_query p now h out" for p now h out
  by unfold_locales (metis query_ok surj_pair snd_conv)

interpretation replace: native_action p "sys_a20_handle_replace p now mem h m out" for p now mem h m out
  by unfold_locales (metis replace_ok surj_pair snd_conv)

interpretation control: native_action p "sys_a20_handle_control tps p now h op" for tps p now h op
  by unfold_locales (metis control_ok surj_pair snd_conv)

interpretation vm_share: native_action p "sys_a20_vm_share proc_of p clock mem h target rights" for proc_of p clock mem h target rights
  by unfold_locales (metis vm_share_ok surj_pair snd_conv)

interpretation channel_create: native_action p "sys_a20_channel_create p mem args out_fault" for p mem args out_fault
  by unfold_locales (metis channel_create_ok surj_pair snd_conv)

interpretation set_context: native_action p "sys_a20_security_set_context p args" for p args
  by unfold_locales (metis set_context_ok surj_pair snd_conv)

interpretation sweep: native_action p "\<lambda>s. ((), a20_temporal_sweep_all clock registry s)" for p clock registry
  by unfold_locales (simp add: sweep_all_ok)

subsection \<open>The calls\<close>

datatype native_call =
    Handle_Close nat
  | Handle_Close_Many "nat ubuf" nat
  | Handle_Dup u64 bool "(nat \<times> u64) abi_arg" bool
  | Handle_Query u64 nat "unit uarg"
  | Handle_Replace u64 bool nat u64 "unit uarg"
  | Handle_Control u64 u64 nat control_op
  | Vm_Share "obj \<Rightarrow> nat option" "nat \<Rightarrow> u64" bool nat "nat option" u64
  | Channel_Create "nat \<Rightarrow> bool" "(nat \<times> channel_type uarg) abi_arg" bool
  | Security_Set_Context "u32 abi_arg"
  | Temporal_Sweep "nat \<Rightarrow> nat \<Rightarrow> u64" "nat list"
  | Channel_Send tid "nat \<Rightarrow> u64" "nat \<Rightarrow> bool" "msg_args abi_arg" waits
  | Channel_Recv tid "nat \<Rightarrow> u64" "nat \<Rightarrow> bool" "(nat \<times> u32) abi_arg" recv_bufs waits
  | Channel_Call tid "nat \<Rightarrow> u64" "nat \<Rightarrow> bool" bool "msg_args abi_arg" recv_bufs waits waits
  | Task_Clone "u64 \<times> u64" "nat \<Rightarrow> u64" "nat \<Rightarrow> bool" "clone_args abi_arg" "obj option"
  | Task_Spawn "u64 \<times> u64" "nat \<Rightarrow> nat \<Rightarrow> u64" "nat \<Rightarrow> nat \<Rightarrow> bool" "nat \<Rightarrow> nat \<Rightarrow> bool" "spawn_args abi_arg"
      bool "bool option" "obj option" bool bool obj
  | Execve "u64 \<times> u64" "nat \<Rightarrow> bool" bool "obj option list" "obj option" obj obj
  | Registry_Claim nat bool "(bool \<times> (nat \<Rightarrow> nat)) list" "nat \<Rightarrow> nat" registry

text \<open>A call by process \<open>p\<close>: whether it has returned, and the state.\<close>

definition returned :: "'r \<times> ipc \<Rightarrow> unit option \<times> ipc" where
  "returned x = (Some (), snd x)"

definition maybe_asleep :: "'r option \<times> ipc \<Rightarrow> unit option \<times> ipc" where
  "maybe_asleep x = (map_option (\<lambda>_. ()) (fst x), snd x)"

fun do_call :: "nat \<Rightarrow> native_call \<Rightarrow> ipc \<Rightarrow> unit option \<times> ipc" where
  "do_call p (Handle_Close h) s = returned (sys_a20_handle_close p h s)"
| "do_call p (Handle_Close_Many hs n) s = returned (sys_a20_handle_close_many p hs n s)"
| "do_call p (Handle_Dup now mem args out_fault) s = returned (sys_a20_handle_dup p now mem args out_fault s)"
| "do_call p (Handle_Query now h out) s = returned (sys_a20_handle_query p now h out s)"
| "do_call p (Handle_Replace now mem h m out) s = returned (sys_a20_handle_replace p now mem h m out s)"
| "do_call p (Handle_Control tps now h op) s = returned (sys_a20_handle_control tps p now h op s)"
| "do_call p (Vm_Share proc_of clock mem h target rights) s = returned (sys_a20_vm_share proc_of p clock mem h target rights s)"
| "do_call p (Channel_Create mem args out_fault) s = returned (sys_a20_channel_create p mem args out_fault s)"
| "do_call p (Security_Set_Context args) s = returned (sys_a20_security_set_context p args s)"
| "do_call p (Temporal_Sweep clock registry) s = returned ((), a20_temporal_sweep_all clock registry s)"
| "do_call p (Channel_Send me clock mem args ws) s = maybe_asleep (sys_a20_channel_send p me clock mem args ws s)"
| "do_call p (Channel_Recv me clock mem args b ws) s = maybe_asleep (sys_a20_channel_recv p me clock mem args b ws s)"
| "do_call p (Channel_Call me clock mem cd args b ws1 ws2) s =
     maybe_asleep (sys_a20_channel_call p me clock mem cd args b ws1 ws2 s)"
| "do_call p (Task_Clone junk clock mem args child) s = returned (sys_a20_task_clone p junk clock mem args child s)"
| "do_call p (Task_Spawn junk clock mem grow args fd_free load child out_fault stack client) s =
     returned (sys_a20_task_spawn p junk clock mem grow args fd_free load child out_fault stack client s)"
| "do_call p (Execve junk mem adopted files root client pid) s =
     returned ((), exec_setup_native_abi p junk mem adopted files root client pid s)"
| "do_call p (Registry_Claim pid mem script during rg) s = maybe_asleep (sys_a20_registry_claim p pid mem script during rg s)"

text \<open>The calls that give out handles which are not derived from a handle of the caller with its limits: the
  creation of tasks, \<^verbatim>\<open>execve\<close> and the claim of the service registry.\<close>

fun inherits :: "native_call \<Rightarrow> bool" where
  "inherits (Task_Clone junk clock mem args child) = True"
| "inherits (Task_Spawn junk clock mem grow args fd_free load child out_fault stack client) = True"
| "inherits (Execve junk mem adopted files root client pid) = True"
| "inherits (Registry_Claim pid mem script during rg) = True"
| "inherits c = False"

text \<open>The file whose reference a call drops once too often: the image of a spawn that has been handed to the
  loader, whether the spawn succeeds or not.\<close>

fun overdropped :: "nat \<Rightarrow> native_call \<Rightarrow> ipc \<Rightarrow> obj option" where
  "overdropped p (Task_Spawn junk clock mem grow args fd_free load child out_fault stack client) s = (case abi_copy args of
       Inl _ \<Rightarrow> None | Inr a \<Rightarrow> image_released p (clock 4 0) (sp_image a) fd_free s)"
| "overdropped p c s = None"

text \<open>What a call may be given: the others act within the rules while it sleeps, tasks and files have a number, and
  the registry holds its endpoints.  A child's own reference to its table is one more reference of the
  others, and so is the reference to the endpoint of the registry that a spawn or an \<^verbatim>\<open>execve\<close> leaves behind
  when it cannot install it.\<close>

fun call_env ::
  "(handle_entry \<Rightarrow> bool) \<Rightarrow> nat \<Rightarrow> (obj \<Rightarrow> int) \<Rightarrow> holding multiset set \<Rightarrow> holding multiset \<Rightarrow> native_call \<Rightarrow> bool" where
  "call_env C N B S W (Channel_Send me clock mem args ws) = env_ok C N B S W ws"
| "call_env C N B S W (Channel_Recv me clock mem args b ws) = env_ok C N B S W ws"
| "call_env C N B S W (Channel_Call me clock mem cd args b ws1 ws2) =
     (env_ok C N B S W ws1 \<and> (\<forall>W' \<in> S. env_ok C N B S W' ws2))"
| "call_env C N B S W (Task_Clone junk clock mem args child) = (W \<in> S \<and> (\<forall>q. add_mset (Tab q) W \<in> S) \<and> child \<noteq> Some 0)"
| "call_env C N B S W (Task_Spawn junk clock mem grow args fd_free load child out_fault stack client) =
     (W \<in> S \<and> (\<forall>q. add_mset (Tab q) W \<in> S \<and> add_mset (ch_ref client) (add_mset (Tab q) W) \<in> S) \<and> child \<noteq> Some 0 \<and>
      (client = 0 \<or> ch_ref client \<in># W))"
| "call_env C N B S W (Execve junk mem adopted files root client pid) =
     (W \<in> S \<and> add_mset (ch_ref client) W \<in> S \<and> Some 0 \<notin> set files \<and> root \<noteq> Some 0 \<and> pid \<noteq> 0 \<and>
      (client = 0 \<or> ch_ref client \<in># W))"
| "call_env C N B S W (Registry_Claim pid mem script during rg) =
     (W \<in> S \<and> (rg_server rg = 0 \<or> ch_ref (rg_server rg) \<in># W))"
| "call_env C N B S W c = (W \<in> S)"

lemma settled_maybe_asleep [simp]: "settled C N B S F (maybe_asleep x) = settled C N B S F x"
  by (simp add: settled_def maybe_asleep_def)

lemma call_settled:
  assumes ok: "ipc_ok C N B (W + F) s" and p: "Tab p \<in># F" and C: "cap_bound C N" "inherits c \<longrightarrow> C = any_cap"
    and env: "call_env C N B S W c"
  shows "settled C N (one_short (overdropped p c s) B) S F (do_call p c s)"
proof (cases c)
  case (Channel_Send me clock mem args ws)
  with channel_send_ok [OF ok p C(1)] env show ?thesis by (simp add: one_short_def)
next
  case (Channel_Recv me clock mem args b ws)
  with channel_recv_ok [OF ok p C(1)] env show ?thesis by (simp add: one_short_def)
next
  case (Channel_Call me clock mem cd args b ws1 ws2)
  with channel_call_ok [OF ok p C(1)] env show ?thesis by (simp add: one_short_def)
next
  case (Task_Clone junk clock mem args child)
  obtain r s' where r: "sys_a20_task_clone p junk clock mem args child s = (r, s')" by force
  have "Tab p \<in># W + F" using p by simp
  from task_clone_ok [OF ok [unfolded C(2) [rule_format, unfolded Task_Clone, simplified]] this _ r] Task_Clone env C(2) r
  show ?thesis
    by (auto simp: one_short_def returned_def split: if_splits intro: settledI [of _ _ _ W] settledI [of _ _ _ "add_mset (Tab (length (ip_tabs s))) W"])
next
  case (Task_Spawn junk clock mem grow args fd_free load child out_fault stack client)
  obtain r s' where r: "sys_a20_task_spawn p junk clock mem grow args fd_free load child out_fault stack client s = (r, s')" by force
  note any = ok [unfolded C(2) [rule_format, unfolded Task_Spawn, simplified]]
  have pc: "Tab p \<in># W + F" "client = 0 \<or> ch_ref client \<in># W + F" "child \<noteq> Some 0" using p env Task_Spawn by auto
  show ?thesis
  proof (cases "abi_copy args")
    case (Inl e)
    with r Task_Spawn ok env show ?thesis
      by (auto simp: sys_a20_task_spawn_def one_short_def returned_def intro: settledI [of _ _ _ W])
  next
    case (Inr a)
    let ?B = "one_short (overdropped p c s) B"
    have B: "image_released p (clock 4 0) (sp_image a) fd_free s = overdropped p c s" using Task_Spawn Inr by simp
    from spawn_whole_ok [OF any pc(1,3,2) Inr r, unfolded B] obtain L T where
      L: "L = {#} \<or> L = {#ch_ref client#}" "T = {#} \<or> (\<exists>q. T = {#Tab q#})" "T = {#} \<longrightarrow> L = {#}"
        "ipc_ok any_cap N ?B (L + (T + (W + F))) s'" by blast
    have "W \<in> S" "\<And>q. add_mset (Tab q) W \<in> S" "\<And>q. add_mset (ch_ref client) (add_mset (Tab q) W) \<in> S"
      using env Task_Spawn by simp_all
    with L(1-3) have "L + (T + W) \<in> S" by (auto simp: add_mset_commute [of _ "ch_ref client"])
    with L(4) C(2) Task_Spawn r show ?thesis
      by (auto simp: returned_def union_assoc intro!: settledI [of _ _ _ "L + (T + W)"])
  qed
next
  case (Execve junk mem adopted files root client pid)
  note any = ok [unfolded C(2) [rule_format, unfolded Execve, simplified]]
  have "Tab p \<in># W + F" "client = 0 \<or> ch_ref client \<in># W + F" using p env Execve by auto
  with exec_setup_ok [OF any this(1), of files root pid client junk mem adopted] env Execve obtain L where
    L: "L = {#} \<or> L = {#ch_ref client#}"
      "ipc_ok any_cap N B (L + (W + F)) (exec_setup_native_abi p junk mem adopted files root client pid s)" by fastforce
  have "L + W \<in> S" using L(1) env Execve by auto
  with L(2) C(2) Execve show ?thesis
    by (auto simp: one_short_def returned_def union_assoc intro!: settledI [of _ _ _ "L + W"])
next
  case (Registry_Claim pid mem script during rg)
  obtain r s' where r: "sys_a20_registry_claim p pid mem script during rg s = (r, s')" by force
  have "Tab p \<in># W + F" "rg_server rg = 0 \<or> ch_ref (rg_server rg) \<in># W + F" using p env Registry_Claim by auto
  from registry_claim_ok [OF ok [unfolded C(2) [rule_format, unfolded Registry_Claim, simplified]] this r] Registry_Claim env C(2) r
  show ?thesis by (auto simp: one_short_def intro: settledI [of _ _ _ W])
qed (use env close.action_settles [OF C(1) ok p] close_many.action_settles [OF C(1) ok p] dup.action_settles [OF C(1) ok p]
    query.action_settles [OF C(1) ok p] replace.action_settles [OF C(1) ok p] control.action_settles [OF C(1) ok p]
    vm_share.action_settles [OF C(1) ok p] channel_create.action_settles [OF C(1) ok p] set_context.action_settles [OF C(1) ok p] sweep.action_settles [OF C(1) ok p]
    in \<open>simp_all add: one_short_def returned_def\<close>)

subsection \<open>Lookups leave the state still\<close>

lemma lookup_still:
  assumes ok: "ipc_ok C N B P s" and p: "Tab p \<in># P" and run: "lookup_ref p now h ty req s = (r, s')"
  shows "still s s'" "r = Inr e \<Longrightarrow> Ref (he_object e) (he_type e) \<in># refs s'"
    "r = Inr e \<Longrightarrow> \<exists>t. tab_of p s = Some t \<and> he_object e = he_object (ent t h)"
proof -
  obtain t where t: "tab_of p s = Some t" "tab_ok C t" using ipc_ok_tab [OF ok p] by blast
  then have hok: "ht_ok t" by (simp add: tab_ok_def)
  obtain r' t' evs where l: "a20_handle_lookup_ref_mode now h ty req True t = (r', t', evs)" by (metis prod_cases3)
  note sp = lookup_spec [OF l] and lo = lookup_ok [OF hok l]
  have s': "r = r'" "s' = run_events evs (tab_put p (Some t') s)"
    using run t(1) l by (simp_all add: tab_do_def a20_handle_lookup_ref_internal_def)
  have "still s s' \<and> (\<forall>e. r = Inr e \<longrightarrow> Ref (he_object e) (he_type e) \<in># refs s' \<and> he_object e = he_object (ent t h))"
  proof (cases r')
    case (Inl x)
    with sp s' tab_put_same [OF t(1)] show ?thesis by (auto simp: run_events_def)
  next
    case (Inr x)
    with sp have adm: "lookup_admits now ty req (ent t h)" and
      x: "x = (use_op (ent t h))\<lparr>he_rights := a20_effective_rights now (ent t h)\<rparr>" and
      evs: "evs = [ObjRef (he_object (ent t h)) (he_type (ent t h))]" by simp_all
    let ?s1 = "tab_put p (Some t') s"
    have ent: "ent t' = (ent t)(h := use_op (ent t h))" using lo(2) Inr by simp
    have "fkeys (ent t') = fkeys (ent t)" by (rule fkeys_cong) (simp add: ent okey_def use_op_props)
    then have "refs ?s1 = refs s" using refs_tab_put [OF tab_of_less [OF t(1)], of "Some t'"] t(1) by simp
    then have st: "still s ?s1" by (simp add: still_def eview_def)
    have "he_object (ent t h) \<noteq> 0" using adm by (simp add: lookup_admits_def)
    from key_in_refs [OF t(1) hok this] st still_trans [OF st still_object_ref] Inr s' evs x show ?thesis
      by (simp add: run_events_def use_op_props still_refs)
  qed
  with t(1) show "still s s'" "r = Inr e \<Longrightarrow> Ref (he_object e) (he_type e) \<in># refs s'"
    "r = Inr e \<Longrightarrow> \<exists>t. tab_of p s = Some t \<and> he_object e = he_object (ent t h)" by blast+
qed

lemma collect_still:
  assumes C: "cap_bound C N"
  shows "ipc_ok C N B P s \<Longrightarrow> Tab p \<in># P \<Longrightarrow> collect_handles p clock i hs s = (r, his, s') \<Longrightarrow>
    still s s' \<and> (\<forall>hi \<in> set his. info_key hi \<in># refs s')"
proof (induction hs arbitrary: i s P r his s')
  case (Cons x hs)
  obtain h xm where x: "x = (h, xm)" by force
  obtain r1 s1 where l: "lookup_ref p (clock i) h A20_OBJ_INVALID A20_RIGHT_TRANSFER s = (r1, s1)" by force
  note lo = lookup_ref_ok [OF Cons.prems(1,2) C l] and ls = lookup_still [OF Cons.prems(1,2) l]
  show ?case
  proof (cases r1)
    case (Inl e)
    with Cons.prems l ls(1) x show ?thesis by auto
  next
    case (Inr he)
    let ?P = "add_mset (Ref (he_object he) (he_type he)) P"
    from Inr lo have he: "cap_ok C he" and ok1: "ipc_ok C N B ?P s1" by simp_all
    have key: "info_key (info_of he xm) \<in># refs s1" using ls(2) [OF Inr] info_ok(2) [OF C he] by simp
    obtain r2 his2 s2 where rest: "collect_handles p clock (i + 1) hs s1 = (r2, his2, s2)" by (metis prod_cases3)
    have "Tab p \<in># ?P" using Cons.prems(2) by simp
    then have ih: "still s1 s2" "\<forall>hi \<in> set his2. info_key hi \<in># refs s2" using Cons.IH [OF ok1 _ rest] by simp_all
    show ?thesis
    proof (cases "hi_rights (info_of he xm) = 0")
      case True
      with Cons.prems(3) l x Inr key ls(1) show ?thesis by auto
    next
      case False
      with Cons.prems(3) l x Inr rest key still_refs [OF ih(1)] still_trans [OF ls(1) ih(1)] ih(2) show ?thesis by auto
    qed
  qed
qed simp

lemma map_send_err: "a20_clx_map_send_err (Inr x) ct = Inr x" "\<exists>e'. a20_clx_map_send_err (Inl e) ct = Inl e'"
  by (auto simp: a20_clx_map_send_err_def split: a20_err.splits option.splits)

text \<open>The send stage of a call that may not sleep.\<close>

lemma send_stage_outcome:
  assumes ok: "ipc_ok C N B P s" and p: "Tab p \<in># P" and C: "cap_bound C N" and a: "ch_ref a \<in># P" "a \<noteq> 0"
    and nb: "ma_flags args AND A20_MSG_NONBLOCK \<noteq> 0" and run: "send_stage p me clock mem a args dw ws s = (r, s')"
  shows "\<exists>m. send_outcome a m dw s (r, s')" "ipc_ok C N B P s'"
proof -
  have one: "\<exists>m. send_outcome a m dw s (Some (Inl e), x)" if "still s x" for e x using that by (simp add: send_outcome_def)
  have "(\<exists>m. send_outcome a m dw s (r, s')) \<and> ipc_ok C N B P s'"
  proof (cases "\<exists>data hs. read_data (mem 0) args = Inr data \<and> read_handles args = Inr hs")
    case False
    with run one [OF still_refl] ok show ?thesis by (auto simp: send_stage_def split: sum.splits)
  next
    case True
    then obtain data hs where args: "read_data (mem 0) args = Inr data" "read_handles args = Inr hs" by blast
    obtain r1 his s1 where c: "collect_handles p clock 1 hs s = (r1, his, s1)" by (metis prod_cases3)
    note co = collect_handles_ok [OF C ok p c] and cs = collect_still [OF C ok p c]
    have his: "\<forall>hi \<in> set his. hi_ok C hi" and ok1: "ipc_ok C N B (mset (map info_key his) + P) s1" using co by simp_all
    show ?thesis
    proof (cases r1)
      case (Some e)
      with run args c one still_trans [OF _ still_release_all [OF ok1]] cs his release_all_ok [OF ok1 his] show ?thesis
        by (auto simp: send_stage_def)
    next
      case None
      let ?m = "\<lparr>msg_data = data, msg_handles = his\<rparr>" and ?P = "mset (map info_key his) + P"
      obtain r2 s2 where d: "a20_channel_send_dwc (mem 1) me a data his (ma_flags args) dw ws s1 = (r2, s2)" by force
      have pins: "\<forall>hi \<in> set his. hi_ok C hi \<and> info_key hi \<in># ?P" "ch_ref a \<in># ?P" using his a(1) by auto
      have snt: "send_outcome a ?m dw s1 (r2, s2)" and ok2: "ipc_ok C N B ?P s2"
        using send_dwc_spec [OF ok1 pins(2) a(2) pins(1), of "ma_flags args" ws data dw "mem 1" me] nb d by simp_all
      have "\<forall>hi \<in> set his. info_key hi \<in># refs s2"
        using snt cs by (auto simp: send_outcome_def sent_def dest!: still_refs split: option.splits sum.splits)
      then have "still s2 (release_all his s2)" using his by (intro still_release_all [OF ok2]) auto
      from send_outcome_still [OF snt _ this] cs have fin: "send_outcome a ?m dw s (r2, release_all his s2)" by blast
      then obtain v where v: "r2 = Some v" by (cases r2) (auto simp: send_outcome_def)
      have r: "r = Some (a20_clx_map_send_err v (ep_type_of a s2))" "s' = release_all his s2"
        using run args c None d v by (auto simp: send_stage_def)
      show ?thesis
      proof (cases v)
        case (Inl e)
        obtain e' where "a20_clx_map_send_err (Inl e) (ep_type_of a s2) = (Inl e' :: a20_err + unit)" using map_send_err(2) by blast
        with Inl fin r v release_all_ok [OF ok2 his] one show ?thesis by (simp add: send_outcome_def)
      next
        case (Inr u)
        with fin r v release_all_ok [OF ok2 his] show ?thesis by (auto simp: map_send_err send_outcome_def)
      qed
    qed
  qed
  then show "\<exists>m. send_outcome a m dw s (r, s')" "ipc_ok C N B P s'" by simp_all
qed

text \<open>A receiver that may not sleep and finds no message.\<close>

lemma recv_donate_empty:
  assumes ok: "ipc_ok C N B P s" and a: "ch_ref a \<in># P" "a \<noteq> 0" and q: "queue_of a s = Some []"
    and nb: "flags AND A20_MSG_NONBLOCK \<noteq> 0" and run: "a20_channel_recv_begin_donate cd me a flags ws s = (r, s')"
  shows "still s s' \<and> ipc_ok C N B P s' \<and> (\<exists>e. r = Some (Inl e))"
proof -
  let ?s1 = "refcount_inc a s" and ?P = "add_mset (ch_ref a) P"
  have ok1: "ipc_ok C N B ?P ?s1" using refcount_inc_ok [OF ok, of a] held_ep [OF ok a(1)] by simp
  have st: "still s ?s1" by (rule still_refcount_inc)
  then have "queue_of a ?s1 = Some []" using q still_queue by simp
  then obtain ep where ep: "ep_at ?s1 a = Some ep" "ep_queue ep = []" by (auto simp: queue_of_def)
  have "still ?s1 (a20_channel_ep_release a ?s1)" using still_ep_release [OF ok1 _ a(2)] a(1) by simp
  from still_trans [OF st this] ep_release_ok [OF ok1 a(2)] run ep ok a(2) nb show ?thesis
    by (auto simp: a20_channel_recv_begin_donate_def recv_loop_donate.simps [of "Some cd" me a _ ws ?s1] recv_try_def split: if_splits)
qed

text \<open>Everything but the queues.\<close>

definition unwoken :: "ipc \<Rightarrow> ipc \<Rightarrow> bool" where
  "unwoken s s' \<longleftrightarrow> wakes s' = wakes s \<and> (\<forall>c. waiters_of c s' = waiters_of c s)"

lemma unwoken_still: "still s s' \<Longrightarrow> unwoken s s'"
  by (simp add: unwoken_def still_wakes still_waiters)

lemma unwoken_trans: "unwoken s s1 \<Longrightarrow> unwoken s1 s2 \<Longrightarrow> unwoken s s2"
  by (simp add: unwoken_def)

lemma unwoken_sent: "sent peer m True s s' \<Longrightarrow> unwoken s s'"
  by (simp add: unwoken_def sent_def)

end
