(* ===== verification/Native_Theorems.thy ===== *)
theory Native_Theorems
  imports Native_Calls
begin

text \<open>
  The properties of the native handle and channel interface: exact accounting of references under
  interleaving, confinement of capabilities, atomic delivery, the order of messages, what a clone
  does to temporal limits, and the wake-up a fused call owes its receiver.
\<close>

unbundle bit_operations_syntax

subsection \<open>Accounting\<close>




subsection \<open>Confinement\<close>

definition within :: "handle_entry \<Rightarrow> handle_entry \<Rightarrow> bool" where
  "within e0 e \<longleftrightarrow> (he_object e = he_object e0 \<and> he_type e = he_type e0 \<longrightarrow> cap_le e e0)"

lemma within_bound:
  assumes "he_type e0 = A20_OBJ_CHANNEL_ENDPOINT \<longrightarrow> he_object e0 \<le> N"
  shows "cap_bound (within e0) N"
proof -
  have "within e0 e'" if "within e0 e" "cap_le e' e" for e e'
    using that cap_le_trans [OF that(2), of e0] by (auto simp: within_def cap_le_def)
  then show ?thesis using assms by (auto simp: cap_bound_def within_def)
qed

text \<open>C36.  Capabilities are confined: if every handle on an object, in a table or in flight in a
  message, allows at most what \<open>e0\<close> allows (its rights, its expiry, its budget of operations, its flags and
  its label), then this stays so across each of \<^verbatim>\<open>handle_close\<close>, \<^verbatim>\<open>handle_close_many\<close>, \<^verbatim>\<open>handle_dup\<close>, \<^verbatim>\<open>handle_query\<close>,
  \<^verbatim>\<open>handle_replace\<close>, the temporal and label operations of \<^verbatim>\<open>handle_control\<close>, \<^verbatim>\<open>vm_share\<close>, \<^verbatim>\<open>security_set_context\<close>,
  \<^verbatim>\<open>channel_create\<close>, \<^verbatim>\<open>channel_send\<close>, \<^verbatim>\<open>channel_recv\<close>, \<^verbatim>\<open>channel_call\<close> and the sweeper, whatever handles are duplicated,
  replaced, restricted, shared, sent or received and by whom.  The calls that are modelled and excluded (\<^const>\<open>inherits\<close>) are
  \<^verbatim>\<open>task_clone\<close>, \<^verbatim>\<open>task_spawn\<close>, \<^verbatim>\<open>execve\<close> and \<^verbatim>\<open>registry_claim\<close>, which give out handles with fresh rights on existing
  objects; the native calls that are not modelled are not covered either.  The only exception the hypotheses
  make is for endpoints that did not exist yet (numbers above \<open>N\<close>).\<close>

theorem native_confinement:
  assumes "ipc_ok (within e0) N B (W + F) s" "Tab p \<in># F" "\<not> inherits c" "call_env (within e0) N B S W c"
    and "he_object e0 \<noteq> 0" "he_type e0 = A20_OBJ_CHANNEL_ENDPOINT \<longrightarrow> he_object e0 \<le> N"
    and "do_call p c s = (r, s')"
  shows "(\<forall>q t h. tab_of q s' = Some t \<and> he_object (ent t h) = he_object e0 \<and> he_type (ent t h) = he_type e0 \<longrightarrow>
      cap_le (ent t h) e0) \<and>
    (\<forall>a ep hi. ep_at s' a = Some ep \<and> hi \<in> set (infos ep) \<and> hi_object hi = he_object e0 \<and> hi_type hi = he_type e0 \<longrightarrow>
      cap_le (hi_entry hi) e0)"
proof -
  have "overdropped p c s = None" using assms(3) by (cases c) simp_all
  with call_settled [OF assms(1,2) within_bound [OF assms(6)] _ assms(4)] assms(3)
  have "settled (within e0) N B S F (do_call p c s)" by (simp add: one_short_def)
  then obtain P where "ipc_ok (within e0) N B P s'" using assms(7) by (auto simp: settled_def)
  then have "tabs_ok (within e0) P s'" "queues_ok (within e0) s'" by (simp_all add: ipc_ok_def)
  with assms(5) show ?thesis
    by (auto simp: tabs_ok_def tab_ok_def queues_ok_def hi_ok_def within_def hi_entry_def)
qed

subsection \<open>Delivery\<close>

lemma reserve_err: "a20_handle_reserve_many mem n t = (Inl e, t') \<Longrightarrow> e \<noteq> A20_ERR_FAULT"
  by (auto simp: a20_handle_reserve_many_def Let_def split: if_splits prod.splits)

lemma reserve_tab:
  assumes "tab_of p s = Some t" "ht_ok t" "tab_do p (silent (a20_handle_reserve_many mem n)) s = (r, s')"
  shows "\<exists>t'. tab_of p s' = Some t' \<and> ht_ok t' \<and> (case r of
      Inl e \<Rightarrow> e \<noteq> A20_ERR_FAULT \<and> ent t' = ent t
    | Inr hs \<Rightarrow> length hs = n \<and> distinct hs \<and> (\<forall>h \<in> set hs. free_entry (ent t h)) \<and> ent t' = reserved hs (ent t))"
    "queue_of a s' = queue_of a s"
proof -
  obtain r' t' where l: "a20_handle_reserve_many mem n t = (r', t')" by force
  with assms have s': "r = r'" "s' = tab_put p (Some t') s" by (simp_all add: tab_do_def silent_def run_events_def)
  from s' show "queue_of a s' = queue_of a s" by simp
  from reserve_many_spec [OF assms(2) l] s' tab_of_less [OF assms(1)] reserve_err l
  show "\<exists>t'. tab_of p s' = Some t' \<and> ht_ok t' \<and> (case r of
      Inl e \<Rightarrow> e \<noteq> A20_ERR_FAULT \<and> ent t' = ent t
    | Inr hs \<Rightarrow> length hs = n \<and> distinct hs \<and> (\<forall>h \<in> set hs. free_entry (ent t h)) \<and> ent t' = reserved hs (ent t))"
    by (cases r') (auto simp: tab_of_put)
qed

lemma recv_finish_queue:
  assumes ok: "ipc_ok C N B (add_mset (ch_ref a) P) s" and a: "ch_ref a \<in># P" "a \<noteq> 0"
    and ep: "ep_at s a = Some ep" "ep_queue ep = m # ms" and run: "a20_channel_recv_finish a dc hc s = (r, s')"
  shows "case r of
      Inl e \<Rightarrow> e \<noteq> A20_ERR_FAULT \<and> queue_of a s' = Some (m # ms)
    | Inr m' \<Rightarrow> m' = m \<and> queue_of a s' = Some ms"
proof -
  have q: "queue_of a s = Some (m # ms)" "queue_of a (ch_dequeue a s) = Some ms"
    using ep by (simp_all add: queue_of_def ch_dequeue_def wait_queue_wake_one_def ep_at_upd split: option.splits prod.splits)
  let ?K = "mset (map info_key (msg_handles m))"
  have "ipc_ok C N B (add_mset (ch_ref a) (?K + P)) (ch_dequeue a s)" using dequeue_ok(1) [OF ok ep] by simp
  from queue_of_ep_release [OF this _ a(2)] a(1) q(2) have "queue_of a (a20_channel_ep_release a (ch_dequeue a s)) = Some ms" by simp
  moreover have "queue_of a (a20_channel_ep_release a s) = Some (m # ms)" using queue_of_ep_release [OF ok a] q(1) by simp
  ultimately show ?thesis
    using run ep by (auto simp: a20_channel_recv_finish_def ch_msg_free_def ch_check_recv_types_def split: if_splits option.splits)
qed

text \<open>The delivery after the slots are reserved.\<close>

definition after_reserve :: "nat \<Rightarrow> (nat \<Rightarrow> bool) \<Rightarrow> obj \<Rightarrow> recv_bufs \<Rightarrow> ch_message \<Rightarrow> nat list \<Rightarrow> ipc \<Rightarrow> (a20_err + delivery) \<times> ipc" where
  "after_reserve p mem a b m slots s1 =
     (if msg_data m \<noteq> [] \<and> \<not> mem 3
      then (Inl A20_ERR_NO_MEMORY, a20_channel_recv_abort a (snd (tab_do p (abort_op slots) s1)))
      else (case a20_channel_recv_finish a (if msg_data m = [] then None else Some (length (msg_data m)))
                   (Some (length (msg_handles m))) s1 of
          (Inl e, s2) \<Rightarrow> (Inl e, snd (tab_do p (abort_op slots) s2))
        | (Inr m', s2) \<Rightarrow> (case commit_all p (zip slots (msg_handles m')) [] s2 of
              (Inl e, s3) \<Rightarrow> (Inl e, s3)
            | (Inr got, s3) \<Rightarrow>
                if copy_out_faults b m' then (Inl A20_ERR_FAULT, remove_all p got s3)
                else (Inr (msg_data m', zip got (map hi_rights (msg_handles m'))), s3))))"

definition delivered :: "ht \<Rightarrow> nat \<Rightarrow> obj \<Rightarrow> ch_message \<Rightarrow> ch_message list \<Rightarrow> (a20_err + delivery) \<times> ipc \<Rightarrow> bool" where
  "delivered t p a m ms res \<longleftrightarrow> (\<exists>t'. tab_of p (snd res) = Some t' \<and> (case fst res of
      Inr (data, hs) \<Rightarrow>
        data = msg_data m \<and> queue_of a (snd res) = Some ms \<and> map snd hs = map hi_rights (msg_handles m) \<and>
        distinct (map fst hs) \<and> (\<forall>h \<in> set (map fst hs). free_entry (ent t h)) \<and>
        (\<forall>h. ent t' h = (case map_of (zip (map fst hs) (msg_handles m)) h of None \<Rightarrow> ent t h | Some hi \<Rightarrow> hi_cap hi))
    | Inl e \<Rightarrow> same_handles t t' \<and> queue_of a (snd res) = Some (if e = A20_ERR_FAULT then ms else m # ms)))"

lemma delivered_committed:
  assumes held: "Tab p \<in># P" "ch_ref a \<in># P" and q: "queue_of a s = Some ms"
    and t1: "tab_of p s = Some t1" "ht_ok t1"
    and sl: "length slots = length (msg_handles m)" "distinct slots" "\<forall>h \<in> set slots. free_entry (ent t h)"
      "ent t1 = reserved slots (ent t)" and his: "\<forall>hi \<in> set (msg_handles m). hi_ok C hi"
    and ok': "\<And>r s'. commit_all p (zip slots (msg_handles m)) [] s = (r, s') \<Longrightarrow> ipc_ok C N B P s'"
  shows "delivered t p a m ms (case commit_all p (zip slots (msg_handles m)) [] s of
      (Inl e, s3) \<Rightarrow> (Inl e, s3)
    | (Inr got, s3) \<Rightarrow>
        if copy_out_faults b m then (Inl A20_ERR_FAULT, remove_all p got s3)
        else (Inr (msg_data m, zip got (map hi_rights (msg_handles m))), s3))"
proof -
  let ?xs = "zip slots (msg_handles m)"
  have fst: "map fst ?xs = slots" and dom: "\<And>h. map_of ?xs h = None \<longleftrightarrow> h \<notin> set slots"
    using sl(1) by (simp_all add: map_of_zip_is_None)
  have "\<forall>(slot, hi) \<in> set ?xs. he_state (ent t1 slot) = A20_HS_CLOSING \<and> hi_ok C hi"
    using sl his by (auto simp: reserved_def dest: set_zip_leftD set_zip_rightD)
  from commit_all_spec [OF t1 _ this, of "[]" a] sl(2) fst q obtain s3 t3 where
    c: "commit_all p ?xs [] s = (Inr slots, s3)" "queue_of a s3 = Some ms" "tab_of p s3 = Some t3"
    "\<forall>h. ent t3 h = (case map_of ?xs h of None \<Rightarrow> ent t1 h | Some hi \<Rightarrow> hi_cap hi)" by auto
  have ent3: "ent t3 h = (case map_of ?xs h of None \<Rightarrow> ent t h | Some hi \<Rightarrow> hi_cap hi)" for h
    using c(4) dom [of h] by (auto simp: sl(4) reserved_def split: option.splits)
  have zipped: "map fst (zip slots (map hi_rights (msg_handles m))) = slots"
    "map snd (zip slots (map hi_rights (msg_handles m))) = map hi_rights (msg_handles m)" using sl(1) by simp_all
  obtain t4 where t4: "tab_of p (remove_all p slots s3) = Some t4" "queue_of a (remove_all p slots s3) = Some ms"
    "\<forall>h. ent t4 h = (if h \<in> set slots \<and> live_entry (ent t3 h) then freed (ent t3 h) else ent t3 h)"
    using remove_all_spec [OF ok' [OF c(1)] held c(3), of slots] c(2) by auto
  have "same_handles t t4"
    unfolding same_handles_def
  proof (intro allI impI)
    fix h
    assume live: "live_entry (ent t h) \<or> live_entry (ent t4 h)"
    show "ent t4 h = ent t h"
    proof (cases "h \<in> set slots")
      case True
      then have "live_entry (ent t3 h)" using ent3 [of h] dom [of h] by (auto simp: hi_cap_def new_cap_def live_entry_def split: option.splits)
      with True t4(3) have "\<not> live_entry (ent t4 h)" by (simp add: freed_def live_entry_def)
      moreover have "\<not> live_entry (ent t h)" using sl(3) True by (simp add: live_entry_def)
      ultimately show ?thesis using live by blast
    next
      case False
      with t4(3) ent3 [of h] dom [of h] show ?thesis by simp
    qed
  qed
  moreover have "\<forall>x \<in> set (zip slots (map hi_rights (msg_handles m))). free_entry (ent t (fst x))"
    using sl(3) by (auto dest: set_zip_leftD)
  ultimately show ?thesis using c(1,2,3) t4 ent3 zipped sl(2) by (simp add: delivered_def)
qed

lemma deliver_reserved:
  assumes ok1: "ipc_ok any_cap N B (add_mset (ch_ref a) P) s1" and p: "Tab p \<in># P" and a: "ch_ref a \<in># P" "a \<noteq> 0"
    and q1: "queue_of a s1 = Some (m # ms)" and t1: "tab_of p s1 = Some t1" "ht_ok t1"
    and sl: "length slots = length (msg_handles m)" "distinct slots" "\<forall>h \<in> set slots. free_entry (ent t h)"
      "ent t1 = reserved slots (ent t)"
  shows "delivered t p a m ms (after_reserve p mem a b m slots s1)"
proof -
  let ?d = "if msg_data m = [] then None else Some (length (msg_data m))"
  obtain ep where ep: "ep_at s1 a = Some ep" "ep_queue ep = m # ms" using q1 by (auto simp: queue_of_def)
  have p': "Tab p \<in># add_mset (ch_ref a) P" using p by simp
  have undone: "\<exists>t'. tab_of p (snd (tab_do p (abort_op slots) x)) = Some t' \<and> same_handles t t'" if "tab_of p x = Some t1" for x
    by (rule same_handles_abort [OF that t1(2) sl(4,3)])
  have qb: "queue_of a (snd (tab_do p (abort_op slots) x)) = queue_of a x" if "tab_of p x = Some t1" for x
    by (rule abort_op_spec(2) [OF that t1(2)])
  show ?thesis
  proof (cases "msg_data m \<noteq> [] \<and> \<not> mem 3")
    case True
    let ?x = "snd (tab_do p (abort_op slots) s1)"
    have "queue_of a (a20_channel_recv_abort a ?x) = Some (m # ms)"
      using queue_of_ep_release [OF abort_ok [OF ok1 p' surjective_pairing] a] qb [OF t1(1)] q1
      by (simp add: a20_channel_recv_abort_def)
    with True undone [OF t1(1)] show ?thesis by (simp add: after_reserve_def delivered_def a20_channel_recv_abort_def)
  next
    case False
    obtain r2 s2 where fin: "a20_channel_recv_finish a ?d (Some (length (msg_handles m))) s1 = (r2, s2)" by force
    note f = recv_finish_ok [OF ok1 a(2) ep fin] and fq = recv_finish_queue [OF ok1 a ep fin]
    show ?thesis
    proof (cases r2)
      case (Inl e)
      with False fin f(2) fq undone [of s2] qb [of s2] t1(1) show ?thesis by (auto simp: after_reserve_def delivered_def)
    next
      case (Inr m')
      then have m': "m' = m" "queue_of a s2 = Some ms" using fq by simp_all
      have ok2: "ipc_ok any_cap N B (mset (map info_key (msg_handles m)) + P) s2" and
        his: "\<forall>hi \<in> set (msg_handles m). hi_ok any_cap hi" using f(1) Inr by simp_all
      have t2: "tab_of p s2 = Some t1" using f(2) t1(1) by simp
      have "ipc_ok any_cap N B P s'" if "commit_all p (zip slots (msg_handles m)) [] s2 = (r, s')" for r s'
        using commit_all_ok [OF any_bound p _ _ that] ok2 his sl(1) by simp
      from delivered_committed [OF p a(1) m'(2) t2 t1(2) sl his this] False fin Inr m'(1) show ?thesis
        by (auto simp: after_reserve_def)
    qed
  qed
qed

text \<open>C37.  The delivery of a message is atomic.  On success the caller gets the data, and the handles
  of the message are installed in slots that were free, each with the object, type, limits and label
  under way and with its rights masked by the type, no other slot changes, and the message is off the
  queue.  On an error the handles in use are exactly those from before, and the message is still at the
  head of the queue unless copying the result to the caller faulted.\<close>

theorem delivery_atomic:
  assumes ok: "ipc_ok any_cap N B (add_mset (ch_ref a) P) s" and p: "Tab p \<in># P" and a: "ch_ref a \<in># P" "a \<noteq> 0"
    and q: "queue_of a s = Some (m # ms)" and t: "tab_of p s = Some t" and run: "deliver p mem a b m s = (r, s')"
  shows "\<exists>t'. tab_of p s' = Some t' \<and> (case r of
      Inr (data, hs) \<Rightarrow>
        data = msg_data m \<and> queue_of a s' = Some ms \<and> map snd hs = map hi_rights (msg_handles m) \<and>
        distinct (map fst hs) \<and> (\<forall>h \<in> set (map fst hs). free_entry (ent t h)) \<and>
        (\<forall>h. ent t' h = (case map_of (zip (map fst hs) (msg_handles m)) h of None \<Rightarrow> ent t h | Some hi \<Rightarrow> hi_cap hi))
    | Inl e \<Rightarrow> same_handles t t' \<and> queue_of a s' = Some (if e = A20_ERR_FAULT then ms else m # ms))"
proof -
  let ?n = "length (msg_handles m)" and ?d = "if msg_data m = [] then None else Some (length (msg_data m))"
  let ?P = "add_mset (ch_ref a) P"
  obtain ep where ep: "ep_at s a = Some ep" "ep_queue ep = m # ms" using q by (auto simp: queue_of_def)
  have p': "Tab p \<in># ?P" using p by simp
  have hok: "ht_ok t" using ipc_ok_tab [OF ok p'] t by (simp add: tab_ok_def)
  have same: "same_handles t t" by (simp add: same_handles_def)
  have ends: "queue_of a (a20_channel_recv_abort a x) = queue_of a x" if "ipc_ok any_cap N B ?P x" for x
    using queue_of_ep_release [OF that a] by (simp add: a20_channel_recv_abort_def)
  have tabs: "tab_of p (a20_channel_recv_abort a x) = tab_of p x" for x by (simp add: a20_channel_recv_abort_def)
  show ?thesis
  proof (cases "too_small b m")
    case True
    with run t same ends [OF ok] q show ?thesis by (auto simp: deliver_def tabs)
  next
    case big: False
    obtain r1 s1 where rs: "tab_do p (silent (a20_handle_reserve_many (mem 2) ?n)) s = (r1, s1)" by force
    note ok1 = reserve_ok(1) [OF ok p' rs]
    obtain t1 where t1: "tab_of p s1 = Some t1" "ht_ok t1" "case r1 of
        Inl e \<Rightarrow> e \<noteq> A20_ERR_FAULT \<and> ent t1 = ent t
      | Inr hs \<Rightarrow> length hs = ?n \<and> distinct hs \<and> (\<forall>h \<in> set hs. free_entry (ent t h)) \<and> ent t1 = reserved hs (ent t)"
      using reserve_tab(1) [OF t hok rs] by blast
    have q1: "queue_of a s1 = Some (m # ms)" using reserve_tab(2) [OF t hok rs] q by simp
    show ?thesis
    proof (cases r1)
      case (Inl e)
      with run big rs t1 ends [OF ok1] q1 show ?thesis by (auto simp: deliver_def tabs same_handles_def)
    next
      case slots: (Inr slots)
      with t1(3) have sl: "length slots = ?n" "distinct slots" "\<forall>h \<in> set slots. free_entry (ent t h)" "ent t1 = reserved slots (ent t)"
        by simp_all
      show ?thesis
      proof -
        have "after_reserve p mem a b m slots s1 = (r, s')"
          using run big rs slots by (simp add: deliver_def after_reserve_def)
        with deliver_reserved [OF ok1 p a q1 t1(1,2) sl, of mem b] show ?thesis unfolding delivered_def by (simp only: fst_conv snd_conv)
      qed
    qed
  qed
qed

subsection \<open>Order of messages\<close>

text \<open>C38.  A send that need not sleep always returns, and it either queues its message or leaves every queue
  as it was.  On success exactly this message, with its data and its handles as given, is at the end of the queue of the peer, every
  other queue is unchanged, and the receiver that sleeps at the peer is woken unless the wake is
  deferred; on an error no queue changes and nobody is woken.\<close>

theorem send_appends_once:
  assumes ok: "ipc_ok any_cap N B P s" and a: "ch_ref a \<in># P" "a \<noteq> 0"
    and his: "\<forall>hi \<in> set his. hi_ok any_cap hi \<and> info_key hi \<in># P"
    and one: "flags AND A20_MSG_NONBLOCK \<noteq> 0 \<or> ws = No_Park"
    and run: "a20_channel_send_dwc mem me a data his flags dw ws s = (r, s')"
  shows "case r of
      None \<Rightarrow> False
    | Some (Inl e) \<Rightarrow> (\<forall>c. queue_of c s' = queue_of c s) \<and> wakes s' = wakes s
    | Some (Inr _) \<Rightarrow> (\<exists>ep. ep_at s a = Some ep \<and> ep_peer ep \<noteq> 0 \<and>
        (\<forall>c. queue_of c s' = (if c = ep_peer ep
           then map_option (\<lambda>q. q @ [\<lparr>msg_data = data, msg_handles = his\<rparr>]) (queue_of c s) else queue_of c s)) \<and>
        wakes s' = wakes s @ (if dw then [] else woken (ep_peer ep) s))"
  using send_dwc_spec [OF ok a his one, of data dw mem me] run
  by (auto simp: send_outcome_def sent_def still_queue still_wakes split: option.splits sum.splits)

subsection \<open>What a clone does to temporal limits\<close>

lemma lookup_entry:
  assumes "lookup_ref p now h ty req s = (Inr e, s1)" "tab_of p s = Some t"
  shows "he_object e = he_object (ent t h)" "he_type e = he_type (ent t h)" "he_rights e = a20_effective_rights now (ent t h)"
proof -
  obtain r t' evs where l: "a20_handle_lookup_ref_mode now h ty req True t = (r, t', evs)" by (metis prod_cases3)
  with assms have "r = Inr e" by (simp add: tab_do_def a20_handle_lookup_ref_internal_def)
  with lookup_spec [OF l]
  show "he_object e = he_object (ent t h)" "he_type e = he_type (ent t h)" "he_rights e = a20_effective_rights now (ent t h)"
    by (simp_all add: use_op_props)
qed

text \<open>C39.  The handles that the manifest of \<^verbatim>\<open>task_clone\<close> passes to the child lose their temporal limits
  and their label.  The child's handle is on the same object and its rights are within those of the
  parent's handle at that time, but it has no expiry, no budget of operations and label zero, whatever the
  parent's handle has; if the parent's handle has an expiry, the child's is not a weaker capability.\<close>

theorem clone_drops_limits:
  assumes ok: "ipc_ok any_cap N B P s" and pq: "Tab p \<in># P" "Tab q \<in># P" and t: "tab_of p s = Some t"
    and run: "clone_manifest p q clock mem i [(h, child_rights)] s = ([Some h'], s')"
  shows "\<exists>t'. tab_of q s' = Some t' \<and>
    he_object (ent t' h') = he_object (ent t h) \<and> he_type (ent t' h') = he_type (ent t h) \<and>
    bits_within (he_rights (ent t' h')) (a20_effective_rights (clock i) (ent t h)) \<and>
    he_expiry (ent t' h') = 0 \<and> he_flags (ent t' h') = 0 \<and> he_ops (ent t' h') = 0 \<and> he_label (ent t' h') = 0 \<and>
    (he_expiry (ent t h) > 0 \<longrightarrow> \<not> cap_le (ent t' h') (ent t h))"
proof -
  obtain r s1 where l: "lookup_ref p (clock i) h A20_OBJ_INVALID 0 s = (r, s1)" by force
  obtain e where e: "r = Inr e" using run l by (cases r) auto
  note lo = lookup_ref_ok [OF ok pq(1) any_bound l]
  from e lo have ce: "cap_ok any_cap e" and ok1: "ipc_ok any_cap N B (add_mset (Ref (he_object e) (he_type e)) P) s1" by simp_all
  let ?ri = "if child_rights \<noteq> 0 then child_rights AND he_rights e else he_rights e"
  let ?new = "new_cap (he_object e) (he_type e) ?ri 0 0 0 0"
  let ?s2 = "a20_object_ref (he_object e) (he_type e) s1"
  have he: "he_object e = he_object (ent t h)" "he_type e = he_type (ent t h)" "he_rights e = a20_effective_rights (clock i) (ent t h)"
    using lookup_entry [OF l [unfolded e] t] by simp_all
  obtain tq where tq: "tab_of q s1 = Some tq" "ht_ok tq"
    using ipc_ok_tab [OF ok1, of q] pq(2) by (auto simp: tab_ok_def)
  obtain r2 t2 evs where i: "a20_handle_install (mem i) (he_object e) (he_type e) ?ri tq = (r2, t2, evs)" by (metis prod_cases3)
  have g: "give q (a20_handle_install (mem i) (he_object e) (he_type e) ?ri) e s1 = (Some h', s')"
    using run l e by (auto split: prod.splits)
  then have r2: "r2 = Inr h'" and s': "s' = put_entry e (run_events evs (tab_put q (Some t2) ?s2))"
    using tq i by (auto simp: give_def tab_do_def split: sum.splits)
  have "installed tq ?new r2 t2" using install_temporal_spec [OF tq(2), of "mem i" "he_object e" "he_type e" ?ri 0 0 0 0] i cap_ok_object [OF ce]
    by (simp add: install_eq_temporal new_cap_def)
  then have ent: "ent t2 h' = ?new" using r2 by (simp add: installed_def)
  have ev: "evs = [StatHandles 1]" using i r2 by (auto simp: a20_handle_install_def split: option.splits prod.splits)
  have "tab_of q ?s2 = Some tq" using tq(1) by simp
  from tab_of_less [OF this] have "tab_of q s' = Some t2" by (simp add: s' ev run_events_def tab_of_put)
  moreover have "bits_within (he_rights ?new) (he_rights e)"
    using valid_rights_within(2) [of "he_type e" ?ri] by (auto simp: new_cap_def bits_within_iff bit_simps split: if_splits)
  ultimately show ?thesis using ent he by (auto simp: new_cap_def cap_le_def)
qed

subsection \<open>The wake-up of a fused call\<close>

definition queued_more :: "ipc \<Rightarrow> ipc \<Rightarrow> bool" where
  "queued_more s s' \<longleftrightarrow> (\<forall>c. queue_of c s' = queue_of c s) \<or>
     (\<exists>peer m. \<forall>c. queue_of c s' = (if c = peer then map_option (\<lambda>q. q @ [m]) (queue_of c s) else queue_of c s))"

lemma queued_more_still:
  "queued_more s s1 \<Longrightarrow> still s1 s2 \<Longrightarrow> queued_more s s2"
  "still s s1 \<Longrightarrow> queued_more s1 s2 \<Longrightarrow> queued_more s s2"
  unfolding queued_more_def by (simp_all only: still_queue)

text \<open>A request without blocking on an endpoint with no reply queued: the send fails, or it is queued and the
  receive stage fails.\<close>

lemma request_unanswered:
  assumes ok: "ipc_ok C N B P s" and C: "cap_bound C N" and held: "Tab p \<in># P" "ch_ref a \<in># P" "a \<noteq> 0" "ch_ref a \<in># refs s"
    and nb: "ma_flags args AND A20_MSG_NONBLOCK \<noteq> 0" and empty: "\<forall>q. queue_of a s = Some q \<longrightarrow> q = []"
    and snd: "send_stage p me clock mem a args True ws1 s = (r2, s2)"
    and rcv: "a20_channel_recv_begin_donate cd me a (ma_flags args) ws2 s2 = (r3, s3)"
  obtains (failed) e where "r2 = Some (Inl e)" "still s s2" "ipc_ok C N B P s2"
  | (queued) e where "r2 = Some (Inr ())" "r3 = Some (Inl e)" "unwoken s s3" "queued_more s s3" "ch_ref a \<in># refs s3" "ipc_ok C N B P s3"
proof -
  obtain m where out: "send_outcome a m True s (r2, s2)" and ok2: "ipc_ok C N B P s2"
    using send_stage_outcome [OF ok held(1) C held(2,3) nb snd] by blast
  show thesis
  proof (cases "\<exists>e. r2 = Some (Inl e)")
    case True
    with out ok2 failed show thesis by (auto simp: send_outcome_def)
  next
    case False
    with out obtain ep where r2: "r2 = Some (Inr ())" and ep: "ep_at s a = Some ep" "ep_peer ep \<noteq> a" "sent (ep_peer ep) m True s s2"
      by (auto simp: send_outcome_def split: option.splits sum.splits)
    have "queue_of a s \<noteq> None" using ep(1) by (simp add: queue_of_def)
    then have "queue_of a s2 = Some []" using empty ep(2,3) by (auto simp: sent_def)
    from recv_donate_empty [OF ok2 held(2,3) this nb rcv] obtain e where
      dn: "still s2 s3" "ipc_ok C N B P s3" "r3 = Some (Inl e)" by blast
    have "queued_more s s2" using ep(3) by (auto simp: queued_more_def sent_def)
    moreover have "ch_ref a \<in># refs s3" using still_refs [OF dn(1)] ep(3) held(4) by (simp add: sent_def)
    ultimately show thesis
      using queued [OF r2 dn(3)] dn queued_more_still(1) unwoken_trans [OF unwoken_sent [OF ep(3)] unwoken_still [OF dn(1)]] by blast
  qed
qed

text \<open>C40.  A fused call with \<^verbatim>\<open>A20_MSG_NONBLOCK\<close> that finds no reply queued always fails, and it never wakes
  the receiver of its request.  It can have queued the request by then: the queues are as before, or one
  message has been added to one of them, while every sleeper is still asleep at its endpoint and no wake-up of a
  waiter of a channel was issued; the event queues are notified of the message all the same.\<close>

theorem nonblocking_call_never_wakes:
  assumes ok: "ipc_ok any_cap N B P s" and p: "Tab p \<in># P" and args: "abi_copy args = Inr a"
    and nb: "ma_flags a AND A20_MSG_NONBLOCK \<noteq> 0"
    and t: "tab_of p s = Some t" and empty: "\<forall>q. queue_of (he_object (ent t (ma_channel a))) s = Some q \<longrightarrow> q = []"
    and run: "sys_a20_channel_call p me clock mem cd args b ws1 ws2 s = (r, s')"
  shows "(\<exists>e. r = Some (Inl e)) \<and> wakes s' = wakes s \<and> (\<forall>c. waiters_of c s' = waiters_of c s) \<and>
    ((\<forall>c. queue_of c s' = queue_of c s) \<or>
     (\<exists>peer m. \<forall>c. queue_of c s' = (if c = peer then map_option (\<lambda>q. q @ [m]) (queue_of c s) else queue_of c s)))"
proof -
  define good where "good x \<longleftrightarrow> unwoken s x \<and> queued_more s x" for x
  have st: "good x" if "still s x" for x using that by (simp add: good_def unwoken_still queued_more_def still_queue)
  have more: "good y" if "good x" "still x y" for x y
    using that unwoken_trans [OF _ unwoken_still] queued_more_still(1) by (simp add: good_def) blast
  obtain r1 s1 where l: "lookup_ref p (clock 0) (ma_channel a) A20_OBJ_CHANNEL_ENDPOINT (A20_RIGHT_READ OR A20_RIGHT_WRITE) s = (r1, s1)"
    by force
  note ls = lookup_still [OF ok p l]
  have "(\<exists>e. r = Some (Inl e)) \<and> good s'"
  proof (cases "ma_flags a AND NOT A20_MSG_NONBLOCK \<noteq> 0 \<or> isl r1")
    case True
    with run args t l st [OF still_refl] st [OF ls(1)] show ?thesis
      by (cases r1) (auto simp: sys_a20_channel_call_def split: if_splits)
  next
    case False
    then obtain e where e: "r1 = Inr e" by (cases r1) auto
    let ?a = "he_object e" and ?P = "add_mset (ch_ref (he_object e)) P"
    note lo = lookup_ref_ok [OF ok p any_bound l]
    have ty: "he_type e = A20_OBJ_CHANNEL_ENDPOINT" using lo e by (simp add: A20_OBJ_CHANNEL_ENDPOINT_def A20_OBJ_INVALID_def)
    from e lo ty have ce: "cap_ok any_cap e" and ok1: "ipc_ok any_cap N B ?P s1" by simp_all
    have held: "Tab p \<in># ?P" "ch_ref ?a \<in># ?P" "?a \<noteq> 0" "ch_ref ?a \<in># refs s1"
      using p ls(2) [OF e] ty cap_ok_object [OF ce] by simp_all
    have put: "good (put_entry e x)" if "good x" "ipc_ok any_cap N B ?P x" "ch_ref ?a \<in># refs x" for x
      using more [OF that(1) still_put_entry [of any_cap N B e P x]] that(2,3) ce ty by simp
    note access = put [OF st [OF ls(1)] ok1 held(4)]
    have empty1: "\<forall>q. queue_of ?a s1 = Some q \<longrightarrow> q = []" using empty still_queue [OF ls(1), of ?a] ls(3) [OF e] t by auto
    obtain r2 s2 where ss: "send_stage p me clock mem ?a a True ws1 s1 = (r2, s2)" by force
    obtain r3 s3 where rv: "a20_channel_recv_begin_donate cd me ?a (ma_flags a) ws2 s2 = (r3, s3)" by force
    note unf = sys_a20_channel_call_def
    show ?thesis
    proof (rule request_unanswered [OF ok1 any_bound held nb empty1 ss rv])
      fix e'
      assume f: "r2 = Some (Inl e')" "still s1 s2" "ipc_ok any_cap N B ?P s2"
      have "good (put_entry e s2)" using put [OF st [OF still_trans [OF ls(1) f(2)]] f(3)] held(4) still_refs [OF f(2)] by simp
      with access run args t l e ss f(1) False show ?thesis by (auto simp: unf split: if_splits)
    next
      fix e'
      assume f: "r2 = Some (Inr ())" "r3 = Some (Inl e')" "unwoken s1 s3" "queued_more s1 s3" "ch_ref ?a \<in># refs s3" "ipc_ok any_cap N B ?P s3"
      have "good s3" using unwoken_trans [OF unwoken_still [OF ls(1)] f(3)] queued_more_still(2) [OF ls(1) f(4)] by (simp add: good_def)
      from put [OF this f(6,5)] access run args t l e ss rv f(1,2) False show ?thesis by (auto simp: unf split: if_splits)
    qed
  qed
  then show ?thesis by (auto simp: good_def unwoken_def queued_more_def)
qed

subsection \<open>A concrete state\<close>

text \<open>Lengths are compared with the bound on the data of a message as integers when evaluating.\<close>

lemma big_data [code_unfold]: "(A20_CH_MAX_DATA < n) = (65536 < int n)"
  by (simp add: A20_CH_MAX_DATA_def)

definition ip_zero :: ipc where
  "ip_zero = \<lparr>ip_eps = [], ip_orefs = (\<lambda>_. 0), ip_progs = (\<lambda>_. 0), ip_log = [], ip_stat_eps = 0, ip_stat_handles = 0,
     ip_tabs = [], ip_uaf = False\<rparr>"

text \<open>A fresh table of 64 slots.\<close>

definition small_ht :: ht where
  "small_ht = \<lparr>ht_entries = replicate 64 entry_zero, ht_count = 0, ht_hint = 0, ht_bitmap = [0], ht_label = 0, ht_refcount = 1,
     ht_sig_pending = 0, ht_sig_blocked = 0, ht_max = 64\<rparr>"

lemma small_ht_ok: "ht_ok small_ht" "ht_refcount small_ht = 1" "he_object (ent small_ht h) = 0"
proof -
  have "ht_entries small_ht = replicate (64 * 1) entry_zero" "ht_bitmap small_ht = replicate 1 0" "ht_count small_ht = 0"
    by (simp_all add: small_ht_def)
  from ht_fresh_ok [OF _ _ this] show "ht_ok small_ht" "he_object (ent small_ht h) = 0"
    by (simp_all add: A20_HT_MAX_CAP_def entry_zero_def)
qed (simp add: small_ht_def)

text \<open>Two processes; the first has created a channel and holds both endpoints.\<close>

definition demo :: ipc where
  "demo = snd (sys_a20_channel_create 0 (\<lambda>_. True) (Arg (4, UNull)) False (ip_zero\<lparr>ip_tabs := [Some small_ht, Some small_ht]\<rparr>))"

lemma demo_ok: "cap_bound C 0 \<Longrightarrow> ipc_ok C 0 (\<lambda>_. 0) {#Tab 0, Tab 1#} demo"
proof -
  assume C: "cap_bound C 0"
  have "ipc_ok C 0 (\<lambda>_. 0) {#} ip_zero"
    by (auto simp: ipc_ok_def ip_zero_def eps_ok_def orefs_ok_def tabs_ok_def queues_ok_def peers_ok_def refs_def ep_at_def tab_of_def)
  from add_table_ok [OF add_table_ok [OF this small_ht_ok] small_ht_ok]
  have "ipc_ok C 0 (\<lambda>_. 0) {#Tab 0, Tab 1#} (ip_zero\<lparr>ip_tabs := [Some small_ht, Some small_ht]\<rparr>)"
    by (simp add: ip_zero_def add_mset_commute)
  then show ?thesis unfolding demo_def by (rule channel_create_ok [OF _ _ C surjective_pairing]) simp
qed

subsection \<open>Instances\<close>

definition no_bufs :: recv_bufs where
  "no_bufs = \<lparr>rb_data = Some 16, rb_handles = Some 4, rb_rights = True, rb_data_fault = False, rb_handles_fault = False,
     rb_rights_fault = False, rb_args_fault = False\<rparr>"

text \<open>A second thread of the first process waits at one end of the channel while the first closes the other.\<close>

definition demo_threads :: ipc where
  "demo_threads = snd (tab_get_ref 0 demo)"

lemma demo_threads_ok: "ipc_ok any_cap 0 (\<lambda>_. 0) ({#Tab 0#} + {#Tab 0, Tab 1#}) demo_threads"
proof -
  have "fst (tab_get_ref 0 demo) = True" by code_simp
  with get_ref_ok [OF demo_ok [OF any_bound] surjective_pairing, of 0] show ?thesis
    by (simp add: demo_threads_def add_mset_commute)
qed


text \<open>Two processes, the first with a handle on an object that has one reference, this one.\<close>

definition demo_object :: "obj \<Rightarrow> u16 \<Rightarrow> u64 \<Rightarrow> u64 \<Rightarrow> u32 \<Rightarrow> ipc" where
  "demo_object ob ty ri ex fl = snd (tab_do 0 (a20_handle_install_temporal True ob ty ri ex 0 fl 0)
     (ip_zero\<lparr>ip_orefs := (\<lambda>_. 0)(ob := 1), ip_tabs := [Some small_ht, Some small_ht]\<rparr>))"

lemma demo_object_ok:
  assumes cnt: "counted_type ty" "ty \<noteq> A20_OBJ_CHANNEL_ENDPOINT" and ob: "ob \<noteq> 0"
    and ex: "ex > 0 \<longrightarrow> fl AND A20_TEMPORAL_EXPIRY_ABSOLUTE \<noteq> 0" and C: "C (new_cap ob ty ri ex 0 fl 0)"
    and r: "isl (fst (tab_do 0 (a20_handle_install_temporal True ob ty ri ex 0 fl 0)
      (ip_zero\<lparr>ip_orefs := (\<lambda>_. 0)(ob := 1), ip_tabs := [Some small_ht, Some small_ht]\<rparr>))) = False"
  shows "ipc_ok C 0 (\<lambda>_. 0) {#Tab 0, Tab 1#} (demo_object ob ty ri ex fl)"
proof -
  let ?z = "ip_zero\<lparr>ip_orefs := (\<lambda>_. 0)(ob := 1)\<rparr>" and ?k = "Ref ob ty"
  have "ipc_ok C 0 (\<lambda>_. 0) {#?k#} ?z"
    using cnt by (auto simp: ipc_ok_def ip_zero_def eps_ok_def orefs_ok_def tabs_ok_def queues_ok_def peers_ok_def refs_def ep_at_def tab_of_def)
  from add_table_ok [OF add_table_ok [OF this small_ht_ok] small_ht_ok]
  have ok: "ipc_ok C 0 (\<lambda>_. 0) (add_mset ?k {#Tab 0, Tab 1#}) (?z\<lparr>ip_tabs := [Some small_ht, Some small_ht]\<rparr>)"
    by (simp add: ip_zero_def add_mset_commute)
  from install_temporal_ok [OF ok _ ob ex C surjective_pairing, of 0 True] r show ?thesis
    by (auto simp: demo_object_def split: sum.splits)
qed





text \<open>The object is in memory, and the handle on it expires at tick 100.\<close>

definition mem_rights :: u64 where
  "mem_rights = A20_RIGHT_READ OR A20_RIGHT_WRITE OR A20_RIGHT_DUP OR A20_RIGHT_TRANSFER"

definition mem_cap :: handle_entry where
  "mem_cap = new_cap 5 A20_OBJ_MEMORY mem_rights 100 0 A20_TEMPORAL_EXPIRY_ABSOLUTE 0"

definition demo_mem :: ipc where
  "demo_mem = demo_object 5 A20_OBJ_MEMORY mem_rights 100 A20_TEMPORAL_EXPIRY_ABSOLUTE"

lemma demo_mem_ok:
  assumes "C mem_cap"
  shows "ipc_ok C 0 (\<lambda>_. 0) {#Tab 0, Tab 1#} demo_mem"
proof -
  have "counted_type A20_OBJ_MEMORY" "A20_OBJ_MEMORY \<noteq> A20_OBJ_CHANNEL_ENDPOINT"
    "A20_TEMPORAL_EXPIRY_ABSOLUTE AND A20_TEMPORAL_EXPIRY_ABSOLUTE \<noteq> 0" by code_simp+
  moreover have "isl (fst (tab_do 0 (a20_handle_install_temporal True 5 A20_OBJ_MEMORY mem_rights 100 0 A20_TEMPORAL_EXPIRY_ABSOLUTE 0)
      (ip_zero\<lparr>ip_orefs := (\<lambda>_. 0)(5 := 1), ip_tabs := [Some small_ht, Some small_ht]\<rparr>))) = False" by code_simp
  ultimately show ?thesis using assms unfolding demo_mem_def mem_cap_def by (intro demo_object_ok) simp_all
qed

theorem native_confinement_witness:
  "\<exists>t. tab_of 0 (snd (do_call 0 (Handle_Dup 5 True (Arg (0, A20_RIGHT_READ)) False) demo_mem)) = Some t \<and>
     he_object (ent t 1) = 5 \<and> he_type (ent t 1) = A20_OBJ_MEMORY \<and> cap_le (ent t 1) mem_cap"
proof -
  let ?c = "Handle_Dup 5 True (Arg (0, A20_RIGHT_READ)) False"
  have cap: "he_object mem_cap = 5" "he_type mem_cap = A20_OBJ_MEMORY" by (simp_all add: mem_cap_def new_cap_def)
  have ch: "A20_OBJ_MEMORY \<noteq> A20_OBJ_CHANNEL_ENDPOINT" by code_simp
  have "within mem_cap mem_cap" by (simp add: within_def cap_le_def)
  from demo_mem_ok [of "within mem_cap", OF this] have ok: "ipc_ok (within mem_cap) 0 (\<lambda>_. 0) ({#Tab 1#} + {#Tab 0#}) demo_mem"
    by (simp add: add_mset_commute)
  have "call_env (within mem_cap) 0 (\<lambda>_. 0) {{#Tab 1#}} {#Tab 1#} ?c" "\<not> inherits ?c" by simp_all
  from native_confinement [OF ok _ this(2,1) _ _ surjective_pairing, of 0, THEN conjunct1] cap ch
  have le: "cap_le (ent t h) mem_cap"
    if "tab_of q (snd (do_call 0 ?c demo_mem)) = Some t" "he_object (ent t h) = 5" "he_type (ent t h) = A20_OBJ_MEMORY" for q t h
    using that by (simp del: do_call.simps)
  have "map_option (\<lambda>t. (he_object (ent t 1), he_type (ent t 1))) (tab_of 0 (snd (do_call 0 ?c demo_mem))) = Some (5, A20_OBJ_MEMORY)"
    by code_simp
  with le [of 0 _ 1] show ?thesis by auto
qed

text \<open>The first process sends two bytes and a handle through its channel; the message waits at endpoint 2,
  which a receiver has referenced twice.\<close>

definition demo_msg :: msg_args where
  "demo_msg = \<lparr>ma_channel = 0, ma_flags = A20_MSG_NONBLOCK, ma_data = Some [65, 66], ma_data_len = 2, ma_handles = Some [0],
     ma_handle_count = 1, ma_transfer_rights = None\<rparr>"

definition demo_sent :: ipc where
  "demo_sent = refcount_inc 2 (refcount_inc 2 (snd (sys_a20_channel_send 0 7 (\<lambda>_. 0) (\<lambda>_. True) (Arg demo_msg) No_Park demo)))"

definition demo_info :: handle_info where
  "demo_info = \<lparr>hi_object = 1, hi_type = A20_OBJ_CHANNEL_ENDPOINT, hi_rights = channel_rights, hi_expiry = 0, hi_ops = 0,
     hi_flags = 0, hi_label = 0\<rparr>"

lemma demo_sent_ok: "ipc_ok any_cap 0 (\<lambda>_. 0) (add_mset (ch_ref 2) {#ch_ref 2, Tab 0, Tab 1#}) demo_sent"
proof -
  let ?res = "sys_a20_channel_send 0 7 (\<lambda>_. 0) (\<lambda>_. True) (Arg demo_msg) No_Park demo"
  have ok: "ipc_ok any_cap 0 (\<lambda>_. 0) ({#Tab 1#} + {#Tab 0#}) demo" using demo_ok [OF any_bound] by (simp add: add_mset_commute)
  have "settled any_cap 0 (\<lambda>_. 0) {{#Tab 1#}} {#Tab 0#} ?res"
    by (rule channel_send_ok [OF ok _ any_bound]) (auto intro: env_ok.no_park)
  moreover have "fst ?res = Some (Inr ())" by code_simp
  ultimately have sent: "ipc_ok any_cap 0 (\<lambda>_. 0) {#Tab 0, Tab 1#} (snd ?res)" by (auto simp: settled_def add_mset_commute)
  have e: "ep_at (snd ?res) 2 \<noteq> None" "ep_at (refcount_inc 2 (snd ?res)) 2 \<noteq> None" by code_simp+
  from refcount_inc_ok [OF refcount_inc_ok [OF sent e(1)] e(2)] show ?thesis by (simp add: demo_sent_def)
qed

theorem delivery_atomic_witness:
  "\<exists>t t'. tab_of 0 demo_sent = Some t \<and> tab_of 0 (snd (deliver 0 (\<lambda>_. True) 2 no_bufs \<lparr>msg_data = [65, 66], msg_handles = [demo_info]\<rparr> demo_sent)) = Some t' \<and>
    free_entry (ent t 2) \<and> ent t' 2 = hi_cap demo_info \<and> (\<forall>h. h \<noteq> 2 \<longrightarrow> ent t' h = ent t h)"
proof -
  let ?m = "\<lparr>msg_data = [65, 66], msg_handles = [demo_info]\<rparr>"
  let ?res = "deliver 0 (\<lambda>_. True) 2 no_bufs ?m demo_sent"
  have q: "queue_of 2 demo_sent = Some [?m]" by code_simp
  have r: "fst ?res = Inr ([65, 66], [(2, channel_rights)])" by code_simp
  obtain t where t: "tab_of 0 demo_sent = Some t" using held_tab [OF demo_sent_ok, of 0] by auto
  from delivery_atomic [OF demo_sent_ok _ _ _ q t surjective_pairing, of "\<lambda>_. True" no_bufs] obtain t' where
    "tab_of 0 (snd ?res) = Some t'" "free_entry (ent t 2)" "\<forall>h. ent t' h = (case map_of (zip [2] [demo_info]) h of None \<Rightarrow> ent t h | Some hi \<Rightarrow> hi_cap hi)"
    unfolding r by auto
  with t show ?thesis by auto
qed

theorem send_appends_once_witness:
  "queue_of 2 (snd (a20_channel_send_dwc True 7 1 [65] [] 0 False No_Park (refcount_inc 1 demo))) = Some [\<lparr>msg_data = [65], msg_handles = []\<rparr>]"
proof -
  let ?s = "refcount_inc 1 demo"
  let ?res = "a20_channel_send_dwc True 7 1 [65] [] 0 False No_Park ?s"
  have e: "ep_at demo 1 \<noteq> None" by code_simp
  have ok: "ipc_ok any_cap 0 (\<lambda>_. 0) (add_mset (ch_ref 1) {#Tab 0, Tab 1#}) ?s" by (rule refcount_inc_ok [OF demo_ok [OF any_bound] e])
  have r: "fst ?res = Some (Inr ())" by code_simp
  have p: "map_option ep_peer (ep_at ?s 1) = Some 2" "queue_of 2 ?s = Some []" by code_simp+
  from send_appends_once [OF ok _ _ _ _ surjective_pairing, of 1 "[]" 0 No_Park True 7 "[65]" False] p show ?thesis
    unfolding r by auto
qed

theorem clone_drops_limits_witness:
  "\<exists>t t'. tab_of 0 demo_mem = Some t \<and> tab_of 1 (snd (clone_manifest 0 1 (\<lambda>_. 5) (\<lambda>_. True) 0 [(0, 0)] demo_mem)) = Some t' \<and>
    he_expiry (ent t 0) = 100 \<and> he_object (ent t' 0) = 5 \<and> he_expiry (ent t' 0) = 0 \<and> \<not> cap_le (ent t' 0) (ent t 0)"
proof -
  let ?res = "clone_manifest 0 1 (\<lambda>_. 5) (\<lambda>_. True) 0 [(0, 0)] demo_mem"
  have ok: "ipc_ok any_cap 0 (\<lambda>_. 0) {#Tab 0, Tab 1#} demo_mem" by (rule demo_mem_ok) simp
  have r: "fst ?res = [Some 0]" by code_simp
  have v: "map_option (\<lambda>t. (he_object (ent t 0), he_expiry (ent t 0))) (tab_of 0 demo_mem) = Some (5, 100)" by code_simp
  then obtain t where t: "tab_of 0 demo_mem = Some t" "he_object (ent t 0) = 5" "he_expiry (ent t 0) = 100" by auto
  have run: "?res = ([Some 0], snd ?res)" using r by (metis prod.collapse)
  from clone_drops_limits [OF ok _ _ t(1) run] t show ?thesis by auto
qed

text \<open>A receiver is parked at endpoint 2 when the other side makes a fused call without blocking.\<close>

definition demo_parked :: ipc where
  "demo_parked = snd (sys_a20_channel_recv 0 8 (\<lambda>_. 0) (\<lambda>_. True) (Arg (1, 0)) no_bufs Asleep demo_threads)"

definition demo_call :: "(a20_err + delivery) option \<times> ipc" where
  "demo_call = sys_a20_channel_call 0 7 (\<lambda>_. 0) (\<lambda>_. True) True (Arg demo_msg) no_bufs Asleep Asleep demo_parked"

theorem nonblocking_call_never_wakes_witness:
  "wakes (snd demo_call) = wakes demo_parked \<and> (\<forall>c. waiters_of c (snd demo_call) = waiters_of c demo_parked) \<and>
   waiters_of 2 demo_parked = Some [(8, A20_CH_WAIT_RECV)] \<and> queue_of 2 demo_parked = Some [] \<and>
   queue_of 2 (snd demo_call) = Some [\<lparr>msg_data = [65, 66], msg_handles = [demo_info]\<rparr>]"
proof -
  have "settled any_cap 0 (\<lambda>_. 0) {{#Tab 0#}} {#Tab 0, Tab 1#} (sys_a20_channel_recv 0 8 (\<lambda>_. 0) (\<lambda>_. True) (Arg (1, 0)) no_bufs Asleep demo_threads)"
    by (rule channel_recv_ok [OF demo_threads_ok _ any_bound]) (auto intro: env_ok.asleep)
  then obtain own where ok: "ipc_ok any_cap 0 (\<lambda>_. 0) (own + ({#Tab 0#} + {#Tab 0, Tab 1#})) demo_parked"
    by (auto simp: settled_def demo_parked_def)
  obtain t where t: "tab_of 0 demo_parked = Some t" using held_tab [OF ok, of 0] by auto
  have "map_option (\<lambda>t. queue_of (he_object (ent t 0)) demo_parked) (tab_of 0 demo_parked) = Some (Some [])" by code_simp
  then have e: "queue_of (he_object (ent t 0)) demo_parked = Some []" using t by simp
  have m: "abi_copy (Arg demo_msg) = Inr demo_msg" "ma_flags demo_msg AND A20_MSG_NONBLOCK \<noteq> 0" "ma_channel demo_msg = 0" by code_simp+
  have vals: "waiters_of 2 demo_parked = Some [(8, A20_CH_WAIT_RECV)] \<and> queue_of 2 demo_parked = Some []" by code_simp
  have q: "queue_of 2 (snd demo_call) = Some [\<lparr>msg_data = [65, 66], msg_handles = [demo_info]\<rparr>]" by code_simp
  have all: "\<forall>q. queue_of (he_object (ent t (ma_channel demo_msg))) demo_parked = Some q \<longrightarrow> q = []" using e m(3) by simp
  from nonblocking_call_never_wakes [OF ok _ m(1,2) t all surjective_pairing, of 7 "\<lambda>_. 0" "\<lambda>_. True" True no_bufs Asleep Asleep] vals q
  show ?thesis by (simp add: demo_call_def)
qed

end
