(* ===== verification/Spec2Isabelle.thy ===== *)
theory Spec2Isabelle
  imports Envelope_Theorems Pid_Theorems Alarm_Theorems File_Lock_Theorems Pipe_Theorems Sysv_Sem_Theorems
    Eventfd_Theorems Cluster_Wire_Theorems Handle_Table_Theorems Native_Theorems
begin

text \<open>
  \<^bold>\<open>A20OS: a verification of its capability, synchronization and communication code.\<close>

  A20OS is a hybrid kernel written in C.  It runs two system-call interfaces over one set of
  kernel objects: a Linux one (kernel/abi/linux, kernel/syscall) and a native one in which every object is
  reached through a handle, a capability with rights, temporal limits and a security label
  (kernel/abi/native).  This development models the parts whose correctness is a matter of data structures
  and protocols rather than of hardware, and proves what they promise.  All paths below are under src/.

  \<^bold>\<open>The parts and how they interact.\<close>

  \<^item> Processes have identifiers (kernel/proc/pid.c), under which they are hashed until they are reaped.  A task sleeps and wakes by the park protocol
    (kernel/proc/park.c); its timeouts and alarms are kept in deadline heaps (kernel/proc/timer_heap.c).  Wait
    queues (kernel/core/sync.c) sit on top of it, and every blocking call below sleeps on one.
  \<^item> Pipes (kernel/fs/pipe.c), event counters (kernel/ipc/eventfd.c), System V semaphores
    (kernel/ipc/sysv_sem.c) and advisory file locks (kernel/fs/locks.c) are the synchronization objects of
    the Linux interface.
  \<^item> The envelope mediator (kernel/ipc/envelope.c) gives Linux tasks a budgeted capability policy over
    their descriptors.
  \<^item> In the native interface every process has a handle table (kernel/abi/native/handle_table.c).  Handles
    name channel endpoints (kernel/ipc/a20_channel.c) and other counted objects (kernel/ipc/a20_object.c).  The
    system calls (sys_core.c, sys_native_ipc.c, registry.c, and parts of sys_native_fs.c, sys_native_mm.c and
    sys_native_security.c in kernel/abi/native) combine tables and objects: handles are duplicated, restricted, shared, sent through
    channels and inherited by new tasks and new images (kernel/proc/exec.c).
  \<^item> The cluster layer carries channel messages between machines; its frames and its serial framing are
    in kernel/cluster/frame.c, frame.h and uart.h, and the pump of the receiver in kernel/cluster/uart.c.

  \<^bold>\<open>Theories.\<close>  Every component has a theory with its state (records), its data (datatypes) and one
  definition per function of the source, under the name of the function; helper definitions stand for loop
  bodies and for the pieces of code between two lock operations.

  \<^item> \<open>Prelude\<close>, \<open>Bit_Scan\<close>, \<open>A20_Base\<close>: widths, error codes, results as sums, lists and words; the software
    count of trailing zeros; object types, rights and status codes of the native interface (ipc.h).
  \<^item> \<open>Envelope\<close>; \<open>Envelope_Safety\<close>, \<open>Envelope_Theorems\<close> (C1 to C6): in every reachable state the audit of the
    kernel is clean, granted operations never exceed the budgets, revocation is final for the calls that start
    after it, a use is granted exactly when rights and budgets allow it, acquired rights are read back, and the
    kill reaches exactly the members.
  \<^item> \<open>Pid\<close>; \<open>Pid_Theorems\<close> (C7 to C9): allocation is a next-fit search that fails only when all identifiers
    are in use, and over the life of tasks (creation, the idle tasks, exit, detachment, reaping) a lookup finds a task
    exactly when it is registered under the identifier and not detached.
  \<^item> \<open>Timers\<close>, \<open>Timer_Heap\<close>, \<open>Park\<close>, \<open>Park_Safety\<close>, \<open>Park_Theorems\<close>, \<open>Alarm_Theorems\<close> (C10 to C14): heap order and
    back pointers, no timeout and no wake is lost, the reason a sleeper returns is the first admitted one that
    was given in its wait, a scan wakes exactly what is due, and the alarm scan returns and signals exactly the
    tasks with a due alarm.
  \<^item> \<open>File_Locks\<close>, \<open>File_Lock_Ranges\<close>, \<open>File_Lock_Theorems\<close> (C15 to C18): a request refines the map from bytes and
    owners to lock types, conflicting locks never coexist, a query reports a lock that stands against the
    request with its range, type and owner, releases wake.
  \<^item> \<open>Pipe\<close>, \<open>Pipe_Theorems\<close> (C19 to C22): the ring implements a queue of bytes under all interleavings, reads
    and calls of \<^verbatim>\<open>pipe_read\<close> and \<^verbatim>\<open>pipe_write\<close>, reads are prefixes, short writes are atomic, poll agrees with
    read and write.
  \<^item> \<open>Sysv_Sem\<close>, \<open>Sysv_Sem_Theorems\<close> (C23 to C25), \<open>Eventfd\<close>, \<open>Eventfd_Theorems\<close> (C26 to C28): atomic semaphore
    operations, exactly when they are granted and their wake-ups, what reads and writes of event counters conserve
    and return, and the places where both wrap around.
  \<^item> \<open>Cluster_Wire\<close>, \<open>Cluster_Wire_Theorems\<close> (C29 to C32): the decoder inverts the encoder, the checksum finds
    every damaged byte, the two encoders agree up to the reserved bits that only one of them checks, and the
    serial receiver recovers from any state and delivers every frame whose bytes arrive without a long pause.
  \<^item> \<open>Handle_Table\<close>, \<open>Handle_Table_Safety\<close>, \<open>Handle_Table_Theorems\<close> (C33, C34): the bookkeeping of one table, and that
    the authority of a handle only shrinks.
  \<^item> \<open>Channel\<close>, \<open>Native_Handle\<close>, \<open>Native_Ipc\<close>: endpoints, objects and the system calls.  \<open>Ipc_Refs\<close> states the
    invariant \<open>ipc_ok\<close>: every count equals the number of references held by tables, queued messages and calls
    in progress.  \<open>Ipc_Release\<close>, \<open>Ipc_Channel_Safety\<close>, \<open>Ipc_Table_Safety\<close> and \<open>Ipc_Call_Safety\<close> show that the
    operations keep it, \<open>Ipc_Delivery\<close> what they do to queues and sleepers, \<open>Native_Calls\<close> collects the calls
    under one contract, and \<open>Native_Theorems\<close> (C35 to C40) has the results: exact accounting but for the image
    of a spawn, whose reference the code drops twice, confinement of capabilities, atomic delivery, the order of
    messages, and two more places where the code falls short (a clone drops temporal limits, a fused call
    without blocking never wakes its receiver).  C35 and C36 range over the calls they list, not over the whole
    table of native calls.

  \<^bold>\<open>Contracts.\<close>  The interfaces between parts are locales, each interpreted on the definitions of the model:
  among them the heap operations that the timer scans use, the queue that the ring of a pipe implements, the
  locked sections of the envelope, and the native calls that do not sleep.

  \<^bold>\<open>Conventions.\<close>

  \<^item> Machine integers are words where the code relies on their width; indices, lengths and positions that the
    code keeps in range are natural numbers.  A negative status is the left side of a sum, a returned value
    the right side.
  \<^item> The code between taking and dropping a lock is one step.  A component with concurrent callers is an
    inductive relation or a list of such steps, and its invariants hold for every interleaving of them.
  \<^item> A call that sleeps takes an environment or a script that says, for every wait, what the others do
    meanwhile and why the caller wakes.  Where it ends the call is still asleep and has no result; no
    bound on the number of waits is assumed.  For the native calls, \<open>env_ok\<close> says that the others keep the
    invariant, which every modelled call does (lemma \<open>action_wait\<close>).
  \<^item> Loops are structural recursion or functions with a termination proof: the release of references ends
    because every freed endpoint removes its queue (\<open>release_refs\<close>), the sweeper because every pass that is
    not the last frees entries.  No definition uses fuel.  The scan of the alarms, which
    need not end in general, is a partial function into an option, and C14 shows when it returns.
  \<^item> Allocations, clocks, faults of user memory and the choice of the next sleeper by hardware timing are
    arguments of the definitions.

  \<^bold>\<open>Not modelled, and why.\<close>

  \<^item> Memory management, page tables, context switches, traps, interrupts, drivers, architectures, boot and
    the hypervisor: they are about hardware state, for which the development has no machine model.
  \<^item> The run queues of the scheduler and futexes: what matters there are memory orderings between processors,
    while a step here is a whole critical section.
  \<^item> The virtual file system, the file systems and the network stack: large graphs of caches over external
    formats and third-party libraries (littlefs, lwip).  Vfile-backed objects appear as counted references.
  \<^item> Event queues and monitors: the channel model logs the notifications it issues; their queues are not
    followed.  In \<^verbatim>\<open>sys_a20_task_spawn\<close> the loader, the creation of the task and the stack of the child are arguments;
    of \<^verbatim>\<open>execve\<close> only the handles for a native image (\<^verbatim>\<open>exec_setup_native_abi\<close>) are modelled.  The other native
    calls (files, memory, devices, threads, debugging, pagers, extensions) are not.
  \<^item> Locks as such: that a critical section is atomic is taken from the spinlocks, and deadlock is not
    considered.  Races between two critical sections of one call are outside the model where a definition
    merges them: a call under way while its envelope is revoked (\<open>env_mediate\<close>), tasks that come or go between
    two batches of a kill (\<open>env_kill_loop\<close>), and the closing of a handle that \<^verbatim>\<open>handle_dup\<close>, \<^verbatim>\<open>handle_replace\<close> or \<^verbatim>\<open>vm_share\<close>
    has installed and not yet counted.
  \<^item> The Linux system-call layer, user programs, packages and tools.
\<close>

end
